(* ===== verification/Badc_Prelude.thy ===== *)
theory Badc_Prelude
  imports Main "HOL-Library.Word" "HOL-Library.Signed_Division"
begin

text \<open>
  The shared layer of the development: the names of Rust's machine integers, the outcome type of
  code that can fail or panic, and the facts about words, bits and integer division that several
  components use.  An unsigned and a signed Rust integer of one width are the same
  HOL type: \<open>u64\<close> and \<open>i64\<close> are both \<open>64 word\<close>, read by
  \<open>uint\<close> or \<open>sint\<close>, so that a Rust \<open>as\<close> cast between the two is the identity.
\<close>

unbundle bit_operations_syntax

type_synonym u8 = "8 word"
type_synonym u16 = "16 word"
type_synonym u32 = "32 word"
type_synonym u64 = "64 word"
type_synonym i32 = "32 word"
type_synonym i64 = "64 word"
type_synonym i128 = int

text \<open>
  A Rust function that returns \<open>Result<T, E>\<close> and may also reach \<open>unreachable!\<close>,
  \<open>panic!\<close> or a failing \<open>assert!\<close>: the error the caller sees, or the panic.
\<close>

datatype 'e fault = Err 'e | Panic

named_theorems word_value \<open>the integer a word operation denotes\<close>
named_theorems bounds \<open>range facts of word readings\<close>

subsection \<open>Signed and unsigned readings of 64-bit words\<close>

lemma uint_lt_64 [bounds]: "uint (x :: u64) < 18446744073709551616"
  using uint_bounded [of x] by simp

lemma unat_lt_64 [bounds]: "unat (x :: u64) < 18446744073709551616"
  using unsigned_less [where 'a = nat, of x] by simp

lemma sint_ge_64 [bounds]: "- 9223372036854775808 \<le> sint (x :: i64)"
  using sint_greater_eq [of x] by simp

lemma sint_lt_64 [bounds]: "sint (x :: i64) < 9223372036854775808"
  using sint_less [of x] by simp

lemma sint_of_int_small:
  assumes "- (2 ^ (LENGTH('a) - 1)) \<le> k" and "k < 2 ^ (LENGTH('a) - 1)"
  shows "sint (word_of_int k :: 'a::len word) = k"
  using assms by (simp add: signed_of_int signed_take_bit_int_eq_self)

lemma uint_of_int_small:
  assumes "0 \<le> k" and "k < 2 ^ LENGTH('a)"
  shows "uint (word_of_int k :: 'a::len word) = k"
  using assms by (simp add: unsigned_of_int take_bit_int_eq_self)

lemma word_eq_sint: "x = y \<longleftrightarrow> sint x = sint (y :: 'a::len word)"
  by (rule word_eq_iff_signed)

lemma word_eq_uint: "x = y \<longleftrightarrow> uint x = uint (y :: 'a::len word)"
  by (rule word_eq_iff_unsigned)

lemma uint_eq_sint:
  "uint (x :: 'a::len word) = (if sint x < 0 then sint x + 2 ^ LENGTH('a) else sint x)"
proof -
  let ?M = "2 ^ LENGTH('a) :: int" and ?H = "2 ^ (LENGTH('a) - Suc 0) :: int"
  have HM: "?H \<le> ?M" by (rule power_increasing) simp_all
  have lo: "- ?M \<le> sint x" by (rule order_trans [OF _ sint_greater_eq]) (use HM in linarith)
  have hi: "sint x < ?M" by (rule less_le_trans [OF sint_less HM])
  have u: "uint x = sint x mod ?M"
    by (simp add: uint_sint take_bit_eq_mod)
  show ?thesis
  proof (cases "sint x < 0")
    case True
    have "sint x mod ?M = (sint x + ?M) mod ?M" by simp
    also have "\<dots> = sint x + ?M"
      using True lo by (intro mod_pos_pos_trivial) linarith+
    finally show ?thesis using True u by simp
  next
    case False
    then show ?thesis using u hi by (simp add: mod_pos_pos_trivial)
  qed
qed

subsection \<open>Bit counts\<close>

text \<open>
  Rust's \<open>leading_zeros\<close>, \<open>trailing_zeros\<close>, \<open>leading_ones\<close>, \<open>trailing_ones\<close>
  and \<open>count_ones\<close>: the counts of zero are the width.
\<close>

definition leading_zeros :: "'a::len word \<Rightarrow> nat" where
  "leading_zeros x = length (takeWhile (\<lambda>i. \<not> bit x i) (rev [0..<LENGTH('a)]))"

definition trailing_zeros :: "'a::len word \<Rightarrow> nat" where
  "trailing_zeros x = length (takeWhile (\<lambda>i. \<not> bit x i) [0..<LENGTH('a)])"

definition leading_ones :: "'a::len word \<Rightarrow> nat" where
  "leading_ones x = length (takeWhile (bit x) (rev [0..<LENGTH('a)]))"

definition trailing_ones :: "'a::len word \<Rightarrow> nat" where
  "trailing_ones x = length (takeWhile (bit x) [0..<LENGTH('a)])"

definition count_ones :: "'a::len word \<Rightarrow> nat" where
  "count_ones x = length (filter (bit x) [0..<LENGTH('a)])"

definition is_power_of_two :: "'a::len word \<Rightarrow> bool" where
  "is_power_of_two x \<longleftrightarrow> count_ones x = 1"

text \<open>\<open>unsigned_abs\<close> of an \<open>i64\<close>: the magnitude as an unsigned word, exact for the minimum too.\<close>

definition unsigned_abs :: "i64 \<Rightarrow> u64" where
  "unsigned_abs d = (if sint d < 0 then - d else d)"

text \<open>Reverse the low \<open>n\<close> bytes of a word and clear the rest.\<close>

definition swap_low_bytes :: "nat \<Rightarrow> 'a::len word \<Rightarrow> 'a word" where
  "swap_low_bytes n x =
     foldr (\<lambda>i acc. push_bit (8 * (n - 1 - i)) (take_bit 8 (drop_bit (8 * i) x)) OR acc) [0..<n] 0"

lemma trailing_zeros_le: "trailing_zeros (x :: 'a::len word) \<le> LENGTH('a)"
  unfolding trailing_zeros_def by (metis length_takeWhile_le length_upt minus_nat.diff_0)

lemma takeWhile_upt_length:
  assumes "k \<le> n" and "\<And>i. i < k \<Longrightarrow> P i" and "k < n \<Longrightarrow> \<not> P k"
  shows "length (takeWhile P [0..<n]) = k"
proof -
  have "[0..<n] = [0..<k] @ [k..<n]"
    using assms(1) by (metis le_add_diff_inverse upt_add_eq_append zero_le)
  moreover have "takeWhile P [k..<n] = []"
    using assms(3) by (cases "k < n") (simp_all add: upt_conv_Cons)
  moreover have "takeWhile P ([0..<k] @ [k..<n]) = [0..<k] @ takeWhile P [k..<n]"
    using assms(2) by (intro takeWhile_append2) simp
  ultimately show ?thesis by simp
qed

lemma count_ones_card: "count_ones (x :: 'a::len word) = card {i. i < LENGTH('a) \<and> bit x i}"
  unfolding count_ones_def by (subst length_filter_conv_card) (auto intro!: arg_cong [where f = card])

lemma is_power_of_two_iff:
  "is_power_of_two (x :: 'a::len word) \<longleftrightarrow> (\<exists>k < LENGTH('a). x = push_bit k 1)"
proof
  assume "is_power_of_two x"
  then obtain k where k: "{i. i < LENGTH('a) \<and> bit x i} = {k}"
    unfolding is_power_of_two_def count_ones_card by (auto simp: card_1_singleton_iff)
  then have "k < LENGTH('a)" by blast
  moreover have "x = push_bit k 1"
    using k by (intro bit_word_eqI) (auto simp: bit_simps)
  ultimately show "\<exists>k < LENGTH('a). x = push_bit k 1" by blast
next
  assume "\<exists>k < LENGTH('a). x = push_bit k 1"
  then obtain k where k: "k < LENGTH('a)" "x = push_bit k 1" by blast
  then have "{i. i < LENGTH('a) \<and> bit x i} = {k}" by (auto simp: bit_simps)
  then show "is_power_of_two x" unfolding is_power_of_two_def count_ones_card by simp
qed

lemma unat_of_nat_small: "n < 2 ^ LENGTH('a) \<Longrightarrow> unat (word_of_nat n :: 'a::len word) = n"
  by (simp add: unat_of_nat take_bit_nat_eq_self)

lemma unat_push_bit_1: "k < LENGTH('a) \<Longrightarrow> unat (push_bit k 1 :: 'a::len word) = 2 ^ k"
  using unat_of_nat_small [of "2 ^ k", where 'a = 'a] by simp

lemma dvd_power_of_two: "(d :: nat) dvd 2 ^ p \<Longrightarrow> \<exists>k. d = 2 ^ k"
proof (induction p arbitrary: d)
  case 0
  then show ?case by (intro exI [of _ 0]) simp
next
  case (Suc p)
  show ?case
  proof (cases "even d")
    case True
    then obtain d' where d': "d = 2 * d'" by blast
    then have "d' dvd 2 ^ p" using Suc.prems by simp
    then obtain k where "d' = 2 ^ k" using Suc.IH by blast
    then show ?thesis using d' by (intro exI [of _ "Suc k"]) simp
  next
    case False
    then have "coprime d 2" by (simp add: coprime_right_2_iff_odd)
    then have "d dvd 2 ^ p" using Suc.prems by (simp add: coprime_dvd_mult_right_iff)
    then show ?thesis by (rule Suc.IH)
  qed
qed

lemma is_power_of_two_unat: "is_power_of_two (x :: 'a::len word) \<longleftrightarrow> (\<exists>k. unat x = 2 ^ k)"
proof
  assume "is_power_of_two x"
  then obtain k where "k < LENGTH('a)" "x = push_bit k 1" by (auto simp: is_power_of_two_iff)
  then show "\<exists>k. unat x = 2 ^ k" using unat_push_bit_1 by blast
next
  assume "\<exists>k. unat x = 2 ^ k"
  then obtain k where k: "unat x = 2 ^ k" by blast
  then have "(2 :: nat) ^ k < 2 ^ LENGTH('a)" using unsigned_less [of x] by (metis)
  then have kl: "k < LENGTH('a)" by simp
  then have "x = push_bit k 1" using k by (intro word_unat_eq_iff [THEN iffD2]) (simp only: unat_push_bit_1)
  then show "is_power_of_two x" using kl by (auto simp: is_power_of_two_iff)
qed

lemma trailing_zeros_push_bit:
  "k < LENGTH('a) \<Longrightarrow> trailing_zeros (push_bit k 1 :: 'a::len word) = k"
  unfolding trailing_zeros_def by (intro takeWhile_upt_length) (auto simp: bit_simps)

lemma unat_drop_bit: "unat (drop_bit k (x :: 'a::len word)) = unat x div 2 ^ k"
  unfolding unsigned_drop_bit_eq by (simp add: drop_bit_eq_div take_bit_nat_eq_self)

lemma uint_drop_bit: "uint (drop_bit k (x :: 'a::len word)) = uint x div 2 ^ k"
proof -
  have "int (unat (drop_bit k x)) = int (unat x div 2 ^ k)" by (simp only: unat_drop_bit)
  then show ?thesis by (simp only: uint_nat zdiv_int of_nat_power of_nat_numeral)
qed

lemma word_of_int_sint: "word_of_int (sint x) = (x :: 'a::len word)" by simp

lemma sint_signed_drop_bit: "sint (signed_drop_bit k (x :: 'a::len word)) = sint x div 2 ^ k"
  by (simp add: sint_signed_drop_bit_eq drop_bit_eq_div)

end
