(* ===== verification/Ir.thy ===== *)
theory Ir
  imports Badc_Prelude
begin

text \<open>
  The operator level of the SSA intermediate representation, \<^verbatim>\<open>src/src/c5/ir.rs\<close>: the
  opcodes, the kinds of a load and a store, the classification predicates the passes share, the
  integer evaluator \<open>eval_int_binop\<close> that the constant folders and the interpreter both
  use, the bit-field extract and the C11 memory orders.
\<close>

section \<open>Opcodes and kinds\<close>

datatype LoadKind =
    LoadKind_I64 | LoadKind_U8 | LoadKind_I8 | LoadKind_I32 | LoadKind_U32 | LoadKind_I16
  | LoadKind_U16 | LoadKind_F32 | LoadKind_F64 | LoadKind_F80 | LoadKind_F128 | LoadKind_V128

fun int_bytes :: "LoadKind \<Rightarrow> nat option" where
  "int_bytes LoadKind_I64 = Some 8"
| "int_bytes LoadKind_I32 = Some 4"
| "int_bytes LoadKind_U32 = Some 4"
| "int_bytes LoadKind_I16 = Some 2"
| "int_bytes LoadKind_U16 = Some 2"
| "int_bytes LoadKind_I8 = Some 1"
| "int_bytes LoadKind_U8 = Some 1"
| "int_bytes _ = None"

datatype IndexExt = IndexExt_None | IndexExt_Sxtw | IndexExt_Uxtw

datatype StoreKind =
    StoreKind_I64 | StoreKind_I8 | StoreKind_I32 | StoreKind_I16 | StoreKind_F32
  | StoreKind_F64 | StoreKind_F80 | StoreKind_F128 | StoreKind_V128

datatype BinOp =
    BinOp_Or | BinOp_Xor | BinOp_And
  | BinOp_Eq | BinOp_Ne | BinOp_Lt | BinOp_Gt | BinOp_Le | BinOp_Ge
  | BinOp_Ult | BinOp_Ugt | BinOp_Ule | BinOp_Uge
  | BinOp_Shl | BinOp_Shr | BinOp_Shru | BinOp_Ror
  | BinOp_Add | BinOp_Sub | BinOp_Mul | BinOp_Mulh | BinOp_Mulhu
  | BinOp_Div | BinOp_Mod | BinOp_Divu | BinOp_Modu
  | BinOp_Fadd | BinOp_Fsub | BinOp_Fmul | BinOp_FmulContractible | BinOp_Fdiv
  | BinOp_Feq | BinOp_Fne | BinOp_Flt | BinOp_Fgt | BinOp_Fle | BinOp_Fge
  | BinOp_Fone | BinOp_Funo

datatype DivByZero = DivByZero

definition is_int_comparison_op :: "BinOp \<Rightarrow> bool" where
  "is_int_comparison_op op \<longleftrightarrow>
     op \<in> {BinOp_Eq, BinOp_Ne, BinOp_Lt, BinOp_Gt, BinOp_Le, BinOp_Ge,
           BinOp_Ult, BinOp_Ugt, BinOp_Ule, BinOp_Uge}"

definition is_fp_comparison_op :: "BinOp \<Rightarrow> bool" where
  "is_fp_comparison_op op \<longleftrightarrow>
     op \<in> {BinOp_Feq, BinOp_Fne, BinOp_Flt, BinOp_Fgt, BinOp_Fle, BinOp_Fge,
           BinOp_Fone, BinOp_Funo}"

definition is_fp_arith_op :: "BinOp \<Rightarrow> bool" where
  "is_fp_arith_op op \<longleftrightarrow>
     op \<in> {BinOp_Fadd, BinOp_Fsub, BinOp_Fmul, BinOp_FmulContractible, BinOp_Fdiv}"

definition is_fp_op :: "BinOp \<Rightarrow> bool" where
  "is_fp_op op \<longleftrightarrow> is_fp_arith_op op \<or> is_fp_comparison_op op"

definition is_comparison_op :: "BinOp \<Rightarrow> bool" where
  "is_comparison_op op \<longleftrightarrow> is_int_comparison_op op \<or> is_fp_comparison_op op"

definition is_imm_arith_op :: "BinOp \<Rightarrow> bool" where
  "is_imm_arith_op op \<longleftrightarrow>
     op \<in> {BinOp_Add, BinOp_Sub, BinOp_Mul, BinOp_And, BinOp_Or, BinOp_Xor,
           BinOp_Shl, BinOp_Shr, BinOp_Shru}"

definition imm_safe_binop :: "BinOp \<Rightarrow> bool" where
  "imm_safe_binop op \<longleftrightarrow> is_imm_arith_op op \<or> is_int_comparison_op op"

definition is_divmod_op :: "BinOp \<Rightarrow> bool" where
  "is_divmod_op op \<longleftrightarrow> op \<in> {BinOp_Div, BinOp_Divu, BinOp_Mod, BinOp_Modu}"

fun quotient_op :: "BinOp \<Rightarrow> BinOp option" where
  "quotient_op BinOp_Mod = Some BinOp_Div"
| "quotient_op BinOp_Modu = Some BinOp_Divu"
| "quotient_op _ = None"

fun remainder_op :: "BinOp \<Rightarrow> BinOp option" where
  "remainder_op BinOp_Div = Some BinOp_Mod"
| "remainder_op BinOp_Divu = Some BinOp_Modu"
| "remainder_op _ = None"

datatype BitCountOp = BitCountOp_Clz | BitCountOp_Ctz | BitCountOp_Popcount | BitCountOp_Clrsb

datatype AtomicRmwOp =
    AtomicRmwOp_Xchg | AtomicRmwOp_Add | AtomicRmwOp_Sub | AtomicRmwOp_And
  | AtomicRmwOp_Or | AtomicRmwOp_Xor

section \<open>The integer evaluator\<close>

text \<open>
  Rust's \<open>wrapping_div\<close> and \<open>wrapping_rem\<close> truncate toward zero and wrap
  \<open>i64::MIN / -1\<close>; a shift takes its count from the low six bits of the operand; a
  comparison yields 0 or 1.
\<close>

definition wrapping_div :: "i64 \<Rightarrow> i64 \<Rightarrow> i64" where
  "wrapping_div a b = word_of_int (sint a sdiv sint b)"

definition wrapping_rem :: "i64 \<Rightarrow> i64 \<Rightarrow> i64" where
  "wrapping_rem a b = word_of_int (sint a smod sint b)"

definition shift_count :: "i64 \<Rightarrow> nat" where
  "shift_count rhs = unat ((ucast rhs :: u32) AND 63)"

definition bool_i64 :: "bool \<Rightarrow> i64" where
  "bool_i64 b = (if b then 1 else 0)"

definition eval_int_binop :: "BinOp \<Rightarrow> i64 \<Rightarrow> i64 \<Rightarrow> DivByZero fault + i64" where
  "eval_int_binop op lhs rhs =
     (case op of
        BinOp_Add \<Rightarrow> Inr (lhs + rhs)
      | BinOp_Sub \<Rightarrow> Inr (lhs - rhs)
      | BinOp_Mul \<Rightarrow> Inr (lhs * rhs)
      | BinOp_And \<Rightarrow> Inr (lhs AND rhs)
      | BinOp_Or \<Rightarrow> Inr (lhs OR rhs)
      | BinOp_Xor \<Rightarrow> Inr (lhs XOR rhs)
      | BinOp_Shl \<Rightarrow> Inr (push_bit (shift_count rhs) lhs)
      | BinOp_Shr \<Rightarrow> Inr (signed_drop_bit (shift_count rhs) lhs)
      | BinOp_Shru \<Rightarrow> Inr (drop_bit (shift_count rhs) lhs)
      | BinOp_Eq \<Rightarrow> Inr (bool_i64 (lhs = rhs))
      | BinOp_Ne \<Rightarrow> Inr (bool_i64 (lhs \<noteq> rhs))
      | BinOp_Lt \<Rightarrow> Inr (bool_i64 (sint lhs < sint rhs))
      | BinOp_Gt \<Rightarrow> Inr (bool_i64 (sint lhs > sint rhs))
      | BinOp_Le \<Rightarrow> Inr (bool_i64 (sint lhs \<le> sint rhs))
      | BinOp_Ge \<Rightarrow> Inr (bool_i64 (sint lhs \<ge> sint rhs))
      | BinOp_Ult \<Rightarrow> Inr (bool_i64 (lhs < rhs))
      | BinOp_Ugt \<Rightarrow> Inr (bool_i64 (lhs > rhs))
      | BinOp_Ule \<Rightarrow> Inr (bool_i64 (lhs \<le> rhs))
      | BinOp_Uge \<Rightarrow> Inr (bool_i64 (lhs \<ge> rhs))
      | BinOp_Div \<Rightarrow> if rhs = 0 then Inl (Err DivByZero) else Inr (wrapping_div lhs rhs)
      | BinOp_Mod \<Rightarrow> if rhs = 0 then Inl (Err DivByZero) else Inr (wrapping_rem lhs rhs)
      | BinOp_Divu \<Rightarrow> if rhs = 0 then Inl (Err DivByZero) else Inr (lhs div rhs)
      | BinOp_Modu \<Rightarrow> if rhs = 0 then Inl (Err DivByZero) else Inr (lhs mod rhs)
      | _ \<Rightarrow> Inl Panic)"

text \<open>
  The bit-field extract computes its two shift counts in \<open>u32\<close>: a field that runs past
  bit 63 underflows the first subtraction, and an empty field asks for a shift by 64.  Both are
  the overflow panics of a checked build.
\<close>

definition eval_bit_field :: "i64 \<Rightarrow> nat \<Rightarrow> nat \<Rightarrow> bool \<Rightarrow> i64 option" where
  "eval_bit_field x lsb width is_signed =
     (if 64 < lsb + width \<or> width = 0 then None
      else let left = push_bit ((64 - lsb - width) mod 64) x;
               down = 64 - width
           in Some (if is_signed then signed_drop_bit down left else drop_bit down left))"

section \<open>Memory orders\<close>

datatype MemOrder =
    MemOrder_Relaxed | MemOrder_Acquire | MemOrder_Release | MemOrder_AcqRel | MemOrder_SeqCst

definition acquires :: "MemOrder \<Rightarrow> bool" where
  "acquires o' \<longleftrightarrow> o' \<in> {MemOrder_Acquire, MemOrder_AcqRel, MemOrder_SeqCst}"

definition releases :: "MemOrder \<Rightarrow> bool" where
  "releases o' \<longleftrightarrow> o' \<in> {MemOrder_Release, MemOrder_AcqRel, MemOrder_SeqCst}"

definition with_failure :: "MemOrder \<Rightarrow> MemOrder \<Rightarrow> MemOrder" where
  "with_failure self failure =
     (if failure \<in> {MemOrder_Release, MemOrder_AcqRel} \<or> self = MemOrder_SeqCst
         \<or> failure = MemOrder_SeqCst
      then MemOrder_SeqCst
      else case (acquires self \<or> acquires failure, releases self) of
             (False, False) \<Rightarrow> MemOrder_Relaxed
           | (True, False) \<Rightarrow> MemOrder_Acquire
           | (False, True) \<Rightarrow> MemOrder_Release
           | (True, True) \<Rightarrow> MemOrder_AcqRel)"

definition from_c11 :: "i64 \<Rightarrow> MemOrder option" where
  "from_c11 v =
     (if v = 0 then Some MemOrder_Relaxed
      else if v = 1 \<or> v = 2 then Some MemOrder_Acquire
      else if v = 3 then Some MemOrder_Release
      else if v = 4 then Some MemOrder_AcqRel
      else if v = 5 then Some MemOrder_SeqCst
      else None)"

fun for_load :: "MemOrder \<Rightarrow> MemOrder" where
  "for_load MemOrder_Release = MemOrder_SeqCst"
| "for_load MemOrder_AcqRel = MemOrder_SeqCst"
| "for_load o' = o'"

fun for_store :: "MemOrder \<Rightarrow> MemOrder" where
  "for_store MemOrder_Acquire = MemOrder_SeqCst"
| "for_store MemOrder_AcqRel = MemOrder_SeqCst"
| "for_store o' = o'"

lemmas op_class_defs =
  is_int_comparison_op_def is_fp_comparison_op_def is_fp_arith_op_def is_fp_op_def
  is_comparison_op_def is_imm_arith_op_def imm_safe_binop_def is_divmod_op_def

section \<open>Facts about the evaluator\<close>

lemma shift_count_lt: "shift_count k < 64"
proof -
  have "(ucast k :: u32) AND 63 \<le> 63" by (rule word_and_le1)
  then show ?thesis by (simp add: shift_count_def word_le_nat_alt)
qed

lemma shift_count_eq: "shift_count k = unat k mod 64"
proof -
  have "(ucast k :: u32) AND 63 = take_bit 6 (ucast k)"
    by (simp add: take_bit_eq_mask mask_eq_exp_minus_1)
  then show ?thesis
    by (simp add: shift_count_def unsigned_take_bit_eq unsigned_ucast_eq take_bit_take_bit)
       (simp add: take_bit_eq_mod)
qed

lemma shift_count_of_nat: "k < 64 \<Longrightarrow> shift_count (word_of_nat k) = k"
  by (simp add: shift_count_eq unat_of_nat take_bit_nat_eq_self)

lemma eval_int_binop_zero_divisor:
  "is_divmod_op op \<Longrightarrow> eval_int_binop op n 0 = Inl (Err DivByZero)"
  by (auto simp: is_divmod_op_def eval_int_binop_def)

text \<open>The value of the evaluator on the C operators is a total function off zero divisors.\<close>

lemma eval_int_binop_defined:
  assumes "\<not> is_fp_op op" and "op \<notin> {BinOp_Mulh, BinOp_Mulhu, BinOp_Ror}"
    and "is_divmod_op op \<Longrightarrow> rhs \<noteq> 0"
  shows "\<exists>v. eval_int_binop op lhs rhs = Inr v"
  using assms by (cases op) (auto simp: eval_int_binop_def op_class_defs)

end
