(* ===== verification/Eval.thy ===== *)
theory Eval
  imports Ir
begin

text \<open>
  The shared constant evaluator, \<^verbatim>\<open>src/src/c5/vm/eval.rs\<close>: the arithmetic arms of the
  interpreter, which the constant folder calls too.  The binary64 operations are Rust's own; the
  four arithmetic ones are a parameter of the model (a record \<open>fpu\<close> of functions on bit
  patterns), and the comparisons are written out on the bit patterns.
\<close>

section \<open>Binary64 values as bit patterns\<close>

record fpu =
  f64_add :: "u64 \<Rightarrow> u64 \<Rightarrow> u64"
  f64_sub :: "u64 \<Rightarrow> u64 \<Rightarrow> u64"
  f64_mul :: "u64 \<Rightarrow> u64 \<Rightarrow> u64"
  f64_div :: "u64 \<Rightarrow> u64 \<Rightarrow> u64"
  f64_as_f32_as_f64 :: "u64 \<Rightarrow> u64"

definition f64_is_nan :: "u64 \<Rightarrow> bool" where
  "f64_is_nan b \<longleftrightarrow> drop_bit 52 b AND 0x7ff = 0x7ff \<and> take_bit 52 b \<noteq> 0"

text \<open>The order key of a value that is not a NaN: its magnitude bits under its sign.\<close>

definition f64_key :: "u64 \<Rightarrow> int" where
  "f64_key b = (if bit b 63 then - uint (take_bit 63 b) else uint (take_bit 63 b))"

definition f64_partial_cmp :: "u64 \<Rightarrow> u64 \<Rightarrow> int option" where
  "f64_partial_cmp l r =
     (if f64_is_nan l \<or> f64_is_nan r then None else Some (sgn (f64_key l - f64_key r)))"

section \<open>Traps\<close>

datatype EvalTrap = EvalTrap_Div | EvalTrap_Mod | EvalTrap_Divu | EvalTrap_Modu

fun zero_divisor :: "BinOp \<Rightarrow> EvalTrap fault" where
  "zero_divisor BinOp_Div = Err EvalTrap_Div"
| "zero_divisor BinOp_Mod = Err EvalTrap_Mod"
| "zero_divisor BinOp_Divu = Err EvalTrap_Divu"
| "zero_divisor BinOp_Modu = Err EvalTrap_Modu"
| "zero_divisor _ = Panic"

fun message :: "EvalTrap \<Rightarrow> string" where
  "message EvalTrap_Div = ''vm_ssa: signed integer division by zero''"
| "message EvalTrap_Mod = ''vm_ssa: signed integer modulo by zero''"
| "message EvalTrap_Divu = ''vm_ssa: unsigned integer division by zero''"
| "message EvalTrap_Modu = ''vm_ssa: unsigned integer modulo by zero''"

section \<open>Operators\<close>

definition round_if_f32 :: "fpu \<Rightarrow> i64 \<Rightarrow> bool option \<Rightarrow> i64" where
  "round_if_f32 F bits f32_flag = (if f32_flag = Some True then f64_as_f32_as_f64 F bits else bits)"

definition apply_binop :: "fpu \<Rightarrow> BinOp \<Rightarrow> i64 \<Rightarrow> i64 \<Rightarrow> EvalTrap fault + i64" where
  "apply_binop F op lhs rhs =
     (case op of
        BinOp_Mulh \<Rightarrow> Inr (word_of_int (drop_bit 64 (sint lhs * sint rhs)))
      | BinOp_Mulhu \<Rightarrow> Inr (word_of_int (drop_bit 64 (uint lhs * uint rhs)))
      | BinOp_Ror \<Rightarrow> Inr (word_rotr (shift_count rhs) lhs)
      | BinOp_Fadd \<Rightarrow> Inr (f64_add F lhs rhs)
      | BinOp_Fsub \<Rightarrow> Inr (f64_sub F lhs rhs)
      | BinOp_Fmul \<Rightarrow> Inr (f64_mul F lhs rhs)
      | BinOp_FmulContractible \<Rightarrow> Inr (f64_mul F lhs rhs)
      | BinOp_Fdiv \<Rightarrow> Inr (f64_div F lhs rhs)
      | BinOp_Feq \<Rightarrow> Inr (bool_i64 (f64_partial_cmp lhs rhs = Some 0))
      | BinOp_Fne \<Rightarrow> Inr (bool_i64 (f64_partial_cmp lhs rhs \<noteq> Some 0))
      | BinOp_Flt \<Rightarrow> Inr (bool_i64 (f64_partial_cmp lhs rhs = Some (- 1)))
      | BinOp_Fgt \<Rightarrow> Inr (bool_i64 (f64_partial_cmp lhs rhs = Some 1))
      | BinOp_Fle \<Rightarrow> Inr (bool_i64 (f64_partial_cmp lhs rhs \<in> {Some (- 1), Some 0}))
      | BinOp_Fge \<Rightarrow> Inr (bool_i64 (f64_partial_cmp lhs rhs \<in> {Some 1, Some 0}))
      | BinOp_Fone \<Rightarrow> Inr (bool_i64 (case f64_partial_cmp lhs rhs of None \<Rightarrow> False | Some c \<Rightarrow> c \<noteq> 0))
      | BinOp_Funo \<Rightarrow> Inr (bool_i64 (f64_partial_cmp lhs rhs = None))
      | _ \<Rightarrow> (case eval_int_binop op lhs rhs of
                 Inr v \<Rightarrow> Inr v
               | Inl (Err DivByZero) \<Rightarrow> Inl (zero_divisor op)
               | Inl Panic \<Rightarrow> Inl Panic))"

definition fold_binop :: "fpu \<Rightarrow> BinOp \<Rightarrow> i64 \<Rightarrow> i64 \<Rightarrow> i64 option" where
  "fold_binop F op lhs rhs =
     (if op \<in> {BinOp_Shl, BinOp_Shr, BinOp_Shru} \<and> \<not> (0 \<le> sint rhs \<and> sint rhs < 64) then None
      else if is_fp_op op then None
      else if op \<in> {BinOp_Div, BinOp_Mod} \<and> lhs = 0x8000000000000000 \<and> rhs = - 1 then None
      else case apply_binop F op lhs rhs of Inr v \<Rightarrow> Some v | Inl _ \<Rightarrow> None)"

definition udiv128 :: "i64 \<Rightarrow> i64 \<Rightarrow> i64 \<Rightarrow> i64 option" where
  "udiv128 hi lo divisor =
     (if hi < divisor
      then Some (word_of_int ((uint hi * 2 ^ 64 + uint lo) div uint divisor))
      else None)"

fun eval_extend :: "i64 \<Rightarrow> LoadKind \<Rightarrow> i64" where
  "eval_extend raw LoadKind_I8 = scast (ucast raw :: u8)"
| "eval_extend raw LoadKind_I16 = scast (ucast raw :: u16)"
| "eval_extend raw LoadKind_I32 = scast (ucast raw :: u32)"
| "eval_extend raw _ = raw"

definition eval_bswap :: "i64 \<Rightarrow> nat \<Rightarrow> i64" where
  "eval_bswap raw width =
     (if width = 2 then ucast (swap_low_bytes 2 (ucast raw :: u16))
      else if width = 4 then ucast (swap_low_bytes 4 (ucast raw :: u32))
      else swap_low_bytes 8 raw)"

fun bit_count_of :: "BitCountOp \<Rightarrow> 'a::len word \<Rightarrow> nat" where
  "bit_count_of BitCountOp_Clz x = leading_zeros x"
| "bit_count_of BitCountOp_Ctz x = trailing_zeros x"
| "bit_count_of BitCountOp_Popcount x = count_ones x"
| "bit_count_of BitCountOp_Clrsb x = leading_zeros ((x XOR push_bit 1 x) OR 1)"

definition eval_bit_count :: "BitCountOp \<Rightarrow> i64 \<Rightarrow> nat \<Rightarrow> i64" where
  "eval_bit_count op raw width =
     word_of_nat (if width = 4 then bit_count_of op (ucast raw :: u32) else bit_count_of op raw)"

definition eval_fneg :: "i64 \<Rightarrow> i64" where
  "eval_fneg raw = raw XOR 0x8000000000000000"

end
