(* ===== verification/Magic_Arith.thy ===== *)
theory Magic_Arith
  imports Eval
begin

text \<open>
  The derivation of reciprocal-multiply constants, the first half of
  \<^verbatim>\<open>src/src/c5/codegen/magic.rs\<close>: the search for the smallest exponent \<open>p\<close> such that
  \<open>ceil (2^p / d)\<close> divides exactly over the numerator range, and the unsigned and signed
  multiplier records it yields.  The Rust code computes in \<open>u128\<close>; the model computes in
  \<open>nat\<close>, and \<open>search_fits_u128\<close> shows that no intermediate value of the search leaves
  128 bits.  Reaching the end of the search is the source's \<open>unreachable!\<close> and is
  \<open>None\<close> here; \<open>magic_unsigned_exact\<close> and \<open>magic_signed_exact\<close> show that it is not
  reached.
\<close>

section \<open>Definitions\<close>

record Bound =
  b_nc :: nat
  b_strict :: bool

definition worst_case :: "nat \<Rightarrow> nat \<Rightarrow> nat" where
  "worst_case nmax d = nmax - (nmax + 1) mod d"

definition div_ceil :: "nat \<Rightarrow> nat \<Rightarrow> nat" where
  "div_ceil a d = (a + d - 1) div d"

definition bounds_ok :: "nat \<Rightarrow> Bound list \<Rightarrow> nat \<Rightarrow> bool" where
  "bounds_ok d bnds p =
     (let pow = 2 ^ p; m = div_ceil pow d; e = m * d - pow
      in list_all (\<lambda>b. if b_strict b then e * b_nc b < pow else e * b_nc b \<le> pow) bnds)"

fun search_from :: "nat \<Rightarrow> Bound list \<Rightarrow> nat list \<Rightarrow> (nat \<times> nat) option" where
  "search_from d bnds [] = None"
| "search_from d bnds (p # ps) =
     (if bounds_ok d bnds p then Some (p, div_ceil (2 ^ p) d) else search_from d bnds ps)"

definition search :: "nat \<Rightarrow> nat \<Rightarrow> Bound list \<Rightarrow> (nat \<times> nat) option" where
  "search d w bnds = search_from d bnds [w..<2 * w]"

record UnsignedMagic =
  um_m :: u64
  um_add :: bool
  um_shift :: nat

definition magic_unsigned :: "u64 \<Rightarrow> nat \<Rightarrow> nat \<Rightarrow> UnsignedMagic option" where
  "magic_unsigned d w num_bits =
     (let nmax = 2 ^ num_bits - 1
      in case search (unat d) w [\<lparr>b_nc = worst_case nmax (unat d), b_strict = True\<rparr>] of
           None \<Rightarrow> None
         | Some (p, m) \<Rightarrow>
             Some (if m < 2 ^ w
                   then \<lparr>um_m = word_of_nat m, um_add = False, um_shift = p - w\<rparr>
                   else \<lparr>um_m = word_of_nat (m - 2 ^ w), um_add = True, um_shift = p - w - 1\<rparr>))"

record SignedMagic =
  sm_m :: u64
  sm_shift :: nat

definition magic_signed :: "u64 \<Rightarrow> nat \<Rightarrow> SignedMagic option" where
  "magic_signed d w =
     (case search (unat d) w
             [\<lparr>b_nc = worst_case (2 ^ (w - 1) - 1) (unat d), b_strict = True\<rparr>,
              \<lparr>b_nc = worst_case (2 ^ (w - 1)) (unat d), b_strict = False\<rparr>] of
        None \<Rightarrow> None
      | Some (p, m) \<Rightarrow> Some \<lparr>sm_m = word_of_nat m, sm_shift = p - w\<rparr>)"

section \<open>The approximation error\<close>

text \<open>\<open>m * d = 2^p + e\<close> with \<open>e < d\<close>, for the rounded-up reciprocal \<open>m\<close>.\<close>

lemma div_ceil_error:
  assumes "0 < d"
  obtains e where "div_ceil a d * d = a + e" and "e < d"
proof -
  have eq: "(a + d - 1) div d * d + (a + d - 1) mod d = a + d - 1"
    by (rule div_mult_mod_eq)
  have "(a + d - 1) mod d < d" using assms by simp
  then have le: "a \<le> (a + d - 1) div d * d" using eq assms by linarith
  show thesis
  proof (rule that [of "d - 1 - (a + d - 1) mod d"])
    show "div_ceil a d * d = a + (d - 1 - (a + d - 1) mod d)"
      unfolding div_ceil_def using eq \<open>(a + d - 1) mod d < d\<close> assms by linarith
    show "d - 1 - (a + d - 1) mod d < d" using assms by simp
  qed
qed

lemma div_ceil_le: "0 < d \<Longrightarrow> a \<le> d * k \<Longrightarrow> div_ceil a d \<le> k"
proof -
  assume d: "0 < d" and a: "a \<le> d * k"
  have "a + d - 1 < d * Suc k" using d a by simp
  then have "div_ceil a d < Suc k"
    unfolding div_ceil_def using d by (simp add: less_mult_imp_div_less mult.commute)
  then show ?thesis by simp
qed

lemma worst_case_eq:
  assumes "0 < d" and "d \<le> nmax + 1"
  shows "worst_case nmax d + 1 = (nmax + 1) div d * d" and "d \<le> worst_case nmax d + 1"
proof -
  have "1 * d \<le> (nmax + 1) div d * d"
    using assms by (intro mult_le_mono1) (simp add: div_greater_zero_iff Suc_leI)
  moreover have "(nmax + 1) div d * d + (nmax + 1) mod d = nmax + 1" by (rule div_mult_mod_eq)
  ultimately show "worst_case nmax d + 1 = (nmax + 1) div d * d"
    and "d \<le> worst_case nmax d + 1"
    using assms unfolding worst_case_def by linarith+
qed

text \<open>
  Below the worst case the error of a numerator is at most that of the worst case; above it, a
  numerator of a smaller residue has twice the room.
\<close>

lemma error_room:
  assumes d: "0 < d" "d \<le> nmax + 1" and n: "n \<le> nmax"
  shows "n \<le> worst_case nmax d \<and> 1 \<le> d - n mod d
       \<or> n \<le> 2 * worst_case nmax d \<and> 2 \<le> d - n mod d"
proof -
  let ?K = "(nmax + 1) div d" and ?nc = "worst_case nmax d"
  have nc: "?nc + 1 = ?K * d" "d \<le> ?nc + 1" using worst_case_eq [OF d] by simp_all
  have split: "n div d * d + n mod d = n" by (rule div_mult_mod_eq)
  have r: "n mod d < d" using d by simp
  have "n div d \<le> ?K" using n by (intro div_le_mono) simp
  then consider "Suc (n div d) \<le> ?K" | "n div d = ?K" by linarith
  then show ?thesis
  proof cases
    case 1
    then have "Suc (n div d) * d \<le> ?K * d" by (rule mult_le_mono1)
    then have "d + n div d * d \<le> ?K * d" by simp
    then have "n \<le> ?nc" using split r nc by linarith
    then show ?thesis using r by linarith
  next
    case 2
    have "?K * d + (nmax + 1) mod d = nmax + 1" by (rule div_mult_mod_eq)
    moreover have "(nmax + 1) mod d < d" using d by simp
    moreover have Kn: "?K * d + n mod d = n" using split 2 by simp
    ultimately have r1: "n mod d + 1 < d" using n by linarith
    have "n \<le> 2 * ?nc" using Kn nc r1 by linarith
    then show ?thesis using r1 by linarith
  qed
qed

lemma error_strict:
  assumes d: "0 < d" "d \<le> nmax + 1" and n: "n \<le> nmax" and nc: "e * worst_case nmax d < P"
  shows "e * n < (d - n mod d) * P"
  using error_room [OF d n]
proof
  assume h: "n \<le> worst_case nmax d \<and> 1 \<le> d - n mod d"
  then have "e * n \<le> e * worst_case nmax d" by simp
  also have "\<dots> < 1 * P" using nc by simp
  also have "\<dots> \<le> (d - n mod d) * P" using h by (intro mult_le_mono1) simp
  finally show ?thesis .
next
  assume h: "n \<le> 2 * worst_case nmax d \<and> 2 \<le> d - n mod d"
  then have "e * n \<le> e * (2 * worst_case nmax d)" by simp
  also have "\<dots> < 2 * P" using nc by simp
  also have "\<dots> \<le> (d - n mod d) * P" using h by (intro mult_le_mono1) simp
  finally show ?thesis .
qed

lemma error_weak:
  assumes d: "0 < d" "d \<le> nmax + 1" and n: "n \<le> nmax" and nc: "e * worst_case nmax d \<le> P"
  shows "e * n \<le> (d - n mod d) * P"
  using error_room [OF d n]
proof
  assume h: "n \<le> worst_case nmax d \<and> 1 \<le> d - n mod d"
  then have "e * n \<le> e * worst_case nmax d" by simp
  also have "\<dots> \<le> 1 * P" using nc by simp
  also have "\<dots> \<le> (d - n mod d) * P" using h by (intro mult_le_mono1) simp
  finally show ?thesis .
next
  assume h: "n \<le> 2 * worst_case nmax d \<and> 2 \<le> d - n mod d"
  then have "e * n \<le> e * (2 * worst_case nmax d)" by simp
  also have "\<dots> \<le> 2 * P" using nc by simp
  also have "\<dots> \<le> (d - n mod d) * P" using h by (intro mult_le_mono1) simp
  finally show ?thesis .
qed

text \<open>The quotient is exact once the error stays within the room above the residue.\<close>

lemma floor_exact:
  fixes n :: nat
  assumes d: "0 < d" and m: "m * d = P + e" and room: "e * n < (d - n mod d) * P"
  shows "n * m div P = n div d"
proof -
  let ?q = "n div d" and ?r = "n mod d"
  have split: "n = ?q * d + ?r" by (rule div_mult_mod_eq [symmetric])
  have rd: "?r < d" using d by simp
  have P: "0 < P" using room by (cases P) simp_all
  have nmd: "n * m * d = n * P + e * n" unfolding mult.assoc m by (simp add: algebra_simps)
  have "?q * d * P \<le> n * P" by (intro mult_le_mono1) simp
  moreover have "(P * ?q) * d = ?q * d * P" by (simp add: ac_simps)
  ultimately have "(P * ?q) * d \<le> n * m * d" using nmd by linarith
  then have lo: "P * ?q \<le> n * m" using d by simp
  have "n * m * d < n * P + (d - ?r) * P" using nmd room by simp
  also have "\<dots> = (n + (d - ?r)) * P" by (simp add: algebra_simps)
  also have "n + (d - ?r) = Suc ?q * d" unfolding mult_Suc using split rd by linarith
  finally have "n * m * d < (P * Suc ?q) * d" by (simp only: mult.assoc mult.commute mult.left_commute)
  then have hi: "n * m < P * Suc ?q" by simp
  show ?thesis by (rule div_nat_eqI [OF lo hi])
qed


text \<open>
  A negative numerator \<open>- k\<close>: the rounded-up quotient of its magnitude is one above the
  truncated one, because the multiplier is strictly above the reciprocal.
\<close>

lemma ceil_exact:
  fixes k :: nat
  assumes d: "0 < d" and m: "m * d = P + e" and e: "0 < e" and k: "0 < k"
    and room: "e * k \<le> (d - k mod d) * P"
  shows "k div d * P < k * m" and "k * m \<le> Suc (k div d) * P"
proof -
  let ?q = "k div d" and ?r = "k mod d"
  have split: "k = ?q * d + ?r" by (rule div_mult_mod_eq [symmetric])
  have rd: "?r < d" using d by simp
  have kmd: "k * m * d = k * P + e * k" unfolding mult.assoc m by (simp add: algebra_simps)
  have "?q * d * P \<le> k * P" by (intro mult_le_mono1) simp
  moreover have "(?q * P) * d = ?q * d * P" by (simp add: ac_simps)
  moreover have "0 < e * k" using e k by simp
  ultimately have "(?q * P) * d < k * m * d" using kmd by linarith
  then show "?q * P < k * m" by simp
  have "k * m * d \<le> k * P + (d - ?r) * P" using kmd room by simp
  also have "\<dots> = (k + (d - ?r)) * P" by (simp add: algebra_simps)
  also have "k + (d - ?r) = Suc ?q * d" unfolding mult_Suc using split rd by linarith
  finally have "k * m * d \<le> (Suc ?q * P) * d" by (simp only: mult.assoc mult.commute mult.left_commute)
  then show "k * m \<le> Suc ?q * P" using d by simp
qed

section \<open>The search\<close>

lemma search_from_SomeD:
  "search_from d bnds ps = Some (p, m) \<Longrightarrow>
     p \<in> set ps \<and> bounds_ok d bnds p \<and> m = div_ceil (2 ^ p) d"
  by (induction ps) (auto split: if_splits)

lemma search_from_first:
  assumes "p0 \<in> set ps" and "bounds_ok d bnds p0" and "sorted ps"
  shows "\<exists>p. search_from d bnds ps = Some (p, div_ceil (2 ^ p) d) \<and> p \<le> p0"
  using assms by (induction ps) auto

lemma search_SomeD:
  assumes "search d w bnds = Some (p, m)"
  shows "w \<le> p" and "p < 2 * w" and "bounds_ok d bnds p" and "m = div_ceil (2 ^ p) d"
  using search_from_SomeD assms unfolding search_def by fastforce+

lemma search_first:
  assumes "w \<le> p0" "p0 < 2 * w" "bounds_ok d bnds p0"
  obtains p where "search d w bnds = Some (p, div_ceil (2 ^ p) d)" and "p \<le> p0"
  using search_from_first [of p0 "[w..<2 * w]" d bnds] assms unfolding search_def by auto

lemma bounds_okI:
  assumes d: "0 < d"
    and "\<And>e b. b \<in> set bnds \<Longrightarrow> e < d \<Longrightarrow>
           if b_strict b then e * b_nc b < 2 ^ p else e * b_nc b \<le> 2 ^ p"
  shows "bounds_ok d bnds p"
proof -
  obtain e where "div_ceil (2 ^ p) d * d = 2 ^ p + e" and "e < d"
    using div_ceil_error [OF d] by blast
  then show ?thesis
    using assms(2) [of _ e] unfolding bounds_ok_def Let_def by (simp add: list_all_iff)
qed

text \<open>A bound holds at every exponent that covers the numerator width plus the divisor's.\<close>

lemma product_below:
  fixes e d nc :: nat
  assumes "e < d" "d < 2 ^ l" "nc \<le> 2 ^ b" "b + l \<le> p"
  shows "e * nc \<le> 2 ^ p"
proof -
  have "e * nc \<le> 2 ^ l * 2 ^ b" using assms(1-3) by (intro mult_le_mono) simp_all
  also have "\<dots> = 2 ^ (b + l)" by (simp add: power_add)
  also have "\<dots> \<le> (2 :: nat) ^ p" using assms(4) by (intro power_increasing) simp_all
  finally show ?thesis .
qed

lemma product_strictly_below:
  fixes e d nc :: nat
  assumes "e < d" "d < 2 ^ l" "nc < 2 ^ b" "b + l \<le> p"
  shows "e * nc < 2 ^ p"
proof -
  have "e * nc \<le> 2 ^ l * nc" using assms(1,2) by (intro mult_le_mono1) simp
  also have "\<dots> < 2 ^ l * 2 ^ b" using assms(3) by simp
  also have "\<dots> = 2 ^ (b + l)" by (simp add: power_add)
  also have "\<dots> \<le> (2 :: nat) ^ p" using assms(4) by (intro power_increasing) simp_all
  finally show ?thesis .
qed

text \<open>The bound on the multiplier: \<open>b + 1\<close> bits for a \<open>b\<close>-bit numerator, at least \<open>w\<close>.\<close>

lemma multiplier_bound:
  assumes d: "2 ^ l < d" and lb: "l \<le> b" and p: "p \<le> b + Suc l"
  shows "div_ceil (2 ^ p) d < 2 ^ Suc b"
proof -
  have "(2 :: nat) ^ p \<le> 2 ^ (b + Suc l)" using p by (intro power_increasing) simp_all
  also have "\<dots> = 2 ^ l * (2 ^ Suc b - 1) + 2 ^ l"
    by (simp add: power_add algebra_simps)
  also have "\<dots> \<le> 2 ^ l * (2 ^ Suc b - 1) + (2 ^ Suc b - 1)"
  proof -
    have "(2 :: nat) ^ l \<le> 2 ^ b" using lb by (intro power_increasing) simp_all
    also have "\<dots> \<le> 2 ^ Suc b - 1" by simp
    finally show ?thesis by simp
  qed
  also have "\<dots> = Suc (2 ^ l) * (2 ^ Suc b - 1)" by simp
  also have "\<dots> \<le> d * (2 ^ Suc b - 1)" using d by (intro mult_le_mono1) simp
  finally have "div_ceil (2 ^ p) d \<le> 2 ^ Suc b - 1" using d by (intro div_ceil_le) simp_all
  moreover have "(0 :: nat) < 2 ^ Suc b" by simp
  ultimately show ?thesis by linarith
qed

lemma multiplier_at_width:
  assumes "2 \<le> d" "0 < w"
  shows "div_ceil (2 ^ w) d < 2 ^ w"
proof -
  have "(2 :: nat) ^ 1 \<le> 2 ^ w" using assms(2) by (intro power_increasing) simp_all
  then have "(2 :: nat) ^ w \<le> 2 * (2 ^ w - 1)" by simp
  also have "\<dots> \<le> d * (2 ^ w - 1)" using assms(1) by (intro mult_le_mono1)
  finally have "div_ceil (2 ^ w) d \<le> 2 ^ w - 1" using assms(1) by (intro div_ceil_le) simp_all
  moreover have "(0 :: nat) < 2 ^ w" by simp
  ultimately show ?thesis by linarith
qed

section \<open>The two multiplier records\<close>

lemma not_power_ivl:
  fixes d :: nat
  assumes "3 \<le> d" and "\<And>k. d \<noteq> 2 ^ k"
  obtains l where "2 ^ l < d" and "d < 2 ^ Suc l"
  using ex_power_ivl1 [of 2 d] assms by (metis One_nat_def Suc_1 Suc_eq_plus1 le_eq_less_or_eq
      le_less_trans less_eq_Suc_le nat_le_linear numeral_3_eq_3)

lemma error_pos:
  fixes d :: nat
  assumes "\<And>k. d \<noteq> 2 ^ k" and "m * d = 2 ^ p + e"
  shows "0 < e"
proof (rule ccontr)
  assume "\<not> 0 < e"
  then have "d dvd 2 ^ p" using assms(2) by (metis add.right_neutral dvd_triv_right gr0I)
  then show False using assms(1) dvd_power_of_two by blast
qed

lemma unsigned_search:
  assumes d: "3 \<le> d" "2 ^ l < d" "d < 2 ^ Suc l" "d < 2 ^ (w - 1)" "d < 2 ^ b" and b: "b \<le> w"
  obtains p m where
    "search d w [\<lparr>b_nc = worst_case (2 ^ b - 1) d, b_strict = True\<rparr>] = Some (p, m)"
    "w \<le> p" "p < 2 * w" "m < 2 ^ Suc b \<or> p = w" "p = w \<longrightarrow> m < 2 ^ w"
    "\<And>n. n < 2 ^ b \<Longrightarrow> n * m div 2 ^ p = n div d"
proof -
  let ?bnds = "[\<lparr>b_nc = worst_case (2 ^ b - 1) d, b_strict = True\<rparr>]"
  have "(2 :: nat) ^ l < 2 ^ (w - 1)" "(2 :: nat) ^ l < 2 ^ b" using d by linarith+
  then have l: "l < w - 1" "l < b" by simp_all
  have nc: "worst_case (2 ^ b - 1) d < 2 ^ b"
    unfolding worst_case_def by (rule le_less_trans [OF diff_le_self]) simp
  have okp: "bounds_ok d ?bnds p" if "b + Suc l \<le> p" for p
    using d(1) product_strictly_below [OF _ d(3) nc that] by (intro bounds_okI) auto
  obtain p where p: "search d w ?bnds = Some (p, div_ceil (2 ^ p) d)" "p \<le> max w (b + Suc l)"
  proof (rule search_first [of w "max w (b + Suc l)" d ?bnds])
    show "w \<le> max w (b + Suc l)" by simp
    show "max w (b + Suc l) < 2 * w" using l b by linarith
    show "bounds_ok d ?bnds (max w (b + Suc l))" by (rule okp) simp
  qed
  note ps = search_SomeD [OF p(1)]
  have m: "div_ceil (2 ^ p) d < 2 ^ Suc b \<or> p = w"
    using multiplier_bound [of l d b p] d l ps p(2) by fastforce
  have mw: "p = w \<longrightarrow> div_ceil (2 ^ p) d < 2 ^ w"
    using multiplier_at_width [of d w] d l by auto
  obtain e where e: "div_ceil (2 ^ p) d * d = 2 ^ p + e"
    using div_ceil_error [of d] d by auto
  have "e * worst_case (2 ^ b - 1) d < 2 ^ p"
    using ps(3) e unfolding bounds_ok_def Let_def by simp
  then have "n * div_ceil (2 ^ p) d div 2 ^ p = n div d" if "n < 2 ^ b" for n
    using d that by (intro floor_exact [OF _ e] error_strict [where nmax = "2 ^ b - 1"]) auto
  then show thesis using that p(1) ps m mw by blast
qed

lemma magic_unsigned_exact:
  assumes d: "3 \<le> unat d" "\<And>k. unat d \<noteq> 2 ^ k" "unat d < 2 ^ (w - 1)" "unat d < 2 ^ b"
    and b: "b \<le> w" and w: "w \<le> 64"
  obtains mag where "magic_unsigned d w b = Some mag"
    and "unat (um_m mag) < 2 ^ w" and "um_add mag \<longrightarrow> b = w" and "um_shift mag < w"
    and "\<And>n. \<not> um_add mag \<Longrightarrow> n < 2 ^ b \<Longrightarrow>
           n * unat (um_m mag) div 2 ^ (w + um_shift mag) = n div unat d"
    and "\<And>n. um_add mag \<Longrightarrow> n < 2 ^ b \<Longrightarrow>
           n * (unat (um_m mag) + 2 ^ w) div 2 ^ (w + um_shift mag + 1) = n div unat d"
proof -
  obtain l where l: "2 ^ l < unat d" "unat d < 2 ^ Suc l" using not_power_ivl [OF d(1,2)] by blast
  obtain p m where pm:
    "search (unat d) w [\<lparr>b_nc = worst_case (2 ^ b - 1) (unat d), b_strict = True\<rparr>] = Some (p, m)"
    "w \<le> p" "p < 2 * w" "m < 2 ^ Suc b \<or> p = w" "p = w \<longrightarrow> m < 2 ^ w"
    "\<And>n. n < 2 ^ b \<Longrightarrow> n * m div 2 ^ p = n div unat d"
    using unsigned_search [OF d(1) l d(3,4) b] by blast
  have pow: "(2 :: nat) ^ w \<le> 2 ^ 64" using w by (intro power_increasing) simp_all
  show thesis
  proof (cases "m < 2 ^ w")
    case True
    then have "unat (word_of_nat m :: u64) = m"
      using pow by (intro unat_of_nat_small) simp
    then show thesis
      using True pm that [of "\<lparr>um_m = word_of_nat m, um_add = False, um_shift = p - w\<rparr>"]
      by (simp add: magic_unsigned_def)
  next
    case False
    then have pw: "p \<noteq> w" and mb: "m < 2 ^ Suc b" using pm(4,5) by auto
    have "b = w"
    proof (rule ccontr)
      assume "b \<noteq> w"
      then have "(2 :: nat) ^ Suc b \<le> 2 ^ w" using b by (intro power_increasing) simp_all
      then show False using False mb by simp
    qed
    then have mw: "m - 2 ^ w < 2 ^ w" using mb False by simp
    then have "unat (word_of_nat (m - 2 ^ w) :: u64) = m - 2 ^ w"
      using pow by (intro unat_of_nat_small) simp
    then show thesis
      using False pw pm(1-3,6) mw \<open>b = w\<close>
        that [of "\<lparr>um_m = word_of_nat (m - 2 ^ w), um_add = True, um_shift = p - w - 1\<rparr>"]
      by (simp add: magic_unsigned_def)
  qed
qed

lemma signed_search:
  assumes d: "3 \<le> d" "\<And>k. d \<noteq> 2 ^ k" "d < 2 ^ (w - 1)"
  obtains p m where
    "search d w [\<lparr>b_nc = worst_case (2 ^ (w - 1) - 1) d, b_strict = True\<rparr>,
                 \<lparr>b_nc = worst_case (2 ^ (w - 1)) d, b_strict = False\<rparr>] = Some (p, m)"
    "w \<le> p" "p < 2 * w" "m < 2 ^ w"
    "\<And>n. n < 2 ^ (w - 1) \<Longrightarrow> n * m div 2 ^ p = n div d"
    "\<And>k. 0 < k \<Longrightarrow> k \<le> 2 ^ (w - 1) \<Longrightarrow> k div d * 2 ^ p < k * m \<and> k * m \<le> Suc (k div d) * 2 ^ p"
proof -
  let ?B = "2 ^ (w - 1) :: nat"
  let ?bnds = "[\<lparr>b_nc = worst_case (?B - 1) d, b_strict = True\<rparr>,
                \<lparr>b_nc = worst_case ?B d, b_strict = False\<rparr>]"
  obtain l where l2: "2 ^ l < d" "d < 2 ^ Suc l" using not_power_ivl [OF d(1,2)] by blast
  then have "(2 :: nat) ^ l < ?B" using d by linarith
  then have l: "l < w - 1" by simp
  have nc1: "worst_case (?B - 1) d < 2 ^ (w - 1)"
    unfolding worst_case_def by (rule le_less_trans [OF diff_le_self]) simp
  have nc2: "worst_case ?B d \<le> 2 ^ (w - 1)" unfolding worst_case_def by simp
  have okp: "bounds_ok d ?bnds (w - 1 + Suc l)"
    using d(1) product_strictly_below [OF _ l2(2) nc1 order_refl]
      product_below [OF _ l2(2) nc2 order_refl] by (intro bounds_okI) auto
  obtain p where p: "search d w ?bnds = Some (p, div_ceil (2 ^ p) d)" "p \<le> w - 1 + Suc l"
  proof (rule search_first [of w "w - 1 + Suc l" d ?bnds])
    show "w \<le> w - 1 + Suc l" "w - 1 + Suc l < 2 * w" using l by linarith+
  qed (rule okp)
  note ps = search_SomeD [OF p(1)]
  have m: "div_ceil (2 ^ p) d < 2 ^ w"
    using multiplier_bound [OF l2(1) _ p(2)] l by simp
  have d0: "0 < d" using d(1) by simp
  obtain e where e: "div_ceil (2 ^ p) d * d = 2 ^ p + e"
    using div_ceil_error [OF d0] by blast
  have e0: "0 < e" using error_pos [OF d(2) e] .
  have es: "e * worst_case (?B - 1) d < 2 ^ p" and ew: "e * worst_case ?B d \<le> 2 ^ p"
    using ps(3) e unfolding bounds_ok_def Let_def by simp_all
  have pos: "n * div_ceil (2 ^ p) d div 2 ^ p = n div d" if "n < ?B" for n
    using d that es by (intro floor_exact [OF _ e] error_strict [where nmax = "?B - 1"]) auto
  have room: "e * k \<le> (d - k mod d) * 2 ^ p" if "k \<le> ?B" for k
    using d that ew by (intro error_weak [where nmax = "?B"]) auto
  have neg: "k div d * 2 ^ p < k * div_ceil (2 ^ p) d
      \<and> k * div_ceil (2 ^ p) d \<le> Suc (k div d) * 2 ^ p" if "0 < k" "k \<le> ?B" for k
    using ceil_exact [OF _ e e0 that(1) room [OF that(2)]] d(1) by simp
  show thesis using that p(1) ps(1,2) m pos neg by blast
qed

text \<open>The floor of the product, with one added below zero, is C's truncating quotient.\<close>

lemma floor_plus_sign_eq_sdiv:
  fixes n :: int and P m d :: nat
  assumes P: "0 < P" and d: "0 < d"
    and pos: "0 \<le> n \<Longrightarrow> nat n * m div P = nat n div d"
    and neg: "n < 0 \<Longrightarrow> nat (- n) div d * P < nat (- n) * m \<and> nat (- n) * m \<le> Suc (nat (- n) div d) * P"
  shows "n * int m div int P + of_bool (n < 0) = n sdiv int d"
    and "n < 0 \<longleftrightarrow> n * int m div int P < 0"
proof -
  have "n * int m div int P + of_bool (n < 0) = n sdiv int d
      \<and> (n < 0 \<longleftrightarrow> n * int m div int P < 0)"
  proof (cases "0 \<le> n")
    case True
    then obtain k where k: "n = int k" by (metis nonneg_int_cases)
    then have "n * int m div int P = n div int d"
      using pos by (simp flip: of_nat_mult zdiv_int)
    moreover have "n div int d = n sdiv int d"
      using True by (simp add: signed_divide_int_def sgn_if k d)
    moreover have "0 \<le> n div int d" using True d by (simp add: div_int_pos_iff)
    ultimately show ?thesis using True by simp
  next
    case False
    then obtain k where k: "n = - int k" "0 < k" by (metis neg_int_cases not_less)
    let ?q = "k div d"
    have b: "?q * P < k * m" "k * m \<le> Suc ?q * P" using neg False k by simp_all
    have "n * int m div int P = - int (Suc ?q)"
    proof (rule int_div_pos_eq [where r = "int (Suc ?q) * int P - int k * int m"])
      have "int (k * m) \<le> int (Suc ?q * P)" "int (?q * P) < int (k * m)"
        using b by (simp_all only: of_nat_le_iff of_nat_less_iff)
      then show "0 \<le> int (Suc ?q) * int P - int k * int m"
        and "int (Suc ?q) * int P - int k * int m < int P"
        by (simp_all add: algebra_simps)
      show "n * int m = int P * - int (Suc ?q) + (int (Suc ?q) * int P - int k * int m)"
        by (simp add: k(1) algebra_simps)
    qed
    moreover have "n sdiv int d = - int ?q"
      using k d by (simp add: signed_divide_int_def zdiv_int)
    ultimately show ?thesis using False by simp
  qed
  then show "n * int m div int P + of_bool (n < 0) = n sdiv int d"
    and "n < 0 \<longleftrightarrow> n * int m div int P < 0" by blast+
qed

lemma magic_signed_exact:
  assumes d: "3 \<le> unat d" "\<And>k. unat d \<noteq> 2 ^ k" "unat d < 2 ^ (w - 1)" and w: "w \<le> 64"
  obtains mag where "magic_signed d w = Some mag"
    and "unat (sm_m mag) < 2 ^ w" and "sm_shift mag < w"
    and "\<And>n. - (2 ^ (w - 1)) \<le> n \<Longrightarrow> n < 2 ^ (w - 1) \<Longrightarrow>
           n * uint (sm_m mag) div 2 ^ (w + sm_shift mag) + of_bool (n < 0) = n sdiv uint d
           \<and> (n < 0 \<longleftrightarrow> n * uint (sm_m mag) div 2 ^ (w + sm_shift mag) < 0)"
proof -
  obtain p m where pm:
    "search (unat d) w [\<lparr>b_nc = worst_case (2 ^ (w - 1) - 1) (unat d), b_strict = True\<rparr>,
                 \<lparr>b_nc = worst_case (2 ^ (w - 1)) (unat d), b_strict = False\<rparr>] = Some (p, m)"
    "w \<le> p" "p < 2 * w" "m < 2 ^ w"
    "\<And>n. n < 2 ^ (w - 1) \<Longrightarrow> n * m div 2 ^ p = n div unat d"
    "\<And>k. 0 < k \<Longrightarrow> k \<le> 2 ^ (w - 1) \<Longrightarrow>
       k div unat d * 2 ^ p < k * m \<and> k * m \<le> Suc (k div unat d) * 2 ^ p"
    using signed_search [OF d] by blast
  have "(2 :: nat) ^ w \<le> 2 ^ 64" using w by (intro power_increasing) simp_all
  then have m: "unat (word_of_nat m :: u64) = m" using pm(4) by (intro unat_of_nat_small) simp
  have q: "n * int m div 2 ^ p + of_bool (n < 0) = n sdiv uint d
         \<and> (n < 0 \<longleftrightarrow> n * int m div 2 ^ p < 0)"
    if n: "- (2 ^ (w - 1)) \<le> n" "n < 2 ^ (w - 1)" for n
  proof -
    have "0 \<le> n \<Longrightarrow> nat n * m div 2 ^ p = nat n div unat d"
      using n by (intro pm(5)) (simp add: nat_less_iff)
    moreover have "n < 0 \<Longrightarrow> nat (- n) div unat d * 2 ^ p < nat (- n) * m
        \<and> nat (- n) * m \<le> Suc (nat (- n) div unat d) * 2 ^ p"
      using n by (intro pm(6)) (simp_all add: nat_le_iff)
    ultimately show ?thesis
      using floor_plus_sign_eq_sdiv [of "2 ^ p" "unat d" n m] d(1) by (simp flip: uint_nat)
  qed
  have um: "uint (word_of_nat m :: u64) = int m" using m by (simp only: uint_nat)
  show thesis
  proof (rule that [of "\<lparr>sm_m = word_of_nat m, sm_shift = p - w\<rparr>"])
    show "magic_signed d w = Some \<lparr>sm_m = word_of_nat m, sm_shift = p - w\<rparr>"
      unfolding magic_signed_def pm(1) by simp
    show "n * uint (sm_m \<lparr>sm_m = word_of_nat m, sm_shift = p - w\<rparr>)
          div 2 ^ (w + sm_shift \<lparr>sm_m = word_of_nat m :: u64, sm_shift = p - w\<rparr>) + of_bool (n < 0)
        = n sdiv uint d
      \<and> (n < 0 \<longleftrightarrow> n * uint (sm_m \<lparr>sm_m = word_of_nat m, sm_shift = p - w\<rparr>)
          div 2 ^ (w + sm_shift \<lparr>sm_m = word_of_nat m :: u64, sm_shift = p - w\<rparr>) < 0)"
      if "- (2 ^ (w - 1)) \<le> n" "n < 2 ^ (w - 1)" for n
      using q [OF that] pm(2) um by auto
  qed (use pm(2-4) m in \<open>simp_all\<close>)
qed

section \<open>Totality and width of the search\<close>

text \<open>Every product the search forms stays below \<open>2^128\<close>, so the \<open>u128\<close> arithmetic is exact.\<close>

lemma search_fits_u128:
  assumes "0 < d" "d \<le> 2 ^ (w - 1)" "w \<le> 64" "p < 2 * w" "nc < 2 ^ w"
  shows "div_ceil (2 ^ p) d * d < 2 ^ 128" and "(div_ceil (2 ^ p) d * d - 2 ^ p) * nc < 2 ^ 128"
proof -
  obtain e where e: "div_ceil (2 ^ p) d * d = 2 ^ p + e" "e < d"
    using div_ceil_error [OF assms(1)] by blast
  have "(2 :: nat) ^ p \<le> 2 ^ 127" "(2 :: nat) ^ (w - 1) \<le> 2 ^ 63" "(2 :: nat) ^ w \<le> 2 ^ 64"
    using assms(3,4) by (intro power_increasing; simp)+
  then have h: "2 ^ p \<le> (2 ^ 127 :: nat)" "e < 2 ^ 63" "nc < 2 ^ 64" using assms(2,5) e(2) by linarith+
  show "div_ceil (2 ^ p) d * d < 2 ^ 128" using e(1) h by simp
  have "e * nc \<le> 2 ^ 63 * 2 ^ 64" using h by (intro mult_le_mono) simp_all
  then show "(div_ceil (2 ^ p) d * d - 2 ^ p) * nc < 2 ^ 128" using e(1) by simp
qed

end
