(* ===== verification/Magic.thy ===== *)
theory Magic
  imports Magic_Arith "HOL-Library.State_Monad"
begin

text \<open>
  Lowering of a division by a constant, the second half of
  \<^verbatim>\<open>src/src/c5/codegen/magic.rs\<close>.  The lowering drives a \<open>DivSink\<close>, a trait with three
  operations; here a sink is a record of three state-passing functions, and its contract is the
  locale \<open>div_sink_laws\<close>.  A lowering result is the emitted value, \<open>Inl (Err ())\<close> where
  the Rust code returns \<open>None\<close>, or \<open>Inl Panic\<close> where it would reach \<open>unreachable!\<close>.
\<close>

section \<open>Definitions\<close>

record ('s, 'v) div_sink =
  sink_imm :: "i64 \<Rightarrow> ('s, 'v) state"
  sink_binop :: "BinOp \<Rightarrow> 'v \<Rightarrow> 'v \<Rightarrow> ('s, 'v) state"
  sink_binop_imm :: "BinOp \<Rightarrow> 'v \<Rightarrow> i64 \<Rightarrow> ('s, 'v) state"

type_synonym ('s, 'v) lowering = "('s, unit fault + 'v) state"

abbreviation emit :: "('s, 'v) state \<Rightarrow> ('s, 'v) lowering" where
  "emit m \<equiv> State_Monad.bind m (\<lambda>v. State_Monad.return (Inr v))"

abbreviation decline :: "('s, 'v) lowering" where
  "decline \<equiv> State_Monad.return (Inl (Err ()))"

abbreviation panic :: "('s, 'v) lowering" where
  "panic \<equiv> State_Monad.return (Inl Panic)"

definition and_then :: "('s, 'a) lowering \<Rightarrow> ('a \<Rightarrow> ('s, 'b) lowering) \<Rightarrow> ('s, 'b) lowering" where
  "and_then m f = State_Monad.bind m (\<lambda>r. case r of Inl e \<Rightarrow> State_Monad.return (Inl e) | Inr v \<Rightarrow> f v)"

definition shift_right :: "('s, 'v) div_sink \<Rightarrow> BinOp \<Rightarrow> 'v \<Rightarrow> nat \<Rightarrow> ('s, 'v) state" where
  "shift_right S op v k =
     (if k = 0 then State_Monad.return v else sink_binop_imm S op v (word_of_nat k))"

definition pow2_log :: "u64 \<Rightarrow> nat option" where
  "pow2_log x = (if is_power_of_two x then Some (trailing_zeros x) else None)"

definition mulhu :: "('s, 'v) div_sink \<Rightarrow> 'v \<Rightarrow> u64 \<Rightarrow> nat \<Rightarrow> nat \<Rightarrow> ('s, 'v) state" where
  "mulhu S n m w extra =
     (if w = 64 then do {
        mv \<leftarrow> sink_imm S m;
        hi \<leftarrow> sink_binop S BinOp_Mulhu n mv;
        shift_right S BinOp_Shru hi extra
      } else do {
        prod \<leftarrow> sink_binop_imm S BinOp_Mul n m;
        sink_binop_imm S BinOp_Shru prod (word_of_nat (32 + extra))
      })"

definition udiv_magic :: "('s, 'v) div_sink \<Rightarrow> 'v \<Rightarrow> u64 \<Rightarrow> nat \<Rightarrow> nat \<Rightarrow> ('s, 'v) lowering" where
  "udiv_magic S n d w bits =
     (if bits < w then
        (case magic_unsigned d w bits of
           None \<Rightarrow> panic
         | Some mag \<Rightarrow> emit (mulhu S n (um_m mag) w (um_shift mag)))
      else
        let tz = trailing_zeros d;
            full =
              (case magic_unsigned d w w of
                 None \<Rightarrow> panic
               | Some mag \<Rightarrow>
                   if \<not> um_add mag then emit (mulhu S n (um_m mag) w (um_shift mag))
                   else emit (do {
                     t \<leftarrow> mulhu S n (um_m mag) w 0;
                     diff \<leftarrow> sink_binop S BinOp_Sub n t;
                     half \<leftarrow> sink_binop_imm S BinOp_Shru diff 1;
                     total \<leftarrow> sink_binop S BinOp_Add half t;
                     shift_right S BinOp_Shru total (um_shift mag)
                   }))
        in if tz > 0 then
             (case magic_unsigned (drop_bit tz d) w (w - tz) of
                None \<Rightarrow> panic
              | Some odd_mag \<Rightarrow>
                  if \<not> um_add odd_mag then emit (do {
                    pre \<leftarrow> sink_binop_imm S BinOp_Shru n (word_of_nat tz);
                    mulhu S pre (um_m odd_mag) w (um_shift odd_mag)
                  })
                  else full)
           else full)"

definition sdiv_magic :: "('s, 'v) div_sink \<Rightarrow> 'v \<Rightarrow> u64 \<Rightarrow> nat \<Rightarrow> ('s, 'v) lowering" where
  "sdiv_magic S n d w =
     (case magic_signed d w of
        None \<Rightarrow> panic
      | Some mag \<Rightarrow> emit (do {
          q0 \<leftarrow> (if w = 64 then do {
                  mv \<leftarrow> sink_imm S (sm_m mag);
                  hi \<leftarrow> sink_binop S BinOp_Mulh n mv;
                  hi \<leftarrow> (if drop_bit (w - 1) (sm_m mag) \<noteq> 0
                        then sink_binop S BinOp_Add hi n
                        else State_Monad.return hi);
                  shift_right S BinOp_Shr hi (sm_shift mag)
                } else do {
                  prod \<leftarrow> sink_binop_imm S BinOp_Mul n (sm_m mag);
                  sink_binop_imm S BinOp_Shr prod (word_of_nat (32 + sm_shift mag))
                });
          sign \<leftarrow> sink_binop_imm S BinOp_Shru q0 63;
          sink_binop S BinOp_Add q0 sign
        }))"

definition sdiv_pow2_bias :: "('s, 'v) div_sink \<Rightarrow> 'v \<Rightarrow> nat \<Rightarrow> nat \<Rightarrow> ('s, 'v \<times> 'v) state" where
  "sdiv_pow2_bias S n k w = do {
     sign \<leftarrow> (if k \<le> 65 - w then State_Monad.return n else sink_binop_imm S BinOp_Shr n 63);
     bias \<leftarrow> sink_binop_imm S BinOp_Shru sign (word_of_nat (64 - k));
     adj \<leftarrow> sink_binop S BinOp_Add n bias;
     State_Monad.return (adj, bias)
   }"

definition negate :: "('s, 'v) div_sink \<Rightarrow> 'v \<Rightarrow> ('s, 'v) state" where
  "negate S v = do { zero \<leftarrow> sink_imm S 0; sink_binop S BinOp_Sub zero v }"

definition lower_udivmod ::
  "('s, 'v) div_sink \<Rightarrow> bool \<Rightarrow> 'v \<Rightarrow> u64 \<Rightarrow> nat \<Rightarrow> nat \<Rightarrow> ('s, 'v) lowering" where
  "lower_udivmod S want_rem n du w bits =
     (if du = 0 then decline
      else if du = 1 then emit (if want_rem then sink_imm S 0 else State_Monad.return n)
      else if bits < 64 \<and> drop_bit bits du \<noteq> 0
        then emit (if want_rem then State_Monad.return n else sink_imm S 0)
      else
        (case pow2_log du of
           Some k \<Rightarrow>
             emit (if want_rem then sink_binop_imm S BinOp_And n (du - 1)
                   else sink_binop_imm S BinOp_Shru n (word_of_nat k))
         | None \<Rightarrow>
             and_then
               (if du > push_bit (w - 1) 1 then emit (sink_binop_imm S BinOp_Uge n du)
                else udiv_magic S n du w bits)
               (\<lambda>q. if \<not> want_rem then State_Monad.return (Inr q)
                    else emit (do {
                      qd \<leftarrow> sink_binop_imm S BinOp_Mul q du;
                      sink_binop S BinOp_Sub n qd
                    }))))"

definition lower_divmod ::
  "('s, 'v) div_sink \<Rightarrow> BinOp \<Rightarrow> 'v \<Rightarrow> i64 \<Rightarrow> nat \<Rightarrow> ('s, 'v) lowering" where
  "lower_divmod S op n d w =
     (if op = BinOp_Divu \<or> op = BinOp_Modu then
        (let du = (if w = 64 then d else d AND 0xffffffff)
         in lower_udivmod S (op = BinOp_Modu) n du w w)
      else if op = BinOp_Div \<or> op = BinOp_Mod then
        (if d = 0 then decline
         else
           let want_rem = (op = BinOp_Mod); ad = unsigned_abs d
           in if ad = 1 then
                (if want_rem then emit (sink_imm S 0)
                 else emit (if sint d < 0 then negate S n else State_Monad.return n))
              else
                (case pow2_log ad of
                   Some k \<Rightarrow> emit (do {
                     (adj, bias) \<leftarrow> sdiv_pow2_bias S n k w;
                     if \<not> want_rem then do {
                       q \<leftarrow> sink_binop_imm S BinOp_Shr adj (word_of_nat k);
                       if sint d < 0 then negate S q else State_Monad.return q
                     } else do {
                       masked \<leftarrow> sink_binop_imm S BinOp_And adj (ad - 1);
                       sink_binop S BinOp_Sub masked bias
                     }
                   })
                 | None \<Rightarrow>
                     and_then (sdiv_magic S n ad w) (\<lambda>q. emit (do {
                       q \<leftarrow> (if sint d < 0 then negate S q else State_Monad.return q);
                       if \<not> want_rem then State_Monad.return q
                       else do {
                         qd \<leftarrow> sink_binop_imm S BinOp_Mul q d;
                         sink_binop S BinOp_Sub n qd
                       }
                     }))))
      else decline)"

text \<open>The counting sink and the instruction count it reports.\<close>

definition count_sink :: "(nat, unit) div_sink" where
  "count_sink =
     \<lparr>sink_imm = (\<lambda>_. State (\<lambda>c. ((), c + 1))),
      sink_binop = (\<lambda>_ _ _. State (\<lambda>c. ((), c + 1))),
      sink_binop_imm = (\<lambda>_ _ _. State (\<lambda>c. ((), c + 1)))\<rparr>"

definition step_count :: "BinOp \<Rightarrow> i64 \<Rightarrow> nat \<Rightarrow> unit fault + nat" where
  "step_count op d w =
     (case run_state (lower_divmod count_sink op () d w) 0 of
        (Inl e, _) \<Rightarrow> Inl e
      | (Inr _, c) \<Rightarrow> Inr c)"

section \<open>The contract of a sink\<close>

text \<open>
  A sink keeps an invariant of its state and gives every value it hands out a denotation, a
  64-bit word, which later steps never change.  An operation whose operands denote words
  denotes what the evaluator computes from them.  A sink with finite value ids promises this
  within its capacity \<open>cap\<close>, which no operation restores.
\<close>

definition extends :: "('s \<Rightarrow> 'v \<Rightarrow> i64 option) \<Rightarrow> 's \<Rightarrow> 's \<Rightarrow> bool" where
  "extends den s s' \<longleftrightarrow> (\<forall>v x. den s v = Some x \<longrightarrow> den s' v = Some x)"

definition yields ::
  "('s \<Rightarrow> bool) \<Rightarrow> ('s \<Rightarrow> bool) \<Rightarrow> ('s \<Rightarrow> 'v \<Rightarrow> i64 option) \<Rightarrow> 's \<Rightarrow> ('s, 'r) state \<Rightarrow>
     ('s \<Rightarrow> 'r \<Rightarrow> bool) \<Rightarrow> bool" where
  "yields cap ok den s m Q =
     (case run_state m s of (r, s') \<Rightarrow> cap s' \<longrightarrow> ok s' \<and> extends den s s' \<and> Q s' r)"

text \<open>A computation only uses capacity up: where the end state is within it, so was the start.\<close>

definition consumes :: "('s \<Rightarrow> bool) \<Rightarrow> ('s, 'r) state \<Rightarrow> bool" where
  "consumes cap m \<longleftrightarrow> (\<forall>s. cap (snd (run_state m s)) \<longrightarrow> cap s)"

text \<open>
  The reference sink computes every step at once through the evaluator: its values are the words
  themselves.  The result of the lowering over it is the value the emitted sequence computes.
\<close>

definition binop_val :: "fpu \<Rightarrow> BinOp \<Rightarrow> i64 \<Rightarrow> i64 \<Rightarrow> i64" where
  "binop_val F op x y = (case apply_binop F op x y of Inr z \<Rightarrow> z | Inl _ \<Rightarrow> 0)"

definition vm_sink :: "fpu \<Rightarrow> (unit, i64) div_sink" where
  "vm_sink F =
     \<lparr>sink_imm = (\<lambda>k. State_Monad.return k),
      sink_binop = (\<lambda>op x y. State_Monad.return (binop_val F op x y)),
      sink_binop_imm = (\<lambda>op x k. State_Monad.return (binop_val F op x k))\<rparr>"

definition value_of :: "(unit, 'r) state \<Rightarrow> 'r" where
  "value_of m = fst (run_state m ())"

definition lowering_op :: "BinOp \<Rightarrow> bool" where
  "lowering_op op \<longleftrightarrow>
     op \<in> {BinOp_Mul, BinOp_Mulh, BinOp_Mulhu, BinOp_Shr, BinOp_Shru, BinOp_Add, BinOp_Sub,
           BinOp_And, BinOp_Uge}"

text \<open>A result of the lowering agrees with the reference result: same value, or same outcome.\<close>

definition den_rel :: "('s \<Rightarrow> 'v \<Rightarrow> i64 option) \<Rightarrow> 's \<Rightarrow> (unit fault + 'v) \<Rightarrow> (unit fault + i64) \<Rightarrow> bool" where
  "den_rel den s r x =
     (case (r, x) of
        (Inl e, Inl e') \<Rightarrow> e = e'
      | (Inr v, Inr y) \<Rightarrow> den s v = Some y
      | _ \<Rightarrow> False)"

text \<open>A computation over a sink follows the same computation over the reference sink.\<close>

definition follows ::
  "('s \<Rightarrow> bool) \<Rightarrow> ('s \<Rightarrow> bool) \<Rightarrow> ('s \<Rightarrow> 'v \<Rightarrow> i64 option) \<Rightarrow> 's \<Rightarrow> ('s, 'v) state \<Rightarrow> (unit, i64) state \<Rightarrow> bool" where
  "follows cap ok den s m mx = yields cap ok den s m (\<lambda>s' v. den s' v = Some (value_of mx))"

definition lowers ::
  "('s \<Rightarrow> bool) \<Rightarrow> ('s \<Rightarrow> bool) \<Rightarrow> ('s \<Rightarrow> 'v \<Rightarrow> i64 option) \<Rightarrow> 's \<Rightarrow> ('s, 'v) lowering \<Rightarrow> (unit, i64) lowering \<Rightarrow> bool" where
  "lowers cap ok den s m mx = yields cap ok den s m (\<lambda>s' r. den_rel den s' r (value_of mx))"

lemma lowering_op_total: "lowering_op op \<Longrightarrow> apply_binop F op x y = Inr (binop_val F op x y)"
  by (auto simp: lowering_op_def binop_val_def apply_binop_def eval_int_binop_def)

lemma value_of_simps [simp]:
  "value_of (State_Monad.return x) = x"
  "value_of (State_Monad.bind m f) = value_of (f (value_of m))"
  by (simp_all add: value_of_def split: prod.splits)

lemma vm_sink_simps [simp]:
  "sink_imm (vm_sink F) k = State_Monad.return k"
  "sink_binop (vm_sink F) op x y = State_Monad.return (binop_val F op x y)"
  "sink_binop_imm (vm_sink F) op x k = State_Monad.return (binop_val F op x k)"
  by (simp_all add: vm_sink_def)

lemma lowering_op_simps [simp]:
  "lowering_op BinOp_Mul" "lowering_op BinOp_Mulh" "lowering_op BinOp_Mulhu" "lowering_op BinOp_Shr"
  "lowering_op BinOp_Shru" "lowering_op BinOp_Add" "lowering_op BinOp_Sub" "lowering_op BinOp_And"
  "lowering_op BinOp_Uge"
  by (simp_all add: lowering_op_def)

locale div_sink_laws =
  fixes S :: "('s, 'v) div_sink"
    and den :: "'s \<Rightarrow> 'v \<Rightarrow> i64 option"
    and ok :: "'s \<Rightarrow> bool"
    and cap :: "'s \<Rightarrow> bool"
    and F :: fpu
  assumes imm_law: "ok s \<Longrightarrow> yields cap ok den s (sink_imm S k) (\<lambda>s' v. den s' v = Some k)"
    and binop_law:
      "ok s \<Longrightarrow> den s a = Some x \<Longrightarrow> den s b = Some y \<Longrightarrow> apply_binop F op x y = Inr z \<Longrightarrow>
         yields cap ok den s (sink_binop S op a b) (\<lambda>s' v. den s' v = Some z)"
    and binop_imm_law:
      "ok s \<Longrightarrow> den s a = Some x \<Longrightarrow> apply_binop F op x k = Inr z \<Longrightarrow>
         yields cap ok den s (sink_binop_imm S op a k) (\<lambda>s' v. den s' v = Some z)"
    and imm_consumes: "consumes cap (sink_imm S k)"
    and binop_consumes: "consumes cap (sink_binop S op a b)"
    and binop_imm_consumes: "consumes cap (sink_binop_imm S op a k)"
begin

lemma consumes_return: "consumes cap (State_Monad.return v)"
  by (simp add: consumes_def)

lemma consumes_bind:
  assumes "consumes cap m" and "\<And>v. consumes cap (f v)"
  shows "consumes cap (State_Monad.bind m f)"
  unfolding consumes_def
proof
  fix s
  obtain v s1 where "run_state m s = (v, s1)" by fastforce
  then show "cap (snd (run_state (State_Monad.bind m f) s)) \<longrightarrow> cap s"
    using assms(1) [unfolded consumes_def, rule_format, of s]
      assms(2) [of v, unfolded consumes_def, rule_format, of s1] by simp
qed

lemma consumes_if: "consumes cap m1 \<Longrightarrow> consumes cap m2 \<Longrightarrow> consumes cap (if c then m1 else m2)"
  by simp

lemma consumes_option:
  "consumes cap m1 \<Longrightarrow> (\<And>a. consumes cap (m2 a)) \<Longrightarrow> consumes cap (case z of None \<Rightarrow> m1 | Some a \<Rightarrow> m2 a)"
  by (cases z) simp_all

lemma consumes_prod: "(\<And>a b. consumes cap (f a b)) \<Longrightarrow> consumes cap (case z of (a, b) \<Rightarrow> f a b)"
  by (cases z) simp

lemma consumes_and_then:
  "consumes cap m \<Longrightarrow> (\<And>v. consumes cap (f v)) \<Longrightarrow> consumes cap (and_then m f)"
  unfolding and_then_def by (intro consumes_bind) (auto simp: consumes_return split: sum.splits)

lemma consumes_shift_right: "consumes cap (shift_right S op v k)"
  unfolding shift_right_def by (intro consumes_if consumes_return binop_imm_consumes)

lemmas consumes_steps = consumes_bind consumes_return consumes_if consumes_option consumes_prod
  consumes_and_then consumes_shift_right imm_consumes binop_consumes binop_imm_consumes

lemma consumes_mulhu: "consumes cap (mulhu S n m w extra)"
  unfolding mulhu_def by (intro consumes_steps)

lemma consumes_negate: "consumes cap (negate S v)"
  unfolding negate_def by (intro consumes_steps)

lemma consumes_udiv_magic: "consumes cap (udiv_magic S n d w bits)"
  unfolding udiv_magic_def Let_def by (intro consumes_steps consumes_mulhu)

lemma consumes_sdiv_magic: "consumes cap (sdiv_magic S n d w)"
  unfolding sdiv_magic_def by (intro consumes_steps)

lemma consumes_bias: "consumes cap (sdiv_pow2_bias S n k w)"
  unfolding sdiv_pow2_bias_def by (intro consumes_steps)

lemma consumes_lower_udivmod: "consumes cap (lower_udivmod S want_rem n du w bits)"
  unfolding lower_udivmod_def by (intro consumes_steps consumes_udiv_magic)

lemma consumes_lower_divmod: "consumes cap (lower_divmod S op n d w)"
  unfolding lower_divmod_def Let_def
  by (intro consumes_steps consumes_lower_udivmod consumes_sdiv_magic consumes_bias consumes_negate)

lemma yields_return: "ok s \<Longrightarrow> Q s v \<Longrightarrow> yields cap ok den s (State_Monad.return v) Q"
  by (simp add: yields_def extends_def)

lemma yields_bind:
  assumes "yields cap ok den s m P" and "\<And>v. consumes cap (f v)"
    and "\<And>v s'. ok s' \<Longrightarrow> extends den s s' \<Longrightarrow> P s' v \<Longrightarrow> yields cap ok den s' (f v) Q"
  shows "yields cap ok den s (State_Monad.bind m f) Q"
proof -
  obtain v s1 where 1: "run_state m s = (v, s1)" by fastforce
  obtain r s2 where 2: "run_state (f v) s1 = (r, s2)" by fastforce
  have "ok s2 \<and> extends den s s2 \<and> Q s2 r" if cap: "cap s2"
  proof -
    from assms(2) [of v] 2 cap have "cap s1" by (auto simp: consumes_def dest!: spec [of _ s1])
    with assms(1) 1 have e1: "ok s1" "extends den s s1" "P s1 v" by (simp_all add: yields_def)
    from assms(3) [OF e1] 2 cap have "ok s2" "extends den s1 s2" "Q s2 r" by (simp_all add: yields_def)
    then show ?thesis using e1(2) by (auto simp: extends_def)
  qed
  then show ?thesis using 1 2 by (simp add: yields_def)
qed

lemma extendsD: "extends den s s' \<Longrightarrow> den s v = Some x \<Longrightarrow> den s' v = Some x"
  by (simp add: extends_def)

lemma follows_return: "ok s \<Longrightarrow> den s v = Some x \<Longrightarrow> follows cap ok den s (State_Monad.return v) (State_Monad.return x)"
  by (simp add: follows_def yields_return)

lemma follows_imm: "ok s \<Longrightarrow> follows cap ok den s (sink_imm S k) (sink_imm (vm_sink F) k)"
  using imm_law by (simp add: follows_def)

lemma follows_op:
  assumes "ok s" "den s a = Some x" "den s b = Some y" "lowering_op op"
  shows "follows cap ok den s (sink_binop S op a b) (sink_binop (vm_sink F) op x y)"
  using binop_law [OF assms(1-3)] lowering_op_total [OF assms(4)] by (simp add: follows_def)

lemma follows_op_imm:
  assumes "ok s" "den s a = Some x" "lowering_op op"
  shows "follows cap ok den s (sink_binop_imm S op a k) (sink_binop_imm (vm_sink F) op x k)"
  using binop_imm_law [OF assms(1-2)] lowering_op_total [OF assms(3)] by (simp add: follows_def)

lemma follows_if:
  assumes "c \<Longrightarrow> follows cap ok den s m1 x1" and "\<not> c \<Longrightarrow> follows cap ok den s m2 x2"
  shows "follows cap ok den s (if c then m1 else m2) (if c then x1 else x2)"
  using assms by simp

lemma follows_bind:
  assumes "follows cap ok den s m mx" and "\<And>v. consumes cap (f v)"
    and "\<And>v x s'. ok s' \<Longrightarrow> extends den s s' \<Longrightarrow> den s' v = Some x \<Longrightarrow> follows cap ok den s' (f v) (g x)"
  shows "follows cap ok den s (State_Monad.bind m f) (State_Monad.bind mx g)"
  using assms unfolding follows_def value_of_simps by (rule yields_bind)

lemma follows_shift_right:
  assumes "ok s" "den s v = Some x" "lowering_op op"
  shows "follows cap ok den s (shift_right S op v k) (shift_right (vm_sink F) op x k)"
  using assms unfolding shift_right_def by (intro follows_if follows_return follows_op_imm)

lemmas follows_steps = follows_if follows_bind follows_return follows_imm follows_op follows_op_imm
  follows_shift_right lowering_op_simps consumes_steps

lemma follows_mulhu:
  assumes "ok s" "den s n = Some x"
  shows "follows cap ok den s (mulhu S n m w extra) (mulhu (vm_sink F) x m w extra)"
  unfolding mulhu_def by (intro follows_steps) (auto dest: extendsD intro: assms)

lemma follows_negate:
  assumes "ok s" "den s v = Some x"
  shows "follows cap ok den s (negate S v) (negate (vm_sink F) x)"
  unfolding negate_def by (intro follows_steps) (auto dest: extendsD intro: assms)

lemma lowers_emit: "follows cap ok den s m mx \<Longrightarrow> lowers cap ok den s (emit m) (emit mx)"
  unfolding follows_def lowers_def
  by (erule yields_bind) (auto intro!: yields_return consumes_return simp: den_rel_def)

lemma lowers_fail: "ok s \<Longrightarrow> lowers cap ok den s (State_Monad.return (Inl e)) (State_Monad.return (Inl e))"
  by (simp add: lowers_def yields_return den_rel_def)

lemma lowers_done:
  "ok s \<Longrightarrow> den s v = Some x \<Longrightarrow> lowers cap ok den s (State_Monad.return (Inr v)) (State_Monad.return (Inr x))"
  by (simp add: lowers_def yields_return den_rel_def)

lemma lowers_if:
  assumes "c \<Longrightarrow> lowers cap ok den s m1 x1" and "\<not> c \<Longrightarrow> lowers cap ok den s m2 x2"
  shows "lowers cap ok den s (if c then m1 else m2) (if c then x1 else x2)"
  using assms by simp

lemma lowers_option:
  assumes "lowers cap ok den s m1 x1" and "\<And>a. lowers cap ok den s (m2 a) (x2 a)"
  shows "lowers cap ok den s (case z of None \<Rightarrow> m1 | Some a \<Rightarrow> m2 a) (case z of None \<Rightarrow> x1 | Some a \<Rightarrow> x2 a)"
  using assms by (cases z) simp_all

lemma lowers_and_then:
  assumes "lowers cap ok den s m mx" and "\<And>v. consumes cap (f v)"
    and "\<And>v x s'. ok s' \<Longrightarrow> extends den s s' \<Longrightarrow> den s' v = Some x \<Longrightarrow> lowers cap ok den s' (f v) (g x)"
  shows "lowers cap ok den s (and_then m f) (and_then mx g)"
  unfolding lowers_def and_then_def value_of_simps
proof (rule yields_bind [OF assms(1) [unfolded lowers_def]])
  show "consumes cap (case r of Inl e \<Rightarrow> State_Monad.return (Inl e) | Inr v \<Rightarrow> f v)" for r
    using assms(2) by (cases r) (simp_all add: consumes_return)
next
  fix r s' assume "ok s'" "extends den s s'" "den_rel den s' r (value_of mx)"
  then show "yields cap ok den s' (case r of Inl e \<Rightarrow> State_Monad.return (Inl e) | Inr v \<Rightarrow> f v)
      (\<lambda>s' r. den_rel den s' r (value_of (case value_of mx of Inl e \<Rightarrow> State_Monad.return (Inl e) | Inr v \<Rightarrow> g v)))"
    using assms(3) [unfolded lowers_def]
    by (cases r; cases "value_of mx") (auto simp: den_rel_def intro!: yields_return)
qed

lemmas lowers_steps = lowers_if lowers_option lowers_emit lowers_fail lowers_done lowers_and_then
  follows_steps follows_mulhu follows_negate

lemma lowers_udiv_magic:
  assumes "ok s" "den s n = Some x"
  shows "lowers cap ok den s (udiv_magic S n d w bits) (udiv_magic (vm_sink F) x d w bits)"
  unfolding udiv_magic_def Let_def by (intro lowers_steps consumes_mulhu) (auto dest: extendsD intro: assms)

lemma lowers_sdiv_magic:
  assumes "ok s" "den s n = Some x"
  shows "lowers cap ok den s (sdiv_magic S n d w) (sdiv_magic (vm_sink F) x d w)"
  unfolding sdiv_magic_def by (intro lowers_steps consumes_mulhu) (auto dest: extendsD intro: assms)

lemma lowers_lower_udivmod:
  assumes "ok s" "den s n = Some x"
  shows "lowers cap ok den s (lower_udivmod S want_rem n du w bits)
           (lower_udivmod (vm_sink F) want_rem x du w bits)"
  unfolding lower_udivmod_def
  by (intro lowers_steps lowers_udiv_magic consumes_udiv_magic) (auto dest: extendsD intro: assms)

lemma extends_trans: "extends den s s' \<Longrightarrow> extends den s' s'' \<Longrightarrow> extends den s s''"
  by (simp add: extends_def)

lemma follows_bias:
  assumes "ok s" "den s n = Some x"
    and "\<And>adj bias. consumes cap (f adj bias)"
    and step: "\<And>adj bias a b s'. ok s' \<Longrightarrow> extends den s s' \<Longrightarrow> den s' adj = Some a \<Longrightarrow>
           den s' bias = Some b \<Longrightarrow> follows cap ok den s' (f adj bias) (g a b)"
  shows "follows cap ok den s (State_Monad.bind (sdiv_pow2_bias S n k w) (\<lambda>(adj, bias). f adj bias))
           (State_Monad.bind (sdiv_pow2_bias (vm_sink F) x k w) (\<lambda>(a, b). g a b))"
  unfolding sdiv_pow2_bias_def State_Monad.bind_assoc State_Monad.bind_left_identity prod.case
  by (intro follows_steps step) (auto dest: extendsD extends_trans intro: assms)

lemma lowers_lower_divmod:
  assumes "ok s" "den s n = Some x"
  shows "lowers cap ok den s (lower_divmod S op n d w) (lower_divmod (vm_sink F) op x d w)"
  unfolding lower_divmod_def Let_def
  by (intro follows_bias lowers_steps lowers_lower_udivmod lowers_sdiv_magic
      consumes_sdiv_magic consumes_bias consumes_negate)
     (auto dest: extendsD intro: assms)

text \<open>
  Over a lawful sink the lowering succeeds exactly where the reference one does, and the value it
  hands back denotes the reference value.
\<close>

lemma lower_divmod_refines:
  assumes "ok s" "den s n = Some x" "run_state (lower_divmod S op n d w) s = (r, s')" "cap s'"
  shows "ok s'" and "extends den s s'" and "den_rel den s' r (value_of (lower_divmod (vm_sink F) op x d w))"
  using lowers_lower_divmod [OF assms(1,2), of op d w] assms(3,4) by (simp_all add: lowers_def yields_def)

end

end
