(* ===== verification/Magic_Correct.thy ===== *)
theory Magic_Correct
  imports Magic
begin

text \<open>
  Correctness of the constant-divide lowering: over the reference sink, and hence over every
  lawful sink, the emitted sequence computes what the hardware divide it replaces computes.
\<close>

section \<open>The steps as integer operations\<close>

lemma binop_val_simps [simp]:
  "binop_val F BinOp_Add x y = x + y"
  "binop_val F BinOp_Sub x y = x - y"
  "binop_val F BinOp_Mul x y = x * y"
  "binop_val F BinOp_And x y = x AND y"
  "binop_val F BinOp_Uge x y = bool_i64 (x \<ge> y)"
  "binop_val F BinOp_Shru x y = drop_bit (shift_count y) x"
  "binop_val F BinOp_Shr x y = signed_drop_bit (shift_count y) x"
  by (simp_all add: binop_val_def apply_binop_def eval_int_binop_def)

lemma shift_count_numerals [simp]: "shift_count 1 = 1" "shift_count 63 = 63"
  by (simp_all add: shift_count_eq)

lemma shift_right_val:
  assumes "k < 64"
  shows "value_of (shift_right (vm_sink F) BinOp_Shru x k) = drop_bit k x"
    and "value_of (shift_right (vm_sink F) BinOp_Shr x k) = signed_drop_bit k x"
  using assms by (simp_all add: shift_right_def shift_count_of_nat)

lemma mulhu_64: "binop_val F BinOp_Mulhu x y = word_of_nat (unat x * unat y div 2 ^ 64)"
proof -
  have "drop_bit 64 (uint x * uint y) = int (drop_bit 64 (unat x * unat y))"
    by (simp only: uint_nat of_nat_drop_bit of_nat_mult)
  then show ?thesis
    by (simp only: binop_val_def apply_binop_def BinOp.case sum.case of_int_of_nat_eq drop_bit_eq_div)
qed

lemma unat_mulhu_64: "unat (binop_val F BinOp_Mulhu x y) = unat x * unat y div 2 ^ 64"
proof -
  have "unat x * unat y < 2 ^ 64 * 2 ^ 64"
    using unsigned_less [of x] unsigned_less [of y] by (intro mult_strict_mono) simp_all
  then have "unat x * unat y div 2 ^ 64 < 2 ^ 64" by (simp add: less_mult_imp_div_less)
  then show ?thesis unfolding mulhu_64 by (intro unat_of_nat_small) simp
qed

lemma unat_mulhu:
  assumes w: "w = 32 \<or> w = 64" and "unat n < 2 ^ w" "unat m < 2 ^ w" "extra < w"
  shows "unat (value_of (mulhu (vm_sink F) n m w extra)) = unat n * unat m div 2 ^ (w + extra)"
  using w
proof
  assume w: "w = 32"
  have "unat n * unat m < 2 ^ 32 * 2 ^ 32"
    using assms w by (intro mult_strict_mono) simp_all
  then have "unat (n * m) = unat n * unat m" by (simp add: unat_word_ariths)
  then show ?thesis
    using assms(4) w shift_count_of_nat [of "32 + extra"] by (simp add: mulhu_def unat_drop_bit)
next
  assume w: "w = 64"
  then show ?thesis
    using assms(4) by (simp add: mulhu_def shift_right_val unat_drop_bit unat_mulhu_64
        div_mult2_eq power_add)
qed

section \<open>Unsigned division\<close>

lemma trailing_zeros_spec:
  fixes d :: "'a::len word"
  assumes "d \<noteq> 0"
  shows "trailing_zeros d < LENGTH('a)" and "bit d (trailing_zeros d)"
    and "\<And>i. i < trailing_zeros d \<Longrightarrow> \<not> bit d i"
proof -
  obtain i where i: "i < LENGTH('a)" "bit d i"
    using assms bit_word_eqI [of d 0] by (auto simp: bit_simps)
  let ?tw = "takeWhile (\<lambda>i. \<not> bit d i) [0..<LENGTH('a)]"
  have tz: "trailing_zeros d = length ?tw" by (simp add: trailing_zeros_def)
  have "length ?tw \<noteq> length [0..<LENGTH('a)]"
    using i by (metis length_upt minus_nat.diff_0 nth_length_takeWhile set_takeWhileD
        atLeastLessThan_iff set_upt takeWhile_eq_take take_all order_refl zero_le nth_mem length_takeWhile_le)
  then have lt: "length ?tw < LENGTH('a)"
    using length_takeWhile_le [of "\<lambda>i. \<not> bit d i" "[0..<LENGTH('a)]"] by simp
  then show "trailing_zeros d < LENGTH('a)" by (simp add: tz)
  show "bit d (trailing_zeros d)"
    using nth_length_takeWhile [of "\<lambda>i. \<not> bit d i" "[0..<LENGTH('a)]"] lt by (simp add: tz)
  show "\<not> bit d i" if "i < trailing_zeros d" for i
    using that lt by (metis add_0 length_upt minus_nat.diff_0 nth_mem nth_upt order.strict_trans
        set_takeWhileD takeWhile_nth tz)
qed

lemma unat_split_trailing_zeros:
  assumes "d \<noteq> 0"
  shows "unat d = unat (drop_bit (trailing_zeros d) d) * 2 ^ trailing_zeros d"
    and "odd (unat (drop_bit (trailing_zeros d) d))"
proof -
  let ?k = "trailing_zeros d"
  have "take_bit ?k d = 0"
    by (rule bit_word_eqI) (auto simp: bit_simps trailing_zeros_spec [OF assms])
  then have "unat d mod 2 ^ ?k = 0"
    by (metis take_bit_eq_mod unsigned_0 unsigned_take_bit_eq)
  then show "unat d = unat (drop_bit ?k d) * 2 ^ ?k"
    by (metis add.right_neutral div_mult_mod_eq unat_drop_bit)
  show "odd (unat (drop_bit ?k d))"
    using trailing_zeros_spec [OF assms]
    by (simp only: unat_drop_bit bit_iff_odd [symmetric] bit_unsigned_iff) simp
qed

text \<open>The add-back form: the multiplier is short by \<open>2^w\<close>, so the high product is short by \<open>n\<close>.\<close>

lemma add_back:
  fixes n m :: nat
  assumes "m < 2 ^ w"
  shows "n * m div 2 ^ w \<le> n"
    and "((n - n * m div 2 ^ w) div 2 + n * m div 2 ^ w) div 2 ^ s = n * (m + 2 ^ w) div 2 ^ (w + s + 1)"
proof -
  let ?t = "n * m div 2 ^ w"
  have "n * m div 2 ^ w \<le> n * 2 ^ w div 2 ^ w" using assms by (intro div_le_mono mult_le_mono2) simp
  then show t: "?t \<le> n" by simp
  have "(n - ?t) div 2 + ?t = (n + ?t) div 2" using t by linarith
  also have "n + ?t = n * (m + 2 ^ w) div 2 ^ w" by (simp add: add_mult_distrib2 add.commute)
  finally show "((n - ?t) div 2 + ?t) div 2 ^ s = n * (m + 2 ^ w) div 2 ^ (w + s + 1)"
    by (simp add: div_mult2_eq [symmetric] power_add mult.assoc mult.left_commute)
qed

lemma udiv_magic_add:
  assumes w: "w = 32 \<or> w = 64" and n: "unat n < 2 ^ w" and m: "unat m < 2 ^ w" and k: "k < w"
    and exact: "unat n * (unat m + 2 ^ w) div 2 ^ (w + k + 1) = unat n div unat d"
  shows "value_of (do {
           t \<leftarrow> mulhu (vm_sink F) n m w 0;
           diff \<leftarrow> sink_binop (vm_sink F) BinOp_Sub n t;
           half \<leftarrow> sink_binop_imm (vm_sink F) BinOp_Shru diff 1;
           total \<leftarrow> sink_binop (vm_sink F) BinOp_Add half t;
           shift_right (vm_sink F) BinOp_Shru total k }) = n div d"
proof -
  let ?t = "value_of (mulhu (vm_sink F) n m w 0)"
  have k64: "k < 64" using w k by auto
  have t: "unat ?t = unat n * unat m div 2 ^ w"
    using unat_mulhu [OF w n m, of 0] w by auto
  have tn: "unat ?t \<le> unat n" unfolding t by (rule add_back(1) [OF m])
  then have diff: "unat (n - ?t) = unat n - unat ?t" by (simp add: unat_sub_if_size)
  have "unat (drop_bit 1 (n - ?t)) + unat ?t < 2 ^ 64"
    unfolding unat_drop_bit diff using tn unat_lt_64 [of n] by simp
  then have "unat (drop_bit 1 (n - ?t) + ?t) = (unat n - unat ?t) div 2 + unat ?t"
    by (simp add: unat_word_ariths unat_drop_bit diff del: drop_bit_of_1)
  then have "unat (drop_bit k (drop_bit 1 (n - ?t) + ?t)) = unat n div unat d"
    using add_back(2) [OF m, of "unat n" k] exact by (simp only: unat_drop_bit t)
  then show ?thesis
    using shift_right_val(1) [OF k64] by (simp add: word_unat_eq_iff unat_div_distrib)
qed

text \<open>An even divisor: the numerator is shifted first and the odd part divides the rest.\<close>

lemma odd_part:
  assumes d: "d \<noteq> 0" "\<And>k. unat d \<noteq> 2 ^ k" "unat d < 2 ^ w"
  defines "t \<equiv> trailing_zeros d"
  shows "3 \<le> unat (drop_bit t d)" and "\<And>k. unat (drop_bit t d) \<noteq> 2 ^ k"
    and "t < w" and "unat (drop_bit t d) < 2 ^ (w - t)" and "unat (drop_bit t d) \<le> unat d"
proof -
  note sp = unat_split_trailing_zeros [OF d(1), folded t_def]
  show o3: "3 \<le> unat (drop_bit t d)"
  proof (rule ccontr)
    assume "\<not> 3 \<le> unat (drop_bit t d)"
    then have "unat (drop_bit t d) < 3" by simp
    then have "unat (drop_bit t d) = 1"
      using sp(2) by (auto simp: less_Suc_eq numeral_3_eq_3 simp del: unsigned_drop_bit_eq)
    then show False using sp(1) d(2) by simp
  qed
  show "unat (drop_bit t d) \<noteq> 2 ^ k" for k using sp(2) o3 by (cases k) auto
  show tw: "t < w"
  proof (rule ccontr)
    assume "\<not> t < w"
    then have "(2 :: nat) ^ w \<le> 2 ^ t" by (intro power_increasing) simp_all
    also have "\<dots> \<le> unat (drop_bit t d) * 2 ^ t" using o3 by simp
    finally show False using sp(1) d(3) by simp
  qed
  show "unat (drop_bit t d) < 2 ^ (w - t)"
    unfolding unat_drop_bit using d(3) tw by (intro less_mult_imp_div_less) (simp flip: power_add)
  show "unat (drop_bit t d) \<le> unat d" by (simp add: unat_drop_bit)
qed

lemma udiv_magic_even:
  assumes w: "w = 32 \<or> w = 64" and d: "d \<noteq> 0" "\<And>k. unat d \<noteq> 2 ^ k" "unat d < 2 ^ (w - 1)"
    and n: "unat n < 2 ^ w" and t0: "0 < trailing_zeros d"
  shows "value_of (udiv_magic (vm_sink F) n d w w) = Inr (n div d)"
proof -
  let ?t = "trailing_zeros d" and ?o = "drop_bit (trailing_zeros d) d"
    and ?p = "drop_bit (trailing_zeros d) n"
  have w64: "w \<le> 64" using w by auto
  have "(2 :: nat) ^ (w - 1) \<le> 2 ^ w" by (intro power_increasing) simp_all
  then have dw: "unat d < 2 ^ w" by (rule less_le_trans [OF d(3)])
  note o = odd_part [OF d(1,2) dw]
  have oh: "unat ?o < 2 ^ (w - 1)" using o(5) d(3) by (rule le_less_trans)
  have pb: "unat ?p < 2 ^ (w - ?t)"
    unfolding unat_drop_bit using n o(3) by (intro less_mult_imp_div_less) (simp flip: power_add)
  obtain om where om: "magic_unsigned ?o w (w - ?t) = Some om" "unat (um_m om) < 2 ^ w"
    "um_add om \<longrightarrow> w - ?t = w" "um_shift om < w"
    "\<not> um_add om \<Longrightarrow> unat ?p * unat (um_m om) div 2 ^ (w + um_shift om) = unat ?p div unat ?o"
    using magic_unsigned_exact [OF o(1,2) oh o(4) _ w64] pb by (metis diff_le_self)
  have na: "\<not> um_add om" using om(3) t0 o(3) by auto
  have "unat ?p \<le> unat n" by (simp add: unat_drop_bit)
  then have pw: "unat ?p < 2 ^ w" using n by (rule le_less_trans)
  have "unat ?p div unat ?o = unat n div unat d"
    using unat_split_trailing_zeros(1) [OF d(1)] by (metis div_mult2_eq mult.commute unat_drop_bit)
  then have "value_of (mulhu (vm_sink F) ?p (um_m om) w (um_shift om)) = n div d"
    using unat_mulhu [OF w pw om(2,4)] om(5) [OF na] by (simp add: word_unat_eq_iff unat_div_distrib)
  moreover have "shift_count (word_of_nat ?t) = ?t" using o(3) w64 by (intro shift_count_of_nat) simp
  ultimately show ?thesis using t0 om(1) na by (simp add: udiv_magic_def Let_def)
qed

lemma udiv_magic_val:
  assumes w: "w = 32 \<or> w = 64"
    and d: "3 \<le> unat d" "\<And>k. unat d \<noteq> 2 ^ k" "unat d < 2 ^ (w - 1)" "unat d < 2 ^ bits"
    and bits: "bits \<le> w" and n: "unat n < 2 ^ bits"
  shows "value_of (udiv_magic (vm_sink F) n d w bits) = Inr (n div d)"
proof -
  have w64: "w \<le> 64" using w by auto
  have "(2 :: nat) ^ bits \<le> 2 ^ w" using bits by (intro power_increasing) simp_all
  then have nw: "unat n < 2 ^ w" by (rule less_le_trans [OF n])
  obtain mag where mag: "magic_unsigned d w bits = Some mag" "unat (um_m mag) < 2 ^ w"
    "um_add mag \<longrightarrow> bits = w" "um_shift mag < w"
    "\<not> um_add mag \<Longrightarrow> unat n * unat (um_m mag) div 2 ^ (w + um_shift mag) = unat n div unat d"
    "um_add mag \<Longrightarrow> unat n * (unat (um_m mag) + 2 ^ w) div 2 ^ (w + um_shift mag + 1) = unat n div unat d"
    using magic_unsigned_exact [OF d bits w64] n by metis
  have plain: "value_of (mulhu (vm_sink F) n (um_m mag) w (um_shift mag)) = n div d" if "\<not> um_add mag"
    using unat_mulhu [OF w nw mag(2,4)] mag(5) [OF that] by (simp add: word_unat_eq_iff unat_div_distrib)
  note added = udiv_magic_add [OF w nw mag(2,4) mag(6)]
  consider "bits < w" | "bits = w" "0 < trailing_zeros d" | "bits = w" "trailing_zeros d = 0"
    using bits by linarith
  then show ?thesis
  proof cases
    case 1
    then show ?thesis using plain mag(1,3) by (simp add: udiv_magic_def)
  next
    case 2
    have "d \<noteq> 0" using d(1) by auto
    then show ?thesis unfolding 2(1) using udiv_magic_even [OF w _ d(2,3) nw 2(2)] by blast
  next
    case 3
    then show ?thesis using plain added mag(1) by (simp add: udiv_magic_def)
  qed
qed

lemma unat_bound_drop:
  assumes "bits < 64 \<Longrightarrow> drop_bit bits du = 0" and "bits \<le> 64"
  shows "unat (du :: u64) < 2 ^ bits"
proof (cases "bits < 64")
  case True
  then have "unat (drop_bit bits du) = 0" using assms(1) by simp
  then have "unat du div 2 ^ bits = 0" by (simp only: unat_drop_bit)
  then show ?thesis by (simp add: div_eq_0_iff)
next
  case False
  then have "bits = 64" using assms(2) by simp
  then show ?thesis using unat_lt_64 [of du] by simp
qed

lemma below_divisor_word:
  assumes "unat (n :: u64) < unat d"
  shows "n div d = 0" and "n mod d = n"
  using assms by (simp_all add: word_unat_eq_iff unat_div_distrib unat_mod_distrib)

lemma pow2_log_Some:
  "pow2_log x = Some k \<Longrightarrow> k < 64 \<and> x = push_bit k 1"
  by (auto simp: pow2_log_def is_power_of_two_iff trailing_zeros_push_bit simp del: push_bit_of_1
      split: if_splits)

lemma pow2_log_None: "pow2_log x = None \<Longrightarrow> unat x \<noteq> 2 ^ k"
  by (auto simp: pow2_log_def is_power_of_two_unat split: if_splits)

lemma pow2_divmod_word:
  assumes "k < 64"
  shows "(n :: u64) div push_bit k 1 = drop_bit k n" and "n mod push_bit k 1 = n AND (push_bit k 1 - 1)"
proof -
  show "n div push_bit k 1 = drop_bit k n" by (simp add: drop_bit_eq_div)
  show "n mod push_bit k 1 = n AND (push_bit k 1 - 1)"
    by (simp add: take_bit_eq_mask mask_eq_exp_minus_1 flip: take_bit_eq_mod)
qed

lemma large_divisor_word:
  assumes "w = 32 \<or> w = 64" and "unat n < 2 ^ w" and "push_bit (w - 1) 1 < (du :: u64)"
  shows "n div du = bool_i64 (n \<ge> du)"
proof -
  have "unat (push_bit (w - 1) 1 :: u64) = 2 ^ (w - 1)"
    using assms(1) by (intro unat_push_bit_1) auto
  then have "2 ^ (w - 1) < unat du" using assms(3) by (simp only: word_less_nat_alt)
  moreover have "(2 :: nat) ^ w = 2 * 2 ^ (w - 1)" using assms(1) by auto
  ultimately have "unat n < unat du * 2" using assms(2) by simp
  then have "unat n div unat du = (if unat n \<ge> unat du then 1 else 0)"
    by (auto simp: div_eq_0_iff intro: div_nat_eqI)
  then show ?thesis
    by (auto simp: bool_i64_def word_unat_eq_iff unat_div_distrib word_le_nat_alt)
qed

lemma lower_udivmod_val:
  assumes w: "w = 32 \<or> w = 64" and bits: "1 \<le> bits" "bits \<le> w" and n: "unat n < 2 ^ bits"
  shows "value_of (lower_udivmod (vm_sink F) want_rem n du w bits) =
           (if du = 0 then Inl (Err ()) else Inr (if want_rem then n mod du else n div du))"
proof -
  have w64: "w \<le> 64" using w by auto
  have "(2 :: nat) ^ bits \<le> 2 ^ w" using bits by (intro power_increasing) simp_all
  then have nw: "unat n < 2 ^ w" by (rule less_le_trans [OF n])
  consider "du = 0" | "du = 1" | "du \<noteq> 0" "du \<noteq> 1" "bits < 64" "drop_bit bits du \<noteq> 0"
    | k where "du \<noteq> 0" "du \<noteq> 1" "bits < 64 \<longrightarrow> drop_bit bits du = 0" "pow2_log du = Some k"
    | "du \<noteq> 0" "du \<noteq> 1" "bits < 64 \<longrightarrow> drop_bit bits du = 0" "pow2_log du = None"
    by fastforce
  then show ?thesis
  proof cases
    case 1
    then show ?thesis by (simp add: lower_udivmod_def)
  next
    case 2
    then show ?thesis by (simp add: lower_udivmod_def)
  next
    case 3
    have "2 ^ bits \<le> unat du"
    proof (rule ccontr)
      assume "\<not> 2 ^ bits \<le> unat du"
      then have "unat (drop_bit bits du) = 0" by (simp add: unat_drop_bit)
      then show False using 3(4) by (simp only: unat_eq_0)
    qed
    then have "unat n < unat du" by (rule less_le_trans [OF n])
    then show ?thesis using 3 below_divisor_word by (simp add: lower_udivmod_def)
  next
    case 4
    note k = pow2_log_Some [OF 4(4)]
    then show ?thesis
      using 4 pow2_divmod_word [of k n] shift_count_of_nat [of k]
      by (auto simp: lower_udivmod_def simp del: push_bit_of_1)
  next
    case 5
    have bits64: "bits \<le> 64" using bits w64 by simp
    have db: "unat du < 2 ^ bits" using unat_bound_drop [OF _ bits64] 5(3) by blast
    note np = pow2_log_None [OF 5(4)]
    have "unat du \<noteq> 0" "unat du \<noteq> 1" "unat du \<noteq> 2"
      using 5(1,2) np [of 1] by (simp_all add: word_unat_eq_iff)
    then have d3: "3 \<le> unat du" by linarith
    have q: "value_of (if du > push_bit (w - 1) 1 then emit (sink_binop_imm (vm_sink F) BinOp_Uge n du)
                else udiv_magic (vm_sink F) n du w bits) = Inr (n div du)"
    proof (cases "du > push_bit (w - 1) 1")
      case True
      then show ?thesis using large_divisor_word [OF w nw True] by (simp del: push_bit_of_1)
    next
      case False
      have "unat (push_bit (w - 1) 1 :: u64) = 2 ^ (w - 1)" using w by (intro unat_push_bit_1) auto
      then have "unat du \<le> 2 ^ (w - 1)" using False by (simp only: not_less word_le_nat_alt)
      then have "unat du < 2 ^ (w - 1)" using np [of "w - 1"] by (simp add: le_neq_implies_less)
      then show ?thesis
        unfolding if_not_P [OF False] using udiv_magic_val [OF w d3 np _ db bits(2) n] by blast
    qed
    show ?thesis
      using 5 q by (auto simp: lower_udivmod_def and_then_def minus_div_mult_eq_mod simp del: push_bit_of_1)
  qed
qed

end
