(* ===== verification/Magic_Signed.thy ===== *)
theory Magic_Signed
  imports Magic_Correct
begin

text \<open>
  The signed half of the lowering: the multiplier form, the biased power-of-two form and the
  negations, each equal to the truncating division of the interpreter; then the theorem that the
  whole of \<open>lower_divmod\<close> computes what the divide it replaces computes.
\<close>

section \<open>Signed division\<close>

text \<open>A \<open>w\<close>-bit signed operand is its sign extension in the 64-bit register.\<close>

definition fits_signed :: "nat \<Rightarrow> i64 \<Rightarrow> bool" where
  "fits_signed w n \<longleftrightarrow> - (2 ^ (w - 1)) \<le> sint n \<and> sint n < 2 ^ (w - 1)"

lemma fits_signed_64 [simp]: "fits_signed 64 n"
  using sint_ge_64 [of n] sint_lt_64 [of n] by (simp add: fits_signed_def)

lemma drop_bit_sign: "drop_bit 63 (x :: i64) = of_bool (sint x < 0)"
proof (rule bit_word_eqI)
  fix i assume "i < LENGTH(64)"
  have "bit x 63 \<longleftrightarrow> sint x < 0" using bit_last_iff [of x] by simp
  then show "bit (drop_bit 63 x) i \<longleftrightarrow> bit (of_bool (sint x < 0) :: i64) i"
    by (cases i) (auto simp: bit_simps dest: bit_imp_le_length)
qed

lemma mulh_val: "binop_val F BinOp_Mulh x y = word_of_int (sint x * sint y div 2 ^ 64)"
  by (simp add: binop_val_def apply_binop_def drop_bit_eq_div)

lemma high_product_range:
  fixes n m :: int
  assumes "- (2 ^ 63) \<le> n" "n < 2 ^ 63" "0 \<le> m" "m < 2 ^ 64"
  shows "- (2 ^ 63) \<le> n * m div 2 ^ 64" and "n * m div 2 ^ 64 < 2 ^ 63"
proof -
  have "- (2 ^ 63) * 2 ^ 64 \<le> - (2 ^ 63) * m" using assms(4) by simp
  also have "\<dots> \<le> n * m" using assms(1,3) by (intro mult_right_mono) simp_all
  finally have "- (2 ^ 63) * 2 ^ 64 div 2 ^ 64 \<le> n * m div (2 ^ 64 :: int)"
    by (intro zdiv_mono1) simp_all
  then show "- (2 ^ 63) \<le> n * m div 2 ^ 64" by simp
  have "n * m \<le> 2 ^ 63 * m" using assms(2,3) by (intro mult_right_mono) simp_all
  also have "\<dots> < 2 ^ 63 * 2 ^ 64" using assms(4) by simp
  finally have "n * m div 2 ^ 64 \<le> (2 ^ 63 * 2 ^ 64 - 1) div (2 ^ 64 :: int)"
    by (intro zdiv_mono1) simp_all
  then show "n * m div 2 ^ 64 < 2 ^ 63" by simp
qed

text \<open>The high product at 64 bits reads a multiplier above \<open>2^63\<close> as negative; adding the numerator repairs it.\<close>

lemma mulh_add_back:
  fixes n m :: i64
  shows "word_of_int (sint n * sint m div 2 ^ 64) + (if drop_bit 63 m \<noteq> 0 then n else 0) =
     (word_of_int (sint n * uint m div 2 ^ 64) :: i64)"
proof (cases "sint m < 0")
  case True
  then have "uint m = sint m + 2 ^ 64" by (simp add: uint_eq_sint)
  then have "sint n * uint m = sint n * sint m + sint n * 2 ^ 64" by (simp only: distrib_left)
  then have "sint n * uint m div 2 ^ 64 = sint n * sint m div 2 ^ 64 + sint n" by simp
  then show ?thesis using True by (simp add: drop_bit_sign)
next
  case False
  then show ?thesis by (simp add: drop_bit_sign uint_eq_sint)
qed

lemma sint_quotient_64:
  fixes n m :: i64
  shows "sint (signed_drop_bit k (word_of_int (sint n * sint m div 2 ^ 64)
           + (if drop_bit 63 m \<noteq> 0 then n else 0))) = sint n * uint m div 2 ^ (64 + k)"
proof -
  have "sint (word_of_int (sint n * uint m div 2 ^ 64) :: i64) = sint n * uint m div 2 ^ 64"
    using high_product_range [of "sint n" "uint m"] sint_ge_64 [of n] sint_lt_64 [of n] uint_lt_64 [of m]
    by (intro sint_of_int_small) simp_all
  then show ?thesis
    unfolding mulh_add_back sint_signed_drop_bit power_add by (simp only: zdiv_zmult2_eq zero_le_power zero_le_numeral)
qed

lemma sint_product_32:
  fixes n m :: i64
  assumes "fits_signed 32 n" "unat m < 2 ^ 32"
  shows "sint (n * m) = sint n * uint m"
proof -
  have "int (unat m) < int (2 ^ 32)" using assms(2) by (simp only: of_nat_less_iff)
  then have um: "0 \<le> uint m" "uint m < 2 ^ 32"
    by (simp, simp only: uint_nat of_nat_power of_nat_numeral)
  have n: "- (2 ^ 31) \<le> sint n" "sint n \<le> 2 ^ 31" using assms(1) by (simp_all add: fits_signed_def)
  have "- (2 ^ 31) * 2 ^ 32 \<le> - (2 ^ 31) * uint m" using um by simp
  also have "\<dots> \<le> sint n * uint m" using n um by (intro mult_right_mono) simp_all
  finally have lo: "- (2 ^ 63) \<le> sint n * uint m" by simp
  have "sint n * uint m \<le> 2 ^ 31 * uint m" using n um by (intro mult_right_mono) simp_all
  also have "\<dots> < 2 ^ 31 * 2 ^ 32" using um by simp
  finally have hi: "sint n * uint m < 2 ^ 63" by simp
  have "n * m = word_of_int (sint n * uint m)" by simp
  also have "sint \<dots> = sint n * uint m" by (rule sint_of_int_small) (use lo hi in simp_all)
  finally show ?thesis .
qed

lemma sdiv_magic_val:
  assumes w: "w = 32 \<or> w = 64"
    and d: "3 \<le> unat d" "\<And>k. unat d \<noteq> 2 ^ k" "unat d < 2 ^ (w - 1)" and n: "fits_signed w n"
  shows "value_of (sdiv_magic (vm_sink F) n d w) = Inr (word_of_int (sint n sdiv uint d))"
proof -
  have w64: "w \<le> 64" using w by auto
  obtain mag where mag: "magic_signed d w = Some mag" "unat (sm_m mag) < 2 ^ w" "sm_shift mag < w"
    "sint n * uint (sm_m mag) div 2 ^ (w + sm_shift mag) + of_bool (sint n < 0) = sint n sdiv uint d"
    "sint n < 0 \<longleftrightarrow> sint n * uint (sm_m mag) div 2 ^ (w + sm_shift mag) < 0"
    using magic_signed_exact [OF d w64] n unfolding fits_signed_def by metis
  define q0 where "q0 = (if w = 64 then
               signed_drop_bit (sm_shift mag) (word_of_int (sint n * sint (sm_m mag) div 2 ^ 64)
                 + (if drop_bit 63 (sm_m mag) \<noteq> 0 then n else 0))
             else signed_drop_bit (32 + sm_shift mag) (n * sm_m mag))"
  have q0: "sint q0 = sint n * uint (sm_m mag) div 2 ^ (w + sm_shift mag)"
    using w n mag(2) sint_quotient_64 [of "sm_shift mag" n "sm_m mag"] sint_product_32 [of n "sm_m mag"]
    by (auto simp: q0_def sint_signed_drop_bit)
  have "value_of (sdiv_magic (vm_sink F) n d w) = Inr (q0 + drop_bit 63 q0)"
    using w mag(1,3) shift_count_of_nat [of "32 + sm_shift mag"]
    by (auto simp: sdiv_magic_def shift_right_val mulh_val q0_def)
  also have "q0 + drop_bit 63 q0 = word_of_int (sint q0 + of_bool (sint q0 < 0))"
    by (simp add: drop_bit_sign)
  also have "sint q0 + of_bool (sint q0 < 0) = sint n sdiv uint d" using mag(4,5) by (simp only: q0)
  finally show ?thesis .
qed

subsection \<open>Division by a power of two\<close>

lemma sign_copies:
  assumes "fits_signed w n" "w - 1 \<le> j" "j < 64"
  shows "bit n j \<longleftrightarrow> sint n < 0"
proof -
  have h: "(2 :: int) ^ (w - 1) \<le> 2 ^ j" using assms(2) by (intro power_increasing) simp_all
  have "sint n div 2 ^ j = (if sint n < 0 then - 1 else 0)"
  proof (cases "sint n < 0")
    case True
    have "- (2 ^ j) \<le> sint n" using assms(1) h unfolding fits_signed_def by linarith
    then have "sint n div 2 ^ j = - 1" using True by (intro int_div_pos_eq [where r = "sint n + 2 ^ j"]) simp_all
    then show ?thesis using True by simp
  next
    case False
    have "sint n < 2 ^ j" using assms(1) h unfolding fits_signed_def by linarith
    then show ?thesis using False by (simp add: div_pos_pos_trivial)
  qed
  then have "bit (sint n) j \<longleftrightarrow> sint n < 0" by (simp add: bit_iff_odd)
  then show ?thesis using assms(3) by (simp add: bit_sint_iff)
qed

lemma fits_sign_word: "fits_signed 1 (signed_drop_bit 63 n)"
proof -
  have "- 1 \<le> sint n div 2 ^ 63"
    using zdiv_mono1 [of "- (2 ^ 63)" "sint n" "2 ^ 63"] sint_ge_64 [of n] by simp
  moreover have "sint n div 2 ^ 63 \<le> 0"
    using zdiv_mono1 [of "sint n" "2 ^ 63 - 1" "2 ^ 63"] sint_lt_64 [of n] by simp
  ultimately show ?thesis by (simp add: fits_signed_def sint_signed_drop_bit)
qed

lemma uint_mask: "k < 64 \<Longrightarrow> uint (mask k :: i64) = 2 ^ k - 1"
  unfolding uint_mask_eq by (simp add: mask_eq_exp_minus_1 min_def)

lemma drop_bit_uniform:
  fixes x :: i64
  assumes "\<And>j. 64 - k \<le> j \<Longrightarrow> j < 64 \<Longrightarrow> bit x j \<longleftrightarrow> c" and "k \<le> 64"
  shows "drop_bit (64 - k) x = (if c then mask k else 0)"
proof (rule bit_word_eqI)
  fix i assume i: "i < LENGTH(64)"
  have "64 - k + i < 64 \<longleftrightarrow> i < k" using assms(2) by auto
  then have "bit x (64 - k + i) \<longleftrightarrow> i < k \<and> c"
    using assms(1) [of "64 - k + i"] bit_imp_le_length [of x "64 - k + i"] by auto
  then show "bit (drop_bit (64 - k) x) i \<longleftrightarrow> bit (if c then mask k else 0 :: i64) i"
    using i by (simp add: bit_drop_bit_eq bit_mask_iff)
qed

lemma bias_val:
  assumes w: "w = 32 \<or> w = 64" and n: "fits_signed w n" and k: "1 \<le> k" "k < w"
  shows "value_of (sdiv_pow2_bias (vm_sink F) n k w) =
     (n + (if sint n < 0 then mask k else 0), if sint n < 0 then mask k else 0)"
proof -
  have c: "shift_count (word_of_nat (64 - k)) = 64 - k" using k w by (intro shift_count_of_nat) auto
  let ?s = "if k \<le> 65 - w then n else signed_drop_bit 63 n"
  have s: "bit ?s j \<longleftrightarrow> sint n < 0" if "64 - k \<le> j" "j < 64" for j
  proof (cases "k \<le> 65 - w")
    case True
    then have "w - 1 \<le> j" using that w by auto
    then show ?thesis using True sign_copies [OF n _ that(2)] by simp
  next
    case False
    then have "sint (signed_drop_bit 63 n) < 0 \<longleftrightarrow> sint n < 0"
      by (simp add: sint_signed_drop_bit pos_imp_zdiv_neg_iff)
    moreover have "fits_signed 1 (signed_drop_bit 63 n)" by (rule fits_sign_word)
    ultimately show ?thesis using False that sign_copies [of 1 "signed_drop_bit 63 n" j] by simp
  qed
  have "drop_bit (64 - k) ?s = (if sint n < 0 then mask k else 0)"
    using s k w by (intro drop_bit_uniform) auto
  moreover have "value_of (if k \<le> 65 - w then State_Monad.return n
      else sink_binop_imm (vm_sink F) BinOp_Shr n 63) = ?s" by simp
  ultimately show ?thesis unfolding sdiv_pow2_bias_def by (simp only: value_of_simps vm_sink_simps binop_val_simps c)
qed

lemma sdiv_pow2_int:
  fixes n :: int
  shows "n sdiv 2 ^ k = (n + (if n < 0 then 2 ^ k - 1 else 0)) div 2 ^ k"
proof (cases "n < 0")
  case True
  let ?q = "(- n) div 2 ^ k" and ?r = "(- n) mod 2 ^ k"
  have "(- n) = ?q * 2 ^ k + ?r" by (rule div_mult_mod_eq [symmetric])
  then have "n + (2 ^ k - 1) = 2 ^ k * (- ?q) + (2 ^ k - 1 - ?r)" by (simp add: algebra_simps)
  then have "(n + (2 ^ k - 1)) div 2 ^ k = - ?q"
    by (rule int_div_pos_eq)
       (use pos_mod_bound [of "2 ^ k" "- n"] pos_mod_sign [of "2 ^ k" "- n"] zero_less_power [of "2 :: int" k] in linarith)+
  then show ?thesis using True by (simp add: signed_divide_int_def)
next
  case False
  then show ?thesis by (cases "n = 0") (simp_all add: signed_divide_int_def)
qed

text \<open>The quotient and the remainder of the biased form, on the words.\<close>

lemma sint_mask_bias:
  fixes n :: i64
  assumes k: "k < 64" and neg: "sint n < 0 \<or> b = 0" and b: "b = 0 \<or> b = mask k"
  shows "sint (n + b) = sint n + uint b"
proof -
  have "uint (mask k :: i64) = 2 ^ k - 1"
    using k by (simp only: uint_mask)
  moreover have "(2 :: int) ^ k \<le> 2 ^ 63" using k by (intro power_increasing) simp_all
  ultimately have "0 \<le> uint b" "uint b < 2 ^ 63" using b by auto
  note b = this
  have "- (2 ^ 63) \<le> sint n + uint b" using b(1) sint_ge_64 [of n] by (intro add_increasing2) simp_all
  moreover have "sint n + uint b < 2 ^ 63" using neg b sint_lt_64 [of n] by (elim disjE) simp_all
  ultimately have "sint (word_of_int (sint n + uint b) :: i64) = sint n + uint b"
    by (intro sint_of_int_small) simp_all
  then show ?thesis by simp
qed

lemma pow2_signed_val:
  fixes n :: i64
  assumes k: "1 \<le> k" "k < 64"
  defines "b \<equiv> (if sint n < 0 then mask k else 0)"
  shows "signed_drop_bit k (n + b) = word_of_int (sint n sdiv 2 ^ k)"
    and "((n + b) AND (push_bit k 1 - 1)) - b = word_of_int (sint n smod 2 ^ k)"
proof -
  have "uint (mask k :: i64) = 2 ^ k - 1"
    using k by (simp only: uint_mask)
  then have ub: "uint b = (if sint n < 0 then 2 ^ k - 1 else 0)" by (simp add: b_def)
  have sb: "sint (n + b) = sint n + uint b" using k by (intro sint_mask_bias) (auto simp: b_def)
  have dv: "(sint n + uint b) div 2 ^ k = sint n sdiv 2 ^ k" by (simp only: sdiv_pow2_int ub)
  then have "sint (signed_drop_bit k (n + b)) = sint n sdiv 2 ^ k" by (simp only: sint_signed_drop_bit sb)
  then show "signed_drop_bit k (n + b) = word_of_int (sint n sdiv 2 ^ k)" 
    using word_of_int_sint [of "signed_drop_bit k (n + b)"] by simp
  have md: "(sint n + uint b) mod 2 ^ k = sint n smod 2 ^ k + uint b"
    using div_mult_mod_eq [of "sint n + uint b" "2 ^ k"] sdiv_mult_smod_eq [of "sint n" "2 ^ k"]
    unfolding dv by linarith
  have "uint (n + b) mod 2 ^ k = (sint n + uint b) mod 2 ^ k"
    unfolding sb [symmetric] uint_sint [of "n + b"] take_bit_eq_mod
    using mod_mod_cancel [OF le_imp_power_dvd [of k 64 "2 :: int"]] k by simp
  then have "(n + b) AND mask k = word_of_int (sint n smod 2 ^ k + uint b)"
    unfolding and_mask_mod_2p md by (simp only:)
  then show "((n + b) AND (push_bit k 1 - 1)) - b = word_of_int (sint n smod 2 ^ k)"
    by (simp add: mask_eq_exp_minus_1)
qed

section \<open>The whole lowering\<close>

lemma uint_unsigned_abs: "uint (unsigned_abs d) = \<bar>sint d\<bar>"
proof (cases "sint d < 0")
  case True
  have "uint (- d) = (- sint d) mod 2 ^ 64"
    using uint_word_of_int [of "- sint d", where 'a = 64] by simp
  also have "\<dots> = - sint d" using True sint_ge_64 [of d] by (intro mod_pos_pos_trivial) simp_all
  finally show ?thesis using True by (simp add: unsigned_abs_def)
next
  case False
  then show ?thesis by (simp add: unsigned_abs_def uint_eq_sint)
qed

lemma sdiv_smod_abs:
  fixes n d :: int
  shows "n sdiv d = (if d < 0 then - (n sdiv \<bar>d\<bar>) else n sdiv \<bar>d\<bar>)" and "n smod d = n smod \<bar>d\<bar>"
  by (auto simp: signed_divide_int_def signed_modulo_int_def sgn_if)

lemma sdiv_smod_one [simp]: "(n :: int) sdiv 1 = n" "(n :: int) smod 1 = 0"
  by (simp_all add: signed_divide_int_def signed_modulo_int_def mult_sgn_abs)

definition fits_width :: "BinOp \<Rightarrow> nat \<Rightarrow> i64 \<Rightarrow> bool" where
  "fits_width op w n \<longleftrightarrow> (if op \<in> {BinOp_Divu, BinOp_Modu} then unat n < 2 ^ w else fits_signed w n)"

lemma negate_val:
  "value_of (if sint d < 0 then negate (vm_sink F) q else State_Monad.return q) =
     (if sint d < 0 then - q else q)"
  by (simp add: negate_def)

lemma lower_sdivmod_unit:
  assumes op: "op = BinOp_Div \<or> op = BinOp_Mod" and d: "unsigned_abs d = 1"
  shows "value_of (lower_divmod (vm_sink F) op n d w) =
           Inr (if op = BinOp_Mod then wrapping_rem n d else wrapping_div n d)"
proof -
  have "\<bar>sint d\<bar> = 1" using uint_unsigned_abs [of d] d by simp
  then show ?thesis using d op
    by (auto simp: lower_divmod_def negate_def wrapping_div_def wrapping_rem_def sdiv_smod_abs [of _ "sint d"])
qed

lemma lower_sdivmod_pow2:
  assumes w: "w = 32 \<or> w = 64" and op: "op = BinOp_Div \<or> op = BinOp_Mod"
    and n: "fits_signed w n" and d: "fits_signed w d" "d \<noteq> 0"
    and a: "unsigned_abs d \<noteq> 1" "pow2_log (unsigned_abs d) = Some k"
  shows "value_of (lower_divmod (vm_sink F) op n d w) =
           Inr (if op = BinOp_Mod then wrapping_rem n d else wrapping_div n d)"
proof -
  note k = pow2_log_Some [OF a(2)]
  then have "uint (unsigned_abs d) = int (2 ^ k)" using unat_push_bit_1 [of k, where 'a = 64] by (simp only: uint_nat) simp
  then have ak: "\<bar>sint d\<bar> = 2 ^ k" using uint_unsigned_abs [of d] by simp
  have "\<bar>sint d\<bar> \<le> 2 ^ (w - 1)" using d(1) unfolding fits_signed_def by linarith
  then have "k \<le> w - 1" by (simp add: ak)
  moreover have "k \<noteq> 0" using a(1) k by (auto intro: ccontr)
  ultimately have kw: "1 \<le> k" "k < w" using w by auto
  then have k64: "k < 64" using w by auto
  show ?thesis
    unfolding lower_divmod_def Let_def
    using a op d(2) bias_val [OF w n kw] pow2_signed_val [OF kw(1) k64, of n] shift_count_of_nat [OF k64] k
    by (auto simp: negate_def wrapping_div_def wrapping_rem_def sdiv_smod_abs [of _ "sint d"] ak simp del: push_bit_of_1)
qed

lemma lower_sdivmod_magic:
  assumes w: "w = 32 \<or> w = 64" and op: "op = BinOp_Div \<or> op = BinOp_Mod"
    and n: "fits_signed w n" and d: "fits_signed w d" "d \<noteq> 0"
    and a: "unsigned_abs d \<noteq> 1" "pow2_log (unsigned_abs d) = None"
  shows "value_of (lower_divmod (vm_sink F) op n d w) =
           Inr (if op = BinOp_Mod then wrapping_rem n d else wrapping_div n d)"
proof -
  let ?a = "unsigned_abs d"
  note np = pow2_log_None [OF a(2)]
  have ua: "int (unat ?a) = \<bar>sint d\<bar>" using uint_unsigned_abs [of d] by (simp only: uint_nat)
  have "unat ?a \<noteq> 0" 
  proof
    assume "unat ?a = 0"
    then have "sint d = 0" using ua by (simp only: of_nat_0 abs_0_eq)
    then show False using d(2) word_eq_sint [of d 0] by simp
  qed
  moreover have "unat ?a \<noteq> 1" "unat ?a \<noteq> 2" using np [of 0] np [of 1] by (simp_all only: power_0 power_one_right not_False_eq_True)
  ultimately have a3: "3 \<le> unat ?a" by linarith
  have "\<bar>sint d\<bar> \<le> 2 ^ (w - 1)" using d(1) unfolding fits_signed_def by linarith
  then have "int (unat ?a) \<le> int (2 ^ (w - 1))" unfolding ua by simp
  then have "unat ?a \<le> 2 ^ (w - 1)" by (simp only: of_nat_le_iff)
  then have aw: "unat ?a < 2 ^ (w - 1)" using np [of "w - 1"] by (simp add: le_neq_implies_less)
  have q: "value_of (sdiv_magic (vm_sink F) n ?a w) = Inr (word_of_int (sint n sdiv \<bar>sint d\<bar>))"
    using sdiv_magic_val [OF w a3 np aw n] by (simp add: uint_unsigned_abs)
  have s: "(if sint d < 0 then - word_of_int (sint n sdiv \<bar>sint d\<bar>) else word_of_int (sint n sdiv \<bar>sint d\<bar>)) = wrapping_div n d"
    unfolding wrapping_div_def by (subst sdiv_smod_abs(1) [of _ "sint d"]) simp
  have r: "n - wrapping_div n d * d = wrapping_rem n d"
    unfolding wrapping_div_def wrapping_rem_def minus_sdiv_mult_eq_smod [symmetric] by simp
  show ?thesis
    unfolding lower_divmod_def Let_def using op
    by (elim disjE) (simp_all add: and_then_def a d(2) q negate_val s r)
qed

lemma lower_sdivmod_val:
  assumes w: "w = 32 \<or> w = 64" and op: "op = BinOp_Div \<or> op = BinOp_Mod"
    and n: "fits_signed w n" and d: "fits_signed w d"
  shows "value_of (lower_divmod (vm_sink F) op n d w) =
           (if d = 0 then Inl (Err ())
            else Inr (if op = BinOp_Mod then wrapping_rem n d else wrapping_div n d))"
proof (cases "d = 0")
  case True
  then show ?thesis using op by (auto simp: lower_divmod_def)
next
  case False
  then show ?thesis
    using lower_sdivmod_unit [OF op] lower_sdivmod_pow2 [OF w op n d] lower_sdivmod_magic [OF w op n d]
    by (cases "unsigned_abs d = 1"; cases "pow2_log (unsigned_abs d)") simp_all
qed

text \<open>
  The divide the lowering replaces: on \<open>w\<close> bits an unsigned operator reads the low \<open>w\<close>
  bits of the divisor.
\<close>

definition divisor_at :: "BinOp \<Rightarrow> nat \<Rightarrow> i64 \<Rightarrow> i64" where
  "divisor_at op w d = (if op \<in> {BinOp_Divu, BinOp_Modu} then take_bit w d else d)"

lemma lower_divmod_value:
  assumes w: "w = 32 \<or> w = 64" and op: "is_divmod_op op"
    and n: "fits_width op w n" and d: "op \<in> {BinOp_Div, BinOp_Mod} \<Longrightarrow> fits_signed w d"
  shows "value_of (lower_divmod (vm_sink F) op n d w) =
           (case apply_binop F op n (divisor_at op w d) of Inl _ \<Rightarrow> Inl (Err ()) | Inr v \<Rightarrow> Inr v)"
proof (cases "op = BinOp_Divu \<or> op = BinOp_Modu")
  case True
  have t: "(if w = 64 then d else d AND 0xffffffff) = take_bit w d"
    using w by (elim disjE) (simp_all add: take_bit_word_eq_self, simp add: take_bit_eq_mask mask_eq_exp_minus_1)
  show ?thesis
    using True lower_udivmod_val [OF w, of w n F] n w
    by (auto simp: lower_divmod_def t divisor_at_def fits_width_def apply_binop_def eval_int_binop_def)
next
  case False
  then have o: "op = BinOp_Div \<or> op = BinOp_Mod" using op by (auto simp: is_divmod_op_def)
  then show ?thesis
    using lower_sdivmod_val [OF w o, of n d F] n d
    by (auto simp: fits_width_def divisor_at_def apply_binop_def eval_int_binop_def)
qed

end
