(* ===== verification/Ir_Asm.thy ===== *)
theory Ir_Asm
  imports Ir
begin

text \<open>
  Inline assembly in the IR, \<^verbatim>\<open>src/src/c5/ir.rs\<close>: operand constraints, the operand
  and statement records, and the scans of a template that the frame passes rely on.  A template is
  a Rust byte vector and is a \<open>string\<close> here, whose characters are bytes.
\<close>

datatype AsmRegSize = AsmRegSize_Byte | AsmRegSize_Word | AsmRegSize_Long | AsmRegSize_Quad

definition from_width :: "nat \<Rightarrow> AsmRegSize" where
  "from_width width =
     (if width = 1 then AsmRegSize_Byte else if width = 2 then AsmRegSize_Word
      else if width = 4 then AsmRegSize_Long else AsmRegSize_Quad)"

fun reg_size_bytes :: "AsmRegSize \<Rightarrow> nat" where
  "reg_size_bytes AsmRegSize_Byte = 1"
| "reg_size_bytes AsmRegSize_Word = 2"
| "reg_size_bytes AsmRegSize_Long = 4"
| "reg_size_bytes AsmRegSize_Quad = 8"

datatype AsmConstraint =
    AsmConstraint_Reg
  | AsmConstraint_Fp
  | AsmConstraint_Fixed nat
  | AsmConstraint_Bound nat
  | AsmConstraint_Match nat
  | AsmConstraint_RegOrImm "nat option" char
  | AsmConstraint_Imm
  | AsmConstraint_Mem
  | AsmConstraint_Flags nat
  | AsmConstraint_MemBase

datatype AsmSeg = AsmSeg_None | AsmSeg_Gs | AsmSeg_Fs

record AsmOperand =
  constraint :: AsmConstraint
  is_output :: bool
  is_rw :: bool
  op_width :: nat
  op_seg :: AsmSeg
  static_arg :: bool
  op_value :: bool
  volatile_object :: bool
  early_clobber :: bool
  fp_limit :: nat

record AsmBlock =
  template :: string
  operands :: "AsmOperand list"
  clobber_regs :: u32
  clobber_fp_regs :: u32
  clobber_memory :: bool
  volatile_asm :: bool

definition asm_operand_class :: "AsmOperand list \<Rightarrow> nat \<Rightarrow> AsmConstraint option" where
  "asm_operand_class ops i =
     (if i < length ops then
        Some (case constraint (ops ! i) of
                AsmConstraint_Match n \<Rightarrow>
                  if n < length ops then constraint (ops ! n) else AsmConstraint_Match n
              | c \<Rightarrow> c)
      else None)"

definition operand_class :: "AsmBlock \<Rightarrow> nat \<Rightarrow> AsmConstraint option" where
  "operand_class a i = asm_operand_class (operands a) i"

section \<open>Template scans\<close>

abbreviation byte_of :: "char \<Rightarrow> nat" where
  "byte_of c \<equiv> of_char c"

definition is_ascii_digit :: "char \<Rightarrow> bool" where
  "is_ascii_digit c \<longleftrightarrow> 48 \<le> byte_of c \<and> byte_of c \<le> 57"

definition is_ascii_alphabetic :: "char \<Rightarrow> bool" where
  "is_ascii_alphabetic c \<longleftrightarrow>
     (65 \<le> byte_of c \<and> byte_of c \<le> 90) \<or> (97 \<le> byte_of c \<and> byte_of c \<le> 122)"

definition is_word :: "char \<Rightarrow> bool" where
  "is_word c \<longleftrightarrow> is_ascii_alphabetic c \<or> is_ascii_digit c \<or> c = CHR ''_''"

definition to_ascii_lowercase :: "char \<Rightarrow> char" where
  "to_ascii_lowercase c =
     (if 65 \<le> byte_of c \<and> byte_of c \<le> 90 then char_of (byte_of c + 32) else c)"

text \<open>\<open>str::parse::<usize>\<close> of a non-empty digit string: \<open>None\<close> when the value leaves 64 bits.\<close>

definition parse_usize :: "string \<Rightarrow> nat option" where
  "parse_usize s =
     (let n = foldl (\<lambda>acc c. acc * 10 + (byte_of c - 48)) 0 s
      in if n < 2 ^ 64 then Some n else None)"

text \<open>
  The scan for a reference to operand \<open>idx\<close>; the state of the Rust loop is the suffix of the
  template at its index.
\<close>

function names_operand_from :: "nat \<Rightarrow> string \<Rightarrow> bool" where
  "names_operand_from idx t =
     (case t of
        [] \<Rightarrow> False
      | [_] \<Rightarrow> False
      | c # c' # rest \<Rightarrow>
          if c \<noteq> CHR ''%'' then names_operand_from idx (c' # rest)
          else if c' = CHR ''%'' then names_operand_from idx rest
          else
            let r = (if is_ascii_alphabetic c' then rest else c' # rest);
                digits = takeWhile is_ascii_digit r
            in if digits = [] then names_operand_from idx (c' # rest)
               else if \<not> (c' = CHR ''l'') \<and> parse_usize digits = Some idx then True
               else names_operand_from idx (dropWhile is_ascii_digit r))"
  by pat_completeness auto
termination
proof (relation "measure (\<lambda>(_, t). length t)", goal_cases)
  case (5 idx t c l c' rest r digits)
  have "length (dropWhile is_ascii_digit r) \<le> length r" by (rule length_dropWhile_le)
  then show ?case using 5 by (auto split: if_splits)
qed auto

definition names_operand :: "AsmBlock \<Rightarrow> nat \<Rightarrow> bool" where
  "names_operand a idx = names_operand_from idx (template a)"

definition names_bound_operand :: "AsmBlock \<Rightarrow> bool \<Rightarrow> bool" where
  "names_bound_operand a out =
     list_ex (\<lambda>(i, o').
       (case constraint o' of AsmConstraint_Bound _ \<Rightarrow> True | _ \<Rightarrow> False)
       \<and> (is_output o' \<or> \<not> out) \<and> names_operand a i)
       (enumerate 0 (operands a))"

definition sp_names :: "string list" where
  "sp_names = [''sp'', ''wsp'', ''rsp'', ''esp'', ''spl'']"

text \<open>The byte ranges of the stack-pointer names, from the byte at \<open>i\<close> on.\<close>

function sp_tokens_from :: "nat \<Rightarrow> string \<Rightarrow> (nat \<times> nat) list" where
  "sp_tokens_from i t =
     (case t of
        [] \<Rightarrow> []
      | c # rest \<Rightarrow>
          if \<not> is_word c then sp_tokens_from (i + 1) rest
          else
            let w = takeWhile is_word t; e = i + length w
            in if map to_ascii_lowercase w \<in> set sp_names
               then (i, e) # sp_tokens_from e (dropWhile is_word t)
               else sp_tokens_from e (dropWhile is_word t))"
  by pat_completeness auto
termination
  by (relation "measure (\<lambda>(_, t). length t)") (auto simp: le_imp_less_Suc length_dropWhile_le)

definition sp_tokens :: "string \<Rightarrow> (nat \<times> nat) list" where
  "sp_tokens t = sp_tokens_from 0 t"

definition references_sp :: "AsmBlock \<Rightarrow> bool" where
  "references_sp a \<longleftrightarrow> names_bound_operand a False \<or> sp_tokens (template a) \<noteq> []"

definition clobbers_sp :: "AsmBlock \<Rightarrow> bool \<Rightarrow> bool" where
  "clobbers_sp a is_aarch64 \<longleftrightarrow> clobber_regs a AND push_bit (if is_aarch64 then 31 else 4) 1 \<noteq> 0"

declare names_operand_from.simps [simp del] sp_tokens_from.simps [simp del]

end
