(* ===== verification/Ir_Masks.thy ===== *)
theory Ir_Masks
  imports Ir
begin

text \<open>
  The masks a call carries about its arguments, \<^verbatim>\<open>src/src/c5/ir.rs\<close>: \<open>ArgWidths\<close>,
  the byte width of each narrow argument packed two bits to a position, and \<open>FpMask\<close>, the
  set of floating-point positions as a growing bit vector.  The lemmas give each its meaning as a
  function of the position, which is what the callers read.
\<close>

section \<open>Argument masks\<close>

text \<open>\<open>ArgWidths\<close>: two bits per position in a \<open>u128\<close>.\<close>

type_synonym ArgWidths = "128 word"

definition width_code :: "nat \<Rightarrow> ArgWidths" where
  "width_code b = (if b = 1 then 1 else if b = 2 then 2 else if b = 4 then 3 else 0)"

definition aw_set :: "ArgWidths \<Rightarrow> nat \<Rightarrow> nat \<Rightarrow> ArgWidths" where
  "aw_set a i b =
     (if i < 64 then (a AND NOT (push_bit (2 * i) 3)) OR push_bit (2 * i) (width_code b) else a)"

definition aw_bytes :: "ArgWidths \<Rightarrow> nat \<Rightarrow> nat" where
  "aw_bytes a i =
     (let c = (if 2 * i < 128 then drop_bit (2 * i) a else 0) AND 3
      in if c = 1 then 1 else if c = 2 then 2 else if c = 3 then 4 else 8)"

definition aw_shifted :: "ArgWidths \<Rightarrow> nat \<Rightarrow> ArgWidths" where
  "aw_shifted a by' = (if 2 * by' < 128 then push_bit (2 * by') a else 0)"

text \<open>\<open>FpMask\<close>: a growing vector of 64-bit words.\<close>

type_synonym FpMask = "u64 list"

definition fm_set :: "FpMask \<Rightarrow> nat \<Rightarrow> FpMask" where
  "fm_set m i =
     (let word = i div 64;
          m' = (if length m \<le> word then m @ replicate (word + 1 - length m) 0 else m)
      in m'[word := m' ! word OR push_bit (i mod 64) 1])"

definition fm_has :: "FpMask \<Rightarrow> nat \<Rightarrow> bool" where
  "fm_has m i \<longleftrightarrow> i div 64 < length m \<and> m ! (i div 64) AND push_bit (i mod 64) 1 \<noteq> 0"

definition fm_is_empty :: "FpMask \<Rightarrow> bool" where
  "fm_is_empty m \<longleftrightarrow> m = []"

definition fm_count :: "FpMask \<Rightarrow> nat" where
  "fm_count m = sum_list (map count_ones m)"

definition fm_shifted :: "FpMask \<Rightarrow> nat \<Rightarrow> FpMask" where
  "fm_shifted m by' =
     foldl (\<lambda>out i. fm_set out (i + by')) [] (filter (fm_has m) [0..<length m * 64])"

section \<open>What the masks denote\<close>

lemma and_3_bits: "(a :: 'a::len word) AND 3 = take_bit 2 a"
  by (simp add: take_bit_eq_mask mask_eq_exp_minus_1)

definition aw_code :: "ArgWidths \<Rightarrow> nat \<Rightarrow> ArgWidths" where
  "aw_code a i = take_bit 2 (drop_bit (2 * i) a)"

definition code_width :: "ArgWidths \<Rightarrow> nat" where
  "code_width c = (if c = 1 then 1 else if c = 2 then 2 else if c = 3 then 4 else 8)"

lemma aw_bytes_code: "aw_bytes a i = code_width (aw_code a i)"
proof (cases "i < 64")
  case False
  then have "drop_bit (2 * i) a = 0"
    by (intro bit_word_eqI) (auto simp: bit_simps dest: bit_imp_le_length)
  then show ?thesis using False by (simp add: aw_bytes_def aw_code_def code_width_def)
qed (simp add: aw_bytes_def aw_code_def code_width_def and_3_bits)

lemma width_code_width: "b \<in> {1, 2, 4, 8} \<Longrightarrow> code_width (width_code b) = b"
  by (auto simp: code_width_def width_code_def)

lemma bit_width_code: "bit (width_code b) n \<Longrightarrow> n < 2"
proof (rule ccontr)
  assume "bit (width_code b) n" "\<not> n < 2"
  moreover have "take_bit 2 (width_code b) = width_code b"
    by (simp add: width_code_def take_bit_word_eq_self)
  ultimately show False by (metis bit_take_bit_iff)
qed

lemma bit_three: "bit (3 :: int) n \<longleftrightarrow> n < 2" "bit (3 :: nat) n \<longleftrightarrow> n < 2"
  using bit_mask_iff [of 2 n, where 'a = int] bit_mask_iff [of 2 n, where 'a = nat]
  by (simp_all add: mask_eq_exp_minus_1)

lemma aw_code_set:
  "aw_code (aw_set a i b) j = (if i = j \<and> i < 64 then width_code b else aw_code a j)"
proof (cases "i < 64")
  case True
  show ?thesis
  proof (rule bit_word_eqI)
    fix n assume "n < LENGTH(128)"
    have neq: "n < 2 \<Longrightarrow> 2 * i \<le> 2 * j + n \<Longrightarrow> 2 * j + n - 2 * i < 2 \<Longrightarrow> i = j" by linarith
    have "n < 2 \<Longrightarrow> i = j \<Longrightarrow> 2 * j + n < 128" using True by linarith
    then show "bit (aw_code (aw_set a i b) j) n \<longleftrightarrow>
        bit (if i = j \<and> i < 64 then width_code b else aw_code a j) n"
      using True neq bit_width_code [of b n] bit_width_code [of b "2 * j + n - 2 * i"]
        bit_imp_le_length [of a "2 * j + n"]
      by (cases "n < 2"; cases "i = j") (auto simp: aw_code_def aw_set_def bit_simps bit_three)
  qed
qed (simp add: aw_set_def)

lemma aw_bytes_set:
  assumes "b \<in> {1, 2, 4, 8}"
  shows "aw_bytes (aw_set a i b) j = (if i = j \<and> i < 64 then b else aw_bytes a j)"
  using width_code_width [OF assms] by (simp add: aw_bytes_code aw_code_set)

lemma aw_bytes_shifted:
  assumes "j < 64"
  shows "aw_bytes (aw_shifted a k) j = (if k \<le> j then aw_bytes a (j - k) else 8)"
proof -
  have "aw_code (aw_shifted a k) j = (if k \<le> j then aw_code a (j - k) else 0)"
  proof (rule bit_word_eqI)
    fix n assume "n < LENGTH(128)"
    have "n < 2 \<Longrightarrow> 2 * k \<le> 2 * j + n \<longleftrightarrow> k \<le> j" by linarith
    moreover have "k \<le> j \<Longrightarrow> 2 * j + n - 2 * k = 2 * (j - k) + n" by simp
    ultimately show "bit (aw_code (aw_shifted a k) j) n \<longleftrightarrow> bit (if k \<le> j then aw_code a (j - k) else 0) n"
      using assms by (cases "n < 2") (auto simp: aw_code_def aw_shifted_def bit_simps)
  qed
  then show ?thesis by (simp add: aw_bytes_code code_width_def)
qed

lemma fm_has_bit: "fm_has m i \<longleftrightarrow> i div 64 < length m \<and> bit (m ! (i div 64)) (i mod 64)"
  by (simp add: fm_has_def bit_iff_and_push_bit_not_eq_0)

lemma fm_has_set: "fm_has (fm_set m i) j \<longleftrightarrow> i = j \<or> fm_has m j"
proof -
  let ?w = "i div 64"
  define m' where "m' = (if length m \<le> ?w then m @ replicate (?w + 1 - length m) 0 else m)"
  have len: "?w < length m'" by (simp add: m'_def)
  have same: "fm_has m' k \<longleftrightarrow> fm_has m k" for k
    by (auto simp: fm_has_bit m'_def nth_append)
  have "i = j \<longleftrightarrow> i div 64 = j div 64 \<and> i mod 64 = j mod 64" by (metis div_mult_mod_eq)
  then have "fm_has (m'[?w := m' ! ?w OR push_bit (i mod 64) 1]) j \<longleftrightarrow> i = j \<or> fm_has m' j"
    using len by (auto simp: fm_has_bit nth_list_update bit_simps)
  then show ?thesis by (simp add: fm_set_def Let_def same flip: m'_def)
qed

lemma fm_has_fold:
  "fm_has (foldl (\<lambda>out i. fm_set out (i + k)) out xs) j \<longleftrightarrow> fm_has out j \<or> (\<exists>i \<in> set xs. j = i + k)"
  by (induction xs arbitrary: out) (auto simp: fm_has_set)

lemma fm_has_bound: "fm_has m i \<Longrightarrow> i < length m * 64"
  by (auto simp: fm_has_bit div_less_iff_less_mult)

lemma fm_has_shifted: "fm_has (fm_shifted m k) j \<longleftrightarrow> k \<le> j \<and> fm_has m (j - k)"
  by (auto simp: fm_shifted_def fm_has_fold fm_has_bit [of "[]"] intro!: bexI [of _ "j - k"] dest: fm_has_bound)

lemma fm_count_card: "fm_count m = card {i. fm_has m i}"
proof (induction m)
  case Nil
  then show ?case by (simp add: fm_count_def fm_has_bit)
next
  case (Cons w m)
  have s: "{i. fm_has (w # m) i} = {i. i < 64 \<and> bit w i} \<union> (\<lambda>i. i + 64) ` {i. fm_has m i}" (is "?L = ?A \<union> ?B")
  proof (intro set_eqI iffI)
    fix i assume i: "i \<in> ?L"
    show "i \<in> ?A \<union> ?B"
    proof (cases "i < 64")
      case False
      then have e: "i = i - 64 + 64" "i div 64 = Suc ((i - 64) div 64)" "i mod 64 = (i - 64) mod 64"
        using div_add_self2 [of 64 "i - 64"] by (simp_all add: le_mod_geq)
      then have "fm_has m (i - 64)" using i by (simp add: fm_has_bit)
      then show ?thesis using e(1) by blast
    qed (use i in \<open>auto simp: fm_has_bit\<close>)
  qed (auto simp: fm_has_bit div_add_self2)
  have "finite {i. fm_has m i}"
    by (rule finite_subset [of _ "{..< length m * 64}"]) (auto dest: fm_has_bound)
  then have "card {i. fm_has (w # m) i} = card ?A + card {i. fm_has m i}"
    unfolding s by (subst card_Un_disjoint) (auto simp: card_image)
  then show ?case using Cons by (simp add: fm_count_def count_ones_card)
qed

end
