(* ===== verification/Ir_Inst.thy ===== *)
theory Ir_Inst
  imports Ir_Asm Ir_Masks
begin

text \<open>
  The instruction set of the SSA IR, \<^verbatim>\<open>src/src/c5/ir.rs\<close>: the
  instructions with the one definition of which fields are operands, terminators,
  blocks and functions.  A \<open>ValueId\<close> is an index into a function's instruction list; it is a
  \<open>nat\<close> here, with \<open>u32::MAX\<close> standing for no value.
\<close>

type_synonym ValueId = nat
type_synonym BlockId = nat

abbreviation NO_VALUE :: ValueId where
  "NO_VALUE \<equiv> 4294967295"

section \<open>Instructions\<close>

datatype FpCastKind =
    FpCastKind_FpToInt | FpCastKind_UFpToInt | FpCastKind_IntToFp | FpCastKind_UIntToFp
  | FpCastKind_F32ToF64 | FpCastKind_F64ToF32

datatype CallConv = CallConv_Target | CallConv_Ms | CallConv_SysV

text \<open>
  The fields of a constructor are in the order the source declares them: \<open>Load addr disp kind
  volatile align pc_rel\<close>, \<open>Binop op lhs rhs\<close>, and so on.
\<close>

datatype (plugins only: code size) Inst =
    Imm i64
  | ExceptionCode
  | Undef
  | ImmData i64
  | ImmCode nat
  | ImmExtCode i64
  | BlockAddr BlockId
  | LocalAddr i64
  | TlsAddr i64
  | ParentLocalAddr ValueId nat nat
  | Load ValueId i32 LoadKind bool nat bool
  | Store ValueId i32 ValueId StoreKind bool nat bool
  | LoadLocal i64 i32 LoadKind bool
  | StoreLocal i64 i32 ValueId StoreKind bool bool
  | LoadIndexed ValueId ValueId IndexExt nat LoadKind bool
  | StoreIndexed ValueId ValueId IndexExt nat ValueId StoreKind bool
  | SegLoad ValueId LoadKind bool AsmSeg
  | SegStore ValueId ValueId StoreKind bool AsmSeg
  | Binop BinOp ValueId ValueId
  | BinopI BinOp ValueId i64
  | Neg ValueId
  | Fneg ValueId
  | Fma ValueId ValueId ValueId bool bool
  | MulAdd ValueId ValueId ValueId bool
  | ShiftOp BinOp ValueId ValueId BinOp nat
  | BitField ValueId nat nat bool
  | Udiv128 ValueId ValueId ValueId
  | Extend ValueId LoadKind bool
  | Bswap ValueId nat
  | BitCount BitCountOp ValueId nat
  | Copy ValueId bool
  | FpCast FpCastKind ValueId
  | Call nat "ValueId list" nat bool FpMask u64 ArgWidths CallConv "nat option list" "nat option" i64
  | CallIndirect ValueId "ValueId list" bool nat bool FpMask u64 ArgWidths CallConv
      "nat option list" "nat option" i64
  | CallExt i64 "ValueId list" FpMask u64 ArgWidths bool "nat option list" "nat option" i64
  | TailExt i64
  | Mzero ValueId i64 nat
  | Mcpy ValueId ValueId i64 nat
  | AtomicRmw AtomicRmwOp ValueId ValueId nat MemOrder
  | AtomicCas ValueId ValueId ValueId nat MemOrder
  | AtomicCas16 ValueId ValueId ValueId MemOrder
  | AtomicLoad ValueId nat MemOrder
  | AtomicStore ValueId ValueId nat MemOrder
  | Intrinsic i64 "ValueId list"
  | X86Simd nat "nat option" "ValueId list"
  | InlineAsm AsmBlock "ValueId list"
  | AllocaInit i64
  | LifetimeEnd i64
  | ParamRef nat LoadKind
  | ParamPart nat nat LoadKind
  | RetPart nat LoadKind
  | AsmOut nat LoadKind
  | AggParts nat "ValueId list" FpMask
  | Phi "(BlockId \<times> ValueId) list" LoadKind

definition is_pure :: "Inst \<Rightarrow> bool" where
  "is_pure inst =
     (case inst of
        Imm _ \<Rightarrow> True
      | Undef \<Rightarrow> True
      | ImmData _ \<Rightarrow> True
      | ImmCode _ \<Rightarrow> True
      | ImmExtCode _ \<Rightarrow> True
      | LocalAddr _ \<Rightarrow> True
      | TlsAddr _ \<Rightarrow> True
      | ParentLocalAddr _ _ _ \<Rightarrow> True
      | Load _ _ _ volatile _ _ \<Rightarrow> \<not> volatile
      | LoadLocal _ _ _ volatile \<Rightarrow> \<not> volatile
      | SegLoad _ _ volatile _ \<Rightarrow> \<not> volatile
      | LoadIndexed _ _ _ _ _ _ \<Rightarrow> True
      | Binop _ _ _ \<Rightarrow> True
      | BinopI _ _ _ \<Rightarrow> True
      | Neg _ \<Rightarrow> True
      | Fneg _ \<Rightarrow> True
      | Fma _ _ _ _ _ \<Rightarrow> True
      | MulAdd _ _ _ _ \<Rightarrow> True
      | ShiftOp _ _ _ _ _ \<Rightarrow> True
      | BitField _ _ _ _ \<Rightarrow> True
      | Udiv128 _ _ _ \<Rightarrow> True
      | FpCast _ _ \<Rightarrow> True
      | Extend _ _ _ \<Rightarrow> True
      | Bswap _ _ \<Rightarrow> True
      | BitCount _ _ _ \<Rightarrow> True
      | Copy _ _ \<Rightarrow> True
      | ParamPart _ _ _ \<Rightarrow> True
      | RetPart _ _ \<Rightarrow> True
      | AsmOut _ _ \<Rightarrow> True
      | _ \<Rightarrow> False)"

definition is_lifetime_marker :: "Inst \<Rightarrow> bool" where
  "is_lifetime_marker inst = (case inst of LifetimeEnd _ \<Rightarrow> True | _ \<Rightarrow> False)"

definition call_conv :: "Inst \<Rightarrow> CallConv option" where
  "call_conv inst =
     (case inst of
        Call _ _ _ _ _ _ _ callee_conv _ _ _ \<Rightarrow> Some callee_conv
      | CallIndirect _ _ _ _ _ _ _ _ callee_conv _ _ _ \<Rightarrow> Some callee_conv
      | CallExt _ _ _ _ _ _ _ _ _ \<Rightarrow> Some CallConv_Target
      | _ \<Rightarrow> None)"

primrec variant_name :: "Inst \<Rightarrow> string" where
  "variant_name (Imm x1) = ''Imm''"
| "variant_name ExceptionCode = ''ExceptionCode''"
| "variant_name Undef = ''Undef''"
| "variant_name (ImmData x1) = ''ImmData''"
| "variant_name (ImmCode x1) = ''ImmCode''"
| "variant_name (ImmExtCode x1) = ''ImmExtCode''"
| "variant_name (BlockAddr x1) = ''BlockAddr''"
| "variant_name (LocalAddr x1) = ''LocalAddr''"
| "variant_name (TlsAddr x1) = ''TlsAddr''"
| "variant_name (ParentLocalAddr x1 x2 x3) = ''ParentLocalAddr''"
| "variant_name (Load x1 x2 x3 x4 x5 x6) = ''Load''"
| "variant_name (Store x1 x2 x3 x4 x5 x6 x7) = ''Store''"
| "variant_name (LoadLocal x1 x2 x3 x4) = ''LoadLocal''"
| "variant_name (StoreLocal x1 x2 x3 x4 x5 x6) = ''StoreLocal''"
| "variant_name (LoadIndexed x1 x2 x3 x4 x5 x6) = ''LoadIndexed''"
| "variant_name (StoreIndexed x1 x2 x3 x4 x5 x6 x7) = ''StoreIndexed''"
| "variant_name (SegLoad x1 x2 x3 x4) = ''SegLoad''"
| "variant_name (SegStore x1 x2 x3 x4 x5) = ''SegStore''"
| "variant_name (Binop x1 x2 x3) = ''Binop''"
| "variant_name (BinopI x1 x2 x3) = ''BinopI''"
| "variant_name (Neg x1) = ''Neg''"
| "variant_name (Fneg x1) = ''Fneg''"
| "variant_name (Fma x1 x2 x3 x4 x5) = ''Fma''"
| "variant_name (MulAdd x1 x2 x3 x4) = ''MulAdd''"
| "variant_name (ShiftOp x1 x2 x3 x4 x5) = ''ShiftOp''"
| "variant_name (BitField x1 x2 x3 x4) = ''BitField''"
| "variant_name (Udiv128 x1 x2 x3) = ''Udiv128''"
| "variant_name (Extend x1 x2 x3) = ''Extend''"
| "variant_name (Bswap x1 x2) = ''Bswap''"
| "variant_name (BitCount x1 x2 x3) = ''BitCount''"
| "variant_name (Copy x1 x2) = ''Copy''"
| "variant_name (FpCast x1 x2) = ''FpCast''"
| "variant_name (Call x1 x2 x3 x4 x5 x6 x7 x8 x9 x10 x11) = ''Call''"
| "variant_name (CallIndirect x1 x2 x3 x4 x5 x6 x7 x8 x9 x10 x11 x12) = ''CallIndirect''"
| "variant_name (CallExt x1 x2 x3 x4 x5 x6 x7 x8 x9) = ''CallExt''"
| "variant_name (TailExt x1) = ''TailExt''"
| "variant_name (Mzero x1 x2 x3) = ''Mzero''"
| "variant_name (Mcpy x1 x2 x3 x4) = ''Mcpy''"
| "variant_name (AtomicRmw x1 x2 x3 x4 x5) = ''AtomicRmw''"
| "variant_name (AtomicCas x1 x2 x3 x4 x5) = ''AtomicCas''"
| "variant_name (AtomicCas16 x1 x2 x3 x4) = ''AtomicCas16''"
| "variant_name (AtomicLoad x1 x2 x3) = ''AtomicLoad''"
| "variant_name (AtomicStore x1 x2 x3 x4) = ''AtomicStore''"
| "variant_name (Intrinsic x1 x2) = ''Intrinsic''"
| "variant_name (X86Simd x1 x2 x3) = ''X86Simd''"
| "variant_name (InlineAsm x1 x2) = ''InlineAsm''"
| "variant_name (AllocaInit x1) = ''AllocaInit''"
| "variant_name (LifetimeEnd x1) = ''LifetimeEnd''"
| "variant_name (ParamRef x1 x2) = ''ParamRef''"
| "variant_name (ParamPart x1 x2 x3) = ''ParamPart''"
| "variant_name (RetPart x1 x2) = ''RetPart''"
| "variant_name (AsmOut x1 x2) = ''AsmOut''"
| "variant_name (AggParts x1 x2 x3) = ''AggParts''"
| "variant_name (Phi x1 x2) = ''Phi''"

text \<open>The operands in visit order, and the in-place map over them.\<close>

primrec for_each_operand :: "Inst \<Rightarrow> ValueId list" where
  "for_each_operand (Imm x1) = []"
| "for_each_operand ExceptionCode = []"
| "for_each_operand Undef = []"
| "for_each_operand (ImmData x1) = []"
| "for_each_operand (ImmCode x1) = []"
| "for_each_operand (ImmExtCode x1) = []"
| "for_each_operand (BlockAddr x1) = []"
| "for_each_operand (LocalAddr x1) = []"
| "for_each_operand (TlsAddr x1) = []"
| "for_each_operand (ParentLocalAddr x1 x2 x3) = [x1]"
| "for_each_operand (Load x1 x2 x3 x4 x5 x6) = [x1]"
| "for_each_operand (Store x1 x2 x3 x4 x5 x6 x7) = [x1, x3]"
| "for_each_operand (LoadLocal x1 x2 x3 x4) = []"
| "for_each_operand (StoreLocal x1 x2 x3 x4 x5 x6) = [x3]"
| "for_each_operand (LoadIndexed x1 x2 x3 x4 x5 x6) = [x1, x2]"
| "for_each_operand (StoreIndexed x1 x2 x3 x4 x5 x6 x7) = [x1, x2, x5]"
| "for_each_operand (SegLoad x1 x2 x3 x4) = [x1]"
| "for_each_operand (SegStore x1 x2 x3 x4 x5) = [x1, x2]"
| "for_each_operand (Binop x1 x2 x3) = [x2, x3]"
| "for_each_operand (BinopI x1 x2 x3) = [x2]"
| "for_each_operand (Neg x1) = [x1]"
| "for_each_operand (Fneg x1) = [x1]"
| "for_each_operand (Fma x1 x2 x3 x4 x5) = [x1, x2, x3]"
| "for_each_operand (MulAdd x1 x2 x3 x4) = [x1, x2, x3]"
| "for_each_operand (ShiftOp x1 x2 x3 x4 x5) = [x2, x3]"
| "for_each_operand (BitField x1 x2 x3 x4) = [x1]"
| "for_each_operand (Udiv128 x1 x2 x3) = [x1, x2, x3]"
| "for_each_operand (Extend x1 x2 x3) = [x1]"
| "for_each_operand (Bswap x1 x2) = [x1]"
| "for_each_operand (BitCount x1 x2 x3) = [x2]"
| "for_each_operand (Copy x1 x2) = [x1]"
| "for_each_operand (FpCast x1 x2) = [x2]"
| "for_each_operand (Call x1 x2 x3 x4 x5 x6 x7 x8 x9 x10 x11) = x2"
| "for_each_operand (CallIndirect x1 x2 x3 x4 x5 x6 x7 x8 x9 x10 x11 x12) = [x1] @ x2"
| "for_each_operand (CallExt x1 x2 x3 x4 x5 x6 x7 x8 x9) = x2"
| "for_each_operand (TailExt x1) = []"
| "for_each_operand (Mzero x1 x2 x3) = [x1]"
| "for_each_operand (Mcpy x1 x2 x3 x4) = [x1, x2]"
| "for_each_operand (AtomicRmw x1 x2 x3 x4 x5) = [x2, x3]"
| "for_each_operand (AtomicCas x1 x2 x3 x4 x5) = [x1, x2, x3]"
| "for_each_operand (AtomicCas16 x1 x2 x3 x4) = [x1, x2, x3]"
| "for_each_operand (AtomicLoad x1 x2 x3) = [x1]"
| "for_each_operand (AtomicStore x1 x2 x3 x4) = [x1, x2]"
| "for_each_operand (Intrinsic x1 x2) = x2"
| "for_each_operand (X86Simd x1 x2 x3) = x3"
| "for_each_operand (InlineAsm x1 x2) = map snd (filter (\<lambda>(i, a). a \<noteq> NO_VALUE \<and> \<not> (i < length (operands x1) \<and> static_arg (operands x1 ! i)))
       (enumerate 0 x2))"
| "for_each_operand (AllocaInit x1) = []"
| "for_each_operand (LifetimeEnd x1) = []"
| "for_each_operand (ParamRef x1 x2) = []"
| "for_each_operand (ParamPart x1 x2 x3) = []"
| "for_each_operand (RetPart x1 x2) = []"
| "for_each_operand (AsmOut x1 x2) = []"
| "for_each_operand (AggParts x1 x2 x3) = x2"
| "for_each_operand (Phi x1 x2) = map snd x1"

primrec for_each_operand_mut :: "(ValueId \<Rightarrow> ValueId) \<Rightarrow> Inst \<Rightarrow> Inst" where
  "for_each_operand_mut f (Imm x1) = Imm x1"
| "for_each_operand_mut f ExceptionCode = ExceptionCode"
| "for_each_operand_mut f Undef = Undef"
| "for_each_operand_mut f (ImmData x1) = ImmData x1"
| "for_each_operand_mut f (ImmCode x1) = ImmCode x1"
| "for_each_operand_mut f (ImmExtCode x1) = ImmExtCode x1"
| "for_each_operand_mut f (BlockAddr x1) = BlockAddr x1"
| "for_each_operand_mut f (LocalAddr x1) = LocalAddr x1"
| "for_each_operand_mut f (TlsAddr x1) = TlsAddr x1"
| "for_each_operand_mut f (ParentLocalAddr x1 x2 x3) = ParentLocalAddr (f x1) x2 x3"
| "for_each_operand_mut f (Load x1 x2 x3 x4 x5 x6) = Load (f x1) x2 x3 x4 x5 x6"
| "for_each_operand_mut f (Store x1 x2 x3 x4 x5 x6 x7) = Store (f x1) x2 (f x3) x4 x5 x6 x7"
| "for_each_operand_mut f (LoadLocal x1 x2 x3 x4) = LoadLocal x1 x2 x3 x4"
| "for_each_operand_mut f (StoreLocal x1 x2 x3 x4 x5 x6) = StoreLocal x1 x2 (f x3) x4 x5 x6"
| "for_each_operand_mut f (LoadIndexed x1 x2 x3 x4 x5 x6) = LoadIndexed (f x1) (f x2) x3 x4 x5 x6"
| "for_each_operand_mut f (StoreIndexed x1 x2 x3 x4 x5 x6 x7) = StoreIndexed (f x1) (f x2) x3 x4 (f x5) x6 x7"
| "for_each_operand_mut f (SegLoad x1 x2 x3 x4) = SegLoad (f x1) x2 x3 x4"
| "for_each_operand_mut f (SegStore x1 x2 x3 x4 x5) = SegStore (f x1) (f x2) x3 x4 x5"
| "for_each_operand_mut f (Binop x1 x2 x3) = Binop x1 (f x2) (f x3)"
| "for_each_operand_mut f (BinopI x1 x2 x3) = BinopI x1 (f x2) x3"
| "for_each_operand_mut f (Neg x1) = Neg (f x1)"
| "for_each_operand_mut f (Fneg x1) = Fneg (f x1)"
| "for_each_operand_mut f (Fma x1 x2 x3 x4 x5) = Fma (f x1) (f x2) (f x3) x4 x5"
| "for_each_operand_mut f (MulAdd x1 x2 x3 x4) = MulAdd (f x1) (f x2) (f x3) x4"
| "for_each_operand_mut f (ShiftOp x1 x2 x3 x4 x5) = ShiftOp x1 (f x2) (f x3) x4 x5"
| "for_each_operand_mut f (BitField x1 x2 x3 x4) = BitField (f x1) x2 x3 x4"
| "for_each_operand_mut f (Udiv128 x1 x2 x3) = Udiv128 (f x1) (f x2) (f x3)"
| "for_each_operand_mut f (Extend x1 x2 x3) = Extend (f x1) x2 x3"
| "for_each_operand_mut f (Bswap x1 x2) = Bswap (f x1) x2"
| "for_each_operand_mut f (BitCount x1 x2 x3) = BitCount x1 (f x2) x3"
| "for_each_operand_mut f (Copy x1 x2) = Copy (f x1) x2"
| "for_each_operand_mut f (FpCast x1 x2) = FpCast x1 (f x2)"
| "for_each_operand_mut f (Call x1 x2 x3 x4 x5 x6 x7 x8 x9 x10 x11) = Call x1 (map f x2) x3 x4 x5 x6 x7 x8 x9 x10 x11"
| "for_each_operand_mut f (CallIndirect x1 x2 x3 x4 x5 x6 x7 x8 x9 x10 x11 x12) = CallIndirect (f x1) (map f x2) x3 x4 x5 x6 x7 x8 x9 x10 x11 x12"
| "for_each_operand_mut f (CallExt x1 x2 x3 x4 x5 x6 x7 x8 x9) = CallExt x1 (map f x2) x3 x4 x5 x6 x7 x8 x9"
| "for_each_operand_mut f (TailExt x1) = TailExt x1"
| "for_each_operand_mut f (Mzero x1 x2 x3) = Mzero (f x1) x2 x3"
| "for_each_operand_mut f (Mcpy x1 x2 x3 x4) = Mcpy (f x1) (f x2) x3 x4"
| "for_each_operand_mut f (AtomicRmw x1 x2 x3 x4 x5) = AtomicRmw x1 (f x2) (f x3) x4 x5"
| "for_each_operand_mut f (AtomicCas x1 x2 x3 x4 x5) = AtomicCas (f x1) (f x2) (f x3) x4 x5"
| "for_each_operand_mut f (AtomicCas16 x1 x2 x3 x4) = AtomicCas16 (f x1) (f x2) (f x3) x4"
| "for_each_operand_mut f (AtomicLoad x1 x2 x3) = AtomicLoad (f x1) x2 x3"
| "for_each_operand_mut f (AtomicStore x1 x2 x3 x4) = AtomicStore (f x1) (f x2) x3 x4"
| "for_each_operand_mut f (Intrinsic x1 x2) = Intrinsic x1 (map f x2)"
| "for_each_operand_mut f (X86Simd x1 x2 x3) = X86Simd x1 x2 (map f x3)"
| "for_each_operand_mut f (InlineAsm x1 x2) = InlineAsm x1 (map (\<lambda>a. if a \<noteq> NO_VALUE then f a else a) x2)"
| "for_each_operand_mut f (AllocaInit x1) = AllocaInit x1"
| "for_each_operand_mut f (LifetimeEnd x1) = LifetimeEnd x1"
| "for_each_operand_mut f (ParamRef x1 x2) = ParamRef x1 x2"
| "for_each_operand_mut f (ParamPart x1 x2 x3) = ParamPart x1 x2 x3"
| "for_each_operand_mut f (RetPart x1 x2) = RetPart x1 x2"
| "for_each_operand_mut f (AsmOut x1 x2) = AsmOut x1 x2"
| "for_each_operand_mut f (AggParts x1 x2 x3) = AggParts x1 (map f x2) x3"
| "for_each_operand_mut f (Phi x1 x2) = Phi (map (\<lambda>(b, v). (b, f v)) x1) x2"

section \<open>The two operand visitors\<close>

text \<open>An inline-asm argument formed at the site: the reading visitor skips it.\<close>

definition has_static_args :: "Inst \<Rightarrow> bool" where
  "has_static_args inst =
     (case inst of
        InlineAsm a args \<Rightarrow>
          list_ex (\<lambda>(i, v). v \<noteq> NO_VALUE \<and> i < length (operands a) \<and> static_arg (operands a ! i))
            (enumerate 0 args)
      | _ \<Rightarrow> False)"

lemma visit_asm_args:
  assumes "\<not> has_static_args (InlineAsm a args)"
  shows "for_each_operand (InlineAsm a args) = filter (\<lambda>v. v \<noteq> NO_VALUE) args"
proof -
  have "filter (\<lambda>(i, v). v \<noteq> NO_VALUE \<and> \<not> (i < length (operands a) \<and> static_arg (operands a ! i)))
          (enumerate 0 args) = filter (\<lambda>(i, v). v \<noteq> NO_VALUE) (enumerate 0 args)"
    using assms by (intro filter_cong) (auto simp: has_static_args_def list_ex_iff)
  moreover have "map snd (filter (\<lambda>p. snd p \<noteq> NO_VALUE) (enumerate 0 args)) =
      filter (\<lambda>v. v \<noteq> NO_VALUE) (map snd (enumerate 0 args))"
    by (simp only: filter_map comp_def)
  ultimately show ?thesis by (simp add: case_prod_unfold)
qed

lemma visit_mapped_asm:
  assumes ns: "\<not> has_static_args (InlineAsm a args)"
    and f: "\<forall>v \<in> set (for_each_operand (InlineAsm a args)). f v \<noteq> NO_VALUE"
  shows "for_each_operand (for_each_operand_mut f (InlineAsm a args)) =
           map f (for_each_operand (InlineAsm a args))"
proof -
  let ?g = "\<lambda>v. if v \<noteq> NO_VALUE then f v else v"
  have "\<not> has_static_args (InlineAsm a (map ?g args))"
    using ns
    by (auto simp: has_static_args_def list_ex_iff Ball_def Bex_def in_set_enumerate_eq
        split: if_splits prod.splits)
  then have "for_each_operand (InlineAsm a (map ?g args)) = filter (\<lambda>v. v \<noteq> NO_VALUE) (map ?g args)"
    by (rule visit_asm_args)
  also have "\<dots> = map f (filter (\<lambda>v. v \<noteq> NO_VALUE) args)"
    using f unfolding visit_asm_args [OF ns] by (induction args) auto
  finally show ?thesis using visit_asm_args [OF ns] by simp
qed

lemma visit_mapped:
  assumes "\<not> has_static_args inst" and "\<forall>v \<in> set (for_each_operand inst). f v \<noteq> NO_VALUE"
  shows "for_each_operand (for_each_operand_mut f inst) = map f (for_each_operand inst)"
proof (cases "\<exists>a args. inst = InlineAsm a args")
  case True
  then show ?thesis using visit_mapped_asm assms by blast
next
  case False
  then show ?thesis by (cases inst) (simp_all add: case_prod_unfold comp_def)
qed

lemma map_operands_id: "for_each_operand_mut (\<lambda>v. v) inst = inst"
  by (cases inst) (simp_all add: case_prod_unfold)

lemma map_operands_cong:
  assumes "\<not> has_static_args inst" and "\<And>v. v \<in> set (for_each_operand inst) \<Longrightarrow> f v = g v"
  shows "for_each_operand_mut f inst = for_each_operand_mut g inst"
proof (cases "\<exists>a args. inst = InlineAsm a args")
  case True
  then obtain a args where i: "inst = InlineAsm a args" by blast
  have "v \<in> set args \<Longrightarrow> v \<noteq> NO_VALUE \<Longrightarrow> f v = g v" for v
    using assms(2) [of v] unfolding i visit_asm_args [OF assms(1) [unfolded i]] by simp
  then show ?thesis by (auto simp: i)
next
  case False
  then show ?thesis using assms(2) by (cases inst) (auto simp: case_prod_unfold)
qed

end
