(* ===== verification/Ir_Function.thy ===== *)
theory Ir_Function
  imports Ir_Inst
begin

text \<open>
  Terminators, blocks and functions of the SSA IR, \<^verbatim>\<open>src/src/c5/ir.rs\<close>, with the
  function-level queries: structured-exception regions, the outputs of an asm statement, the
  layout of the over-aligned frame region and the call-graph closure of the functions that touch
  the stack pointer.
\<close>

section \<open>Terminators and blocks\<close>

datatype Terminator =
    T_Jmp BlockId
  | T_Bz ValueId BlockId BlockId
  | T_Bnz ValueId BlockId BlockId
  | T_Return ValueId
  | T_TailExt i64
  | T_GotoIndirect ValueId
  | T_JumpTable ValueId nat
  | T_AsmGoto nat
  | T_FallThrough BlockId
  | T_Unreachable

fun term_for_each_operand :: "Terminator \<Rightarrow> ValueId list" where
  "term_for_each_operand (T_Bz cond _ _) = [cond]"
| "term_for_each_operand (T_Bnz cond _ _) = [cond]"
| "term_for_each_operand (T_GotoIndirect target) = [target]"
| "term_for_each_operand (T_JumpTable idx _) = [idx]"
| "term_for_each_operand (T_Return v) = (if v \<noteq> NO_VALUE then [v] else [])"
| "term_for_each_operand _ = []"

fun term_for_each_operand_mut :: "(ValueId \<Rightarrow> ValueId) \<Rightarrow> Terminator \<Rightarrow> Terminator" where
  "term_for_each_operand_mut f (T_Bz cond t ft) = T_Bz (f cond) t ft"
| "term_for_each_operand_mut f (T_Bnz cond t ft) = T_Bnz (f cond) t ft"
| "term_for_each_operand_mut f (T_GotoIndirect target) = T_GotoIndirect (f target)"
| "term_for_each_operand_mut f (T_JumpTable idx tbl) = T_JumpTable (f idx) tbl"
| "term_for_each_operand_mut f (T_Return v) = T_Return (if v \<noteq> NO_VALUE then f v else v)"
| "term_for_each_operand_mut f t = t"

text \<open>\<open>inst_range\<close> is the half-open pair of tape indices.\<close>

record Block =
  start_pc :: nat
  inst_range :: "nat \<times> nat"
  terminator :: Terminator
  exit_acc :: ValueId

datatype ScopeHandler = ExecuteHandler | Filter nat | Finally nat

fun funclet :: "ScopeHandler \<Rightarrow> nat option" where
  "funclet ExecuteHandler = None"
| "funclet (Filter pc) = Some pc"
| "funclet (Finally pc) = Some pc"

record SehScope =
  seh_parent :: "nat option"
  seh_target :: "BlockId option"
  seh_handler :: ScopeHandler

record LabelDataReloc =
  data_offset :: u64
  reloc_block :: BlockId

record RegionMember =
  rm_slot :: i64
  rm_off :: int
  rm_align :: int
  rm_size :: int

record SspFacts =
  char_array_bytes :: nat
  has_array :: bool
  addr_taken :: bool
  dynamic_alloca :: bool

definition ssp_merge :: "SspFacts \<Rightarrow> SspFacts \<Rightarrow> SspFacts" where
  "ssp_merge self other =
     \<lparr>char_array_bytes = max (char_array_bytes self) (char_array_bytes other),
      has_array = (has_array self \<or> has_array other),
      addr_taken = (addr_taken self \<or> addr_taken other),
      dynamic_alloca = (dynamic_alloca self \<or> dynamic_alloca other)\<rparr>"

text \<open>
  The layout of an aggregate passed by value: its size and alignment, its flattened leaf fields,
  and the AAPCS64 homogeneous aggregate its members form.
\<close>

datatype ScalarKind =
    ScalarKind_Int | ScalarKind_F32 | ScalarKind_F64 | ScalarKind_F80 | ScalarKind_F128
  | ScalarKind_Vector

record FlatField =
  ff_offset :: nat
  ff_size :: nat
  ff_kind :: ScalarKind
  ff_align :: nat
  single_fp_vector :: bool

record HomogeneousAggregate =
  ha_kind :: ScalarKind
  ha_width :: nat
  ha_count :: nat

record AggDesc =
  agg_size :: nat
  agg_align :: nat
  member_align :: nat
  agg_fields :: "FlatField list"
  homogeneous :: "HomogeneousAggregate option"
  agg_vector :: bool

text \<open>
  A function.  The fields are those of the source in its order; a \<open>u32\<close> or \<open>usize\<close> index is a
  \<open>nat\<close>.
\<close>

record FunctionSsa =
  fn_name :: string
  ent_pc :: nat
  end_pc :: nat
  locals :: i64
  n_params :: nat
  is_variadic :: bool
  is_inline :: bool
  is_always_inline :: bool
  is_noinline :: bool
  is_naked :: bool
  is_noreturn :: bool
  conv :: CallConv
  general_regs_only :: bool
  tls_dynamic :: bool
  is_weak :: bool
  is_internal :: bool
  fn_section :: "string option"
  patchable_entry :: "(nat \<times> nat) option"
  no_instrument :: bool
  no_stack_protector :: bool
  const_params :: u64
  insts :: "Inst list"
  inst_src :: "(nat \<times> nat) list"
  blocks :: "Block list"
  extern_call_refs :: "(nat \<times> nat) list"
  extern_imm_code_refs :: "(nat \<times> nat) list"
  extern_imm_data_refs :: "(nat \<times> nat) list"
  extern_tls_refs :: "(nat \<times> nat) list"
  f32_values :: "bool list"
  cmp32 :: "bool list"
  div32 :: "bool list"
  low_word_tests :: "bool list"
  param_fp_mask :: FpMask
  param_widths :: ArgWidths
  agg_descs :: "AggDesc list"
  param_aggs :: "nat option list"
  param_local_slots :: "i64 list"
  ret_agg :: "nat option"
  ret_is_fp :: bool
  ret_type_tag :: "i64 option"
  indirect_result_slot :: i64
  computed_goto_targets :: "BlockId list"
  label_data_relocs :: "LabelDataReloc list"
  jump_tables :: "BlockId list list"
  synthetic_base :: i64
  multi_cell_slots :: "(i64 \<times> i64) list"
  array_slots :: "i64 list"
  over_aligned :: "RegionMember list"
  frame_align :: i64
  realign_region_bytes :: i64
  has_returns_twice_call :: bool
  did_unroll :: bool
  ssp :: SspFacts
  did_inline :: bool
  seh_scopes :: "SehScope list"
  block_seh :: "nat option list"
  funclet_slots :: "i64 list"

definition has_seh :: "FunctionSsa \<Rightarrow> bool" where
  "has_seh fn \<longleftrightarrow> seh_scopes fn \<noteq> []"

definition seh_scope_of :: "FunctionSsa \<Rightarrow> BlockId \<Rightarrow> nat option" where
  "seh_scope_of fn b = (if b < length (block_seh fn) then block_seh fn ! b else None)"

definition is_seh_target :: "FunctionSsa \<Rightarrow> BlockId \<Rightarrow> bool" where
  "is_seh_target fn b = list_ex (\<lambda>s. seh_target s = Some b) (seh_scopes fn)"

text \<open>\<open>Vec::resize\<close>: truncate or pad.\<close>

definition resize :: "'a list \<Rightarrow> nat \<Rightarrow> 'a \<Rightarrow> 'a list" where
  "resize xs n x = take n xs @ replicate (n - length xs) x"

definition push_block_in_scope_of :: "FunctionSsa \<Rightarrow> Block \<Rightarrow> BlockId \<Rightarrow> FunctionSsa" where
  "push_block_in_scope_of fn block of' =
     (let fn' = (if has_seh fn
                 then fn\<lparr>block_seh := resize (block_seh fn) (length (blocks fn)) None @ [seh_scope_of fn of']\<rparr>
                 else fn)
      in fn'\<lparr>blocks := blocks fn' @ [block]\<rparr>)"

section \<open>Inline-asm queries\<close>

text \<open>The run of \<open>AsmOut\<close> instructions at \<open>site + 1\<close>, as operand and value pairs.\<close>

fun asm_outs :: "Inst list \<Rightarrow> ValueId \<Rightarrow> (nat \<times> ValueId) list" where
  "asm_outs (AsmOut op _ # rest) v = (op, v) # asm_outs rest (v + 1)"
| "asm_outs _ _ = []"

fun set_first :: "nat \<Rightarrow> ValueId \<Rightarrow> (nat \<times> ValueId) list \<Rightarrow> (nat \<times> ValueId) list" where
  "set_first op v [] = []"
| "set_first op v ((i, x) # rest) = (if i = op then (i, v) # rest else (i, x) # set_first op v rest)"

definition asm_output_values :: "FunctionSsa \<Rightarrow> ValueId \<Rightarrow> (nat \<times> ValueId) list" where
  "asm_output_values fn site =
     (if site < length (insts fn) then
        (case insts fn ! site of
           InlineAsm asm _ \<Rightarrow>
             let outs = asm_outs (drop (site + 1) (insts fn)) (site + 1);
                 values = map (\<lambda>(i, _). (i, NO_VALUE))
                   (filter (\<lambda>(_, o'). op_value o' \<and> is_output o') (enumerate 0 (operands asm)));
                 values' = (case values of [] \<Rightarrow> [] | (i, _) # rest \<Rightarrow> (i, site) # rest)
             in foldl (\<lambda>vs (op, v). set_first op v vs) values' outs
         | _ \<Rightarrow> [])
      else [])"

definition has_sp_asm :: "FunctionSsa \<Rightarrow> bool" where
  "has_sp_asm fn = list_ex (\<lambda>i. case i of InlineAsm asm _ \<Rightarrow> references_sp asm | _ \<Rightarrow> False) (insts fn)"

definition indirect_branches :: "FunctionSsa \<Rightarrow> BlockId list" where
  "indirect_branches fn =
     map fst (filter (\<lambda>(_, b). case terminator b of T_GotoIndirect _ \<Rightarrow> True | _ \<Rightarrow> False)
       (enumerate 0 (blocks fn)))"

definition returns_twice_fn_name :: "string \<Rightarrow> bool" where
  "returns_twice_fn_name name \<longleftrightarrow>
     name \<in> {''setjmp'', ''_setjmp'', ''sigsetjmp'', ''__sigsetjmp'', ''__c5_msvcrt_setjmp'', ''vfork''}"

section \<open>The over-aligned frame region\<close>

text \<open>
  \<open>i64\<close> offsets as integers: region sizes are far below the type's range.  \<open>x & -align\<close> is
  the bitwise operation on the two's-complement integer.
\<close>

definition align_of :: "RegionMember list \<Rightarrow> int" where
  "align_of b = (if b = [] then 1 else Max (set (map rm_align b)))"

definition place_step ::
  "RegionMember list \<times> int \<times> int \<Rightarrow> RegionMember list \<Rightarrow> RegionMember list \<times> int \<times> int" where
  "place_step st block =
     (case st of (placed, region_align, cursor) \<Rightarrow>
        let align = align_of block;
            region_align' = max region_align align;
            cursor' = (cursor + align - 1) AND (- align);
            sz = (if block = [] then 0 else Max (set (map rm_size block)))
        in (placed @ map (\<lambda>m. m\<lparr>rm_off := cursor'\<rparr>) block, region_align', cursor' + sz))"

definition place_region :: "RegionMember list list \<Rightarrow> RegionMember list \<times> int \<times> int" where
  "place_region bs =
     (let sorted_blocks = sort_key (\<lambda>b. - align_of b) bs
      in case foldl place_step ([], 16, 0) sorted_blocks of
           (placed, region_align, cursor) \<Rightarrow>
             (placed, region_align, (cursor + region_align - 1) AND (- region_align)))"

section \<open>Functions that reach stack-pointer asm\<close>

definition idx_of :: "FunctionSsa list \<Rightarrow> nat \<Rightarrow> nat option" where
  "idx_of funcs = map_of (rev (map (\<lambda>(i, f). (ent_pc f, i)) (enumerate 0 funcs)))"

text \<open>The direct callees of a function, as indices, one entry per call instruction.\<close>

definition call_target :: "Inst \<Rightarrow> nat option" where
  "call_target inst = (case inst of Call target_pc _ _ _ _ _ _ _ _ _ _ \<Rightarrow> Some target_pc | _ \<Rightarrow> None)"

definition callees :: "FunctionSsa list \<Rightarrow> FunctionSsa \<Rightarrow> nat list" where
  "callees funcs f =
     List.map_filter (\<lambda>i. Option.bind (call_target i) (idx_of funcs)) (insts f)"

definition add_preds :: "FunctionSsa list \<Rightarrow> nat list list \<Rightarrow> nat \<times> FunctionSsa \<Rightarrow> nat list list" where
  "add_preds funcs preds vf =
     (case vf of (v, f) \<Rightarrow> foldl (\<lambda>ps w. ps[w := ps ! w @ [v]]) preds (callees funcs f))"

definition call_preds :: "FunctionSsa list \<Rightarrow> nat list list" where
  "call_preds funcs = foldl (add_preds funcs) (replicate (length funcs) []) (enumerate 0 funcs)"

text \<open>One pass over the callers of a popped function: each untainted one is tainted and pushed.\<close>

definition taint_step :: "bool list \<times> nat list \<Rightarrow> nat \<Rightarrow> bool list \<times> nat list" where
  "taint_step st p =
     (case st of (tainted, work) \<Rightarrow>
        if p < length tainted \<and> \<not> tainted ! p then (tainted[p := True], work @ [p]) else st)"

function taint_loop :: "nat list list \<Rightarrow> bool list \<Rightarrow> nat list \<Rightarrow> bool list" where
  "taint_loop preds tainted work =
     (if work = [] then tainted
      else let v = last work
           in case foldl taint_step (tainted, butlast work) (if v < length preds then preds ! v else []) of
                (tainted', work') \<Rightarrow> taint_loop preds tainted' work')"
  by pat_completeness auto

lemma count_False_update:
  "p < length t \<Longrightarrow> \<not> t ! p \<Longrightarrow> Suc (count_list (t[p := True]) False) = count_list t False"
  by (induction t arbitrary: p) (auto split: nat.splits simp: nth_Cons)

lemma taint_fold_measure:
  "foldl taint_step (t, w) ps = (t', w') \<Longrightarrow>
     length w' + 2 * count_list t' False \<le> length w + 2 * count_list t False"
proof (induction ps arbitrary: t w)
  case (Cons p ps)
  show ?case
  proof (cases "p < length t \<and> \<not> t ! p")
    case True
    then have "length w' + 2 * count_list t' False \<le> length (w @ [p]) + 2 * count_list (t[p := True]) False"
      using Cons.prems by (intro Cons.IH) (simp add: taint_step_def)
    then show ?thesis using count_False_update [of p t] True by simp
  next
    case False
    then show ?thesis using Cons.prems by (intro Cons.IH) (auto simp: taint_step_def)
  qed
qed simp

termination taint_loop
proof (relation "measure (\<lambda>(_, t, w). length w + 2 * count_list t False)", goal_cases)
  case (2 preds tainted work v tainted' work')
  then have "length work' + 2 * count_list tainted' False \<le> length (butlast work) + 2 * count_list tainted False"
    using taint_fold_measure [of tainted "butlast work" _ tainted' work'] by metis
  moreover have "work \<noteq> []" using 2(1) .
  then have "length (butlast work) < length work" by simp
  ultimately show ?case by simp
qed simp

definition sp_asm_reachers :: "FunctionSsa list \<Rightarrow> nat set" where
  "sp_asm_reachers funcs =
     (let n = length funcs;
          tainted = map has_sp_asm funcs;
          work = filter (\<lambda>v. tainted ! v) [0..<n];
          final = taint_loop (call_preds funcs) tainted work
      in set (map (\<lambda>v. ent_pc (funcs ! v)) (filter (\<lambda>v. final ! v) [0..<n])))"

declare taint_loop.simps [simp del]

subsection \<open>The region layout is aligned and disjoint\<close>

lemma and_minus_power: "(x :: int) AND (- (2 ^ k)) = x - x mod 2 ^ k"
proof -
  have "x AND (- (2 ^ k)) = push_bit k (drop_bit k x)"
    by (rule bit_eqI) (auto simp: bit_simps minus_exp_eq_not_mask)
  then show ?thesis by (simp add: push_bit_eq_mult drop_bit_eq_div minus_mod_eq_div_mult)
qed

lemma round_up_bounds:
  fixes x a :: int
  assumes "a = 2 ^ k"
  shows "a dvd (x + a - 1) AND (- a)" and "x \<le> (x + a - 1) AND (- a)"
    and "(x + a - 1) AND (- a) < x + a"
proof -
  have e: "(x + a - 1) AND (- a) = (x + a - 1) - (x + a - 1) mod a" by (simp add: assms and_minus_power)
  have a: "0 < a" by (simp add: assms)
  show "a dvd (x + a - 1) AND (- a)" unfolding e by (rule dvd_minus_mod)
  show "x \<le> (x + a - 1) AND (- a)" "(x + a - 1) AND (- a) < x + a"
    unfolding e using pos_mod_bound [OF a, of "x + a - 1"] pos_mod_sign [OF a, of "x + a - 1"] by linarith+
qed

definition power_of_two_int :: "int \<Rightarrow> bool" where
  "power_of_two_int a \<longleftrightarrow> (\<exists>k. a = 2 ^ k)"

definition region_input :: "RegionMember list list \<Rightarrow> bool" where
  "region_input bs \<longleftrightarrow> (\<forall>b \<in> set bs. \<forall>m \<in> set b. power_of_two_int (rm_align m) \<and> 0 \<le> rm_size m)"

definition bare :: "RegionMember \<Rightarrow> RegionMember" where
  "bare m = m\<lparr>rm_off := 0\<rparr>"

lemma power_of_two_int_max:
  "power_of_two_int a \<Longrightarrow> power_of_two_int b \<Longrightarrow> power_of_two_int (max a b)"
  by (simp add: max_def)

lemma power_of_two_int_dvd:
  assumes "power_of_two_int a" "power_of_two_int b" "a \<le> b"
  shows "a dvd b"
  using assms by (auto simp: power_of_two_int_def le_imp_power_dvd)

lemma power_of_two_int_align:
  assumes "\<forall>m \<in> set b. power_of_two_int (rm_align m)"
  shows "power_of_two_int (align_of b)" and "\<And>m. m \<in> set b \<Longrightarrow> rm_align m dvd align_of b"
proof -
  have p: "power_of_two_int (align_of b)"
  proof (cases "b = []")
    case False
    then have "Max (set (map rm_align b)) \<in> set (map rm_align b)" by (intro Max_in) auto
    then obtain m where "m \<in> set b" "Max (set (map rm_align b)) = rm_align m" unfolding set_map by blast
    then show ?thesis using assms False by (simp add: align_of_def)
  qed (auto simp: align_of_def power_of_two_int_def intro: exI [of _ 0])
  then show "power_of_two_int (align_of b)" .
  fix m assume m: "m \<in> set b"
  then have "rm_align m \<le> align_of b" by (auto simp: align_of_def)
  then show "rm_align m dvd align_of b" using assms m p by (intro power_of_two_int_dvd) auto
qed

text \<open>What the layout loop keeps: groups placed so far are aligned, below the cursor and in order.\<close>

definition laid_out :: "RegionMember list list \<Rightarrow> RegionMember list \<times> int \<times> int \<Rightarrow> RegionMember list list \<Rightarrow> bool" where
  "laid_out bs st ps \<longleftrightarrow>
     (case st of (placed, al, cursor) \<Rightarrow>
        placed = concat ps \<and> map (map bare) ps = map (map bare) bs
        \<and> (\<forall>p \<in> set ps. \<forall>m \<in> set p. 0 \<le> rm_off m \<and> rm_align m dvd rm_off m
             \<and> rm_align m dvd al \<and> rm_off m + rm_size m \<le> cursor)
        \<and> sorted_wrt (\<lambda>p q. \<forall>m \<in> set p. \<forall>m' \<in> set q. rm_off m + rm_size m \<le> rm_off m') ps
        \<and> power_of_two_int al \<and> 16 \<le> al \<and> 0 \<le> cursor)"

lemma place_step_laid_out:
  assumes st: "laid_out bs st ps" and b: "\<forall>m \<in> set b. power_of_two_int (rm_align m) \<and> 0 \<le> rm_size m"
  shows "\<exists>p. laid_out (bs @ [b]) (place_step st b) (ps @ [p])"
proof -
  obtain placed al cursor where s: "st = (placed, al, cursor)" by (cases st) auto
  note inv' = st [unfolded laid_out_def s prod.case]
  let ?a = "align_of b" and ?c = "(cursor + align_of b - 1) AND (- align_of b)"
  let ?sz = "if b = [] then 0 else Max (set (map rm_size b))"
  let ?p = "map (\<lambda>m. m\<lparr>rm_off := ?c\<rparr>) b"
  have pa: "power_of_two_int ?a" "\<And>m. m \<in> set b \<Longrightarrow> rm_align m dvd ?a"
    using power_of_two_int_align b by blast+
  then obtain k where k: "?a = 2 ^ k" by (auto simp: power_of_two_int_def)
  note c = round_up_bounds [OF k, of cursor]
  have sz: "0 \<le> ?sz" "\<And>m. m \<in> set b \<Longrightarrow> rm_size m \<le> ?sz"
    using b by (auto simp: Max_ge_iff neq_Nil_conv)
  have pm: "power_of_two_int (max al ?a)" using inv' pa(1) by (intro power_of_two_int_max) auto
  have dv: "al dvd max al ?a" "?a dvd max al ?a"
    using inv' pa(1) pm by (auto intro!: power_of_two_int_dvd)
  have "laid_out (bs @ [b]) (place_step st b) (ps @ [?p])"
    unfolding laid_out_def place_step_def s prod.case Let_def
  proof (intro conjI)
    show "placed @ ?p = concat (ps @ [?p])" using inv' by simp
    show "map (map bare) (ps @ [?p]) = map (map bare) (bs @ [b])" using inv' by (auto simp: bare_def)
    show "\<forall>p \<in> set (ps @ [?p]). \<forall>m \<in> set p. 0 \<le> rm_off m \<and> rm_align m dvd rm_off m
             \<and> rm_align m dvd max al ?a \<and> rm_off m + rm_size m \<le> ?c + ?sz"
      using inv' c pa(2) dv sz by (fastforce intro: dvd_trans)
    show "sorted_wrt (\<lambda>p q. \<forall>m \<in> set p. \<forall>m' \<in> set q. rm_off m + rm_size m \<le> rm_off m') (ps @ [?p])"
      using inv' c(2) by (fastforce simp: sorted_wrt_append)
    show "power_of_two_int (max al ?a)" by (rule pm)
    show "16 \<le> max al ?a" using inv' by (simp add: le_max_iff_disj)
    show "0 \<le> ?c + ?sz" using inv' c(2) sz(1) by linarith
  qed
  then show ?thesis by blast
qed

lemma place_fold_laid_out:
  assumes "laid_out bs st ps" and "region_input cs"
  shows "\<exists>qs. laid_out (bs @ cs) (foldl place_step st cs) (ps @ qs)"
  using assms
proof (induction cs arbitrary: bs st ps)
  case Nil
  then show ?case by (intro exI [of _ "[]"]) simp
next
  case (Cons c cs)
  have "\<forall>m \<in> set c. power_of_two_int (rm_align m) \<and> 0 \<le> rm_size m" and cs: "region_input cs"
    using Cons.prems(2) by (simp_all add: region_input_def)
  from place_step_laid_out [OF Cons.prems(1) this(1)] obtain p
    where "laid_out (bs @ [c]) (place_step st c) (ps @ [p])" by blast
  from Cons.IH [OF this cs] obtain qs
    where "laid_out ((bs @ [c]) @ cs) (foldl place_step (place_step st c) cs) ((ps @ [p]) @ qs)" by blast
  then show ?case by (intro exI [of _ "p # qs"]) simp
qed

lemma place_region_laid_out:
  assumes bs: "region_input bs" and r: "place_region bs = (placed, al, bytes)"
  obtains ps cursor where "laid_out (sort_key (\<lambda>b. - align_of b) bs) (placed, al, cursor) ps"
    and "al dvd bytes" and "cursor \<le> bytes"
proof -
  let ?cs = "sort_key (\<lambda>b. - align_of b) bs"
  have "laid_out [] ([], 16, 0) []"
    by (auto simp: laid_out_def power_of_two_int_def intro: exI [of _ 4])
  moreover have "region_input ?cs" using bs by (simp add: region_input_def)
  ultimately obtain ps where ps: "laid_out ?cs (foldl place_step ([], 16, 0) ?cs) ps"
    using place_fold_laid_out by fastforce
  obtain cursor where f: "foldl place_step ([], 16, 0) ?cs = (placed, al, cursor)"
    and b: "bytes = (cursor + al - 1) AND (- al)"
    using r by (auto simp: place_region_def split: prod.splits)
  obtain k where k: "al = 2 ^ k" using ps f by (auto simp: laid_out_def power_of_two_int_def)
  show thesis using that [of cursor ps] ps round_up_bounds [OF k, of cursor] by (simp add: f b)
qed

subsection \<open>The closure computes call-graph reachability\<close>

definition calls :: "FunctionSsa list \<Rightarrow> (nat \<times> nat) set" where
  "calls funcs = {(v, w). v < length funcs \<and> w \<in> set (callees funcs (funcs ! v))}"

definition reaches_sp_asm :: "FunctionSsa list \<Rightarrow> nat \<Rightarrow> bool" where
  "reaches_sp_asm funcs v \<longleftrightarrow> (\<exists>u < length funcs. has_sp_asm (funcs ! u) \<and> (v, u) \<in> (calls funcs)\<^sup>*)"

lemma idx_of_less: "idx_of funcs pc = Some i \<Longrightarrow> i < length funcs \<and> ent_pc (funcs ! i) = pc"
  unfolding idx_of_def by (auto dest!: map_of_SomeD simp: in_set_enumerate_eq)

lemma callees_less: "w \<in> set (callees funcs f) \<Longrightarrow> w < length funcs"
  by (auto simp: callees_def List.map_filter_def split: bind_splits) (simp add: idx_of_less)

lemma fold_preds_set:
  assumes "\<forall>w \<in> set ws. w < length ps"
  shows "length (foldl (\<lambda>ps w. ps[w := ps ! w @ [v]]) ps ws) = length ps"
    and "i < length ps \<Longrightarrow> set (foldl (\<lambda>ps w. ps[w := ps ! w @ [v]]) ps ws ! i) =
           set (ps ! i) \<union> (if i \<in> set ws then {v} else {})"
  using assms by (induction ws arbitrary: ps) (auto simp: nth_list_update)

lemma add_preds_fold:
  assumes "length ps = length funcs"
  shows "length (foldl (add_preds funcs) ps vfs) = length funcs"
    and "i < length funcs \<Longrightarrow> set (foldl (add_preds funcs) ps vfs ! i) =
           set (ps ! i) \<union> {v. \<exists>f. (v, f) \<in> set vfs \<and> i \<in> set (callees funcs f)}"
proof -
  have one: "length (add_preds funcs ps (v, f)) = length funcs"
    "i < length funcs \<Longrightarrow> set (add_preds funcs ps (v, f) ! i) = set (ps ! i) \<union> (if i \<in> set (callees funcs f) then {v} else {})"
    if "length ps = length funcs" for ps v f i
    using fold_preds_set(1) [of "callees funcs f" ps v] fold_preds_set(2) [of "callees funcs f" ps i v]
      callees_less [of _ funcs f] that by (auto simp: add_preds_def)
  show "length (foldl (add_preds funcs) ps vfs) = length funcs"
    using assms by (induction vfs arbitrary: ps) (auto simp: one)
  show "set (foldl (add_preds funcs) ps vfs ! i) =
           set (ps ! i) \<union> {v. \<exists>f. (v, f) \<in> set vfs \<and> i \<in> set (callees funcs f)}"
    if "i < length funcs"
    using assms that
  proof (induction vfs arbitrary: ps)
    case (Cons vf vfs)
    obtain v f where vf: "vf = (v, f)" by fastforce
    show ?case
      using Cons.IH [OF one(1) [OF Cons.prems(1), of v f] Cons.prems(2)] one(2) [OF Cons.prems, of v f]
      by (auto simp: vf split: if_splits)
  qed simp
qed

lemma call_preds_set:
  "length (call_preds funcs) = length funcs"
  "i < length funcs \<Longrightarrow> set (call_preds funcs ! i) = {v. (v, i) \<in> calls funcs}"
  unfolding call_preds_def calls_def
  by (auto simp: add_preds_fold in_set_enumerate_eq)

lemma taint_fold:
  assumes "foldl taint_step (t, w) ps = (t', w')" and "\<forall>p \<in> set ps. p < length t"
  shows "length t' = length t"
    and "\<And>i. i < length t \<Longrightarrow> t' ! i \<longleftrightarrow> t ! i \<or> i \<in> set ps"
    and "set w' = set w \<union> {p \<in> set ps. \<not> t ! p}"
proof -
  have "length t' = length t \<and> (\<forall>i < length t. t' ! i \<longleftrightarrow> t ! i \<or> i \<in> set ps)
      \<and> set w' = set w \<union> {p \<in> set ps. \<not> t ! p}"
    using assms
  proof (induction ps arbitrary: t w)
    case (Cons p ps)
    show ?case
    proof (cases "t ! p")
      case True
      then show ?thesis using Cons.IH [of t w] Cons.prems by (auto simp: taint_step_def)
    next
      case False
      then have "foldl taint_step (t[p := True], w @ [p]) ps = (t', w')"
        using Cons.prems by (simp add: taint_step_def [of "(t, w)"])
      with Cons.IH [OF this] Cons.prems(2) show ?thesis
        using False by (auto simp: nth_list_update split: if_splits)
    qed
  qed simp
  then show "length t' = length t" "\<And>i. i < length t \<Longrightarrow> t' ! i \<longleftrightarrow> t ! i \<or> i \<in> set ps"
    "set w' = set w \<union> {p \<in> set ps. \<not> t ! p}" by blast+
qed

text \<open>
  The loop invariant: only functions that reach the seed set are tainted, every tainted function
  off the worklist has all its callers tainted, and the worklist holds tainted functions.
\<close>

definition taint_inv :: "nat list list \<Rightarrow> nat set \<Rightarrow> bool list \<Rightarrow> nat list \<Rightarrow> bool" where
  "taint_inv preds reach t w \<longleftrightarrow>
     length t = length preds \<and> (\<forall>v \<in> set w. v < length t \<and> t ! v) \<and> {v. v < length t \<and> t ! v} \<subseteq> reach
     \<and> (\<forall>v < length t. t ! v \<longrightarrow> v \<in> set w \<or> (\<forall>p \<in> set (preds ! v). t ! p))"

definition closed_under :: "nat list list \<Rightarrow> nat set \<Rightarrow> bool" where
  "closed_under preds reach \<longleftrightarrow>
     (\<forall>v < length preds. \<forall>p \<in> set (preds ! v). p < length preds \<and> (v \<in> reach \<longrightarrow> p \<in> reach))"

lemma taint_inv_step:
  assumes c: "closed_under preds reach" and inv': "taint_inv preds reach t w" and w: "w \<noteq> []"
    and f: "foldl taint_step (t, butlast w) (preds ! last w) = (t', w')"
  shows "taint_inv preds reach t' w'" and "\<And>i. i < length t \<Longrightarrow> t ! i \<Longrightarrow> t' ! i"
proof -
  let ?v = "last w"
  have v: "?v < length t" "t ! ?v" "length t = length preds" and vr: "?v \<in> reach"
    using inv' w by (auto simp: taint_inv_def)
  have ps: "\<forall>p \<in> set (preds ! ?v). p < length t" using c v by (auto simp: closed_under_def)
  note tf = taint_fold [OF f ps]
  show mono: "\<And>i. i < length t \<Longrightarrow> t ! i \<Longrightarrow> t' ! i" using tf(2) by blast
  have sw: "set w = insert ?v (set (butlast w))" using w by (metis append_butlast_last_id list.simps(15) rotate1.simps(2) set_rotate1)
  show "taint_inv preds reach t' w'"
    unfolding taint_inv_def
  proof (intro conjI allI impI ballI)
    show "length t' = length preds" using tf(1) v by simp
    show "x < length t'" "t' ! x" if "x \<in> set w'" for x
      using that tf ps inv' sw by (auto simp: taint_inv_def)
    show "{v. v < length t' \<and> t' ! v} \<subseteq> reach"
      using tf(1,2) inv' c v vr by (auto simp: taint_inv_def closed_under_def)
    show "x \<in> set w' \<or> (\<forall>p \<in> set (preds ! x). t' ! p)" if x: "x < length t'" "t' ! x" for x
    proof (cases "t ! x")
      case True
      then have "x = ?v \<or> x \<in> set (butlast w) \<or> (\<forall>p \<in> set (preds ! x). t ! p)"
        using inv' x(1) tf(1) sw by (auto simp: taint_inv_def)
      moreover have "\<forall>p \<in> set (preds ! x). p < length t" using c x(1) tf(1) v by (auto simp: closed_under_def)
      ultimately show ?thesis using tf(2,3) ps by blast
    next
      case False
      then show ?thesis using x tf by auto
    qed
  qed
qed

lemma taint_loop_closed:
  assumes "closed_under preds reach" and "taint_inv preds reach t w"
  shows "taint_inv preds reach (taint_loop preds t w) [] \<and> (\<forall>i < length t. t ! i \<longrightarrow> taint_loop preds t w ! i)"
  using assms
proof (induction preds t w rule: taint_loop.induct)
  case (1 preds t w)
  show ?case
  proof (cases "w = []")
    case True
    then show ?thesis using 1 by (simp add: taint_loop.simps)
  next
    case False
    obtain t' w' where f: "foldl taint_step (t, butlast w) (preds ! last w) = (t', w')" by fastforce
    have l: "last w < length preds" "length t = length preds" using 1(3) False by (auto simp: taint_inv_def)
    note st = taint_inv_step [OF 1(2,3) False f]
    have "taint_loop preds t w = taint_loop preds t' w'" using False f l by (subst taint_loop.simps) simp
    moreover have "length t' = length t" using st(1) l by (simp add: taint_inv_def)
    ultimately show ?thesis using 1(1) [OF False refl _ 1(2) st(1)] f l st(2) by auto
  qed
qed

lemma sp_asm_reachers_reach:
  "sp_asm_reachers funcs = {ent_pc (funcs ! v) |v. v < length funcs \<and> reaches_sp_asm funcs v}"
proof -
  let ?n = "length funcs" and ?t = "map has_sp_asm funcs" and ?R = "{v. v < length funcs \<and> reaches_sp_asm funcs v}"
  let ?w = "filter (\<lambda>v. map has_sp_asm funcs ! v) [0..<length funcs]"
  let ?f = "taint_loop (call_preds funcs) ?t ?w"
  have pr: "length (call_preds funcs) = ?n" "\<And>i. i < ?n \<Longrightarrow> set (call_preds funcs ! i) = {v. (v, i) \<in> calls funcs}"
    by (rule call_preds_set)+
  have c: "closed_under (call_preds funcs) ?R"
    by (auto simp: closed_under_def pr) (auto simp: calls_def reaches_sp_asm_def intro: converse_rtrancl_into_rtrancl)
  have "taint_inv (call_preds funcs) ?R ?t ?w"
    by (auto simp: taint_inv_def pr reaches_sp_asm_def)
  from taint_loop_closed [OF c this]
  have f: "length ?f = ?n" "\<And>v. v < ?n \<Longrightarrow> ?f ! v \<Longrightarrow> v \<in> ?R"
    "\<And>v p. v < ?n \<Longrightarrow> ?f ! v \<Longrightarrow> (p, v) \<in> calls funcs \<Longrightarrow> ?f ! p"
    and seed: "\<And>v. v < ?n \<Longrightarrow> has_sp_asm (funcs ! v) \<Longrightarrow> ?f ! v"
    by (auto simp: taint_inv_def pr)
  have "?f ! v" if "reaches_sp_asm funcs v" for v
  proof -
    obtain u where u: "u < ?n" "has_sp_asm (funcs ! u)" "(v, u) \<in> (calls funcs)\<^sup>*"
      using \<open>reaches_sp_asm funcs v\<close> by (auto simp: reaches_sp_asm_def)
    from u(3) have "v < ?n \<and> ?f ! v"
    proof (induction rule: converse_rtrancl_induct)
      case base
      then show ?case using u seed by simp
    next
      case (step y z)
      then show ?case using f(3) by (auto simp: calls_def)
    qed
    then show ?thesis ..
  qed
  then have "{v. v < ?n \<and> ?f ! v} = ?R" using f(2) by blast
  then show ?thesis unfolding sp_asm_reachers_def Let_def by auto
qed

end
