(* ===== verification/Value_Range.thy ===== *)
theory Value_Range
  imports Eval Ir_Function
begin

text \<open>
  The interval domain of \<^verbatim>\<open>src/src/c5/codegen/passes/value_range.rs\<close>: ranges over the
  signed reading of a register, their lattice operations, the transfer function of every operator,
  the decision of a comparison and the refinement a settled comparison implies.  Bounds are
  \<open>i128\<close> in the source and \<open>int\<close> here: every bound an operation forms from register bounds is
  below \<open>2^127\<close> in magnitude.
\<close>

section \<open>Ranges\<close>

record Range =
  r_lo :: int
  r_hi :: int

abbreviation rng :: "int \<Rightarrow> int \<Rightarrow> Range" where
  "rng l h \<equiv> \<lparr>r_lo = l, r_hi = h\<rparr>"

abbreviation I64_MIN :: int where "I64_MIN \<equiv> - 9223372036854775808"
abbreviation I64_MAX :: int where "I64_MAX \<equiv> 9223372036854775807"

definition UNIVERSE :: Range where
  "UNIVERSE = rng I64_MIN I64_MAX"

definition exact :: "i64 \<Rightarrow> Range" where
  "exact v = rng (sint v) (sint v)"

definition meet :: "Range \<Rightarrow> Range \<Rightarrow> Range" where
  "meet a b = rng (max (r_lo a) (r_lo b)) (min (r_hi a) (r_hi b))"

definition hull :: "Range \<Rightarrow> Range \<Rightarrow> Range" where
  "hull a b = rng (min (r_lo a) (r_lo b)) (max (r_hi a) (r_hi b))"

definition is_universe :: "Range \<Rightarrow> bool" where
  "is_universe r \<longleftrightarrow> r = UNIVERSE"

definition contains :: "Range \<Rightarrow> Range \<Rightarrow> bool" where
  "contains a b \<longleftrightarrow> r_lo a \<le> r_lo b \<and> r_hi b \<le> r_hi a"

definition non_negative :: "Range \<Rightarrow> bool" where
  "non_negative r \<longleftrightarrow> r_lo r \<ge> 0"

definition widen_lo :: "int list" where
  "widen_lo = [0, - 0x80, - 0x8000, - 0x80000000, I64_MIN]"

definition widen_hi :: "int list" where
  "widen_hi = [- 1, 0x7f, 0xff, 0x7fff, 0xffff, 0x7fffffff, 0xffffffff, I64_MAX]"

definition widen :: "Range \<Rightarrow> Range \<Rightarrow> Range" where
  "widen self other =
     (let h = hull self other
      in rng
           (if r_lo h < r_lo self
            then (case find (\<lambda>b. b \<le> r_lo h) widen_lo of Some b \<Rightarrow> b | None \<Rightarrow> r_lo h)
            else r_lo self)
           (if r_hi h > r_hi self
            then (case find (\<lambda>b. b \<ge> r_hi h) widen_hi of Some b \<Rightarrow> b | None \<Rightarrow> r_hi h)
            else r_hi self))"

fun extend_range :: "LoadKind \<Rightarrow> Range option" where
  "extend_range LoadKind_U8 = Some (rng 0 0xff)"
| "extend_range LoadKind_I8 = Some (rng (- 0x80) 0x7f)"
| "extend_range LoadKind_U16 = Some (rng 0 0xffff)"
| "extend_range LoadKind_I16 = Some (rng (- 0x8000) 0x7fff)"
| "extend_range LoadKind_U32 = Some (rng 0 0xffffffff)"
| "extend_range LoadKind_I32 = Some (rng (- 0x80000000) 0x7fffffff)"
| "extend_range _ = None"

definition fits :: "Range \<Rightarrow> LoadKind \<Rightarrow> bool" where
  "fits r kind = (case extend_range kind of None \<Rightarrow> False | Some w \<Rightarrow> contains w r)"

definition high_word_clear :: "Range \<Rightarrow> bool" where
  "high_word_clear r \<longleftrightarrow> r_lo r \<ge> 0 \<and> r_hi r \<le> 0xffffffff"

section \<open>Comparisons\<close>

definition comparison :: "BinOp \<Rightarrow> bool option" where
  "comparison op =
     (if op \<in> {BinOp_Eq, BinOp_Ne, BinOp_Lt, BinOp_Gt, BinOp_Le, BinOp_Ge} then Some False
      else if op \<in> {BinOp_Ult, BinOp_Ugt, BinOp_Ule, BinOp_Uge} then Some True
      else None)"

fun negate_cmp :: "BinOp \<Rightarrow> BinOp option" where
  "negate_cmp BinOp_Eq = Some BinOp_Ne"
| "negate_cmp BinOp_Ne = Some BinOp_Eq"
| "negate_cmp BinOp_Lt = Some BinOp_Ge"
| "negate_cmp BinOp_Ge = Some BinOp_Lt"
| "negate_cmp BinOp_Gt = Some BinOp_Le"
| "negate_cmp BinOp_Le = Some BinOp_Gt"
| "negate_cmp BinOp_Ult = Some BinOp_Uge"
| "negate_cmp BinOp_Uge = Some BinOp_Ult"
| "negate_cmp BinOp_Ugt = Some BinOp_Ule"
| "negate_cmp BinOp_Ule = Some BinOp_Ugt"
| "negate_cmp _ = None"

fun swapped :: "BinOp \<Rightarrow> BinOp" where
  "swapped BinOp_Lt = BinOp_Gt"
| "swapped BinOp_Gt = BinOp_Lt"
| "swapped BinOp_Le = BinOp_Ge"
| "swapped BinOp_Ge = BinOp_Le"
| "swapped BinOp_Ult = BinOp_Ugt"
| "swapped BinOp_Ugt = BinOp_Ult"
| "swapped BinOp_Ule = BinOp_Uge"
| "swapped BinOp_Uge = BinOp_Ule"
| "swapped op = op"

definition decide :: "BinOp \<Rightarrow> Range \<Rightarrow> Range \<Rightarrow> bool option" where
  "decide op a b =
     (case comparison op of
        None \<Rightarrow> None
      | Some unsigned_cmp \<Rightarrow>
          if unsigned_cmp \<and> \<not> (non_negative a \<and> non_negative b) then None
          else
            let lt = r_hi a < r_lo b;
                gt = r_lo a > r_hi b;
                eq = (r_lo a = r_hi a \<and> r_lo b = r_hi b \<and> r_lo a = r_lo b)
            in case op of
                 BinOp_Eq \<Rightarrow> if eq then Some True else if lt \<or> gt then Some False else None
               | BinOp_Ne \<Rightarrow> if eq then Some False else if lt \<or> gt then Some True else None
               | BinOp_Lt \<Rightarrow> if lt then Some True else if r_lo a \<ge> r_hi b then Some False else None
               | BinOp_Ult \<Rightarrow> if lt then Some True else if r_lo a \<ge> r_hi b then Some False else None
               | BinOp_Le \<Rightarrow> if r_hi a \<le> r_lo b then Some True else if gt then Some False else None
               | BinOp_Ule \<Rightarrow> if r_hi a \<le> r_lo b then Some True else if gt then Some False else None
               | BinOp_Gt \<Rightarrow> if gt then Some True else if r_hi a \<le> r_lo b then Some False else None
               | BinOp_Ugt \<Rightarrow> if gt then Some True else if r_hi a \<le> r_lo b then Some False else None
               | _ \<Rightarrow> if r_lo a \<ge> r_hi b then Some True else if lt then Some False else None)"

definition implied :: "BinOp \<Rightarrow> Range \<Rightarrow> bool \<Rightarrow> Range \<Rightarrow> Range option" where
  "implied op k holds current =
     (case comparison op of
        None \<Rightarrow> None
      | Some unsigned_cmp \<Rightarrow>
          if unsigned_cmp \<and> \<not> (non_negative current \<and> non_negative k) then
            (if non_negative k then
               (if (op = BinOp_Ult \<and> holds) \<or> (op = BinOp_Uge \<and> \<not> holds) then Some (rng 0 (r_hi k - 1))
                else if (op = BinOp_Ule \<and> holds) \<or> (op = BinOp_Ugt \<and> \<not> holds) then Some (rng 0 (r_hi k))
                else None)
             else None)
          else
            let l = r_lo current; h = r_hi current
            in if (op = BinOp_Eq \<and> holds) \<or> (op = BinOp_Ne \<and> \<not> holds) then Some k
               else if op = BinOp_Eq \<or> op = BinOp_Ne then
                 (if r_lo k = r_hi k
                  then Some (rng (if l = r_lo k then l + 1 else l) (if h = r_lo k then h - 1 else h))
                  else None)
               else if (op \<in> {BinOp_Lt, BinOp_Ult} \<and> holds) \<or> (op \<in> {BinOp_Ge, BinOp_Uge} \<and> \<not> holds)
                 then Some (rng l (r_hi k - 1))
               else if (op \<in> {BinOp_Lt, BinOp_Ult} \<and> \<not> holds) \<or> (op \<in> {BinOp_Ge, BinOp_Uge} \<and> holds)
                 then Some (rng (r_lo k) h)
               else if (op \<in> {BinOp_Le, BinOp_Ule} \<and> holds) \<or> (op \<in> {BinOp_Gt, BinOp_Ugt} \<and> \<not> holds)
                 then Some (rng l (r_hi k))
               else Some (rng (r_lo k + 1) h))"

section \<open>Transfer functions\<close>

definition arith :: "Range \<Rightarrow> Range \<Rightarrow> bool \<Rightarrow> Range" where
  "arith a b sub =
     (let (l, h) = (if sub then (r_lo a - r_hi b, r_hi a - r_lo b) else (r_lo a + r_lo b, r_hi a + r_hi b))
      in if l < I64_MIN \<or> h > I64_MAX then UNIVERSE else rng l h)"

function low_mask_from :: "int \<Rightarrow> int \<Rightarrow> int" where
  "low_mask_from x m = (if 0 \<le> m \<and> m < x then low_mask_from x (m * 2 + 1) else m)"
  by pat_completeness auto
termination by (relation "measure (\<lambda>(x, m). nat (x - m))") auto

definition low_mask_above :: "int \<Rightarrow> int" where
  "low_mask_above x = low_mask_from x 0"

definition kept_by_mask :: "Range \<Rightarrow> i64 \<Rightarrow> bool" where
  "kept_by_mask r k \<longleftrightarrow>
     non_negative r \<and> sint k AND low_mask_above (r_hi r) = low_mask_above (r_hi r)"

definition is_low_mask :: "i64 \<Rightarrow> bool" where
  "is_low_mask k \<longleftrightarrow> 0 < sint k \<and> k AND (k + 1) = 0"

definition bitwise :: "Range \<Rightarrow> Range \<Rightarrow> bool \<Rightarrow> Range" where
  "bitwise a b is_or =
     (if \<not> (non_negative a \<and> non_negative b) then UNIVERSE
      else rng (if is_or then max (r_lo a) (r_lo b) else 0) (low_mask_above (max (r_hi a) (r_hi b))))"

definition shift :: "Range \<Rightarrow> i64 \<Rightarrow> BinOp \<Rightarrow> Range" where
  "shift a by' op =
     (if \<not> (0 \<le> sint by' \<and> sint by' < 64) then UNIVERSE
      else
        let k = nat (sint by');
            r = (if op = BinOp_Shl then rng (push_bit k (r_lo a)) (push_bit k (r_hi a))
                 else if op = BinOp_Shr then rng (drop_bit k (r_lo a)) (drop_bit k (r_hi a))
                 else if \<not> non_negative a then rng 0 (drop_bit k 0xffffffffffffffff)
                 else rng (drop_bit k (r_lo a)) (drop_bit k (r_hi a)))
        in if r_lo r < I64_MIN \<or> r_hi r > I64_MAX then UNIVERSE else r)"

definition magnitude :: "Range \<Rightarrow> int" where
  "magnitude r = max \<bar>r_lo r\<bar> \<bar>r_hi r\<bar>"

definition representable :: "Range \<Rightarrow> Range" where
  "representable r = (if contains UNIVERSE r then r else UNIVERSE)"

text \<open>Division of \<open>i128\<close> truncates: \<open>sdiv\<close>.\<close>

definition quotient :: "Range \<Rightarrow> Range \<Rightarrow> bool \<Rightarrow> Range" where
  "quotient a d unsigned_div =
     (if unsigned_div then
        (if non_negative a \<and> r_lo d > 0 then rng (r_lo a sdiv r_hi d) (r_hi a sdiv r_lo d)
         else if non_negative a then rng 0 (r_hi a)
         else if r_lo d > 1 then rng 0 (0xffffffffffffffff sdiv r_lo d)
         else UNIVERSE)
      else if r_lo d \<le> 0 \<and> r_hi d \<ge> 0 then
        (let m = magnitude a in representable (rng (- m) m))
      else
        let corners = [r_lo a sdiv r_lo d, r_lo a sdiv r_hi d, r_hi a sdiv r_lo d, r_hi a sdiv r_hi d]
        in representable (rng (Min (set corners)) (Max (set corners))))"

definition remainder :: "Range \<Rightarrow> Range \<Rightarrow> bool \<Rightarrow> Range" where
  "remainder a d unsigned_rem =
     (if unsigned_rem then
        (if non_negative a then
           (if r_lo d > 0 then rng 0 (min (r_hi a) (r_hi d - 1)) else rng 0 (r_hi a))
         else if r_lo d > 0 then rng 0 (r_hi d - 1)
         else UNIVERSE)
      else
        let by_dividend = rng (min (r_lo a) 0) (max (r_hi a) 0)
        in if r_lo d \<le> 0 \<and> r_hi d \<ge> 0 then by_dividend
           else let m = magnitude d - 1 in meet by_dividend (rng (- m) m))"

definition unsigned_form :: "BinOp \<Rightarrow> BinOp option" where
  "unsigned_form op =
     (if op = BinOp_Div then Some BinOp_Divu else if op = BinOp_Mod then Some BinOp_Modu else None)"

definition divmod_range :: "BinOp \<Rightarrow> Range \<Rightarrow> Range \<Rightarrow> Range" where
  "divmod_range op a d =
     (if r_lo a > r_hi a \<or> r_lo d > r_hi d then UNIVERSE
      else if op = BinOp_Div then quotient a d False
      else if op = BinOp_Divu then quotient a d True
      else if op = BinOp_Mod then remainder a d False
      else remainder a d True)"

definition binop :: "BinOp \<Rightarrow> Range \<Rightarrow> Range \<Rightarrow> Range" where
  "binop op a b =
     (if comparison op \<noteq> None then rng 0 1
      else if op = BinOp_And then
        (if non_negative a \<and> non_negative b then rng 0 (min (r_hi a) (r_hi b))
         else if non_negative a then rng 0 (r_hi a)
         else if non_negative b then rng 0 (r_hi b)
         else UNIVERSE)
      else if op = BinOp_Add then arith a b False
      else if op = BinOp_Sub then arith a b True
      else if op = BinOp_Or \<or> op = BinOp_Xor then bitwise a b (op = BinOp_Or)
      else if is_divmod_op op then divmod_range op a b
      else UNIVERSE)"

definition binop_imm :: "BinOp \<Rightarrow> Range \<Rightarrow> i64 \<Rightarrow> Range" where
  "binop_imm op l rhs_imm =
     (if comparison op \<noteq> None then rng 0 1
      else if op = BinOp_And \<and> 0 \<le> sint rhs_imm then
        rng 0 (if non_negative l then min (sint rhs_imm) (r_hi l) else sint rhs_imm)
      else if op = BinOp_Add then arith l (exact rhs_imm) False
      else if op = BinOp_Sub then arith l (exact rhs_imm) True
      else if op = BinOp_Or \<or> op = BinOp_Xor then bitwise l (exact rhs_imm) (op = BinOp_Or)
      else if op \<in> {BinOp_Shl, BinOp_Shr, BinOp_Shru} then shift l rhs_imm op
      else if is_divmod_op op then divmod_range op l (exact rhs_imm)
      else UNIVERSE)"

declare low_mask_from.simps [simp del]

end
