(* ===== verification/Range_Sound.thy ===== *)
theory Range_Sound
  imports Value_Range
begin

text \<open>
  Soundness of the interval domain: a range stands for the registers whose signed reading lies in
  it, every transfer function covers what the evaluator computes, a decided comparison has the
  answer the evaluator gives, and the refinement of a settled comparison loses no value.
\<close>

definition in_range :: "Range \<Rightarrow> i64 \<Rightarrow> bool" where
  "in_range r x \<longleftrightarrow> r_lo r \<le> sint x \<and> sint x \<le> r_hi r"

section \<open>Lattice operations\<close>

lemma in_universe [simp]: "in_range UNIVERSE x"
  using sint_ge_64 [of x] sint_lt_64 [of x] by (simp add: in_range_def UNIVERSE_def)

lemma in_exact: "in_range (exact v) x \<longleftrightarrow> x = v"
  by (auto simp: in_range_def exact_def word_eq_sint)

lemma in_meet: "in_range (meet a b) x \<longleftrightarrow> in_range a x \<and> in_range b x"
  by (auto simp: in_range_def meet_def)

lemma in_hull: "in_range a x \<or> in_range b x \<Longrightarrow> in_range (hull a b) x"
  by (auto simp: in_range_def hull_def)

lemma in_contains: "contains a b \<Longrightarrow> in_range b x \<Longrightarrow> in_range a x"
  by (auto simp: in_range_def contains_def)

lemma find_le: "find (\<lambda>b. b \<le> (x :: int)) xs = Some b \<Longrightarrow> b \<le> x \<and> b \<in> set xs"
  by (auto simp: find_Some_iff)

lemma find_ge: "find (\<lambda>b. (x :: int) \<le> b) xs = Some b \<Longrightarrow> x \<le> b \<and> b \<in> set xs"
  by (auto simp: find_Some_iff)

lemma widen_contains: "contains (widen a b) (hull a b)"
proof -
  have "r_lo (widen a b) \<le> r_lo (hull a b)"
    unfolding widen_def Let_def
    by (cases "find (\<lambda>x. x \<le> r_lo (hull a b)) widen_lo") (simp_all add: find_le [THEN conjunct1])
  moreover have "r_hi (hull a b) \<le> r_hi (widen a b)"
    unfolding widen_def Let_def
    by (cases "find (\<lambda>x. r_hi (hull a b) \<le> x) widen_hi") (simp_all add: find_ge [THEN conjunct1])
  ultimately show ?thesis by (simp add: contains_def)
qed

text \<open>
  Widening settles: each application that moves an endpoint lowers a rank of at most thirteen.
\<close>

definition widen_rank :: "Range \<Rightarrow> nat" where
  "widen_rank r =
     length (filter (\<lambda>b. b < r_lo r) widen_lo) + length (filter (\<lambda>b. r_hi r < b) widen_hi)"

lemma filter_shrinks:
  assumes "\<And>x. Q x \<Longrightarrow> P x" and "y \<in> set xs" "P y" "\<not> Q y"
  shows "length (filter Q xs) < length (filter P xs)"
proof -
  have "filter Q xs = filter Q (filter P xs)" using assms(1) by (auto intro: filter_cong)
  moreover have "length (filter Q (filter P xs)) < length (filter P xs)"
    using assms(2-4) by (intro length_filter_less [of y]) simp_all
  ultimately show ?thesis by simp
qed

lemma filter_shrinks_eq:
  assumes "\<And>x. Q x \<Longrightarrow> P x"
  shows "length (filter Q xs) \<le> length (filter P xs)"
proof -
  have "filter Q xs = filter Q (filter P xs)" using assms by (auto intro: filter_cong)
  then show ?thesis by (metis length_filter_le)
qed

lemma widen_lo_rank:
  assumes "contains UNIVERSE (hull a b)" "r_lo (widen a b) \<noteq> r_lo a"
  shows "length (filter (\<lambda>x. x < r_lo (widen a b)) widen_lo) < length (filter (\<lambda>x. x < r_lo a) widen_lo)"
proof -
  have lt: "r_lo (hull a b) < r_lo a" using assms(2) by (auto simp: widen_def Let_def split: if_splits)
  have "\<exists>x \<in> set widen_lo. x \<le> r_lo (hull a b)"
    using assms(1) by (auto simp: contains_def UNIVERSE_def widen_lo_def)
  then obtain x where x: "find (\<lambda>b'. b' \<le> r_lo (hull a b)) widen_lo = Some x"
    by (metis (mono_tags, lifting) find_None_iff option.exhaust)
  then have "r_lo (widen a b) = x" using lt by (simp add: widen_def Let_def)
  moreover have "x < r_lo a" "x \<in> set widen_lo" using find_le [OF x] lt by auto
  ultimately show ?thesis by (intro filter_shrinks [of _ _ x]) auto
qed

lemma widen_hi_rank:
  assumes "contains UNIVERSE (hull a b)" "r_hi (widen a b) \<noteq> r_hi a"
  shows "length (filter (\<lambda>x. r_hi (widen a b) < x) widen_hi) < length (filter (\<lambda>x. r_hi a < x) widen_hi)"
proof -
  have lt: "r_hi a < r_hi (hull a b)" using assms(2) by (auto simp: widen_def Let_def split: if_splits)
  have "\<exists>x \<in> set widen_hi. r_hi (hull a b) \<le> x"
    using assms(1) by (auto simp: contains_def UNIVERSE_def widen_hi_def)
  then obtain x where x: "find (\<lambda>b'. r_hi (hull a b) \<le> b') widen_hi = Some x"
    by (metis (mono_tags, lifting) find_None_iff option.exhaust)
  then have "r_hi (widen a b) = x" using lt by (simp add: widen_def Let_def)
  moreover have "r_hi a < x" "x \<in> set widen_hi" using find_ge [OF x] lt by auto
  ultimately show ?thesis by (intro filter_shrinks [of _ _ x]) auto
qed

lemma widen_rank_decreases:
  assumes u: "contains UNIVERSE (hull a b)" and "widen a b \<noteq> a"
  shows "widen_rank (widen a b) < widen_rank a"
proof -
  have "r_lo (widen a b) \<le> r_lo a" "r_hi a \<le> r_hi (widen a b)"
    using widen_contains [of a b] by (auto simp: contains_def hull_def)
  then have le: "length (filter (\<lambda>x. x < r_lo (widen a b)) widen_lo) \<le> length (filter (\<lambda>x. x < r_lo a) widen_lo)"
    "length (filter (\<lambda>x. r_hi (widen a b) < x) widen_hi) \<le> length (filter (\<lambda>x. r_hi a < x) widen_hi)"
    by (intro filter_shrinks_eq; simp)+
  have "r_lo (widen a b) \<noteq> r_lo a \<or> r_hi (widen a b) \<noteq> r_hi a" using assms(2) by auto
  then show ?thesis using le widen_lo_rank [OF u] widen_hi_rank [OF u] unfolding widen_rank_def by linarith
qed

section \<open>Comparisons\<close>

text \<open>The truth value of a comparison, and the signed reading of an unsigned one on non-negative registers.\<close>

fun cmp_holds :: "BinOp \<Rightarrow> i64 \<Rightarrow> i64 \<Rightarrow> bool" where
  "cmp_holds BinOp_Eq x y = (x = y)"
| "cmp_holds BinOp_Ne x y = (x \<noteq> y)"
| "cmp_holds BinOp_Lt x y = (sint x < sint y)"
| "cmp_holds BinOp_Gt x y = (sint x > sint y)"
| "cmp_holds BinOp_Le x y = (sint x \<le> sint y)"
| "cmp_holds BinOp_Ge x y = (sint x \<ge> sint y)"
| "cmp_holds BinOp_Ult x y = (x < y)"
| "cmp_holds BinOp_Ugt x y = (x > y)"
| "cmp_holds BinOp_Ule x y = (x \<le> y)"
| "cmp_holds BinOp_Uge x y = (x \<ge> y)"
| "cmp_holds _ _ _ = False"

lemma eval_comparison:
  "comparison op \<noteq> None \<Longrightarrow> eval_int_binop op x y = Inr (bool_i64 (cmp_holds op x y))"
  by (cases op) (simp_all add: comparison_def eval_int_binop_def)

lemma unsigned_nonneg:
  fixes x y :: i64
  assumes "0 \<le> sint x" "0 \<le> sint y"
  shows "x < y \<longleftrightarrow> sint x < sint y" and "x \<le> y \<longleftrightarrow> sint x \<le> sint y"
  using assms by (simp_all add: word_less_def word_le_def uint_eq_sint)

lemma in_non_negative: "non_negative r \<Longrightarrow> in_range r x \<Longrightarrow> 0 \<le> sint x"
  by (auto simp: non_negative_def in_range_def)

lemma decide_sound:
  assumes "decide op a b = Some t" "in_range a x" "in_range b y"
  shows "cmp_holds op x y = t"
proof -
  obtain u where u: "comparison op = Some u" "u \<Longrightarrow> non_negative a \<and> non_negative b"
    using assms(1) by (auto simp: decide_def split: option.splits if_splits)
  have s: "u \<Longrightarrow> 0 \<le> sint x" "u \<Longrightarrow> 0 \<le> sint y" using u(2) assms in_non_negative by blast+
  show ?thesis
    using assms u(1) s unsigned_nonneg [of x y] unsigned_nonneg [of y x]
    by (cases op) (auto simp: decide_def comparison_def in_range_def Let_def word_eq_sint split: if_splits)
qed

lemma unsigned_below_nonneg:
  fixes x y :: i64
  assumes "0 \<le> sint y"
  shows "x < y \<Longrightarrow> 0 \<le> sint x \<and> sint x < sint y" and "x \<le> y \<Longrightarrow> 0 \<le> sint x \<and> sint x \<le> sint y"
  using assms sint_ge_64 [of x] sint_lt_64 [of y]
  by (auto simp: word_less_def word_le_def uint_eq_sint split: if_splits)

lemma implied_unsigned_sound:
  assumes "implied op k holds r = Some r'" "in_range k y" "cmp_holds op x y = holds"
    and "comparison op = Some True" "\<not> (non_negative r \<and> non_negative k)"
  shows "in_range r' x"
proof -
  have k: "non_negative k" using assms(1,4,5) by (auto simp: implied_def split: if_splits)
  then have y: "0 \<le> sint y" using assms(2) by (rule in_non_negative)
  then show ?thesis
    using assms k unsigned_below_nonneg [OF y, of x]
    by (cases op) (auto simp: implied_def in_range_def comparison_def not_le not_less split: if_splits)
qed

lemma implied_signed_sound:
  assumes "implied op k holds r = Some r'" "in_range k y" "in_range r x" "cmp_holds op x y = holds"
    and u: "comparison op = Some u" "u \<longrightarrow> non_negative r \<and> non_negative k"
  shows "in_range r' x"
proof -
  have s: "u \<Longrightarrow> 0 \<le> sint x" "u \<Longrightarrow> 0 \<le> sint y" using u(2) assms in_non_negative by blast+
  show ?thesis
    using assms s unsigned_nonneg [of x y] unsigned_nonneg [of y x]
    by (cases op; cases holds)
       (auto simp: implied_def comparison_def in_range_def Let_def word_eq_sint split: if_splits)
qed

lemma implied_sound:
  assumes "implied op k holds r = Some r'" "in_range k y" "in_range r x" "cmp_holds op x y = holds"
  shows "in_range r' x"
proof -
  obtain u where u: "comparison op = Some u" using assms(1) by (auto simp: implied_def split: option.splits)
  show ?thesis
  proof (cases "u \<longrightarrow> non_negative r \<and> non_negative k")
    case True
    then show ?thesis using implied_signed_sound [OF assms u] by blast
  next
    case False
    then show ?thesis using implied_unsigned_sound [OF assms(1,2,4)] u by auto
  qed
qed

lemma negate_cmp_sound: "negate_cmp op = Some op' \<Longrightarrow> cmp_holds op' x y \<longleftrightarrow> \<not> cmp_holds op x y"
  by (cases op) auto

lemma swapped_sound: "comparison op \<noteq> None \<Longrightarrow> cmp_holds (swapped op) y x \<longleftrightarrow> cmp_holds op x y"
  by (cases op) (auto simp: comparison_def)

end
