(* ===== verification/Range_Transfer.thy ===== *)
theory Range_Transfer
  imports Range_Sound
begin

text \<open>
  Soundness of the transfer functions: the range an operator's operand ranges give contains what
  the evaluator computes from registers in those ranges.
\<close>

section \<open>Addition and subtraction\<close>

lemma sint_small: "I64_MIN \<le> k \<Longrightarrow> k \<le> I64_MAX \<Longrightarrow> sint (word_of_int k :: i64) = k"
  by (rule sint_of_int_small) simp_all

lemma arith_sound:
  assumes "in_range a x" "in_range b y"
  shows "in_range (arith a b False) (x + y)" and "in_range (arith a b True) (x - y)"
proof -
  have w: "x + y = word_of_int (sint x + sint y)" "x - y = word_of_int (sint x - sint y)" by simp_all
  show "in_range (arith a b False) (x + y)"
  proof (cases "r_lo a + r_lo b < I64_MIN \<or> r_hi a + r_hi b > I64_MAX")
    case False
    then have "sint (x + y) = sint x + sint y"
      using assms unfolding w by (intro sint_small) (auto simp: in_range_def)
    then show ?thesis using False assms by (simp add: arith_def in_range_def)
  qed (simp add: arith_def)
  show "in_range (arith a b True) (x - y)"
  proof (cases "r_lo a - r_hi b < I64_MIN \<or> r_hi a - r_lo b > I64_MAX")
    case False
    then have "sint (x - y) = sint x - sint y"
      using assms unfolding w by (intro sint_small) (auto simp: in_range_def)
    then show ?thesis using False assms by (simp add: arith_def in_range_def)
  qed (simp add: arith_def)
qed

section \<open>Bitwise operators\<close>

lemma low_mask_from_spec:
  assumes "m = 2 ^ j - 1"
  shows "\<exists>k. low_mask_from x m = 2 ^ k - 1 \<and> x \<le> low_mask_from x m \<and> (x < 2 ^ n \<and> j \<le> n \<longrightarrow> k \<le> n)"
  using assms
proof (induction x m arbitrary: j rule: low_mask_from.induct)
  case (1 x m)
  show ?case
  proof (cases "m < x")
    case True
    have m0: "0 \<le> m" using 1(2) by simp
    have m': "m * 2 + 1 = 2 ^ Suc j - 1" using 1(2) by simp
    have "x < 2 ^ n \<Longrightarrow> j \<le> n \<Longrightarrow> Suc j \<le> n"
    proof (rule ccontr)
      assume "x < 2 ^ n" "j \<le> n" "\<not> Suc j \<le> n"
      then have "n = j" by simp
      then show False using \<open>x < 2 ^ n\<close> True 1(2) by simp
    qed
    then show ?thesis using 1(1) [OF _ m'] True m0 by (subst (1 2) low_mask_from.simps) auto
  next
    case False
    then have "low_mask_from x m = m" by (subst low_mask_from.simps) simp
    then show ?thesis using 1(2) False by (intro exI [of _ j]) simp
  qed
qed

lemma low_mask_above_spec:
  obtains k where "low_mask_above x = 2 ^ k - 1" and "x \<le> low_mask_above x" and "x \<le> I64_MAX \<Longrightarrow> k \<le> 63"
  using low_mask_from_spec [of 0 0 x 63] by (auto simp: low_mask_above_def)

lemma uint_sint_nonneg: "0 \<le> sint (x :: i64) \<Longrightarrow> uint x = sint x"
  by (simp add: uint_eq_sint)

lemma sint_uint_small: "uint (x :: i64) \<le> I64_MAX \<Longrightarrow> sint x = uint x"
  using sint_ge_64 [of x] uint_eq_sint [of x] by (auto split: if_splits)

lemma bitwise_sound:
  assumes "in_range a x" "in_range b y"
  shows "in_range (bitwise a b True) (x OR y)" and "in_range (bitwise a b False) (x XOR y)"
proof -
  let ?m = "low_mask_above (max (r_hi a) (r_hi b))"
  obtain k where k: "?m = 2 ^ k - 1" "max (r_hi a) (r_hi b) \<le> ?m" "max (r_hi a) (r_hi b) \<le> I64_MAX \<Longrightarrow> k \<le> 63"
    using low_mask_above_spec by blast
  have core: "uint x OR uint y \<le> ?m \<and> uint x \<le> uint x OR uint y \<and> uint y \<le> uint x OR uint y
      \<and> uint x XOR uint y \<le> ?m \<and> uint x OR uint y \<le> I64_MAX \<and> uint x XOR uint y \<le> I64_MAX"
    if nn: "0 \<le> sint x" "0 \<le> sint y"
  proof -
    have u: "uint x = sint x" "uint y = sint y" using nn by (simp_all add: uint_sint_nonneg)
    have "uint x \<le> ?m" "uint y \<le> ?m" using assms k(2) u by (auto simp: in_range_def)
    then have b: "uint x < 2 ^ k" "uint y < 2 ^ k" using k(1) by simp_all
    have b63: "uint x < 2 ^ 63" "uint y < 2 ^ 63" using u sint_lt_64 [of x] sint_lt_64 [of y] by simp_all
    show ?thesis
      using OR_upper [OF _ b] XOR_upper [OF _ b] OR_upper [OF _ b63] XOR_upper [OF _ b63] k(1)
        or_greater_eq [of "uint y" "uint x"] or_greater_eq [of "uint x" "uint y"]
      by (simp add: or.commute)
  qed
  have nn: "non_negative a \<Longrightarrow> 0 \<le> sint x" "non_negative b \<Longrightarrow> 0 \<le> sint y"
    using assms in_non_negative by blast+
  show "in_range (bitwise a b True) (x OR y)"
  proof (cases "non_negative a \<and> non_negative b")
    case True
    then have c: "0 \<le> sint x" "0 \<le> sint y" using nn by blast+
    then have "sint (x OR y) = uint x OR uint y"
      using core by (subst sint_uint_small) (simp_all add: unsigned_or_eq)
    then show ?thesis
      using core [OF c] True assms c by (auto simp: bitwise_def in_range_def uint_sint_nonneg)
  qed (simp add: bitwise_def)
  show "in_range (bitwise a b False) (x XOR y)"
  proof (cases "non_negative a \<and> non_negative b")
    case True
    then have c: "0 \<le> sint x" "0 \<le> sint y" using nn by blast+
    then have "sint (x XOR y) = uint x XOR uint y"
      using core by (subst sint_uint_small) (simp_all add: unsigned_xor_eq)
    then show ?thesis
      using core [OF c] True by (auto simp: bitwise_def in_range_def)
  qed (simp add: bitwise_def)
qed

lemma uint_and_le: "uint ((x :: i64) AND y) \<le> uint y" "uint ((x :: i64) AND y) \<le> uint x"
  by (simp_all add: unsigned_and_eq)

lemma and_bound:
  fixes x y :: i64
  assumes "0 \<le> sint y"
  shows "0 \<le> sint (x AND y)" and "sint (x AND y) \<le> sint y"
    and "0 \<le> sint x \<Longrightarrow> sint (x AND y) \<le> sint x"
proof -
  have le: "uint (x AND y) \<le> sint y" using uint_and_le(1) [of x y] uint_sint_nonneg [OF assms] by linarith
  then have s: "sint (x AND y) = uint (x AND y)"
    using sint_lt_64 [of y] by (intro sint_uint_small) linarith
  have "0 \<le> uint (x AND y)" by simp
  then show "0 \<le> sint (x AND y)" "sint (x AND y) \<le> sint y" using s le by linarith+
  show "0 \<le> sint x \<Longrightarrow> sint (x AND y) \<le> sint x"
    using s uint_and_le(2) [of x y] uint_sint_nonneg [of x] by linarith
qed

section \<open>Shifts\<close>

lemma shift_count_small:
  assumes "0 \<le> sint k" "sint k < 64"
  shows "shift_count k = nat (sint k)"
proof -
  have "uint k = sint k" using assms(1) by (rule uint_sint_nonneg)
  then have "unat k = nat (sint k)" by (metis unat_eq_nat_uint)
  then show ?thesis using assms by (simp add: shift_count_eq)
qed

lemma shl_sound:
  assumes x: "in_range a x" and r: "I64_MIN \<le> push_bit k (r_lo a)" "push_bit k (r_hi a) \<le> I64_MAX"
  shows "push_bit k (r_lo a) \<le> sint (push_bit k x)" and "sint (push_bit k x) \<le> push_bit k (r_hi a)"
proof -
  have b: "push_bit k (r_lo a) \<le> sint x * 2 ^ k" "sint x * 2 ^ k \<le> push_bit k (r_hi a)"
    using x by (simp_all add: in_range_def push_bit_eq_mult)
  have "push_bit k x = word_of_int (sint x * 2 ^ k)" by (simp add: push_bit_eq_mult)
  moreover have "sint (word_of_int (sint x * 2 ^ k) :: i64) = sint x * 2 ^ k"
    using b r by (intro sint_small) linarith+
  ultimately have "sint (push_bit k x) = sint x * 2 ^ k" by (simp only:)
  then show "push_bit k (r_lo a) \<le> sint (push_bit k x)" "sint (push_bit k x) \<le> push_bit k (r_hi a)"
    using b by simp_all
qed

lemma shift_sound:
  assumes x: "in_range a x"
  shows "in_range (shift a k BinOp_Shl) (push_bit (shift_count k) x)"
    and "in_range (shift a k BinOp_Shr) (signed_drop_bit (shift_count k) x)"
    and "in_range (shift a k BinOp_Shru) (drop_bit (shift_count k) x)"
proof -
  have "in_range (shift a k BinOp_Shl) (push_bit (shift_count k) x)
      \<and> in_range (shift a k BinOp_Shr) (signed_drop_bit (shift_count k) x)
      \<and> in_range (shift a k BinOp_Shru) (drop_bit (shift_count k) x)"
  proof (cases "0 \<le> sint k \<and> sint k < 64")
    case True
    let ?k = "nat (sint k)"
    have c: "shift_count k = ?k" using True by (intro shift_count_small) simp_all
    have shl: "in_range (shift a k BinOp_Shl) (push_bit ?k x)"
      using True shl_sound [OF x, of ?k] by (simp add: shift_def in_range_def [of "rng _ _"] Let_def)
    have mono: "drop_bit ?k (r_lo a) \<le> sint x div 2 ^ ?k" "sint x div 2 ^ ?k \<le> drop_bit ?k (r_hi a)"
      using x by (simp_all add: in_range_def drop_bit_eq_div zdiv_mono1)
    have shr: "in_range (shift a k BinOp_Shr) (signed_drop_bit ?k x)"
      using True mono by (simp add: shift_def in_range_def [of "rng _ _"] Let_def sint_signed_drop_bit)
    have "in_range (shift a k BinOp_Shru) (drop_bit ?k x)"
    proof (cases "non_negative a")
      case nn: True
      then have s0: "0 \<le> sint x" using x by (rule in_non_negative)
      then have u: "uint (drop_bit ?k x) = sint x div 2 ^ ?k" by (simp add: uint_drop_bit uint_sint_nonneg)
      moreover have "sint x div 2 ^ ?k \<le> sint x" using s0 int_div_le_self [of "sint x" "2 ^ ?k"] by (cases "sint x = 0") simp_all
      ultimately have "sint (drop_bit ?k x) = sint x div 2 ^ ?k"
        using sint_lt_64 [of x] by (subst sint_uint_small) simp_all
      then show ?thesis using True mono nn by (simp add: shift_def in_range_def [of "rng _ _"] Let_def)
    next
      case neg: False
      have "uint x \<le> 0xffffffffffffffff" using uint_lt_64 [of x] by simp
      then have "uint (drop_bit ?k x) \<le> drop_bit ?k 0xffffffffffffffff"
        unfolding uint_drop_bit drop_bit_eq_div [of _ "0xffffffffffffffff :: int"] by (rule zdiv_mono1) simp
      then have "drop_bit ?k 0xffffffffffffffff \<le> I64_MAX \<Longrightarrow>
          0 \<le> sint (drop_bit ?k x) \<and> sint (drop_bit ?k x) \<le> drop_bit ?k 0xffffffffffffffff"
        using sint_uint_small [of "drop_bit ?k x"] by simp
      then show ?thesis using True neg by (simp add: shift_def in_range_def [of "rng _ _"] Let_def)
    qed
    then show ?thesis using shl shr c by simp
  qed (simp add: shift_def)
  then show "in_range (shift a k BinOp_Shl) (push_bit (shift_count k) x)"
    "in_range (shift a k BinOp_Shr) (signed_drop_bit (shift_count k) x)"
    "in_range (shift a k BinOp_Shru) (drop_bit (shift_count k) x)" by blast+
qed

section \<open>Division\<close>

lemma sdiv_pos_mono: "0 < (d :: int) \<Longrightarrow> n \<le> n' \<Longrightarrow> n sdiv d \<le> n' sdiv d"
proof -
  assume d: "0 < d" and n: "n \<le> n'"
  have pos: "0 \<le> m \<Longrightarrow> m sdiv d = m div d" for m using d by (cases "m = 0") (simp_all add: signed_divide_int_def)
  have neg: "m < 0 \<Longrightarrow> m sdiv d = - ((- m) div d)" for m using d by (simp add: signed_divide_int_def)
  consider "0 \<le> n" | "n < 0" "0 \<le> n'" | "n' < 0" using n by linarith
  then show "n sdiv d \<le> n' sdiv d"
  proof cases
    case 2
    then have "0 \<le> (- n) div d" "0 \<le> n' div d" using d by (simp_all add: pos_imp_zdiv_nonneg_iff)
    then show ?thesis using 2 by (simp add: pos neg)
  qed (use n d in \<open>simp_all add: pos neg zdiv_mono1\<close>)
qed

lemma sdiv_between_n:
  assumes "d \<noteq> 0" "(l :: int) \<le> n" "n \<le> h"
  shows "min (l sdiv d) (h sdiv d) \<le> n sdiv d" and "n sdiv d \<le> max (l sdiv d) (h sdiv d)"
proof -
  have "min (l sdiv d) (h sdiv d) \<le> n sdiv d \<and> n sdiv d \<le> max (l sdiv d) (h sdiv d)"
  proof (cases "0 < d")
    case True
    then show ?thesis using sdiv_pos_mono [of d l n] sdiv_pos_mono [of d n h] assms by auto
  next
    case False
    then have "0 < - d" using assms(1) by simp
    then show ?thesis using sdiv_pos_mono [of "- d" l n] sdiv_pos_mono [of "- d" n h] assms by auto
  qed
  then show "min (l sdiv d) (h sdiv d) \<le> n sdiv d" "n sdiv d \<le> max (l sdiv d) (h sdiv d)" by blast+
qed

lemma sdiv_pos_between_d:
  assumes "0 < (l :: int)" "l \<le> d" "d \<le> h"
  shows "min (n sdiv l) (n sdiv h) \<le> n sdiv d \<and> n sdiv d \<le> max (n sdiv l) (n sdiv h)"
proof -
  have p: "m div h \<le> m div d" "m div d \<le> m div l" if "0 \<le> m" for m
    using assms that by (simp_all add: zdiv_mono2)
  show ?thesis
    using p [of "\<bar>n\<bar>"] assms by (auto simp: signed_divide_int_def sgn_if)
qed

lemma sdiv_between_d:
  assumes "0 < (l :: int) \<or> h < 0" "l \<le> d" "d \<le> h"
  shows "min (n sdiv l) (n sdiv h) \<le> n sdiv d \<and> n sdiv d \<le> max (n sdiv l) (n sdiv h)"
proof (cases "0 < l")
  case False
  then show ?thesis using sdiv_pos_between_d [of "- h" "- d" "- l" n] assms by (simp add: min_le_iff_disj) linarith
qed (use sdiv_pos_between_d assms in blast)

lemma sdiv_corners:
  assumes "0 < (dl :: int) \<or> dh < 0" "dl \<le> d" "d \<le> dh" "al \<le> n" "n \<le> ah"
  defines "C \<equiv> set [al sdiv dl, al sdiv dh, ah sdiv dl, ah sdiv dh]"
  shows "Min C \<le> n sdiv d" and "n sdiv d \<le> Max C"
proof -
  have nz: "dl \<noteq> 0" "dh \<noteq> 0" using assms(1-3) by auto
  note b = sdiv_between_d [OF assms(1-3), of n]
  note l = sdiv_between_n [OF nz(1) assms(4,5)] and h = sdiv_between_n [OF nz(2) assms(4,5)]
  have "n sdiv d \<le> max (max (al sdiv dl) (ah sdiv dl)) (max (al sdiv dh) (ah sdiv dh))"
    "min (min (al sdiv dl) (ah sdiv dl)) (min (al sdiv dh) (ah sdiv dh)) \<le> n sdiv d"
    using b l h by linarith+
  then show "Min C \<le> n sdiv d" "n sdiv d \<le> Max C" unfolding C_def by (simp_all add: min_le_iff_disj le_max_iff_disj) linarith+
qed

lemma in_representable:
  "(contains UNIVERSE r \<Longrightarrow> in_range r x) \<Longrightarrow> in_range (representable r) x"
  by (simp add: representable_def)

lemma wrapping_div_in:
  assumes "contains UNIVERSE r" "r_lo r \<le> sint x sdiv sint y" "sint x sdiv sint y \<le> r_hi r"
  shows "in_range r (wrapping_div x y)"
proof -
  have "sint (wrapping_div x y) = sint x sdiv sint y"
    unfolding wrapping_div_def using assms by (intro sint_small) (auto simp: contains_def UNIVERSE_def)
  then show ?thesis using assms by (simp add: in_range_def)
qed

lemma abs_sdiv_le: "y \<noteq> 0 \<Longrightarrow> \<bar>(x :: int) sdiv y\<bar> \<le> \<bar>x\<bar>"
  by (cases "x = 0") (auto simp: signed_divide_int_def abs_mult int_div_le_self pos_imp_zdiv_nonneg_iff abs_of_nonneg)

lemma in_magnitude: "in_range a x \<Longrightarrow> \<bar>sint x\<bar> \<le> magnitude a"
  by (auto simp: in_range_def magnitude_def)

lemma quotient_signed_sound:
  assumes x: "in_range a x" and y: "in_range d y" "y \<noteq> 0"
  shows "in_range (quotient a d False) (wrapping_div x y)"
proof (cases "r_lo d \<le> 0 \<and> r_hi d \<ge> 0")
  case True
  have "sint y \<noteq> 0" using y(2) word_eq_sint [of y 0] by simp
  then have "\<bar>sint x sdiv sint y\<bar> \<le> magnitude a" using abs_sdiv_le [of "sint y" "sint x"] in_magnitude [OF x] by simp
  then show ?thesis using True by (auto simp: quotient_def Let_def intro!: in_representable wrapping_div_in)
next
  case False
  have b: "r_lo d \<le> sint y" "sint y \<le> r_hi d" "r_lo a \<le> sint x" "sint x \<le> r_hi a"
    using x y by (simp_all add: in_range_def)
  have s: "0 < r_lo d \<or> r_hi d < 0" using False by linarith
  show ?thesis
    using False sdiv_corners [OF s b]
    by (auto simp: quotient_def Let_def intro!: in_representable wrapping_div_in)
qed

lemma sint_zero_iff: "sint (x :: i64) = 0 \<longleftrightarrow> x = 0"
  using word_eq_sint [of x 0] by simp

lemma unsigned_quotient:
  fixes x y :: i64
  assumes "0 \<le> sint x" "0 < sint y"
  shows "sint (x div y) = sint x div sint y" and "sint (x mod y) = sint x mod sint y"
proof -
  have u: "uint x = sint x" "uint y = sint y" using assms by (simp_all add: uint_sint_nonneg)
  have "sint x div sint y \<le> sint x" using assms int_div_le_self [of "sint x" "sint y"] by (cases "sint x = 0") simp_all
  then show "sint (x div y) = sint x div sint y"
    using sint_lt_64 [of x] u by (subst sint_uint_small) (simp_all add: uint_div_distrib)
  have "sint x mod sint y < sint y" using assms(2) by simp
  then show "sint (x mod y) = sint x mod sint y"
    using sint_lt_64 [of y] u by (subst sint_uint_small) (simp_all add: uint_mod_distrib)
qed

lemma uint_divmod_le:
  fixes x y :: i64
  shows "uint (x div y) \<le> uint x" and "uint (x mod y) \<le> uint x"
    and "y \<noteq> 0 \<Longrightarrow> uint (x mod y) < uint y"
proof -
  have "x div y \<le> x" "x mod y \<le> x"
    by (simp_all add: word_le_nat_alt unat_div_distrib unat_mod_distrib)
  then show "uint (x div y) \<le> uint x" "uint (x mod y) \<le> uint x" by (simp_all only: word_le_def)
  assume "y \<noteq> 0"
  then have "0 < unat y" by (simp add: unat_gt_0)
  then have "x mod y < y" by (simp add: word_less_nat_alt unat_mod_distrib)
  then show "uint (x mod y) < uint y" by (simp only: word_less_def)
qed

lemma quotient_unsigned_sound:
  assumes x: "in_range a x" and y: "in_range d y" "y \<noteq> 0"
  shows "in_range (quotient a d True) (x div y)"
proof -
  have bx: "r_lo a \<le> sint x" "sint x \<le> r_hi a" and b_y: "r_lo d \<le> sint y" "sint y \<le> r_hi d"
    using x y(1) by (simp_all add: in_range_def)
  have dp: "0 < r_lo d \<Longrightarrow> uint y = sint y" using b_y by (simp add: uint_sint_nonneg)
  consider "non_negative a" "r_lo d > 0" | "non_negative a" "\<not> r_lo d > 0"
    | "\<not> non_negative a" "r_lo d > 1" | "\<not> non_negative a" "\<not> r_lo d > 1" by blast
  then show ?thesis
  proof cases
    case 1
    then have a0: "0 \<le> r_lo a" by (simp add: non_negative_def)
    then have s: "sint (x div y) = sint x div sint y" using bx b_y 1 by (intro unsigned_quotient) simp_all
    have "r_lo a div r_hi d \<le> sint x div r_hi d" using bx 1 b_y by (intro zdiv_mono1) simp_all
    also have "\<dots> \<le> sint x div sint y" using a0 bx b_y 1 by (intro zdiv_mono2) simp_all
    finally have lo: "r_lo a div r_hi d \<le> sint x div sint y" .
    have "sint x div sint y \<le> sint x div r_lo d" using a0 bx b_y 1 by (intro zdiv_mono2) simp_all
    also have "\<dots> \<le> r_hi a div r_lo d" using bx 1 by (intro zdiv_mono1) simp_all
    finally have hi: "sint x div sint y \<le> r_hi a div r_lo d" .
    have "m sdiv k = m div k" if "0 \<le> m" "0 < k" for m k :: int
      using that by (cases "m = 0") (simp_all add: signed_divide_int_def)
    then show ?thesis using 1 lo hi s a0 bx b_y by (simp add: quotient_def in_range_def)
  next
    case 2
    then have s0: "0 \<le> sint x" using x in_non_negative by blast
    have "uint (x div y) \<le> uint x" by (rule uint_divmod_le)
    then have "uint (x div y) \<le> sint x" using s0 by (simp add: uint_sint_nonneg)
    then show ?thesis
      using 2 bx sint_lt_64 [of x] sint_uint_small [of "x div y"] by (simp add: quotient_def in_range_def)
  next
    case 3
    have "uint (x div y) = uint x div sint y" using dp 3 by (simp add: uint_div_distrib)
    also have "\<dots> \<le> 0xffffffffffffffff div sint y" using uint_lt_64 [of x] 3 b_y by (intro zdiv_mono1) simp_all
    also have "\<dots> \<le> 0xffffffffffffffff div r_lo d" using 3 b_y by (intro zdiv_mono2) simp_all
    finally have u: "uint (x div y) \<le> 0xffffffffffffffff div r_lo d" .
    also have "\<dots> \<le> 0xffffffffffffffff div 2" using 3 by (intro zdiv_mono2) simp_all
    finally have "uint (x div y) \<le> I64_MAX" by simp
    then show ?thesis
      using 3 u sint_uint_small [of "x div y"] by (simp add: quotient_def in_range_def signed_divide_int_def)
  qed (simp add: quotient_def)
qed

lemma remainder_unsigned_sound:
  assumes x: "in_range a x" and y: "in_range d y" "y \<noteq> 0"
  shows "in_range (remainder a d True) (x mod y)"
proof -
  have bx: "r_lo a \<le> sint x" "sint x \<le> r_hi a" and b_y: "r_lo d \<le> sint y" "sint y \<le> r_hi d"
    using x y(1) by (simp_all add: in_range_def)
  note m = uint_divmod_le(2) [of x y] uint_divmod_le(3) [OF y(2), of x]
  have nn: "0 \<le> uint (x mod y)" by simp
  have a: "0 \<le> sint (x mod y) \<and> sint (x mod y) \<le> sint x" if "0 \<le> sint x"
    using m(1) nn uint_sint_nonneg [OF that] sint_uint_small [of "x mod y"] sint_lt_64 [of x] by linarith
  have b: "0 \<le> sint (x mod y) \<and> sint (x mod y) < sint y" if "0 < sint y"
    using m(2) nn uint_sint_nonneg [of y] that sint_uint_small [of "x mod y"] sint_lt_64 [of y] by linarith
  have c: "non_negative a \<Longrightarrow> 0 \<le> sint x" "0 < r_lo d \<Longrightarrow> 0 < sint y"
    using bx b_y by (simp_all add: non_negative_def)
  show ?thesis
  proof (cases "non_negative a"; cases "0 < r_lo d")
    assume "non_negative a" "0 < r_lo d"
    then show ?thesis using a b c bx b_y by (simp add: remainder_def in_range_def)
  next
    assume "non_negative a" "\<not> 0 < r_lo d"
    then show ?thesis using a c bx by (simp add: remainder_def in_range_def)
  next
    assume "\<not> non_negative a" "0 < r_lo d"
    then show ?thesis using b c b_y by (simp add: remainder_def in_range_def)
  qed (simp add: remainder_def)
qed

lemma smod_bounds:
  fixes x y :: int
  assumes "y \<noteq> 0"
  shows "\<bar>x smod y\<bar> < \<bar>y\<bar>" and "0 \<le> x \<Longrightarrow> 0 \<le> x smod y \<and> x smod y \<le> x"
    and "x \<le> 0 \<Longrightarrow> x \<le> x smod y \<and> x smod y \<le> 0"
proof -
  have m: "0 \<le> \<bar>x\<bar> mod \<bar>y\<bar>" "\<bar>x\<bar> mod \<bar>y\<bar> < \<bar>y\<bar>" "\<bar>x\<bar> mod \<bar>y\<bar> \<le> \<bar>x\<bar>"
    using assms by (simp_all add: zmod_le_nonneg_dividend)
  show "\<bar>x smod y\<bar> < \<bar>y\<bar>" "0 \<le> x \<Longrightarrow> 0 \<le> x smod y \<and> x smod y \<le> x" "x \<le> 0 \<Longrightarrow> x \<le> x smod y \<and> x smod y \<le> 0"
    unfolding signed_modulo_int_def using m by (auto simp: sgn_if)
qed

lemma sint_wrapping_rem:
  assumes "y \<noteq> 0"
  shows "sint (wrapping_rem x y) = sint x smod sint y"
proof -
  have "sint y \<noteq> 0" using assms by (simp add: sint_zero_iff)
  note b = smod_bounds [OF this, of "sint x"]
  show ?thesis
    unfolding wrapping_rem_def using b(2,3) sint_ge_64 [of x] sint_lt_64 [of x]
    by (intro sint_small) (cases "0 \<le> sint x"; linarith)+
qed

lemma remainder_signed_sound:
  assumes x: "in_range a x" and y: "in_range d y" "y \<noteq> 0"
  shows "in_range (remainder a d False) (wrapping_rem x y)"
proof -
  have "sint y \<noteq> 0" using y(2) by (simp add: sint_zero_iff)
  note b = smod_bounds [OF this, of "sint x"] and r = sint_wrapping_rem [OF y(2), of x]
  have bx: "r_lo a \<le> sint x" "sint x \<le> r_hi a" using x by (simp_all add: in_range_def)
  have d: "min (r_lo a) 0 \<le> sint x smod sint y" "sint x smod sint y \<le> max (r_hi a) 0"
    using b(2,3) bx by (cases "0 \<le> sint x"; auto simp: min_def max_def)+
  have "- (magnitude d - 1) \<le> sint x smod sint y" "sint x smod sint y \<le> magnitude d - 1"
    using b(1) in_magnitude [OF y(1)] by linarith+
  then show ?thesis using d by (simp add: remainder_def Let_def in_range_def meet_def r)
qed

section \<open>The operators\<close>

lemma divmod_sound:
  assumes "in_range a x" "in_range d y" "is_divmod_op op" "apply_binop F op x y = Inr v"
  shows "in_range (divmod_range op a d) v"
proof -
  have ne: "r_lo a \<le> r_hi a" "r_lo d \<le> r_hi d" using assms by (auto simp: in_range_def)
  have y: "y \<noteq> 0" using assms(3,4) by (auto simp: is_divmod_op_def apply_binop_def eval_int_binop_def)
  show ?thesis
    using assms(3,4) y ne quotient_signed_sound [OF assms(1,2) y] quotient_unsigned_sound [OF assms(1,2) y]
      remainder_signed_sound [OF assms(1,2) y] remainder_unsigned_sound [OF assms(1,2) y]
    by (auto simp: is_divmod_op_def apply_binop_def eval_int_binop_def divmod_range_def)
qed

lemma bool_in_range: "in_range (rng 0 1) (bool_i64 b)"
  by (simp add: in_range_def bool_i64_def)

lemma apply_comparison:
  "comparison op \<noteq> None \<Longrightarrow> apply_binop F op x y = Inr (bool_i64 (cmp_holds op x y))"
  using eval_comparison [of op x y] by (cases op) (simp_all add: comparison_def apply_binop_def)

lemma and_sound:
  assumes "in_range a x" "in_range b y"
  shows "in_range (binop BinOp_And a b) (x AND y)"
proof -
  note xy = and_bound [of y x] and yx = and_bound [of x y, unfolded and.commute [of y x]]
  have c: "non_negative a \<Longrightarrow> 0 \<le> sint x" "non_negative b \<Longrightarrow> 0 \<le> sint y" using assms in_non_negative by blast+
  have b: "sint x \<le> r_hi a" "sint y \<le> r_hi b" using assms by (simp_all add: in_range_def)
  show ?thesis
    using c b xy yx by (auto simp: binop_def comparison_def in_range_def [of "rng _ _"])
qed

lemma binop_sound:
  assumes "in_range a x" "in_range b y" "apply_binop F op x y = Inr v"
  shows "in_range (binop op a b) v"
proof -
  consider "comparison op \<noteq> None" | "op = BinOp_And" | "op \<in> {BinOp_Add, BinOp_Sub, BinOp_Or, BinOp_Xor}"
    | "is_divmod_op op"
    | "comparison op = None" "op \<notin> {BinOp_And, BinOp_Add, BinOp_Sub, BinOp_Or, BinOp_Xor}" "\<not> is_divmod_op op"
    by blast
  then show ?thesis
  proof cases
    case 1
    then show ?thesis using assms(3) apply_comparison [OF 1] bool_in_range by (auto simp: binop_def)
  next
    case 2
    then show ?thesis using assms(3) and_sound [OF assms(1,2)] by (simp add: apply_binop_def eval_int_binop_def)
  next
    case 3
    then show ?thesis
      using assms(3) arith_sound [OF assms(1,2)] bitwise_sound [OF assms(1,2)]
      by (auto simp: binop_def comparison_def apply_binop_def eval_int_binop_def)
  next
    case 4
    then have "binop op a b = divmod_range op a b" by (auto simp: binop_def is_divmod_op_def comparison_def)
    then show ?thesis using divmod_sound [OF assms(1,2) 4 assms(3)] by simp
  next
    case 5
    then show ?thesis by (auto simp: binop_def)
  qed
qed

lemma and_imm_sound:
  assumes "in_range a x" "0 \<le> sint k"
  shows "in_range (binop_imm BinOp_And a k) (x AND k)"
  using and_bound [OF assms(2), of x] assms in_non_negative [OF _ assms(1)]
  by (auto simp: binop_imm_def comparison_def in_range_def)

lemma binop_imm_sound:
  assumes "in_range a x" "apply_binop F op x k = Inr v"
  shows "in_range (binop_imm op a k) v"
proof -
  have k: "in_range (exact k) k" by (simp add: in_exact)
  consider "comparison op \<noteq> None" | "op = BinOp_And" "0 \<le> sint k"
    | "op \<in> {BinOp_Add, BinOp_Sub, BinOp_Or, BinOp_Xor}"
    | "op \<in> {BinOp_Shl, BinOp_Shr, BinOp_Shru}" | "is_divmod_op op"
    | "comparison op = None" "\<not> (op = BinOp_And \<and> 0 \<le> sint k)"
      "op \<notin> {BinOp_Add, BinOp_Sub, BinOp_Or, BinOp_Xor}"
      "op \<notin> {BinOp_Shl, BinOp_Shr, BinOp_Shru}" "\<not> is_divmod_op op"
    by blast
  then show ?thesis
  proof cases
    case 1
    then show ?thesis using assms(2) apply_comparison [OF 1] bool_in_range by (auto simp: binop_imm_def)
  next
    case 2
    then show ?thesis using assms and_imm_sound [of a x k] by (auto simp: apply_binop_def eval_int_binop_def)
  next
    case 3
    then show ?thesis
      using assms(2) arith_sound [OF assms(1) k] bitwise_sound [OF assms(1) k]
      by (auto simp: binop_imm_def comparison_def apply_binop_def eval_int_binop_def)
  next
    case 4
    then show ?thesis
      using assms(2) shift_sound [OF assms(1), of k]
      by (auto simp: binop_imm_def comparison_def apply_binop_def eval_int_binop_def)
  next
    case 5
    then have "binop_imm op a k = divmod_range op a (exact k)" by (auto simp: binop_imm_def is_divmod_op_def comparison_def)
    then show ?thesis using divmod_sound [OF assms(1) k 5 assms(2)] by simp
  next
    case 6
    then show ?thesis unfolding binop_imm_def by auto
  qed
qed

end
