(* ===== verification/Divmod_Const.thy ===== *)
theory Divmod_Const
  imports Magic_Signed Range_Transfer Ir_Function
begin

text \<open>
  The pass that expands a division or remainder by a constant,
  \<^verbatim>\<open>src/src/c5/codegen/passes/divmod_const.rs\<close>: the sites it finds, the sink that collects and
  shares the instructions of the expansions, the choice of a sequence from the range of the
  dividend, and the loop over the sites.  The sink is a provider of the contract
  \<open>div_sink_laws\<close>.
\<close>

section \<open>The step sink\<close>

abbreviation STEP :: ValueId where "STEP \<equiv> 2147483648"

datatype Key =
    Key_Imm i64
  | Key_Binop BinOp ValueId ValueId
  | Key_BinopI BinOp ValueId i64
  | Key_Extend ValueId

record Steps =
  step_insts :: "Inst list"
  in_block :: "Key \<Rightarrow> ValueId option"

definition steps_push :: "Key \<Rightarrow> Inst \<Rightarrow> (Steps, ValueId) state" where
  "steps_push key inst = State (\<lambda>s.
     case in_block s key of
       Some v \<Rightarrow> (v, s)
     | None \<Rightarrow>
         (let is = step_insts s @ [inst]; v = STEP OR ((length is - 1) mod 2 ^ 32)
          in (v, s\<lparr>step_insts := is, in_block := (in_block s)(key \<mapsto> v)\<rparr>)))"

definition steps_sink :: "(Steps, ValueId) div_sink" where
  "steps_sink =
     \<lparr>sink_imm = (\<lambda>k. steps_push (Key_Imm k) (Imm k)),
      sink_binop = (\<lambda>op lhs rhs. steps_push (Key_Binop op lhs rhs) (Binop op lhs rhs)),
      sink_binop_imm = (\<lambda>op lhs k. steps_push (Key_BinopI op lhs k) (BinopI op lhs k))\<rparr>"

section \<open>Sites\<close>

record Site =
  site_block :: nat
  site_at :: ValueId
  site_op :: BinOp
  site_n :: ValueId
  site_d :: i64
  imm_form :: bool

record Expansion =
  ex_at :: ValueId
  owned :: "nat \<times> nat"
  ex_result :: ValueId

definition in_place :: "Expansion \<Rightarrow> bool" where
  "in_place e \<longleftrightarrow> fst (owned e) < snd (owned e) \<and> ex_result e = STEP OR ((snd (owned e) - 1) mod 2 ^ 32)"

definition inserted :: "Expansion \<Rightarrow> nat" where
  "inserted e = (snd (owned e) - fst (owned e)) - (if in_place e then 1 else 0)"

definition const_imm :: "FunctionSsa \<Rightarrow> ValueId \<Rightarrow> i64 option" where
  "const_imm fn v =
     (if v < length (insts fn) then
        (case insts fn ! v of
           Imm k \<Rightarrow> (if v < length (f32_values fn) \<and> f32_values fn ! v then None else Some k)
         | _ \<Rightarrow> None)
      else None)"

definition site_of :: "FunctionSsa \<Rightarrow> nat \<Rightarrow> ValueId \<Rightarrow> Site option" where
  "site_of fn b at =
     (case insts fn ! at of
        BinopI op lhs rhs_imm \<Rightarrow>
          (if is_divmod_op op then Some \<lparr>site_block = b, site_at = at, site_op = op, site_n = lhs,
                                         site_d = rhs_imm, imm_form = True\<rparr> else None)
      | Binop op lhs rhs \<Rightarrow>
          (case const_imm fn rhs of
             Some d \<Rightarrow> (if is_divmod_op op then Some \<lparr>site_block = b, site_at = at, site_op = op, site_n = lhs,
                                                     site_d = d, imm_form = False\<rparr> else None)
           | None \<Rightarrow> None)
      | _ \<Rightarrow> None)"

definition sites :: "FunctionSsa \<Rightarrow> Site list" where
  "sites fn =
     sort_key site_at
       (concat (map (\<lambda>(b, blk). List.map_filter (site_of fn b) [fst (inst_range blk)..<snd (inst_range blk)])
          (enumerate 0 (blocks fn))))"

section \<open>Lowering one site\<close>

definition is_signed :: "BinOp \<Rightarrow> bool" where
  "is_signed op \<longleftrightarrow> op = BinOp_Div \<or> op = BinOp_Mod"

definition wants_remainder :: "BinOp \<Rightarrow> bool" where
  "wants_remainder op \<longleftrightarrow> op = BinOp_Mod \<or> op = BinOp_Modu"

definition below_divisor :: "BinOp \<Rightarrow> Range \<Rightarrow> i64 \<Rightarrow> bool" where
  "below_divisor op n d =
     (if is_signed op then - \<bar>sint d\<bar> < r_lo n \<and> r_hi n < \<bar>sint d\<bar>
      else r_lo n \<ge> 0 \<and> (sint d < 0 \<or> r_hi n < sint d))"

text \<open>\<open>clamp\<close> of Rust's \<open>Ord\<close>.\<close>

definition clamp :: "nat \<Rightarrow> nat \<Rightarrow> nat \<Rightarrow> nat" where
  "clamp x lo hi = (if x < lo then lo else if x > hi then hi else x)"

definition lower :: "Site \<Rightarrow> Range \<Rightarrow> (Steps, ValueId) lowering" where
  "lower site n =
     (let op = site_op site; lhs = site_n site; d = site_d site in
      if d \<noteq> 0 \<and> below_divisor op n d then
        emit (if wants_remainder op then State_Monad.return lhs else sink_imm steps_sink 0)
      else if r_lo n \<ge> 0 \<and> sint d > 0 then
        (let narrow = r_hi n \<le> 4294967295 \<and> sint d \<le> 4294967295;
             w = (if narrow then 32 else 64);
             bits = clamp (128 - leading_zeros (word_of_int (r_hi n) :: 128 word)) 1 w
         in lower_udivmod steps_sink (wants_remainder op) lhs d w bits)
      else
        (let narrow = is_signed op \<and> fits n LoadKind_I32 \<and> - 2147483648 \<le> sint d \<and> sint d \<le> 2147483647
         in State_Monad.bind (lower_divmod steps_sink op lhs d (if narrow then 32 else 64)) (\<lambda>lowered.
              if lowered = Inl (Err ()) \<and> imm_form site
              then emit (do { rhs \<leftarrow> sink_imm steps_sink d; sink_binop steps_sink op lhs rhs })
              else State_Monad.return lowered)))"

section \<open>The loop over the sites\<close>

definition is_div32 :: "bool list \<Rightarrow> ValueId \<Rightarrow> bool" where
  "is_div32 marks v \<longleftrightarrow> v < length marks \<and> marks ! v"

text \<open>The dividend of a 32-bit division is its low word: a register holding more is re-extended.\<close>

definition clean_site :: "FunctionSsa \<Rightarrow> Site \<Rightarrow> Range \<Rightarrow> (Steps, Site \<times> Range) state" where
  "clean_site fn site n =
     (if is_div32 (div32 fn) (site_at site) then
        (let kind = (if is_signed (site_op site) then LoadKind_I32 else LoadKind_U32);
             dirty = (if is_signed (site_op site) then \<not> fits n LoadKind_I32 else \<not> high_word_clear n)
         in if dirty then do {
              v \<leftarrow> (if is_signed (site_op site)
                   then steps_push (Key_Extend (site_n site)) (Extend (site_n site) LoadKind_I32 False)
                   else sink_binop_imm steps_sink BinOp_And (site_n site) 0xffffffff);
              State_Monad.return (site\<lparr>site_n := v\<rparr>,
                (case extend_range kind of Some w \<Rightarrow> w | None \<Rightarrow> UNIVERSE))
            }
            else State_Monad.return (site, (case extend_range kind of Some w \<Rightarrow> meet n w | None \<Rightarrow> n)))
      else State_Monad.return (site, n))"

definition steps_truncate :: "nat \<Rightarrow> Steps \<Rightarrow> Steps" where
  "steps_truncate first s =
     s\<lparr>step_insts := take first (step_insts s),
       in_block := (\<lambda>k. case in_block s k of
                     Some v \<Rightarrow> if take_bit 31 v < first then Some v else None
                   | None \<Rightarrow> None)\<rparr>"

text \<open>
  One turn of the loop; the state is the sink, the expansions so far and the current block.
  \<open>ranges\<close> answers the range of a value.
\<close>

definition expand_site ::
  "FunctionSsa \<Rightarrow> (ValueId \<Rightarrow> Range) \<Rightarrow> Site \<Rightarrow> Steps \<times> Expansion list \<times> nat option \<Rightarrow>
     unit fault + (Steps \<times> Expansion list \<times> nat option)" where
  "expand_site fn ranges site st =
     (case st of (steps, expansions, block) \<Rightarrow>
        let steps = (if block = Some (site_block site) then steps else steps\<lparr>in_block := (\<lambda>_. None)\<rparr>);
            first = length (step_insts steps)
        in case run_state (do { (cleaned, n) \<leftarrow> clean_site fn site (ranges (site_n site)); lower cleaned n }) steps of
             (Inr result, steps') \<Rightarrow>
               Inr (steps', expansions @ [\<lparr>ex_at = site_at site, owned = (first, length (step_insts steps')),
                                           ex_result = result\<rparr>], Some (site_block site))
           | (Inl (Err _), steps') \<Rightarrow> Inr (steps_truncate first steps', expansions, Some (site_block site))
           | (Inl Panic, _) \<Rightarrow> Inl Panic)"

primrec expand_sites ::
  "FunctionSsa \<Rightarrow> (ValueId \<Rightarrow> Range) \<Rightarrow> Site list \<Rightarrow> Steps \<times> Expansion list \<times> nat option \<Rightarrow>
     unit fault + (Steps \<times> Expansion list \<times> nat option)" where
  "expand_sites fn ranges [] st = Inr st"
| "expand_sites fn ranges (site # rest) st =
     (case expand_site fn ranges site st of Inl e \<Rightarrow> Inl e | Inr st' \<Rightarrow> expand_sites fn ranges rest st')"

end
