(* ===== verification/Divmod_Sound.thy ===== *)
theory Divmod_Sound
  imports Divmod_Const
begin

text \<open>
  Correctness of the constant-division pass: what a list of steps computes, the proof that the
  step sink provides the contract of a division sink, and the theorems about one site and
  about the loop over the sites.
\<close>

section \<open>What the steps compute\<close>

text \<open>
  \<open>env\<close> gives the values of the function.  An operand with the step tag reads an earlier step; a
  step that would trap has no value.
\<close>

definition step_look :: "(ValueId \<Rightarrow> i64 option) \<Rightarrow> i64 option list \<Rightarrow> ValueId \<Rightarrow> i64 option" where
  "step_look env vs v =
     (if bit v 31 then (if take_bit 31 v < length vs then vs ! take_bit 31 v else None) else env v)"

definition trap_free :: "EvalTrap fault + i64 \<Rightarrow> i64 option" where
  "trap_free r = (case r of Inr z \<Rightarrow> Some z | Inl _ \<Rightarrow> None)"

definition eval_step :: "fpu \<Rightarrow> (ValueId \<Rightarrow> i64 option) \<Rightarrow> Inst \<Rightarrow> i64 option" where
  "eval_step F look inst =
     (case inst of
        Imm k \<Rightarrow> Some k
      | Binop op l r \<Rightarrow> (case (look l, look r) of (Some x, Some y) \<Rightarrow> trap_free (apply_binop F op x y) | _ \<Rightarrow> None)
      | BinopI op l k \<Rightarrow> (case look l of Some x \<Rightarrow> trap_free (apply_binop F op x k) | None \<Rightarrow> None)
      | Extend v kind _ \<Rightarrow> map_option (\<lambda>x. eval_extend x kind) (look v)
      | _ \<Rightarrow> None)"

definition step_vals :: "fpu \<Rightarrow> (ValueId \<Rightarrow> i64 option) \<Rightarrow> Inst list \<Rightarrow> i64 option list" where
  "step_vals F env is = foldl (\<lambda>vs i. vs @ [eval_step F (step_look env vs) i]) [] is"

definition steps_den :: "fpu \<Rightarrow> (ValueId \<Rightarrow> i64 option) \<Rightarrow> Steps \<Rightarrow> ValueId \<Rightarrow> i64 option" where
  "steps_den F env s = step_look env (step_vals F env (step_insts s))"

fun key_inst :: "Key \<Rightarrow> Inst" where
  "key_inst (Key_Imm k) = Imm k"
| "key_inst (Key_Binop op l r) = Binop op l r"
| "key_inst (Key_BinopI op l k) = BinopI op l k"
| "key_inst (Key_Extend v) = Extend v LoadKind_I32 False"

fun key_operands :: "Key \<Rightarrow> ValueId list" where
  "key_operands (Key_Imm k) = []"
| "key_operands (Key_Binop op l r) = [l, r]"
| "key_operands (Key_BinopI op l k) = [l]"
| "key_operands (Key_Extend v) = [v]"

text \<open>An operand is known before step \<open>g\<close> when it is a function value or an earlier step.\<close>

definition known :: "nat \<Rightarrow> ValueId \<Rightarrow> bool" where
  "known g v \<longleftrightarrow> (bit v 31 \<longrightarrow> take_bit 31 v < g)"

definition step_ok :: "Inst list \<Rightarrow> nat \<Rightarrow> bool" where
  "step_ok is g \<longleftrightarrow> (\<exists>k. is ! g = key_inst k \<and> list_all (known g) (key_operands k))"

definition steps_ok :: "Steps \<Rightarrow> bool" where
  "steps_ok s \<longleftrightarrow>
     (\<forall>g < length (step_insts s). step_ok (step_insts s) g) \<and>
     (\<forall>k v. in_block s k = Some v \<longrightarrow>
        bit v 31 \<and> take_bit 31 v < length (step_insts s) \<and> step_insts s ! take_bit 31 v = key_inst k)"

definition steps_cap :: "Steps \<Rightarrow> bool" where
  "steps_cap s \<longleftrightarrow> length (step_insts s) \<le> 2 ^ 31"

lemma length_step_vals [simp]: "length (step_vals F env is) = length is"
  by (induction "is" rule: rev_induct) (simp_all add: step_vals_def)

lemma step_vals_snoc:
  "step_vals F env (is @ [i]) = step_vals F env is @ [eval_step F (step_look env (step_vals F env is)) i]"
  by (simp add: step_vals_def)

lemma step_vals_append: "\<exists>ws. step_vals F env (is @ js) = step_vals F env is @ ws"
proof (induction js rule: rev_induct)
  case (snoc j js)
  then obtain ws where "step_vals F env (is @ js) = step_vals F env is @ ws" by blast
  then show ?case using step_vals_snoc [of F env "is @ js" j] by auto
qed auto

lemma step_look_append: "known (length vs) v \<Longrightarrow> step_look env (vs @ ws) v = step_look env vs v"
  by (auto simp: step_look_def known_def nth_append)

lemma key_inst_inj: "key_inst k = key_inst k' \<longleftrightarrow> k = k'"
  by (cases k; cases k') auto

lemma eval_step_cong:
  "(\<And>v. v \<in> set (key_operands k) \<Longrightarrow> look v = look' v) \<Longrightarrow> eval_step F look (key_inst k) = eval_step F look' (key_inst k)"
  by (cases k) (simp_all add: eval_step_def cong: option.case_cong)

lemma step_vals_nth:
  assumes "g < length is" "step_ok is g"
  shows "step_vals F env is ! g = eval_step F (step_look env (step_vals F env is)) (is ! g)"
proof -
  obtain k where k: "is ! g = key_inst k" "list_all (known g) (key_operands k)"
    using assms(2) by (auto simp: step_ok_def)
  have split: "is = (take g is @ [is ! g]) @ drop (Suc g) is"
    using id_take_nth_drop [OF assms(1)] by simp
  obtain ws where ws: "step_vals F env is = step_vals F env (take g is @ [is ! g]) @ ws"
    using step_vals_append [of F env "take g is @ [is ! g]" "drop (Suc g) is"] split by metis
  have len: "length (step_vals F env (take g is)) = g" using assms(1) by simp
  have "step_vals F env is ! g = eval_step F (step_look env (step_vals F env (take g is))) (is ! g)"
    unfolding ws step_vals_snoc using len by (simp add: nth_append)
  also have "\<dots> = eval_step F (step_look env (step_vals F env is)) (is ! g)"
    unfolding k(1)
  proof (rule eval_step_cong)
    fix v assume "v \<in> set (key_operands k)"
    then have "known (length (step_vals F env (take g is))) v"
      using k(2) len by (simp add: list_all_iff)
    then show "step_look env (step_vals F env (take g is)) v = step_look env (step_vals F env is) v"
      unfolding ws step_vals_snoc append_assoc by (simp add: step_look_append)
  qed
  finally show ?thesis .
qed

lemma den_known: "steps_den F env s v = Some x \<Longrightarrow> known (length (step_insts s)) v"
  by (auto simp: steps_den_def step_look_def known_def split: if_splits)

section \<open>The step sink provides the contract\<close>

lemma step_tag:
  assumes "n < 2 ^ 31"
  shows "STEP OR (n mod 2 ^ 32) = STEP + n" and "bit (STEP + n) 31" and "take_bit 31 (STEP + n) = n"
proof -
  have b: "bit (STEP + n) 31 \<longleftrightarrow> odd ((STEP + n) div 2 ^ 31)" by (rule bit_iff_odd)
  have d: "(STEP + n) div 2 ^ 31 = 1" using assms by simp
  then show "bit (STEP + n) 31" unfolding b by simp
  show t: "take_bit 31 (STEP + n) = n" using assms by (simp add: take_bit_eq_mod)
  have n: "n mod 2 ^ 32 = n" using assms by simp
  have "STEP AND n = 0"
  proof (rule bit_eqI)
    fix i
    have s: "STEP = push_bit 31 (1 :: nat)" by (simp add: push_bit_eq_mult)
    have "bit STEP i \<longleftrightarrow> i = 31" unfolding s bit_push_bit_iff bit_1_iff by auto
    moreover have "\<not> bit n 31" using assms by (simp add: bit_iff_odd)
    ultimately show "bit (STEP AND n) i \<longleftrightarrow> bit (0 :: nat) i" by (auto simp: bit_simps)
  qed
  then show "STEP OR (n mod 2 ^ 32) = STEP + n" unfolding n by (rule disjunctive_add_eq_or [symmetric])
qed

lemma steps_push_spec:
  assumes ok: "steps_ok s" and known: "list_all (known (length (step_insts s))) (key_operands k)"
    and run: "run_state (steps_push k (key_inst k)) s = (v, s')" and cap: "steps_cap s'"
  shows "steps_ok s'" and "known (length (step_insts s')) v"
    and "extends (steps_den F env) s s'" and "steps_den F env s' v = eval_step F (steps_den F env s) (key_inst k)"
    and "\<exists>js. step_insts s' = step_insts s @ js"
proof -
  let ?n = "length (step_insts s)"
  consider (old) w where "in_block s k = Some w" "v = w" "s' = s"
    | (new) "in_block s k = None" "v = STEP OR (?n mod 2 ^ 32)"
        "s' = s\<lparr>step_insts := step_insts s @ [key_inst k], in_block := (in_block s)(k \<mapsto> v)\<rparr>"
    using run by (auto simp: steps_push_def Let_def split: option.splits)
  then have "steps_ok s' \<and> known (length (step_insts s')) v \<and> extends (steps_den F env) s s' \<and>
    steps_den F env s' v = eval_step F (steps_den F env s) (key_inst k) \<and> (\<exists>js. step_insts s' = step_insts s @ js)"
  proof cases
    case old
    have w: "bit v 31" "take_bit 31 v < ?n" "step_insts s ! take_bit 31 v = key_inst k"
      using ok old by (auto simp: steps_ok_def)
    have "steps_den F env s v = eval_step F (steps_den F env s) (key_inst k)"
      using w ok step_vals_nth [OF w(2), of F env]
      by (simp add: steps_den_def step_look_def steps_ok_def)
    then show ?thesis using old ok w by (simp add: extends_def known_def)
  next
    case new
    have n: "?n < 2 ^ 31" using cap new(3) by (simp add: steps_cap_def)
    note tag = step_tag [OF n]
    have v: "bit v 31" "take_bit 31 v = ?n" using new(2) tag by simp_all
    have vals: "step_vals F env (step_insts s') =
        step_vals F env (step_insts s) @ [eval_step F (steps_den F env s) (key_inst k)]"
      using new(3) by (simp add: step_vals_snoc steps_den_def)
    have den: "steps_den F env s' v = eval_step F (steps_den F env s) (key_inst k)"
      using v by (simp add: steps_den_def step_look_def vals nth_append)
    have ext: "extends (steps_den F env) s s'"
      unfolding extends_def
    proof (intro allI impI)
      fix u x assume u: "steps_den F env s u = Some x"
      then show "steps_den F env s' u = Some x"
        using den_known [OF u] by (simp add: steps_den_def vals step_look_append)
    qed
    have "step_ok (step_insts s') g" if "g < length (step_insts s')" for g
    proof (cases "g = ?n")
      case True
      then show ?thesis using known new(3) by (auto simp: step_ok_def)
    next
      case False
      then have "g < ?n" using that new(3) by simp
      then show ?thesis using ok new(3) by (auto simp: step_ok_def steps_ok_def nth_append)
    qed
    moreover have "bit w 31 \<and> take_bit 31 w < length (step_insts s') \<and> step_insts s' ! take_bit 31 w = key_inst k'"
      if "in_block s' k' = Some w" for k' w
      using that ok new(3) v by (auto simp: steps_ok_def nth_append split: if_splits)
    ultimately have "steps_ok s'" unfolding steps_ok_def by blast
    then show ?thesis using den ext v new(3) by (simp add: known_def)
  qed
  then show "steps_ok s'" "known (length (step_insts s')) v" "extends (steps_den F env) s s'"
    "steps_den F env s' v = eval_step F (steps_den F env s) (key_inst k)" "\<exists>js. step_insts s' = step_insts s @ js"
    by blast+
qed

lemma steps_push_yields:
  assumes "steps_ok s" "list_all (known (length (step_insts s))) (key_operands k)"
    and "eval_step F (steps_den F env s) (key_inst k) = Some z"
  shows "yields steps_cap steps_ok (steps_den F env) s (steps_push k (key_inst k))
           (\<lambda>s' v. steps_den F env s' v = Some z)"
proof -
  obtain v s' where run: "run_state (steps_push k (key_inst k)) s = (v, s')" by fastforce
  show ?thesis
    using steps_push_spec(1) [OF assms(1,2) run] steps_push_spec(3,4) [OF assms(1,2) run, of F env] run assms(3)
    by (simp add: yields_def)
qed

lemma steps_push_consumes: "consumes steps_cap (steps_push k i)"
  by (auto simp: consumes_def steps_push_def steps_cap_def Let_def split: option.splits)

lemma steps_sink_simps [simp]:
  "sink_imm steps_sink k = steps_push (Key_Imm k) (Imm k)"
  "sink_binop steps_sink op l r = steps_push (Key_Binop op l r) (Binop op l r)"
  "sink_binop_imm steps_sink op l k = steps_push (Key_BinopI op l k) (BinopI op l k)"
  by (simp_all add: steps_sink_def)

interpretation st: div_sink_laws steps_sink "steps_den F env" steps_ok steps_cap F for F env
proof
  fix s k assume "steps_ok s"
  then show "yields steps_cap steps_ok (steps_den F env) s (sink_imm steps_sink k)
      (\<lambda>s' v. steps_den F env s' v = Some k)"
    using steps_push_yields [of s "Key_Imm k" F env k] by (simp add: eval_step_def)
next
  fix s a b x y op z
  assume "steps_ok s" and a: "steps_den F env s a = Some x" and b: "steps_den F env s b = Some y"
    and "apply_binop F op x y = Inr z"
  then show "yields steps_cap steps_ok (steps_den F env) s (sink_binop steps_sink op a b)
      (\<lambda>s' v. steps_den F env s' v = Some z)"
    using steps_push_yields [of s "Key_Binop op a b" F env z] den_known [OF a] den_known [OF b]
    by (simp add: eval_step_def trap_free_def)
next
  fix s a x op k z
  assume "steps_ok s" and a: "steps_den F env s a = Some x" and "apply_binop F op x k = Inr z"
  then show "yields steps_cap steps_ok (steps_den F env) s (sink_binop_imm steps_sink op a k)
      (\<lambda>s' v. steps_den F env s' v = Some z)"
    using steps_push_yields [of s "Key_BinopI op a k" F env z] den_known [OF a]
    by (simp add: eval_step_def trap_free_def)
qed (simp_all add: steps_push_consumes)

text \<open>The reference sink is lawful too: its values denote themselves and it has no capacity limit.\<close>

interpretation vm: div_sink_laws "vm_sink F" "\<lambda>_. Some" "\<lambda>_. True" "\<lambda>_. True" F for F
  by unfold_locales (auto simp: yields_def extends_def consumes_def binop_val_def)

section \<open>One site\<close>

lemma unat_leading_zeros:
  fixes x :: "'a::len word"
  shows "unat x < 2 ^ (LENGTH('a) - leading_zeros x)"
proof -
  let ?k = "LENGTH('a) - leading_zeros x"
  let ?is = "rev [0..<LENGTH('a)]"
  have z: "\<not> bit x i" if i: "?k \<le> i" "i < LENGTH('a)" for i
  proof -
    have j: "LENGTH('a) - 1 - i < leading_zeros x" using i by linarith
    then have "takeWhile (\<lambda>i. \<not> bit x i) ?is ! (LENGTH('a) - 1 - i) \<in> set (takeWhile (\<lambda>i. \<not> bit x i) ?is)"
      unfolding leading_zeros_def by (rule nth_mem)
    moreover have "takeWhile (\<lambda>i. \<not> bit x i) ?is ! (LENGTH('a) - 1 - i) = ?is ! (LENGTH('a) - 1 - i)"
      using j by (intro takeWhile_nth) (simp add: leading_zeros_def)
    moreover have "?is ! (LENGTH('a) - 1 - i) = i" using i by (simp add: rev_nth)
    ultimately show ?thesis by (auto dest: set_takeWhileD)
  qed
  have "take_bit ?k x = x"
  proof (rule bit_word_eqI)
    fix i assume "i < LENGTH('a)"
    then show "bit (take_bit ?k x) i \<longleftrightarrow> bit x i" using z [of i] by (cases "?k \<le> i") (auto simp: bit_take_bit_iff)
  qed
  then have "take_bit ?k (unat x) = unat x" by (metis unsigned_take_bit_eq)
  then show ?thesis by (metis take_bit_nat_less_exp)
qed

text \<open>The width the unsigned path takes holds every dividend of the range.\<close>

lemma bits_bound:
  assumes "in_range n x" "r_lo n \<ge> 0" "w = 64 \<or> w = 32 \<and> r_hi n \<le> 4294967295" "r_hi n < 2 ^ 127"
  defines "bits \<equiv> clamp (128 - leading_zeros (word_of_int (r_hi n) :: 128 word)) 1 w"
  shows "1 \<le> bits" and "bits \<le> w" and "unat x < 2 ^ bits"
proof -
  let ?h = "word_of_int (r_hi n) :: 128 word"
  show "1 \<le> bits" "bits \<le> w" using assms(3) by (auto simp: bits_def clamp_def)
  have r: "0 \<le> sint x" "sint x \<le> r_hi n" using assms(1,2) by (auto simp: in_range_def)
  have u: "uint x = sint x" using r by (simp add: uint_eq_sint)
  have "uint ?h = r_hi n"
    using r assms(4) by (intro uint_of_int_small) auto
  then have "unat x \<le> unat ?h" unfolding unat_eq_nat_uint using r u by simp
  moreover have "unat ?h < 2 ^ (128 - leading_zeros ?h)" using unat_leading_zeros [of ?h] by simp
  ultimately have a: "unat x < 2 ^ (128 - leading_zeros ?h)" by linarith
  have b: "unat x < 2 ^ w" using assms(3) r u unat_lt_64 [of x] by (auto simp: unat_eq_nat_uint)
  have "unat x < 2 ^ 1" if "128 - leading_zeros ?h < 1" using a that by simp
  then show "unat x < 2 ^ bits" unfolding bits_def clamp_def using a b by (auto split: if_splits)
qed

text \<open>The value a site asks for; none where the division traps.\<close>

definition site_value :: "fpu \<Rightarrow> Site \<Rightarrow> i64 \<Rightarrow> i64 option" where
  "site_value F site x = trap_free (apply_binop F (site_op site) x (site_d site))"

text \<open>A run of the lowering did what was asked: the operand it returns denotes the value.\<close>

definition delivers :: "fpu \<Rightarrow> (ValueId \<Rightarrow> i64 option) \<Rightarrow> Site \<Rightarrow> i64 \<Rightarrow> Steps \<Rightarrow> (unit fault + ValueId) \<Rightarrow> Steps \<Rightarrow> bool" where
  "delivers F env site x s r s' \<longleftrightarrow>
     steps_ok s' \<and> extends (steps_den F env) s s' \<and>
     (case r of
        Inr v \<Rightarrow> steps_den F env s' v = site_value F site x
      | Inl (Err _) \<Rightarrow> site_d site = 0 \<and> \<not> imm_form site
      | Inl Panic \<Rightarrow> False)"

definition quot_rem :: "BinOp \<Rightarrow> i64 \<Rightarrow> i64 \<Rightarrow> i64" where
  "quot_rem op x d =
     (if op = BinOp_Div then wrapping_div x d
      else if op = BinOp_Mod then wrapping_rem x d
      else if op = BinOp_Divu then x div d
      else x mod d)"

lemma site_value_divmod:
  "is_divmod_op (site_op site) \<Longrightarrow>
     site_value F site x = (if site_d site = 0 then None else Some (quot_rem (site_op site) x (site_d site)))"
  by (auto simp: site_value_def trap_free_def is_divmod_op_def apply_binop_def eval_int_binop_def quot_rem_def)

lemma sint_positive: "0 < sint d \<Longrightarrow> uint (d :: i64) = sint d"
  by (simp add: uint_eq_sint)

lemma quot_rem_below:
  assumes "is_divmod_op op" "d \<noteq> 0" "below_divisor op n d" "in_range n x"
  shows "quot_rem op x d = (if wants_remainder op then x else 0)"
proof (cases "is_signed op")
  case True
  have "\<bar>sint x\<bar> < \<bar>sint d\<bar>" using True assms(3,4) by (auto simp: below_divisor_def in_range_def)
  then have "\<bar>sint x\<bar> div \<bar>sint d\<bar> = 0" "\<bar>sint x\<bar> mod \<bar>sint d\<bar> = \<bar>sint x\<bar>" by simp_all
  then have "sint x sdiv sint d = 0" "sint x smod sint d = sint x"
    by (simp_all only: signed_divide_int_def signed_modulo_int_def mult_zero_right sgn_mult_abs)
  then show ?thesis using True by (auto simp: quot_rem_def wants_remainder_def is_signed_def wrapping_div_def wrapping_rem_def)
next
  case False
  have r: "0 \<le> sint x" "sint d < 0 \<or> sint x < sint d"
    using False assms(3,4) by (auto simp: below_divisor_def in_range_def)
  have "uint x < uint d"
    using r sint_lt_64 [of x] sint_ge_64 [of d] by (auto simp: uint_eq_sint)
  then have "unat x < unat d" by (simp only: word_less_nat_alt [symmetric] word_less_def)
  then show ?thesis using False assms(1) below_divisor_word [of x d]
    by (auto simp: quot_rem_def wants_remainder_def is_signed_def is_divmod_op_def)
qed

lemma quot_rem_unsigned:
  assumes "is_divmod_op op" "0 \<le> sint x" "0 < sint d"
  shows "quot_rem op x d = (if wants_remainder op then x mod d else x div d)"
proof -
  have u: "uint x = sint x" "uint d = sint d" using assms(2,3) by (simp_all add: uint_eq_sint)
  have "sint x sdiv sint d = sint x div sint d" "sint x smod sint d = sint x mod sint d"
    using assms(2,3) by (simp_all add: signed_divide_int_def signed_modulo_int_def sgn_if)
  then have "wrapping_div x d = x div d" "wrapping_rem x d = x mod d"
    unfolding wrapping_div_def wrapping_rem_def word_div_def word_mod_def u by simp_all
  then show ?thesis using assms(1) by (auto simp: quot_rem_def wants_remainder_def is_divmod_op_def)
qed

text \<open>The reference lowering at the width the pass picks, where the unsigned path does not apply.\<close>

lemma lower_divmod_reference:
  assumes op: "is_divmod_op op" and d: "d \<noteq> 0" and x: "in_range n x"
    and narrow: "narrow \<longleftrightarrow> is_signed op \<and> fits n LoadKind_I32 \<and> - 2147483648 \<le> sint d \<and> sint d \<le> 2147483647"
  shows "value_of (lower_divmod (vm_sink F) op x d (if narrow then 32 else 64)) = Inr (quot_rem op x d)"
proof -
  let ?w = "if narrow then 32 else 64 :: nat"
  have s: "fits_signed 32 x" if narrow
    using that x by (auto simp: narrow fits_def contains_def in_range_def fits_signed_def)
  have w: "?w = 32 \<or> ?w = 64" by simp
  have fw: "fits_width op ?w x"
    using s unat_lt_64 [of x] by (auto simp: fits_width_def narrow is_signed_def)
  have fd: "op \<in> {BinOp_Div, BinOp_Mod} \<Longrightarrow> fits_signed ?w d"
    by (auto simp: narrow fits_signed_def [of 32])
  have "divisor_at op ?w d = d"
    by (auto simp: divisor_at_def narrow is_signed_def take_bit_word_eq_self)
  moreover have "apply_binop F op x d = Inr (quot_rem op x d)"
    using op d by (auto simp: is_divmod_op_def apply_binop_def eval_int_binop_def quot_rem_def)
  ultimately show ?thesis using lower_divmod_value [OF w op fw fd, of F] by simp
qed

lemma lower_divmod_zero: "is_divmod_op op \<Longrightarrow> lower_divmod S op v 0 w = decline"
  by (auto simp: is_divmod_op_def lower_divmod_def lower_udivmod_def)

lemma delivers_value:
  assumes "lowers steps_cap steps_ok (steps_den F env) s m mx" "run_state m s = (r, s')" "steps_cap s'"
    and "value_of mx = Inr z" "site_value F site x = Some z"
  shows "delivers F env site x s r s'"
  using assms by (auto simp: lowers_def yields_def delivers_def den_rel_def split: sum.splits)

lemma lower_zero:
  assumes op: "is_divmod_op (site_op site)" and d: "site_d site = 0" and ok: "steps_ok s"
    and den: "steps_den F env s (site_n site) = Some x"
    and run: "run_state (lower site n) s = (r, s')" and cap: "steps_cap s'"
  shows "delivers F env site x s r s'"
proof (cases "imm_form site")
  case False
  then have "r = Inl (Err ()) \<and> s' = s"
    using run d op by (auto simp: lower_def Let_def lower_divmod_zero)
  then show ?thesis using ok d False by (simp add: delivers_def extends_def)
next
  case True
  let ?k = "Key_Imm 0"
  obtain i s1 where 1: "run_state (steps_push ?k (key_inst ?k)) s = (i, s1)" by fastforce
  let ?b = "Key_Binop (site_op site) (site_n site) i"
  obtain v s2 where 2: "run_state (steps_push ?b (key_inst ?b)) s1 = (v, s2)" by fastforce
  have r: "r = Inr v" "s' = s2"
    using run d op True 1 2 by (auto simp: lower_def Let_def lower_divmod_zero)
  then have "steps_cap s1"
    using cap 2 steps_push_consumes [of ?b "key_inst ?b", unfolded consumes_def, rule_format, of s1] by simp
  note p1 = steps_push_spec [OF ok _ 1 this]
  have o1: "steps_ok s1" "extends (steps_den F env) s s1" "steps_den F env s1 i = Some 0"
    using p1(1) p1(3,4) [of F env] by (simp_all add: eval_step_def)
  have n1: "steps_den F env s1 (site_n site) = Some x" using o1(2) den by (simp add: extends_def)
  note p2 = steps_push_spec [OF o1(1) _ 2]
  have o2: "steps_ok s2" "extends (steps_den F env) s1 s2"
    "steps_den F env s2 v = trap_free (apply_binop F (site_op site) x 0)"
    using p2(1) p2(3,4) [of F env] cap r n1 o1(3) den_known [OF n1] den_known [OF o1(3)]
    by (simp_all add: eval_step_def)
  then show ?thesis using r d o1(2) by (auto simp: delivers_def extends_def site_value_def)
qed

lemma lower_nonzero:
  assumes op: "is_divmod_op (site_op site)" and d: "site_d site \<noteq> 0" and ok: "steps_ok s"
    and den: "steps_den F env s (site_n site) = Some x" and x: "in_range n x" "r_hi n < 2 ^ 127"
    and run: "run_state (lower site n) s = (r, s')" and cap: "steps_cap s'"
  shows "delivers F env site x s r s'"
proof -
  let ?op = "site_op site" and ?d = "site_d site" and ?lhs = "site_n site"
  have sv: "site_value F site x = Some (quot_rem ?op x ?d)" using site_value_divmod [OF op] d by simp
  consider (below) "below_divisor ?op n ?d"
    | (unsigned) "\<not> below_divisor ?op n ?d" "r_lo n \<ge> 0 \<and> sint ?d > 0"
    | (general) "\<not> below_divisor ?op n ?d" "\<not> (r_lo n \<ge> 0 \<and> sint ?d > 0)" by blast
  then show ?thesis
  proof cases
    case below
    let ?m = "\<lambda>S v. emit (if wants_remainder ?op then State_Monad.return v else sink_imm S 0)"
    have "lowers steps_cap steps_ok (steps_den F env) s (?m steps_sink ?lhs) (?m (vm_sink F) x)"
      by (intro st.lowers_steps ok den)
    moreover have "run_state (?m steps_sink ?lhs) s = (r, s')" using run d below by (simp add: lower_def Let_def)
    moreover have "value_of (?m (vm_sink F) x) = Inr (quot_rem ?op x ?d)"
      using quot_rem_below [OF op d below x(1)] by simp
    ultimately show ?thesis using cap sv by (intro delivers_value)
  next
    case unsigned
    define w :: nat where "w = (if r_hi n \<le> 4294967295 \<and> sint ?d \<le> 4294967295 then 32 else 64)"
    define bits where "bits = clamp (128 - leading_zeros (word_of_int (r_hi n) :: 128 word)) 1 w"
    have ww: "w = 32 \<or> w = 64" "w = 64 \<or> w = 32 \<and> r_hi n \<le> 4294967295" by (simp_all add: w_def)
    note bb = bits_bound [OF x(1) _ ww(2) x(2), folded bits_def]
    have lo: "0 \<le> r_lo n" and dp: "0 < sint ?d" using unsigned(2) by simp_all
    have xp: "0 \<le> sint x" using lo x(1) by (simp add: in_range_def)
    have "run_state (lower_udivmod steps_sink (wants_remainder ?op) ?lhs ?d w bits) s = (r, s')"
      using run unsigned d by (simp add: lower_def Let_def w_def bits_def)
    moreover have "value_of (lower_udivmod (vm_sink F) (wants_remainder ?op) x ?d w bits) = Inr (quot_rem ?op x ?d)"
      using lower_udivmod_val [OF ww(1) bb(1) [OF lo] bb(2) [OF lo] bb(3) [OF lo], of F "wants_remainder ?op" ?d] d
      unfolding quot_rem_unsigned [OF op xp dp] by simp
    ultimately show ?thesis using st.lowers_lower_udivmod [OF ok den] cap sv by (intro delivers_value)
  next
    case general
    define narrow where
      "narrow \<longleftrightarrow> is_signed ?op \<and> fits n LoadKind_I32 \<and> - 2147483648 \<le> sint ?d \<and> sint ?d \<le> 2147483647"
    let ?m = "lower_divmod steps_sink ?op ?lhs ?d (if narrow then 32 else 64)"
    obtain r0 s0 where 0: "run_state ?m s = (r0, s0)" by fastforce
    note lows = st.lowers_lower_divmod [OF ok den, of ?op ?d "if narrow then 32 else 64"]
    note ref = lower_divmod_reference [OF op d x(1) narrow_def, of F]
    have step: "run_state (lower site n) s = (if r0 = Inl (Err ()) \<and> imm_form site then
        run_state (emit (do { rhs \<leftarrow> sink_imm steps_sink ?d; sink_binop steps_sink ?op ?lhs rhs })) s0
        else (r0, s0))"
      using general d 0 by (auto simp: lower_def Let_def narrow_def [symmetric])
    have cap0: "steps_cap s0"
    proof (cases "r0 = Inl (Err ()) \<and> imm_form site")
      case True
      have "consumes steps_cap (emit (do { rhs \<leftarrow> sink_imm steps_sink ?d; sink_binop steps_sink ?op ?lhs rhs }))"
        by (intro st.consumes_steps)
      then show ?thesis using True step run cap unfolding consumes_def by (metis snd_conv)
    qed (use step run cap in auto)
    have "den_rel (steps_den F env) s0 r0 (Inr (quot_rem ?op x ?d))"
      using lows 0 cap0 ref by (simp add: lowers_def yields_def)
    then have "r0 \<noteq> Inl (Err ())" by (auto simp: den_rel_def)
    then have "r0 = r" "s0 = s'" using step run by auto
    then show ?thesis using lows 0 cap ref sv by (intro delivers_value) simp_all
  qed
qed

lemma lower_delivers:
  assumes "is_divmod_op (site_op site)" "steps_ok s" "steps_den F env s (site_n site) = Some x"
    "in_range n x" "r_hi n < 2 ^ 127" "run_state (lower site n) s = (r, s')" "steps_cap s'"
  shows "delivers F env site x s r s'"
  using assms lower_zero [OF assms(1) _ assms(2,3,6,7)] lower_nonzero [OF assms(1) _ assms(2-7)] by blast

section \<open>The cost of a site\<close>

text \<open>A computation appends at most \<open>n\<close> instructions and changes no earlier one.\<close>

definition adds :: "nat \<Rightarrow> (Steps, 'r) state \<Rightarrow> bool" where
  "adds n m \<longleftrightarrow> (\<forall>s. \<exists>js. step_insts (snd (run_state m s)) = step_insts s @ js \<and> length js \<le> n)"

lemma adds_return [simp]: "adds n (State_Monad.return v)"
  by (simp add: adds_def)

lemma adds_push [simp]: "0 < n \<Longrightarrow> adds n (steps_push k i)"
  by (auto simp: adds_def steps_push_def Let_def split: option.splits)

lemma adds_bind:
  assumes "adds a m" and "\<And>v. adds b (f v)"
  shows "adds (a + b) (State_Monad.bind m f)"
  unfolding adds_def
proof
  fix s
  obtain v s1 where 1: "run_state m s = (v, s1)" by fastforce
  obtain js where js: "step_insts s1 = step_insts s @ js" "length js \<le> a"
    using assms(1) 1 unfolding adds_def by (metis snd_conv)
  obtain ks where "step_insts (snd (run_state (f v) s1)) = step_insts s1 @ ks" "length ks \<le> b"
    using assms(2) unfolding adds_def by blast
  then show "\<exists>js. step_insts (snd (run_state (State_Monad.bind m f) s)) = step_insts s @ js \<and> length js \<le> a + b"
    using js 1 by (intro exI [of _ "js @ ks"]) simp
qed

lemma adds_push_bind [simp]:
  "0 < n \<Longrightarrow> (\<And>v. adds (n - 1) (f v)) \<Longrightarrow> adds n (State_Monad.bind (steps_push k i) f)"
  using adds_bind [of 1 "steps_push k i" "n - 1" f] adds_push [of 1 k i] by simp

lemma bind_if [simp]:
  "State_Monad.bind (if c then m1 else m2) f = (if c then State_Monad.bind m1 f else State_Monad.bind m2 f)"
  by simp

lemma adds_weaken: "adds a m \<Longrightarrow> a \<le> b \<Longrightarrow> adds b m"
  unfolding adds_def by (meson le_trans)

lemma adds_if: "adds n m1 \<Longrightarrow> adds n m2 \<Longrightarrow> adds n (if c then m1 else m2)"
  by simp

lemma adds_option: "adds n m1 \<Longrightarrow> (\<And>a. adds n (m2 a)) \<Longrightarrow> adds n (case z of None \<Rightarrow> m1 | Some a \<Rightarrow> m2 a)"
  by (cases z) simp_all

lemma adds_bind_le: "adds a m \<Longrightarrow> (\<And>v. adds b (f v)) \<Longrightarrow> a + b \<le> n \<Longrightarrow> adds n (State_Monad.bind m f)"
  by (rule adds_weaken [OF adds_bind])

lemma adds_and_then: "adds a m \<Longrightarrow> (\<And>v. adds b (f v)) \<Longrightarrow> a + b \<le> n \<Longrightarrow> adds n (and_then m f)"
  unfolding and_then_def by (erule adds_bind_le) (auto split: sum.splits)

lemmas lowering_unfolds = shift_right_def mulhu_def negate_def sdiv_pow2_bias_def Let_def

lemma adds_udiv_magic: "7 \<le> k \<Longrightarrow> adds k (udiv_magic steps_sink n d w bits)"
  by (rule adds_weaken [of 7]) (simp_all add: udiv_magic_def lowering_unfolds split: option.split)

lemma adds_sdiv_magic: "6 \<le> k \<Longrightarrow> adds k (sdiv_magic steps_sink n d w)"
  by (rule adds_weaken [of 6]) (simp_all add: sdiv_magic_def lowering_unfolds split: option.split)

lemma adds_lower_udivmod: "9 \<le> k \<Longrightarrow> adds k (lower_udivmod steps_sink want_rem n du w bits)"
  by (rule adds_weaken [of 9], unfold lower_udivmod_def, intro adds_if adds_option adds_and_then [of 7 _ 2])
     (simp_all add: adds_udiv_magic lowering_unfolds)

lemma adds_lower_divmod: "adds 10 (lower_divmod steps_sink op n d w)"
  unfolding lower_divmod_def Let_def
  by (intro adds_if adds_option adds_and_then [of 6 _ 4] adds_lower_udivmod adds_sdiv_magic)
     (simp_all add: lowering_unfolds)

lemma adds_lower: "adds 12 (lower site n)"
  unfolding lower_def Let_def
  by (intro adds_if adds_lower_udivmod adds_bind_le [OF adds_lower_divmod, of 2]) simp_all

lemma adds_site: "adds 13 (do { (cleaned, n) \<leftarrow> clean_site fn site r; lower cleaned n })"
proof -
  have "adds 1 (clean_site fn site r)" by (simp add: clean_site_def Let_def)
  then have "adds (1 + 12) (do { (cleaned, n) \<leftarrow> clean_site fn site r; lower cleaned n })"
    by (rule adds_bind) (simp add: adds_lower split: prod.split)
  then show ?thesis by simp
qed

section \<open>The loop over the sites\<close>

text \<open>The dividend a site divides: a 32-bit division reads the low word.\<close>

definition site_dividend :: "FunctionSsa \<Rightarrow> Site \<Rightarrow> i64 \<Rightarrow> i64" where
  "site_dividend fn site x =
     (if is_div32 (div32 fn) (site_at site) then
        (if is_signed (site_op site) then eval_extend x LoadKind_I32 else x AND 0xffffffff)
      else x)"

lemma extend_i32_range: "in_range (rng (- 2147483648) 2147483647) (eval_extend x LoadKind_I32)"
  using sint_greater_eq [of "ucast x :: u32"] sint_less [of "ucast x :: u32"]
  by (simp add: in_range_def sint_up_scast is_up)

lemma extend_i32_self:
  assumes "in_range (rng (- 2147483648) 2147483647) x"
  shows "eval_extend x LoadKind_I32 = x"
proof -
  have "sint (ucast x :: u32) = signed_take_bit 31 (sint x)"
    by (simp add: signed_ucast_eq sint_uint [of x])
  also have "\<dots> = sint x" using assms by (intro signed_take_bit_int_eq_self) (simp_all add: in_range_def)
  finally have "sint (ucast x :: u32) = sint x" .
  then show ?thesis by (simp add: word_eq_sint sint_up_scast is_up)
qed

lemma mask32_range: "in_range (rng 0 4294967295) (x AND 0xffffffff)"
  using and_bound [of "0xffffffff" x] by (simp add: in_range_def)

lemma mask32_self:
  assumes "in_range (rng 0 4294967295) x"
  shows "x AND 0xffffffff = x"
proof -
  have "uint x < 2 ^ 32" using assms by (simp add: in_range_def uint_eq_sint)
  then have "take_bit 32 x = x"
    by (simp add: word_eq_uint unsigned_take_bit_eq take_bit_int_eq_self)
  then show ?thesis by (simp add: take_bit_eq_mask mask_eq_exp_minus_1)
qed

text \<open>Cleaning the dividend of a 32-bit division keeps the site and delivers the low word.\<close>

lemma clean_site_spec:
  assumes ok: "steps_ok s" and den: "steps_den F env s (site_n site) = Some x"
    and x: "in_range n x" "r_hi n < 2 ^ 127"
    and run: "run_state (clean_site fn site n) s = ((cl, n'), s')" and cap: "steps_cap s'"
  shows "steps_ok s'" and "extends (steps_den F env) s s'"
    and "steps_den F env s' (site_n cl) = Some (site_dividend fn site x)"
    and "in_range n' (site_dividend fn site x)" and "r_hi n' < 2 ^ 127"
    and "site_op cl = site_op site" "site_d cl = site_d site" "imm_form cl = imm_form site"
proof -
  let ?sg = "is_signed (site_op site)"
  consider (plain) "\<not> is_div32 (div32 fn) (site_at site)"
    | (ssame) "is_div32 (div32 fn) (site_at site)" ?sg "fits n LoadKind_I32"
    | (usame) "is_div32 (div32 fn) (site_at site)" "\<not> ?sg" "high_word_clear n"
    | (sdirty) "is_div32 (div32 fn) (site_at site)" ?sg "\<not> fits n LoadKind_I32"
    | (udirty) "is_div32 (div32 fn) (site_at site)" "\<not> ?sg" "\<not> high_word_clear n" by blast
  then have "steps_ok s' \<and> extends (steps_den F env) s s' \<and>
    steps_den F env s' (site_n cl) = Some (site_dividend fn site x) \<and>
    in_range n' (site_dividend fn site x) \<and> r_hi n' < 2 ^ 127 \<and>
    site_op cl = site_op site \<and> site_d cl = site_d site \<and> imm_form cl = imm_form site"
  proof cases
    case plain
    then show ?thesis using run ok den x by (auto simp: clean_site_def site_dividend_def extends_def)
  next
    case ssame
    then have "in_range (rng (- 2147483648) 2147483647) x" using x by (auto simp: fits_def dest: in_contains)
    then show ?thesis using ssame run ok den x extend_i32_self [of x]
      by (auto simp: clean_site_def site_dividend_def extends_def in_range_def meet_def [of n] Let_def)
  next
    case usame
    then have "in_range (rng 0 4294967295) x" using x by (auto simp: high_word_clear_def in_range_def)
    then show ?thesis using usame run ok den x mask32_self [of x]
      by (auto simp: clean_site_def site_dividend_def extends_def in_range_def meet_def [of n] Let_def)
  next
    case sdirty
    let ?k = "Key_Extend (site_n site)"
    have r: "run_state (steps_push ?k (key_inst ?k)) s = (site_n cl, s')" "cl = site\<lparr>site_n := site_n cl\<rparr>"
      "n' = rng (- 2147483648) 2147483647"
      using run sdirty by (auto simp: clean_site_def Let_def split: prod.splits)
    have kn: "list_all (known (length (step_insts s))) (key_operands ?k)" using den_known [OF den] by simp
    note sp = steps_push_spec [OF ok kn r(1) cap]
    have "steps_den F env s' (site_n cl) = Some (site_dividend fn site x)"
      using sp(4) [of F env] den sdirty by (simp add: eval_step_def site_dividend_def)
    moreover have "in_range n' (site_dividend fn site x)"
      using sdirty extend_i32_range [of x] r(3) by (simp add: site_dividend_def)
    ultimately show ?thesis using sp(1) sp(3) [of F env] r(3) arg_cong [OF r(2), of site_op]
        arg_cong [OF r(2), of site_d] arg_cong [OF r(2), of imm_form] by simp
  next
    case udirty
    let ?k = "Key_BinopI BinOp_And (site_n site) 0xffffffff"
    have r: "run_state (steps_push ?k (key_inst ?k)) s = (site_n cl, s')" "cl = site\<lparr>site_n := site_n cl\<rparr>"
      "n' = rng 0 4294967295"
      using run udirty by (auto simp: clean_site_def Let_def split: prod.splits)
    have kn: "list_all (known (length (step_insts s))) (key_operands ?k)" using den_known [OF den] by simp
    note sp = steps_push_spec [OF ok kn r(1) cap]
    have "steps_den F env s' (site_n cl) = Some (site_dividend fn site x)"
      using sp(4) [of F env] den udirty
      by (simp add: eval_step_def site_dividend_def trap_free_def apply_binop_def eval_int_binop_def)
    moreover have "in_range n' (site_dividend fn site x)"
      using udirty mask32_range [of x] r(3) by (simp add: site_dividend_def)
    ultimately show ?thesis using sp(1) sp(3) [of F env] r(3) arg_cong [OF r(2), of site_op]
        arg_cong [OF r(2), of site_d] arg_cong [OF r(2), of imm_form] by simp
  qed
  then show "steps_ok s'" "extends (steps_den F env) s s'"
    "steps_den F env s' (site_n cl) = Some (site_dividend fn site x)"
    "in_range n' (site_dividend fn site x)" "r_hi n' < 2 ^ 127"
    "site_op cl = site_op site" "site_d cl = site_d site" "imm_form cl = imm_form site" by blast+
qed

text \<open>The hypothesis on a run: the dividend has a value and lies in the range the analysis gave.\<close>

definition site_in_range :: "(ValueId \<Rightarrow> i64 option) \<Rightarrow> (ValueId \<Rightarrow> Range) \<Rightarrow> Site \<Rightarrow> bool" where
  "site_in_range env ranges site \<longleftrightarrow>
     is_divmod_op (site_op site) \<and> \<not> bit (site_n site) 31 \<and> r_hi (ranges (site_n site)) < 2 ^ 127 \<and>
     (case env (site_n site) of Some x \<Rightarrow> in_range (ranges (site_n site)) x | None \<Rightarrow> False)"

definition site_result :: "fpu \<Rightarrow> FunctionSsa \<Rightarrow> (ValueId \<Rightarrow> i64 option) \<Rightarrow> Site \<Rightarrow> i64 option" where
  "site_result F fn env site =
     (case env (site_n site) of
        Some x \<Rightarrow> trap_free (apply_binop F (site_op site) (site_dividend fn site x) (site_d site))
      | None \<Rightarrow> None)"

lemma steps_ok_clear: "steps_ok s \<Longrightarrow> steps_ok (s\<lparr>in_block := (\<lambda>_. None)\<rparr>)"
  by (simp add: steps_ok_def)

lemma steps_den_insts: "step_insts s = step_insts s' \<Longrightarrow> steps_den F env s = steps_den F env s'"
  by (simp add: steps_den_def)

lemma steps_ok_truncate:
  assumes ok: "steps_ok s'" and pre: "step_insts s' = is @ js"
  shows "steps_ok (steps_truncate (length is) s')"
proof -
  let ?t = "steps_truncate (length is) s'"
  have i: "step_insts ?t = is" using pre by (simp add: steps_truncate_def)
  have "step_ok is g" if g: "g < length is" for g
  proof -
    have "step_ok (is @ js) g" using ok g by (simp add: steps_ok_def pre)
    then show ?thesis using g by (simp add: step_ok_def nth_append)
  qed
  moreover have "bit v 31 \<and> take_bit 31 v < length is \<and> is ! take_bit 31 v = key_inst k"
    if v: "in_block ?t k = Some v" for k v
  proof -
    have "in_block s' k = Some v" "take_bit 31 v < length is"
      using v by (auto simp: steps_truncate_def split: option.splits if_splits)
    then show ?thesis
      using ok [unfolded steps_ok_def, THEN conjunct2, rule_format, of k v] by (simp add: pre nth_append)
  qed
  ultimately show ?thesis unfolding steps_ok_def i by blast
qed

text \<open>One turn: never a panic, at most 13 new steps, and a recorded expansion denotes its site.\<close>

lemma expand_site_spec:
  assumes ok: "steps_ok st" and site: "site_in_range env ranges site"
    and room: "length (step_insts st) + 13 \<le> 2 ^ 31"
  obtains st' new where "expand_site fn ranges site (st, exps, b) = Inr (st', exps @ new, Some (site_block site))"
    and "steps_ok st'" "extends (steps_den F env) st st'" "length (step_insts st') \<le> length (step_insts st) + 13"
    and "list_all (\<lambda>e. ex_at e = site_at site \<and> steps_den F env st' (ex_result e) = site_result F fn env site) new"
    and "site_d site \<noteq> 0 \<or> imm_form site \<longrightarrow> new \<noteq> []"
proof -
  let ?s = "if b = Some (site_block site) then st else st\<lparr>in_block := (\<lambda>_. None)\<rparr>"
  have s0: "steps_ok ?s" "step_insts ?s = step_insts st" using ok steps_ok_clear by auto
  obtain x where x: "env (site_n site) = Some x" "in_range (ranges (site_n site)) x"
    using site by (auto simp: site_in_range_def split: option.splits)
  have den: "steps_den F env ?s (site_n site) = Some x"
    using x site by (simp add: steps_den_def step_look_def site_in_range_def)
  obtain cl n s1 where c: "run_state (clean_site fn site (ranges (site_n site))) ?s = ((cl, n), s1)"
    by (metis prod.exhaust)
  obtain r s2 where l: "run_state (lower cl n) s1 = (r, s2)" by fastforce
  have run: "run_state (do { (cleaned, n) \<leftarrow> clean_site fn site (ranges (site_n site)); lower cleaned n }) ?s = (r, s2)"
    using c l by simp
  obtain js where js: "step_insts s2 = step_insts st @ js" "length js \<le> 13"
    using adds_site [of fn site "ranges (site_n site)"] run s0(2) unfolding adds_def by (metis snd_conv)
  have cap2: "steps_cap s2" using js room by (simp add: steps_cap_def)
  obtain ks where "step_insts s2 = step_insts s1 @ ks"
    using adds_lower [of cl n] l unfolding adds_def by (metis snd_conv)
  then have cap1: "steps_cap s1" using cap2 by (simp add: steps_cap_def)
  have hi: "r_hi (ranges (site_n site)) < 2 ^ 127" and op: "is_divmod_op (site_op site)"
    using site by (simp_all add: site_in_range_def)
  note cs = clean_site_spec [OF s0(1) den x(2) hi c cap1]
  have dl: "delivers F env cl (site_dividend fn site x) s1 r s2"
    using lower_delivers [OF _ cs(1) cs(3) cs(4) cs(5) l cap2] op cs(6) by simp
  have ext: "extends (steps_den F env) st s2"
    using cs(2) dl s0(2) steps_den_insts [OF s0(2), of F env] by (auto simp: delivers_def extends_def)
  show thesis
  proof (cases r)
    case (Inr v)
    then have "steps_den F env s2 v = site_result F fn env site"
      using dl cs(6,7) x by (simp add: delivers_def site_value_def site_result_def)
    then show thesis
      using that [of s2 "[\<lparr>ex_at = site_at site, owned = (length (step_insts st), length (step_insts s2)), ex_result = v\<rparr>]"]
        run Inr dl ext js s0(2) by (simp add: expand_site_def Let_def delivers_def)
  next
    case (Inl e)
    then have e: "e = Err ()" "site_d site = 0" "\<not> imm_form site"
      using dl cs(7,8) by (auto simp: delivers_def split: fault.splits)
    let ?t = "steps_truncate (length (step_insts st)) s2"
    have t: "step_insts ?t = step_insts st" using js by (simp add: steps_truncate_def)
    have "steps_ok ?t" using dl js by (intro steps_ok_truncate) (auto simp: delivers_def)
    moreover have "extends (steps_den F env) st ?t" using steps_den_insts [OF t, of F env] by (simp add: extends_def)
    moreover have "expand_site fn ranges site (st, exps, b) = Inr (?t, exps @ [], Some (site_block site))"
      using run Inl e s0(2) by (simp add: expand_site_def Let_def)
    ultimately show thesis using that [of ?t "[]"] t e by simp
  qed
qed

text \<open>An expansion stands for a site: its result operand denotes what the site computes.\<close>

definition stands_for ::
  "fpu \<Rightarrow> FunctionSsa \<Rightarrow> (ValueId \<Rightarrow> i64 option) \<Rightarrow> Steps \<Rightarrow> Expansion \<Rightarrow> Site \<Rightarrow> bool" where
  "stands_for F fn env st e site \<longleftrightarrow>
     ex_at e = site_at site \<and>
     (case site_result F fn env site of Some z \<Rightarrow> steps_den F env st (ex_result e) = Some z | None \<Rightarrow> True)"

lemma stands_for_extends:
  "stands_for F fn env st e site \<Longrightarrow> extends (steps_den F env) st st' \<Longrightarrow> stands_for F fn env st' e site"
  by (auto simp: stands_for_def extends_def split: option.splits)

lemma expand_sites_spec:
  assumes "steps_ok st" "list_all (site_in_range env ranges) ss"
    and "length (step_insts st) + 13 * length ss \<le> 2 ^ 31"
  shows "\<exists>st' new b'. expand_sites fn ranges ss (st, exps, b) = Inr (st', exps @ new, b') \<and> steps_ok st' \<and>
           extends (steps_den F env) st st' \<and>
           (\<forall>e \<in> set new. \<exists>site \<in> set ss. stands_for F fn env st' e site) \<and>
           (\<forall>site \<in> set ss. site_d site \<noteq> 0 \<or> imm_form site \<longrightarrow> (\<exists>e \<in> set new. stands_for F fn env st' e site))"
  using assms
proof (induction ss arbitrary: st exps b)
  case Nil
  then show ?case by (simp add: extends_def)
next
  case (Cons site ss)
  have site: "site_in_range env ranges site" and rest: "list_all (site_in_range env ranges) ss"
    using Cons.prems(2) by simp_all
  have room: "length (step_insts st) + 13 \<le> 2 ^ 31" using Cons.prems(3) by simp
  obtain st1 new1 where one:
    "expand_site fn ranges site (st, exps, b) = Inr (st1, exps @ new1, Some (site_block site))"
    "steps_ok st1" "extends (steps_den F env) st st1" "length (step_insts st1) \<le> length (step_insts st) + 13"
    "list_all (\<lambda>e. ex_at e = site_at site \<and> steps_den F env st1 (ex_result e) = site_result F fn env site) new1"
    "site_d site \<noteq> 0 \<or> imm_form site \<longrightarrow> new1 \<noteq> []"
    using expand_site_spec [OF Cons.prems(1) site room, of fn exps b F] by blast
  have "length (step_insts st1) + 13 * length ss \<le> 2 ^ 31" using one(4) Cons.prems(3) by simp
  from Cons.IH [OF one(2) rest this, of "exps @ new1" "Some (site_block site)"]
  obtain st' new b' where two:
    "expand_sites fn ranges ss (st1, exps @ new1, Some (site_block site)) = Inr (st', (exps @ new1) @ new, b')"
    "steps_ok st'" "extends (steps_den F env) st1 st'"
    "\<forall>e \<in> set new. \<exists>site \<in> set ss. stands_for F fn env st' e site"
    "\<forall>site \<in> set ss. site_d site \<noteq> 0 \<or> imm_form site \<longrightarrow> (\<exists>e \<in> set new. stands_for F fn env st' e site)"
    by blast
  have s1: "stands_for F fn env st' e site" if "e \<in> set new1" for e
  proof (rule stands_for_extends [OF _ two(3)])
    show "stands_for F fn env st1 e site"
      using one(5) that by (simp add: stands_for_def list_all_iff split: option.splits)
  qed
  have ex: "extends (steps_den F env) st st'" using one(3) two(3) by (simp add: extends_def)
  have run: "expand_sites fn ranges (site # ss) (st, exps, b) = Inr (st', exps @ (new1 @ new), b')"
    using one(1) two(1) by simp
  have "\<forall>e \<in> set (new1 @ new). \<exists>s \<in> set (site # ss). stands_for F fn env st' e s" using s1 two(4) by auto
  moreover have "\<exists>e \<in> set (new1 @ new). stands_for F fn env st' e s"
    if mem: "s \<in> set (site # ss)" and lowered: "site_d s \<noteq> 0 \<or> imm_form s" for s
  proof (cases "s = site")
    case True
    then obtain e where "e \<in> set new1" using lowered one(6) by (cases new1) auto
    then show ?thesis using s1 True by auto
  next
    case False
    then show ?thesis using mem lowered two(5) by auto
  qed
  ultimately show ?case using run two(2) ex by blast
qed

end
