(* ===== verification/Softfp.thy ===== *)
theory Softfp
  imports Badc_Prelude
begin

text \<open>
  Conversions between binary64 and the wider \<open>long double\<close> storage formats,
  \<^verbatim>\<open>src/src/c5/softfp.rs\<close>: x87 80-bit extended and IEEE binary128.  Widening is exact
  and narrowing rounds to nearest with ties to even; the lemmas show that narrowing after widening
  gives the original pattern back, with the quiet bit of a NaN set.
\<close>

section \<open>Definitions\<close>

definition round_to_f64 :: "u64 \<Rightarrow> int \<Rightarrow> u64 \<Rightarrow> bool \<Rightarrow> u64" where
  "round_to_f64 sign0 exp frac sticky =
     (let sign = push_bit 63 sign0; e64 = exp + 1023
      in if e64 \<ge> 0x7ff then sign OR push_bit 52 0x7ff
         else
           let dropped = 11 + (if e64 \<le> 0 then 1 - e64 else 0)
           in if dropped > 64 then sign
              else
                let k = nat dropped;
                    sig = (if k = 64 then 0 else drop_bit k frac);
                    guard = drop_bit (k - 1) frac AND 1 \<noteq> 0;
                    below = frac AND (push_bit (k - 1) 1 - 1) \<noteq> 0;
                    e_field = (if e64 \<le> 0 then 0 else word_of_int (e64 - 1));
                    round_up = guard \<and> (below \<or> sticky \<or> sig AND 1 \<noteq> 0)
                in sign + ((push_bit 52 e_field + sig) + of_bool round_up))"

definition f64_to_f80 :: "u64 \<Rightarrow> u64 \<times> u16" where
  "f64_to_f80 bits =
     (let sign = push_bit 15 (ucast (drop_bit 63 bits) :: u16);
          e = drop_bit 52 bits AND 0x7ff;
          m = bits AND (push_bit 52 1 - 1)
      in if e = 0x7ff then
           (let quiet = (if m \<noteq> 0 then push_bit 62 1 else 0)
            in ((push_bit 63 1 OR quiet) OR push_bit 11 m, sign OR 0x7fff))
         else if e = 0 then
           (if m = 0 then (0, sign)
            else let sh = leading_zeros m
                 in (push_bit sh m, sign OR word_of_nat (15372 - sh)))
         else (push_bit 63 1 OR push_bit 11 m, sign OR ucast (e + 16383 - 1023)))"

definition f80_to_f64 :: "u64 \<Rightarrow> u16 \<Rightarrow> u64" where
  "f80_to_f64 frac sign_exp =
     (let sign = (ucast (drop_bit 15 sign_exp) :: u64);
          e = uint (sign_exp AND 0x7fff)
      in if e \<noteq> 0 \<and> drop_bit 63 frac = 0 then 0xfff8000000000000
         else if e = 0x7fff then
           (if frac AND NOT (push_bit 63 1) = 0 then push_bit 63 sign OR push_bit 52 0x7ff
            else let m = drop_bit 11 frac AND (push_bit 52 1 - 1)
                 in ((push_bit 63 sign OR push_bit 52 0x7ff) OR push_bit 51 1) OR m)
         else if frac = 0 then push_bit 63 sign
         else
           let eff = (if e = 0 then 1 else e); sh = leading_zeros frac
           in round_to_f64 sign (eff - 16383 - int sh) (push_bit sh frac) False)"

definition f64_to_f128 :: "u64 \<Rightarrow> u64 \<times> u64" where
  "f64_to_f128 bits =
     (let sign = push_bit 63 (drop_bit 63 bits);
          e = drop_bit 52 bits AND 0x7ff;
          m = bits AND (push_bit 52 1 - 1)
      in if e = 0x7ff then
           (let quiet = (if m \<noteq> 0 then push_bit 47 1 else 0)
            in (push_bit 60 m, ((sign OR push_bit 48 0x7fff) OR quiet) OR drop_bit 4 m))
         else if e = 0 then
           (if m = 0 then (0, sign)
            else let sh = leading_zeros m - 11;
                     m' = push_bit sh m AND (push_bit 52 1 - 1);
                     e128 = word_of_nat (16383 - 1022 - sh)
                 in (push_bit 60 m', (sign OR push_bit 48 e128) OR drop_bit 4 m'))
         else (push_bit 60 m, (sign OR push_bit 48 (e + 16383 - 1023)) OR drop_bit 4 m))"

definition f128_to_f64 :: "u64 \<Rightarrow> u64 \<Rightarrow> u64" where
  "f128_to_f64 lo hi =
     (let sign = drop_bit 63 hi;
          e = uint (drop_bit 48 hi AND 0x7fff);
          mh = hi AND (push_bit 48 1 - 1)
      in if e = 0x7fff then
           (if mh = 0 \<and> lo = 0 then push_bit 63 sign OR push_bit 52 0x7ff
            else let m = (push_bit 4 mh OR drop_bit 60 lo) AND (push_bit 52 1 - 1)
                 in ((push_bit 63 sign OR push_bit 52 0x7ff) OR push_bit 51 1) OR m)
         else if e = 0 \<and> mh = 0 \<and> lo = 0 then push_bit 63 sign
         else
           let implicit = (of_bool (e \<noteq> 0) :: u64);
               eff = (if e = 0 then 1 else e);
               frac = (push_bit 63 implicit OR push_bit 15 mh) OR drop_bit 49 lo;
               sticky = lo AND (push_bit 49 1 - 1) \<noteq> 0
           in if frac = 0 then push_bit 63 sign
              else let sh = leading_zeros frac
                   in round_to_f64 sign (eff - 16383 - int sh) (push_bit sh frac) sticky)"

datatype LongDoubleKind = LongDoubleKind_F64 | LongDoubleKind_X87 | LongDoubleKind_Binary128

text \<open>\<open>to_le_bytes\<close> of a word: its bytes, least significant first.\<close>

definition to_le_bytes :: "nat \<Rightarrow> 'a::len word \<Rightarrow> u8 list" where
  "to_le_bytes n x = map (\<lambda>i. ucast (drop_bit (8 * i) x)) [0..<n]"

definition from_le_bytes :: "u8 list \<Rightarrow> 'a::len word" where
  "from_le_bytes bs = foldr (\<lambda>b acc. push_bit 8 acc OR ucast b) bs 0"

definition long_double_image :: "u64 \<Rightarrow> LongDoubleKind \<Rightarrow> u8 list" where
  "long_double_image bits kind =
     (case kind of
        LongDoubleKind_F64 \<Rightarrow> to_le_bytes 8 bits @ replicate 8 0
      | LongDoubleKind_X87 \<Rightarrow>
          (case f64_to_f80 bits of (frac, se) \<Rightarrow> to_le_bytes 8 frac @ to_le_bytes 2 se @ replicate 6 0)
      | LongDoubleKind_Binary128 \<Rightarrow>
          (case f64_to_f128 bits of (l, h) \<Rightarrow> to_le_bytes 8 l @ to_le_bytes 8 h))"

section \<open>The fields of a pattern\<close>

abbreviation f64_sign :: "u64 \<Rightarrow> u64" where "f64_sign b \<equiv> drop_bit 63 b"
abbreviation f64_exp :: "u64 \<Rightarrow> u64" where "f64_exp b \<equiv> take_bit 11 (drop_bit 52 b)"
abbreviation f64_mant :: "u64 \<Rightarrow> u64" where "f64_mant b \<equiv> take_bit 52 b"

lemma mask_consts:
  "(x :: u64) AND 0x7ff = take_bit 11 x" "(x :: u64) AND 0x7fff = take_bit 15 x"
  "(y :: u16) AND 0x7fff = take_bit 15 y" "(x :: u64) AND (push_bit k 1 - 1) = take_bit k x"
  by (simp_all add: take_bit_eq_mask mask_eq_exp_minus_1)

lemma sign_bit: "bit (f64_sign b) i \<longleftrightarrow> i = 0 \<and> bit b 63"
  by (cases "i = 0") (auto simp: bit_simps dest: bit_imp_le_length)

lemma join_fields:
  assumes "\<And>i. bit e i \<Longrightarrow> i < 11" "\<And>i. bit m i \<Longrightarrow> i < 52" "\<And>i. bit s i \<Longrightarrow> i = 0"
  shows "push_bit 63 s + (push_bit 52 e + m) = (push_bit 63 s OR push_bit 52 e) OR (m :: u64)"
proof -
  have "push_bit 52 e + m = push_bit 52 e OR m"
    using assms by (intro disjunctive_add_eq_or bit_word_eqI) (force simp: bit_simps)
  moreover have "push_bit 63 s + (push_bit 52 e OR m) = push_bit 63 s OR (push_bit 52 e OR m)"
    using assms by (intro disjunctive_add_eq_or bit_word_eqI) (force simp: bit_simps)
  ultimately show ?thesis by (simp add: or.assoc)
qed

lemma split_fields: "(push_bit 63 (f64_sign b) OR push_bit 52 (f64_exp b)) OR f64_mant b = b"
proof (rule bit_word_eqI)
  fix n assume "n < LENGTH(64)"
  then consider "n = 63" | "52 \<le> n" "n < 63" | "n < 52" by force
  then show "bit ((push_bit 63 (f64_sign b) OR push_bit 52 (f64_exp b)) OR f64_mant b) n \<longleftrightarrow> bit b n"
    by cases (auto simp: bit_simps)
qed

lemma leading_zeros_spec:
  fixes x :: "'a::len word"
  assumes "x \<noteq> 0"
  shows "leading_zeros x < LENGTH('a)" and "bit x (LENGTH('a) - 1 - leading_zeros x)"
    and "\<And>i. LENGTH('a) - 1 - leading_zeros x < i \<Longrightarrow> \<not> bit x i"
proof -
  let ?l = "rev [0..<LENGTH('a)]" and ?P = "\<lambda>i. \<not> bit x i"
  obtain i where i: "i < LENGTH('a)" "bit x i" using assms bit_word_eqI [of x 0] by auto
  then have ne: "takeWhile ?P ?l \<noteq> ?l" using takeWhile_eq_all_conv [of ?P ?l] by auto
  then have lt: "length (takeWhile ?P ?l) < length ?l"
    by (metis length_takeWhile_le nless_le takeWhile_eq_take take_all_iff)
  then show z: "leading_zeros x < LENGTH('a)" by (simp add: leading_zeros_def)
  show "bit x (LENGTH('a) - 1 - leading_zeros x)"
    using nth_length_takeWhile [OF lt] lt by (simp add: leading_zeros_def rev_nth)
  fix j assume j: "LENGTH('a) - 1 - leading_zeros x < j"
  show "\<not> bit x j"
  proof (cases "j < LENGTH('a)")
    case True
    let ?k = "LENGTH('a) - 1 - j"
    have k: "?k < leading_zeros x" using j True z by linarith
    then have "?k < length (takeWhile ?P ?l)" by (simp add: leading_zeros_def)
    then have "?l ! ?k \<in> set (takeWhile ?P ?l)" by (metis nth_mem takeWhile_nth)
    then have "\<not> bit x (?l ! ?k)" by (auto dest: set_takeWhileD)
    moreover have "?l ! ?k = j" using True by (simp add: rev_nth)
    ultimately show ?thesis by simp
  next
    case False
    then show ?thesis by (auto dest: bit_imp_le_length)
  qed
qed

lemma leading_zeros_top: "bit (x :: 'a::len word) (LENGTH('a) - 1) \<Longrightarrow> leading_zeros x = 0"
proof (rule ccontr)
  assume b: "bit x (LENGTH('a) - 1)" and "leading_zeros x \<noteq> 0"
  moreover have "x \<noteq> 0" using b by auto
  moreover have "leading_zeros x < LENGTH('a)" using leading_zeros_spec(1) [OF \<open>x \<noteq> 0\<close>] .
  ultimately have "LENGTH('a) - 1 - leading_zeros x < LENGTH('a) - 1" by linarith
  then show False using leading_zeros_spec(3) [OF \<open>x \<noteq> 0\<close>] b by blast
qed

section \<open>Rounding a value that needs none\<close>

lemma round_exact:
  assumes e: "exp + 1023 < 0x7ff" and k: "int k = 11 + (if exp + 1023 \<le> 0 then 1 - (exp + 1023) else 0)" "k < 64"
    and g: "\<And>i. bit g i \<Longrightarrow> i < 64 - k"
  shows "round_to_f64 s exp (push_bit k g) False =
           push_bit 63 s + (push_bit 52 (if exp + 1023 \<le> 0 then 0 else word_of_int (exp + 1023 - 1)) + g)"
proof -
  have dk: "drop_bit k (push_bit k g) = g"
    using g k(2) by (intro bit_word_eqI) (force simp: bit_simps)
  have k1: "1 \<le> k" using k(1) by (auto split: if_splits)
  have guard: "drop_bit (k - 1) (push_bit k g) AND 1 = 0"
    using k1 by (intro bit_word_eqI) (auto simp: bit_simps)
  have nk: "nat (11 + (if exp + 1023 \<le> 0 then 1 - (exp + 1023) else 0)) = k" using k(1) by linarith
  have le: "\<not> 11 + (if exp + 1023 \<le> 0 then 1 - (exp + 1023) else 0) > 64" using k by linarith
  show ?thesis
    unfolding round_to_f64_def Let_def nk using e le k(2) guard dk by simp
qed

section \<open>Narrowing after widening\<close>

text \<open>The pattern with its quiet bit set when it is a NaN.\<close>

definition quieted :: "u64 \<Rightarrow> u64" where
  "quieted b = (if f64_exp b = 0x7ff \<and> f64_mant b \<noteq> 0 then b OR push_bit 51 1 else b)"

lemma f80_sign_exp:
  fixes s x :: u16
  assumes "\<And>i. bit s i \<Longrightarrow> i = 0" "\<And>i. bit x i \<Longrightarrow> i < 15"
  shows "drop_bit 15 (push_bit 15 s OR x) = s" and "take_bit 15 (push_bit 15 s OR x) = x"
  using assms by (auto intro!: bit_word_eqI simp: bit_simps) force+

lemma bit_ucast_sign: "bit (ucast (f64_sign b) :: u16) i \<Longrightarrow> i = 0"
  using sign_bit [of b i] by (simp add: bit_ucast_iff)

lemma ucast_sign: "ucast (ucast (f64_sign b) :: u16) = f64_sign b"
  by (rule bit_word_eqI) (auto simp: bit_simps sign_bit dest: bit_imp_le_length)

lemma uint_exp_lt: "uint (f64_exp b) < 2048"
  using take_bit_int_less_exp [of 11 "uint (drop_bit 52 b)"] by (simp add: unsigned_take_bit_eq)

lemma bit_less_of_uint: "uint (x :: 'a::len word) < 2 ^ n \<Longrightarrow> bit x i \<Longrightarrow> i < n"
proof -
  assume "uint x < 2 ^ n" "bit x i"
  then have "take_bit n (uint x) = uint x" by (intro take_bit_int_eq_self) simp_all
  moreover have "bit (uint x) i" using \<open>bit x i\<close> by (simp add: bit_uint_iff bit_imp_le_length)
  ultimately show "i < n" by (metis bit_take_bit_iff)
qed

lemma join_normal:
  assumes "f64_exp b \<noteq> 0"
  shows "push_bit 63 (f64_sign b) + (push_bit 52 (word_of_int (uint (f64_exp b) - 1)) + (push_bit 52 1 OR f64_mant b)) = b"
proof -
  have "push_bit 52 1 OR f64_mant b = push_bit 52 1 + f64_mant b"
    by (rule disjunctive_add_eq_or [symmetric], rule bit_word_eqI) (auto simp: bit_simps simp del: push_bit_of_1)
  then have "push_bit 52 (word_of_int (uint (f64_exp b) - 1)) + (push_bit 52 1 OR f64_mant b) =
      push_bit 52 (f64_exp b) + f64_mant b"
    by (simp add: push_bit_eq_mult algebra_simps)
  moreover have "push_bit 63 (f64_sign b) + (push_bit 52 (f64_exp b) + f64_mant b) = b"
    by (rule trans [OF join_fields split_fields]) (auto simp: bit_take_bit_iff sign_bit)
  ultimately show ?thesis by simp
qed

lemma f80_exp_field:
  assumes "uint e < 2048"
  shows "uint (ucast (e + 16383 - 1023 :: u64) :: u16) = uint e + 15360"
proof -
  have "e + 16383 - 1023 = (word_of_int (uint e + 15360) :: u64)" by simp
  moreover have "uint (word_of_int (uint e + 15360) :: u64) = uint e + 15360"
    using assms by (intro uint_of_int_small) simp_all
  ultimately have "uint (e + 16383 - 1023) = uint e + 15360" by (simp only:)
  moreover have "take_bit 16 (uint e + 15360) = uint e + 15360" using assms by (intro take_bit_int_eq_self) simp_all
  ultimately show ?thesis by (simp only: unsigned_ucast_eq) simp
qed

lemma normal_significand:
  defines "g b \<equiv> push_bit 52 1 OR f64_mant b"
  shows "push_bit 63 1 OR push_bit 11 (f64_mant b) = push_bit 11 (g b)"
    and "bit (push_bit 11 (g b)) 63" and "\<And>i. bit (g b) i \<Longrightarrow> i < 53"
  by (auto simp: g_def bit_simps intro!: bit_word_eqI simp del: push_bit_of_1)

lemma bit_nonzero: "bit (x :: 'a::len word) i \<Longrightarrow> x \<noteq> 0" "bit (x :: 'a::len word) i \<Longrightarrow> drop_bit i x \<noteq> 0"
proof -
  assume b: "bit x i"
  then show "x \<noteq> 0" by auto
  have "bit (drop_bit i x) 0" using b by (simp only: bit_drop_bit_eq comp_def add_0_right)
  then show "drop_bit i x \<noteq> 0" by auto
qed

lemma f80_to_f64_finite:
  assumes "bit frac 63" "0 < e" "e < 0x7fff" "uint (take_bit 15 se) = e" "ucast (drop_bit 15 se) = s"
  shows "f80_to_f64 frac se = round_to_f64 s (e - 16383) frac False"
proof -
  have nz: "frac \<noteq> 0" "drop_bit 63 frac \<noteq> 0" using bit_nonzero [OF assms(1)] by blast+
  have lz: "leading_zeros frac = 0" using assms(1) by (intro leading_zeros_top) simp
  have e: "e \<noteq> 0" "e \<noteq> 0x7fff" using assms(2,3) by simp_all
  show ?thesis
    unfolding f80_to_f64_def Let_def mask_consts assms(4,5) lz
    by (simp only: nz e if_False if_True not_True_eq_False simp_thms push_bit_0_id id_apply) simp
qed

lemma exp_field_range:
  assumes "f64_exp b \<noteq> 0x7ff" "f64_exp b \<noteq> 0"
  shows "0 < uint (f64_exp b)" and "uint (f64_exp b) < 2047"
proof -
  have "uint (f64_exp b) \<noteq> 0" using assms(2) by (metis uint_0_iff)
  moreover have "0 \<le> uint (f64_exp b)" by (rule unsigned_greater_eq)
  ultimately show "0 < uint (f64_exp b)" by linarith
  have "uint (f64_exp b) \<noteq> 2047"
  proof
    assume "uint (f64_exp b) = 2047"
    then have "word_of_int (uint (f64_exp b)) = (word_of_int 2047 :: u64)" by (simp only:)
    then have "f64_exp b = 0x7ff" by (simp only: word_of_int_uint) simp
    then show False using assms(1) by contradiction
  qed
  then show "uint (f64_exp b) < 2047" using uint_exp_lt [of b] by linarith
qed

lemma f80_normal:
  assumes "f64_exp b \<noteq> 0x7ff" "f64_exp b \<noteq> 0"
  shows "(case f64_to_f80 b of (frac, se) \<Rightarrow> f80_to_f64 frac se) = b"
proof -
  let ?x = "ucast (f64_exp b + 16383 - 1023) :: u16" and ?s = "ucast (f64_sign b) :: u16"
  let ?g = "push_bit 52 1 OR f64_mant b"
  have x: "uint ?x = uint (f64_exp b) + 15360" by (rule f80_exp_field [OF uint_exp_lt])
  note e = exp_field_range [OF assms]
  have "uint ?x < 2 ^ 15" unfolding x using e by simp
  then have xb: "bit ?x i \<Longrightarrow> i < 15" for i by (rule bit_less_of_uint)
  note se = f80_sign_exp [OF bit_ucast_sign [of b] xb]
  have w: "f64_to_f80 b = (push_bit 11 ?g, push_bit 15 ?s OR ?x)"
    unfolding f64_to_f80_def Let_def mask_consts normal_significand(1) by (simp only: assms if_False)
  have "f80_to_f64 (push_bit 11 ?g) (push_bit 15 ?s OR ?x) =
      round_to_f64 (f64_sign b) (uint (f64_exp b) + 15360 - 16383) (push_bit 11 ?g) False"
    by (rule f80_to_f64_finite) (use e normal_significand(2) [of b] se x ucast_sign [of b] in \<open>simp_all only:\<close>)
  also have "\<dots> = push_bit 63 (f64_sign b) + (push_bit 52 (word_of_int (uint (f64_exp b) - 1)) + ?g)"
    using e normal_significand(3) [of b] by (subst round_exact) (simp_all del: push_bit_of_1)
  also have "\<dots> = b" by (rule join_normal [OF assms(2)])
  finally show ?thesis unfolding w prod.case .
qed

subsection \<open>Subnormals, zeros, infinities and NaNs\<close>

lemma join_zero_exp:
  assumes "f64_exp b = 0"
  shows "push_bit 63 (f64_sign b) + (push_bit 52 0 + f64_mant b) = b"
  using join_fields [of "f64_exp b" "f64_mant b" "f64_sign b"] split_fields [of b]
  by (simp add: assms bit_take_bit_iff sign_bit)

lemma mant_leading_zeros:
  assumes "f64_mant b \<noteq> 0"
  shows "12 \<le> leading_zeros (f64_mant b)" and "leading_zeros (f64_mant b) < 64"
    and "bit (push_bit (leading_zeros (f64_mant b)) (f64_mant b)) 63"
    and "\<And>i. bit (f64_mant b) i \<Longrightarrow> i < 64 - leading_zeros (f64_mant b)"
proof -
  let ?m = "f64_mant b"
  note z = leading_zeros_spec [OF assms, simplified]
  show l: "leading_zeros ?m < 64" using z(1) by simp
  have b: "bit ?m (63 - leading_zeros ?m)" using z(2) by simp
  then have "63 - leading_zeros ?m < 52" by (simp add: bit_take_bit_iff)
  then show "12 \<le> leading_zeros ?m" using l by linarith
  show "bit (push_bit (leading_zeros ?m) ?m) 63" using b l by (simp only: bit_push_bit_iff) simp
  show "i < 64 - leading_zeros ?m" if "bit ?m i" for i
    using z(3) [of i] that l by linarith
qed

lemma f80_subnormal:
  assumes e: "f64_exp b = 0" and m: "f64_mant b \<noteq> 0"
  shows "(case f64_to_f80 b of (frac, se) \<Rightarrow> f80_to_f64 frac se) = b"
proof -
  let ?l = "leading_zeros (f64_mant b)" and ?s = "ucast (f64_sign b) :: u16"
  let ?x = "word_of_nat (15372 - leading_zeros (f64_mant b)) :: u16"
  note l = mant_leading_zeros [OF m]
  have "unat ?x = 15372 - ?l" by (rule unat_of_nat_small) simp
  then have "uint ?x = int (15372 - ?l)" by (simp only: uint_nat)
  then have x: "uint ?x = 15372 - int ?l" using l(2) by simp
  have "uint ?x < 2 ^ 15" unfolding x by simp
  then have xb: "bit ?x i \<Longrightarrow> i < 15" for i by (rule bit_less_of_uint)
  note se = f80_sign_exp [OF bit_ucast_sign [of b] xb]
  have w: "f64_to_f80 b = (push_bit ?l (f64_mant b), push_bit 15 ?s OR ?x)"
    unfolding f64_to_f80_def Let_def mask_consts e by (simp only: m if_False if_True) simp?
  have "f80_to_f64 (push_bit ?l (f64_mant b)) (push_bit 15 ?s OR ?x) =
      round_to_f64 (f64_sign b) (15372 - int ?l - 16383) (push_bit ?l (f64_mant b)) False"
    by (rule f80_to_f64_finite [OF l(3)]) (use l se x ucast_sign [of b] in \<open>linarith | simp only:\<close>)+
  also have "\<dots> = push_bit 63 (f64_sign b) + (push_bit 52 0 + f64_mant b)"
    using l by (subst round_exact) simp_all
  also have "\<dots> = b" by (rule join_zero_exp [OF e])
  finally show ?thesis unfolding w prod.case .
qed

lemma f80_zero:
  assumes "f64_exp b = 0" "f64_mant b = 0"
  shows "(case f64_to_f80 b of (frac, se) \<Rightarrow> f80_to_f64 frac se) = b"
proof -
  let ?s = "ucast (f64_sign b) :: u16"
  have se: "drop_bit 15 (push_bit 15 ?s) = ?s" "take_bit 15 (push_bit 15 ?s) = 0"
    using f80_sign_exp [of ?s 0] bit_ucast_sign [of b] by simp_all
  have "push_bit 63 (f64_sign b) = b" using split_fields [of b] assms by simp
  moreover have "f64_to_f80 b = (0, push_bit 15 ?s)"
    unfolding f64_to_f80_def Let_def mask_consts assms by simp
  moreover have "f80_to_f64 0 (push_bit 15 ?s) = push_bit 63 (f64_sign b)"
    unfolding f80_to_f64_def Let_def mask_consts se ucast_sign by simp
  ultimately show ?thesis by (simp only: prod.case)
qed

lemma bits_7fff: "bit (0x7fff :: u16) i \<longleftrightarrow> i < 15"
  using bit_mask_iff [of 15 i, where 'a = "16 word"] by (auto simp: mask_eq_exp_minus_1 dest: bit_imp_le_length)

lemma f80_special:
  assumes "f64_exp b = 0x7ff"
  shows "(case f64_to_f80 b of (frac, se) \<Rightarrow> f80_to_f64 frac se) = quieted b"
proof -
  let ?s = "ucast (f64_sign b) :: u16" and ?m = "f64_mant b"
  let ?q = "if ?m \<noteq> 0 then push_bit 62 1 else 0 :: u64"
  let ?f = "(push_bit 63 1 OR ?q) OR push_bit 11 ?m"
  have w: "f64_to_f80 b = (?f, push_bit 15 ?s OR 0x7fff)"
    unfolding f64_to_f80_def Let_def mask_consts by (simp only: assms if_True refl)
  have se: "drop_bit 15 (push_bit 15 ?s OR 0x7fff) = ?s" "take_bit 15 (push_bit 15 ?s OR 0x7fff) = 0x7fff"
    using f80_sign_exp [of ?s "0x7fff"] bit_ucast_sign [of b] by (simp_all only: bits_7fff)
  have b63: "bit ?f 63" by (simp add: bit_simps del: push_bit_of_1)
  have nz: "drop_bit 63 ?f \<noteq> 0" using bit_nonzero [OF b63] by blast
  have u: "uint (0x7fff :: u16) = 0x7fff" by simp
  have sp: "b = (push_bit 63 (f64_sign b) OR push_bit 52 0x7ff) OR ?m" using split_fields [of b] assms by simp
  show ?thesis
  proof (cases "?m = 0")
    case True
    have "?f AND NOT (push_bit 63 1) = 0" using True by (intro bit_word_eqI) (auto simp: bit_simps simp del: push_bit_of_1)
    then have "f80_to_f64 ?f (push_bit 15 ?s OR 0x7fff) = push_bit 63 (f64_sign b) OR push_bit 52 0x7ff"
      unfolding f80_to_f64_def Let_def mask_consts se ucast_sign u
      by (simp only: nz if_False if_True simp_thms)
    then show ?thesis using sp True unfolding w prod.case quieted_def by simp
  next
    case False
    have "bit (?f AND NOT (push_bit 63 1)) 62" using False by (simp add: bit_simps del: push_bit_of_1)
    then have ne: "?f AND NOT (push_bit 63 1) \<noteq> 0" by (rule bit_nonzero)
    have m': "take_bit 52 (drop_bit 11 ?f) = push_bit 51 1 OR ?m"
      using False by (intro bit_word_eqI) (auto simp: bit_simps simp del: push_bit_of_1)
    have "f80_to_f64 ?f (push_bit 15 ?s OR 0x7fff) =
        ((push_bit 63 (f64_sign b) OR push_bit 52 0x7ff) OR push_bit 51 1) OR (push_bit 51 1 OR ?m)"
      unfolding f80_to_f64_def Let_def mask_consts se ucast_sign u m'
      by (simp only: nz ne if_False if_True simp_thms)
    also have "\<dots> = ((push_bit 63 (f64_sign b) OR push_bit 52 0x7ff) OR ?m) OR push_bit 51 1"
      by (rule bit_word_eqI) (auto simp only: bit_or_iff)
    also have "\<dots> = b OR push_bit 51 1" by (simp only: sp [symmetric])
    finally show ?thesis using False assms unfolding w prod.case quieted_def by simp
  qed
qed

lemma f80_round_trip:
  "(case f64_to_f80 b of (frac, se) \<Rightarrow> f80_to_f64 frac se) = quieted b"
proof (cases "f64_exp b = 0x7ff")
  case True
  then show ?thesis by (rule f80_special)
next
  case False
  then have q: "quieted b = b" by (simp only: quieted_def if_False simp_thms)
  show ?thesis
    unfolding q using f80_normal [OF False] f80_subnormal [of b] f80_zero [of b] by blast
qed

section \<open>The same for binary128\<close>

text \<open>A binary128 pattern with sign \<open>s\<close>, exponent field \<open>e\<close> and the mantissa \<open>m\<close> of 52 bits.\<close>

lemma f128_fields:
  fixes s e m :: u64
  assumes "\<forall>i. bit s i \<longrightarrow> i = 0" "\<forall>i. bit e i \<longrightarrow> i < 15" "\<forall>i. bit m i \<longrightarrow> i < 52"
  defines "hi \<equiv> (push_bit 63 s OR push_bit 48 e) OR drop_bit 4 m"
  shows "drop_bit 63 hi = s" and "take_bit 15 (drop_bit 48 hi) = e" and "take_bit 48 hi = drop_bit 4 m"
    and "(push_bit 63 i1 OR push_bit 15 (drop_bit 4 m)) OR drop_bit 49 (push_bit 60 m)
           = push_bit 63 i1 OR push_bit 11 m"
    and "take_bit 49 (push_bit 60 m) = 0"
    and "push_bit 4 (drop_bit 4 m) OR drop_bit 60 (push_bit 60 m) = m"
proof -
  have h: "bit hi n \<longleftrightarrow> n = 63 \<and> bit s 0 \<or> 48 \<le> n \<and> n < 63 \<and> bit e (n - 48) \<or> n < 48 \<and> bit m (n + 4)"
    if "n < 64" for n
  proof -
    have "bit hi n \<longleftrightarrow> 63 \<le> n \<and> bit s (n - 63) \<or> 48 \<le> n \<and> bit e (n - 48) \<or> bit m (4 + n)"
      unfolding hi_def using that by (simp add: bit_or_iff bit_push_bit_iff bit_drop_bit_eq)
    moreover have "63 \<le> n \<Longrightarrow> n = 63" using that by simp
    moreover have "48 \<le> n \<Longrightarrow> bit e (n - 48) \<Longrightarrow> n < 63" using assms(2) [THEN spec, of "n - 48"] by linarith
    moreover have "bit m (4 + n) \<Longrightarrow> n < 48" using assms(3) [THEN spec, of "4 + n"] by linarith
    ultimately show ?thesis by (auto simp: add.commute)
  qed
  have s0: "bit s n \<longleftrightarrow> n = 0 \<and> bit s 0" for n using assms(1) by auto
  show "drop_bit 63 hi = s"
  proof (rule bit_word_eqI)
    fix n assume "n < LENGTH(64)"
    show "bit (drop_bit 63 hi) n \<longleftrightarrow> bit s n"
    proof (cases "n = 0")
      case False
      then have "\<not> bit hi (63 + n)" by (auto dest: bit_imp_le_length)
      then show ?thesis using False s0 [of n] by (simp add: bit_drop_bit_eq)
    qed (simp add: bit_drop_bit_eq h)
  qed
  show "take_bit 15 (drop_bit 48 hi) = e"
  proof (rule bit_word_eqI)
    fix n assume "n < LENGTH(64)"
    show "bit (take_bit 15 (drop_bit 48 hi)) n \<longleftrightarrow> bit e n"
      using assms(2) by (cases "n < 15") (auto simp: bit_take_bit_iff bit_drop_bit_eq h)
  qed
  show "take_bit 48 hi = drop_bit 4 m"
  proof (rule bit_word_eqI)
    fix n assume "n < LENGTH(64)"
    then show "bit (take_bit 48 hi) n \<longleftrightarrow> bit (drop_bit 4 m) n"
      using assms(3) [THEN spec, of "4 + n"] by (cases "n < 48") (auto simp: bit_take_bit_iff bit_drop_bit_eq h add.commute)
  qed
  show "(push_bit 63 i1 OR push_bit 15 (drop_bit 4 m)) OR drop_bit 49 (push_bit 60 m)
           = push_bit 63 i1 OR push_bit 11 m"
  proof (rule bit_word_eqI)
    fix n assume n: "n < LENGTH(64)"
    consider "n < 11" | "11 \<le> n" "n < 15" | "15 \<le> n" by linarith
    then show "bit ((push_bit 63 i1 OR push_bit 15 (drop_bit 4 m)) OR drop_bit 49 (push_bit 60 m)) n
        \<longleftrightarrow> bit (push_bit 63 i1 OR push_bit 11 m) n"
      using n by cases (auto simp: bit_simps)
  qed
  show "take_bit 49 (push_bit 60 m) = 0" by (rule bit_word_eqI) (auto simp: bit_simps)
  show "push_bit 4 (drop_bit 4 m) OR drop_bit 60 (push_bit 60 m) = m"
  proof (rule bit_word_eqI)
    fix n assume "n < LENGTH(64)"
    then show "bit (push_bit 4 (drop_bit 4 m) OR drop_bit 60 (push_bit 60 m)) n \<longleftrightarrow> bit m n"
      by (cases "n < 4") (auto simp: bit_simps)
  qed
qed

lemma f128_to_f64_finite:
  fixes s e m :: u64
  assumes s: "\<forall>i. bit s i \<longrightarrow> i = 0" and e: "0 < uint e" "uint e < 0x7fff"
    and m: "\<forall>i. bit m i \<longrightarrow> i < 52"
  shows "f128_to_f64 (push_bit 60 m) ((push_bit 63 s OR push_bit 48 e) OR drop_bit 4 m) =
           round_to_f64 s (uint e - 16383) (push_bit 63 1 OR push_bit 11 m) False"
proof -
  have "uint e < 2 ^ 15" using e(2) by simp
  then have eb: "\<forall>i. bit e i \<longrightarrow> i < 15" using bit_less_of_uint by blast
  define hi where "hi = (push_bit 63 s OR push_bit 48 e) OR drop_bit 4 m"
  note h = f128_fields [OF s eb m, folded hi_def]
  have u: "uint e \<noteq> 0" "uint e \<noteq> 0x7fff" using e by simp_all
  have b: "bit (push_bit 63 1 OR push_bit 11 m) 63" by (simp add: bit_simps del: push_bit_of_1)
  have lz: "leading_zeros (push_bit 63 1 OR push_bit 11 m) = 0" using b by (intro leading_zeros_top) simp
  have "f128_to_f64 (push_bit 60 m) hi =
      round_to_f64 s (uint e - 16383 - int 0) (push_bit 63 1 OR push_bit 11 m) False"
    unfolding f128_to_f64_def Let_def mask_consts h(1-3)
    by (simp only: u if_False if_True simp_thms of_bool_eq h(4,5) bit_nonzero(1) [OF b] lz push_bit_0_id id_apply)
  then show ?thesis unfolding hi_def by simp
qed

lemma f128_normal:
  assumes "f64_exp b \<noteq> 0x7ff" "f64_exp b \<noteq> 0"
  shows "(case f64_to_f128 b of (l, h) \<Rightarrow> f128_to_f64 l h) = b"
proof -
  let ?x = "f64_exp b + 16383 - 1023" and ?m = "f64_mant b"
  note e = exp_field_range [OF assms]
  have "?x = word_of_int (uint (f64_exp b) + 15360)" by simp
  moreover have "uint (word_of_int (uint (f64_exp b) + 15360) :: u64) = uint (f64_exp b) + 15360"
    using e by (intro uint_of_int_small) simp_all
  ultimately have x: "uint ?x = uint (f64_exp b) + 15360" by (simp only:)
  have w: "f64_to_f128 b = (push_bit 60 ?m, (push_bit 63 (f64_sign b) OR push_bit 48 ?x) OR drop_bit 4 ?m)"
    unfolding f64_to_f128_def Let_def mask_consts by (simp only: assms if_False)
  have "f128_to_f64 (push_bit 60 ?m) ((push_bit 63 (f64_sign b) OR push_bit 48 ?x) OR drop_bit 4 ?m) =
      round_to_f64 (f64_sign b) (uint ?x - 16383) (push_bit 63 1 OR push_bit 11 ?m) False"
    by (rule f128_to_f64_finite) (use e x in \<open>simp add: sign_bit bit_take_bit_iff | linarith\<close>)+
  also have "\<dots> = push_bit 63 (f64_sign b) + (push_bit 52 (word_of_int (uint (f64_exp b) - 1)) + (push_bit 52 1 OR ?m))"
    unfolding normal_significand(1) x
    using e normal_significand(3) [of b] by (subst round_exact) (simp_all del: push_bit_of_1)
  also have "\<dots> = b" by (rule join_normal [OF assms(2)])
  finally show ?thesis unfolding w prod.case .
qed

lemma f128_zero:
  assumes "f64_exp b = 0" "f64_mant b = 0"
  shows "(case f64_to_f128 b of (l, h) \<Rightarrow> f128_to_f64 l h) = b"
proof -
  have h: "drop_bit 63 (push_bit 63 (f64_sign b)) = f64_sign b"
    "take_bit 15 (drop_bit 48 (push_bit 63 (f64_sign b))) = 0" "take_bit 48 (push_bit 63 (f64_sign b)) = 0"
    using f128_fields [of "f64_sign b" 0 0] by (simp_all add: sign_bit)
  have "push_bit 63 (f64_sign b) = b" using split_fields [of b] assms by simp
  moreover have "f64_to_f128 b = (0, push_bit 63 (f64_sign b))"
    unfolding f64_to_f128_def Let_def mask_consts assms by simp
  moreover have "f128_to_f64 0 (push_bit 63 (f64_sign b)) = push_bit 63 (f64_sign b)"
    unfolding f128_to_f64_def Let_def mask_consts h by simp
  ultimately show ?thesis by (simp only: prod.case)
qed

lemma normalised_significand:
  assumes "f64_mant b \<noteq> 0"
  defines "l \<equiv> leading_zeros (f64_mant b)"
  shows "push_bit 63 1 OR push_bit 11 (take_bit 52 (push_bit (l - 11) (f64_mant b))) = push_bit l (f64_mant b)"
proof (rule bit_word_eqI)
  note l = mant_leading_zeros [OF assms(1), folded l_def]
  fix n assume n: "n < LENGTH(64)"
  have b63: "bit (f64_mant b) (63 - l)" using l(2,3) by (simp only: bit_push_bit_iff)
  consider "n = 63" | "n < 63" "11 \<le> n" "l \<le> n" | "n < 63" "\<not> (11 \<le> n \<and> l \<le> n)" using n by force
  then show "bit (push_bit 63 1 OR push_bit 11 (take_bit 52 (push_bit (l - 11) (f64_mant b)))) n
      \<longleftrightarrow> bit (push_bit l (f64_mant b)) n"
  proof cases
    case 1
    then show ?thesis using b63 l by (simp add: bit_or_iff bit_push_bit_iff bit_take_bit_iff del: push_bit_of_1)
  next
    case 2
    have "n - 11 - (l - 11) = n - l" "l - 11 \<le> n - 11" "n - 11 < 52" "n - 11 < 64" using 2 l(1) by linarith+
    then show ?thesis using 2 l by (simp add: bit_or_iff bit_push_bit_iff bit_take_bit_iff del: push_bit_of_1)
  next
    case 3
    then show ?thesis using l by (auto simp: bit_or_iff bit_push_bit_iff bit_take_bit_iff simp del: push_bit_of_1)
  qed
qed

lemma f128_subnormal:
  assumes e: "f64_exp b = 0" and m: "f64_mant b \<noteq> 0"
  shows "(case f64_to_f128 b of (l, h) \<Rightarrow> f128_to_f64 l h) = b"
proof -
  let ?l = "leading_zeros (f64_mant b)" and ?m = "take_bit 52 (push_bit (leading_zeros (f64_mant b) - 11) (f64_mant b))"
  let ?x = "word_of_nat (16383 - 1022 - (leading_zeros (f64_mant b) - 11)) :: u64"
  note l = mant_leading_zeros [OF m]
  have "unat ?x = 16383 - 1022 - (?l - 11)" by (rule unat_of_nat_small) simp
  then have "uint ?x = int (16383 - 1022 - (?l - 11))" by (simp only: uint_nat)
  then have x: "uint ?x = 15372 - int ?l" using l(1,2) by linarith
  have w: "f64_to_f128 b = (push_bit 60 ?m, (push_bit 63 (f64_sign b) OR push_bit 48 ?x) OR drop_bit 4 ?m)"
    unfolding f64_to_f128_def Let_def mask_consts e by (simp only: m if_False if_True) simp?
  have "f128_to_f64 (push_bit 60 ?m) ((push_bit 63 (f64_sign b) OR push_bit 48 ?x) OR drop_bit 4 ?m) =
      round_to_f64 (f64_sign b) (uint ?x - 16383) (push_bit 63 1 OR push_bit 11 ?m) False"
    by (rule f128_to_f64_finite) (use l x in \<open>simp add: sign_bit bit_take_bit_iff | linarith\<close>)+
  also have "\<dots> = push_bit 63 (f64_sign b) + (push_bit 52 0 + f64_mant b)"
    unfolding normalised_significand [OF m] x using l by (subst round_exact) simp_all
  also have "\<dots> = b" by (rule join_zero_exp [OF e])
  finally show ?thesis unfolding w prod.case .
qed

lemma f128_special:
  assumes "f64_exp b = 0x7ff"
  shows "(case f64_to_f128 b of (l, h) \<Rightarrow> f128_to_f64 l h) = quieted b"
proof -
  let ?m = "f64_mant b" and ?s = "f64_sign b"
  let ?q = "if ?m \<noteq> 0 then push_bit 51 1 else 0 :: u64"
  have q: "(if ?m \<noteq> 0 then push_bit 47 1 else 0 :: u64) OR drop_bit 4 ?m = drop_bit 4 (?q OR ?m)"
    by (rule bit_word_eqI) (auto simp: bit_or_iff bit_push_bit_iff bit_drop_bit_eq bit_1_iff simp del: push_bit_of_1)
  have lo: "push_bit 60 ?m = push_bit 60 (?q OR ?m)"
    by (rule bit_word_eqI) (auto simp: bit_or_iff bit_push_bit_iff bit_1_iff simp del: push_bit_of_1)
  define hi where "hi = (push_bit 63 ?s OR push_bit 48 0x7fff) OR drop_bit 4 (?q OR ?m)"
  have w: "f64_to_f128 b = (push_bit 60 (?q OR ?m), hi)"
    unfolding f64_to_f128_def Let_def mask_consts hi_def q [symmetric] lo [symmetric]
    by (simp only: assms if_True refl or.assoc)
  have s1: "\<forall>i. bit ?s i \<longrightarrow> i = 0" by (simp add: sign_bit)
  have e1: "\<forall>i. bit (0x7fff :: u64) i \<longrightarrow> i < 15" using bit_less_of_uint [of "0x7fff :: u64" 15] by simp
  have m1: "\<forall>i. bit (?q OR ?m) i \<longrightarrow> i < 52"
    by (auto simp: bit_or_iff bit_push_bit_iff bit_1_iff bit_take_bit_iff simp del: push_bit_of_1)
  note h = f128_fields [OF s1 e1 m1, folded hi_def]
  have u: "uint (0x7fff :: u64) = 0x7fff" by simp
  have z: "drop_bit 4 (?q OR ?m) = 0 \<and> push_bit 60 (?q OR ?m) = 0 \<longleftrightarrow> ?q OR ?m = 0"
    using h(6) by (metis drop_bit_of_0 or.right_neutral push_bit_of_0)
  have z': "?q OR ?m = 0 \<longleftrightarrow> ?m = 0" by (auto simp: or_eq_0_iff)
  have t: "take_bit 52 (?q OR ?m) = ?q OR ?m"
    using m1 by (intro bit_word_eqI) (auto simp: bit_take_bit_iff)
  have "f128_to_f64 (push_bit 60 (?q OR ?m)) hi =
      (if ?m = 0 then push_bit 63 ?s OR push_bit 52 0x7ff
       else ((push_bit 63 ?s OR push_bit 52 0x7ff) OR push_bit 51 1) OR (?q OR ?m))"
    unfolding f128_to_f64_def Let_def mask_consts h(1-3,6) u z z' t by (simp only: if_True refl)
  also have "\<dots> = quieted b"
  proof (cases "?m = 0")
    case True
    then show ?thesis using split_fields [of b] assms by (simp add: quieted_def)
  next
    case False
    have "((push_bit 63 ?s OR push_bit 52 0x7ff) OR push_bit 51 1) OR (push_bit 51 1 OR ?m) =
        ((push_bit 63 ?s OR push_bit 52 0x7ff) OR ?m) OR push_bit 51 1"
      by (rule bit_word_eqI) (auto simp only: bit_or_iff)
    also have "\<dots> = b OR push_bit 51 1" using split_fields [of b] by (simp only: assms)
    finally show ?thesis using False assms by (simp only: quieted_def if_False if_True simp_thms refl)
  qed
  finally show ?thesis unfolding w prod.case .
qed

lemma f128_round_trip:
  "(case f64_to_f128 b of (l, h) \<Rightarrow> f128_to_f64 l h) = quieted b"
proof (cases "f64_exp b = 0x7ff")
  case True
  then show ?thesis by (rule f128_special)
next
  case False
  then have q: "quieted b = b" by (simp only: quieted_def if_False simp_thms)
  show ?thesis
    unfolding q using f128_normal [OF False] f128_subnormal [of b] f128_zero [of b] by blast
qed

end
