(* ===== verification/Target_Abi.thy ===== *)
theory Target_Abi
  imports Ir_Function
begin

text \<open>
  The targets and their calling conventions, \<^verbatim>\<open>src/src/c5/codegen/mod.rs\<close>: the row of
  ABI choices each target makes, the convention a call site may select instead, the per-run
  settings an ABI row carries, and the access units a byte-moving lowering may use over storage
  of a known alignment.
\<close>

section \<open>Targets and conventions\<close>

datatype Target = MacOSAarch64 | LinuxAarch64 | LinuxX64 | WindowsX64 | WindowsAarch64

datatype Arch = Aarch64 | X86_64

definition is_aarch64 :: "Target \<Rightarrow> bool" where
  "is_aarch64 t \<longleftrightarrow> t \<in> {MacOSAarch64, LinuxAarch64, WindowsAarch64}"

datatype CodeModel = CodeModel_Small | CodeModel_Kernel

datatype IndirectBranch = IB_Keep | IB_ThunkExtern | IB_ThunkInline

record Hardening =
  indirect_branch :: IndirectBranch
  function_return_thunk :: bool
  sls_return :: bool
  sls_indirect_jmp :: bool
  bti :: bool
  pac_ret :: bool
  pac_ret_leaf :: bool
  cf_protection_branch :: bool

definition hardening_none :: Hardening where
  "hardening_none =
     \<lparr>indirect_branch = IB_Keep, function_return_thunk = False, sls_return = False,
      sls_indirect_jmp = False, bti = False, pac_ret = False, pac_ret_leaf = False,
      cf_protection_branch = False\<rparr>"

datatype StackProtector = SP_Off | SP_Basic | SP_Strong | SP_All

datatype GuardSeg = GuardSeg_Fs | GuardSeg_Gs

fun for_code_model :: "CodeModel \<Rightarrow> GuardSeg" where
  "for_code_model CodeModel_Kernel = GuardSeg_Gs"
| "for_code_model CodeModel_Small = GuardSeg_Fs"

datatype StackGuard =
    StackGuard_Abi
  | StackGuard_Global
  | StackGuard_Tls GuardSeg i32
  | StackGuard_Sysreg u16 i32

text \<open>A guard object name is held in a fixed buffer of 63 bytes with its length.\<close>

abbreviation (input) GUARD_CAP :: nat where "GUARD_CAP \<equiv> 63"

record GuardSymbol =
  gs_name :: "u8 list"
  gs_len :: nat

definition guard_symbol_none :: GuardSymbol where
  "guard_symbol_none = \<lparr>gs_name = replicate GUARD_CAP 0, gs_len = 0\<rparr>"

definition guard_symbol_new :: "u8 list \<Rightarrow> GuardSymbol option" where
  "guard_symbol_new name =
     (if name = [] \<or> length name > GUARD_CAP then None
      else Some \<lparr>gs_name = name @ drop (length name) (gs_name guard_symbol_none),
                 gs_len = length name\<rparr>)"

definition guard_symbol_as_str :: "GuardSymbol \<Rightarrow> u8 list" where
  "guard_symbol_as_str self = take (gs_len self) (gs_name self)"

definition guard_symbol_is_empty :: "GuardSymbol \<Rightarrow> bool" where
  "guard_symbol_is_empty self \<longleftrightarrow> gs_len self = 0"

abbreviation (input) DEFAULT_SSP_BUFFER_SIZE :: nat where "DEFAULT_SSP_BUFFER_SIZE \<equiv> 8"
abbreviation (input) SYSV_TLS_GUARD_OFFSET :: i32 where "SYSV_TLS_GUARD_OFFSET \<equiv> 0x28"

record StackProtect =
  sp_mode :: StackProtector
  buffer_size :: nat
  guard :: StackGuard
  guard_symbol :: GuardSymbol

definition stack_protect_off :: StackProtect where
  "stack_protect_off =
     \<lparr>sp_mode = SP_Off, buffer_size = DEFAULT_SSP_BUFFER_SIZE, guard = StackGuard_Abi,
      guard_symbol = guard_symbol_none\<rparr>"

definition resolved_for :: "StackProtect \<Rightarrow> Target \<Rightarrow> CodeModel \<Rightarrow> StackProtect" where
  "resolved_for self tgt code_model =
     (if guard self \<noteq> StackGuard_Abi then self
      else self\<lparr>guard := (case tgt of
                            LinuxX64 \<Rightarrow> StackGuard_Tls (for_code_model code_model) SYSV_TLS_GUARD_OFFSET
                          | _ \<Rightarrow> StackGuard_Global)\<rparr>)"

definition protects :: "StackProtect \<Rightarrow> SspFacts \<Rightarrow> bool \<Rightarrow> bool" where
  "protects self facts has_frame =
     (case sp_mode self of
        SP_Off \<Rightarrow> False
      | SP_All \<Rightarrow> True
      | SP_Strong \<Rightarrow> has_frame \<and>
          (has_array facts \<or> addr_taken facts \<or> dynamic_alloca facts \<or>
           char_array_bytes facts \<ge> buffer_size self)
      | SP_Basic \<Rightarrow> has_frame \<and>
          (dynamic_alloca facts \<or> char_array_bytes facts \<ge> buffer_size self))"

datatype FixedReg = FixedReg_Gpr nat | FixedReg_Fpr nat

record FixedRegs =
  fx_gpr :: u32
  fx_fpr :: u32
  fx_frame :: u32

definition fixed_regs_none :: FixedRegs where
  "fixed_regs_none = \<lparr>fx_gpr = 0, fx_fpr = 0, fx_frame = 0\<rparr>"

definition kept_gpr :: "FixedRegs \<Rightarrow> u32" where
  "kept_gpr self = fx_gpr self OR fx_frame self"

definition has_gpr :: "FixedRegs \<Rightarrow> nat \<Rightarrow> bool" where
  "has_gpr self r \<longleftrightarrow> r < 32 \<and> kept_gpr self AND push_bit r 1 \<noteq> 0"

definition has_fpr :: "FixedRegs \<Rightarrow> nat \<Rightarrow> bool" where
  "has_fpr self r \<longleftrightarrow> r < 32 \<and> fx_fpr self AND push_bit r 1 \<noteq> 0"

definition fixed_regs_is_empty :: "FixedRegs \<Rightarrow> bool" where
  "fixed_regs_is_empty self \<longleftrightarrow> self = fixed_regs_none"

fun fixed_regs_insert :: "FixedRegs \<Rightarrow> FixedReg \<Rightarrow> FixedRegs" where
  "fixed_regs_insert self (FixedReg_Gpr r) = self\<lparr>fx_gpr := fx_gpr self OR push_bit r 1\<rparr>"
| "fixed_regs_insert self (FixedReg_Fpr r) = self\<lparr>fx_fpr := fx_fpr self OR push_bit r 1\<rparr>"

lemma guard_symbol_round_trip:
  "guard_symbol_new name = Some s \<Longrightarrow> guard_symbol_as_str s = name \<and> \<not> guard_symbol_is_empty s"
  by (auto simp: guard_symbol_new_def guard_symbol_as_str_def guard_symbol_is_empty_def split: if_splits)

lemma has_gpr_bit: "has_gpr s q \<longleftrightarrow> bit (fx_gpr s OR fx_frame s) q"
  using bit_imp_le_length [of "fx_gpr s OR fx_frame s" q]
  by (auto simp: has_gpr_def kept_gpr_def bit_iff_and_push_bit_not_eq_0)

lemma has_fpr_bit: "has_fpr s q \<longleftrightarrow> bit (fx_fpr s) q"
  using bit_imp_le_length [of "fx_fpr s" q]
  by (auto simp: has_fpr_def bit_iff_and_push_bit_not_eq_0)

lemma has_insert:
  assumes "r < 32"
  shows "has_gpr (fixed_regs_insert s (FixedReg_Gpr r)) q \<longleftrightarrow> q = r \<or> has_gpr s q"
    and "has_fpr (fixed_regs_insert s (FixedReg_Fpr r)) q \<longleftrightarrow> q = r \<or> has_fpr s q"
  using assms by (auto simp: has_gpr_bit has_fpr_bit bit_simps)

record Abi =
  arch :: Arch
  int_arg_regs :: "nat list"
  shadow_space :: nat
  variadic_on_stack :: bool
  variadic_int_only :: bool
  position_indexed_args :: bool
  pair_align16_gprs :: bool
  packed_stack_args :: bool
  natural_composite_align :: bool
  variadic_zero_xmm_count :: bool
  no_fp_regs :: bool
  strict_align :: bool
  hardening :: Hardening
  stack_protect :: StackProtect
  mcount_frame :: bool
  sibling_calls :: bool
  fixed_regs :: FixedRegs

definition sysv_host_variadic :: "Abi \<Rightarrow> bool" where
  "sysv_host_variadic self \<longleftrightarrow>
     arch self = X86_64 \<and> shadow_space self = 0 \<and> \<not> position_indexed_args self \<and>
     variadic_zero_xmm_count self"

definition aarch64_host_variadic :: "Abi \<Rightarrow> bool" where
  "aarch64_host_variadic self \<longleftrightarrow>
     arch self = Aarch64 \<and> \<not> variadic_on_stack self \<and> \<not> variadic_int_only self"

definition win_arm64_variadic :: "Abi \<Rightarrow> bool" where
  "win_arm64_variadic self \<longleftrightarrow> arch self = Aarch64 \<and> variadic_int_only self"

fun abi_row :: "Target \<Rightarrow> CallConv \<Rightarrow> Target" where
  "abi_row LinuxX64 CallConv_Ms = WindowsX64"
| "abi_row WindowsX64 CallConv_Ms = WindowsX64"
| "abi_row LinuxX64 CallConv_SysV = LinuxX64"
| "abi_row WindowsX64 CallConv_SysV = LinuxX64"
| "abi_row self _ = self"

text \<open>
  The rows of \<open>Target::abi\<close>.  \<open>base_abi\<close> names the per-run fields, which every row leaves at
  their defaults, with the register list and the architecture.
\<close>

definition base_abi :: "Arch \<Rightarrow> nat list \<Rightarrow> Abi" where
  "base_abi a regs =
     \<lparr>arch = a, int_arg_regs = regs, shadow_space = 0, variadic_on_stack = False,
      variadic_int_only = False, position_indexed_args = False, pair_align16_gprs = False,
      packed_stack_args = False, natural_composite_align = False,
      variadic_zero_xmm_count = False, no_fp_regs = False, strict_align = False,
      hardening = hardening_none, stack_protect = stack_protect_off, mcount_frame = False,
      sibling_calls = True, fixed_regs = fixed_regs_none\<rparr>"

abbreviation (input) AARCH64_INT_ARGS :: "nat list" where "AARCH64_INT_ARGS \<equiv> [0, 1, 2, 3, 4, 5, 6, 7]"
abbreviation (input) SYSV_INT_ARGS :: "nat list" where "SYSV_INT_ARGS \<equiv> [7, 6, 2, 1, 8, 9]"
abbreviation (input) WIN64_INT_ARGS :: "nat list" where "WIN64_INT_ARGS \<equiv> [1, 2, 8, 9]"

fun target_abi :: "Target \<Rightarrow> Abi" where
  "target_abi MacOSAarch64 =
     (base_abi Aarch64 AARCH64_INT_ARGS)\<lparr>variadic_on_stack := True, packed_stack_args := True\<rparr>"
| "target_abi LinuxAarch64 =
     (base_abi Aarch64 AARCH64_INT_ARGS)
       \<lparr>pair_align16_gprs := True, natural_composite_align := True\<rparr>"
| "target_abi LinuxX64 = (base_abi X86_64 SYSV_INT_ARGS)\<lparr>variadic_zero_xmm_count := True\<rparr>"
| "target_abi WindowsX64 =
     (base_abi X86_64 WIN64_INT_ARGS)
       \<lparr>shadow_space := 32, variadic_int_only := True, position_indexed_args := True\<rparr>"
| "target_abi WindowsAarch64 =
     (base_abi Aarch64 AARCH64_INT_ARGS)
       \<lparr>variadic_int_only := True, pair_align16_gprs := True\<rparr>"

definition abi_for :: "Target \<Rightarrow> CallConv \<Rightarrow> Abi" where
  "abi_for self cc = target_abi (abi_row self cc)"

fun long_width_bytes :: "Target \<Rightarrow> nat" where
  "long_width_bytes WindowsX64 = 4"
| "long_width_bytes WindowsAarch64 = 4"
| "long_width_bytes _ = 8"

section \<open>Access units\<close>

definition pow2_align :: "u32 \<Rightarrow> u32" where
  "pow2_align a = (if a = 0 then 1 else push_bit (min (trailing_zeros a) 31) 1)"

definition access_chunk :: "u32 \<Rightarrow> bool \<Rightarrow> u32 \<Rightarrow> u32" where
  "access_chunk a strict mx = (if \<not> strict then mx else min (pow2_align a) mx)"

definition offset_align :: "u32 \<Rightarrow> i64 \<Rightarrow> u32" where
  "offset_align base0 off =
     (let base = pow2_align base0
      in if off = 0 then base
         else min base (push_bit (min (trailing_zeros (unsigned_abs off)) 31) 1))"

definition access_unit :: "u32 \<Rightarrow> u32 \<Rightarrow> u32 \<Rightarrow> bool \<Rightarrow> u32" where
  "access_unit off width a strict = access_chunk (offset_align a (ucast off)) strict width"

section \<open>Byte ranges\<close>

text \<open>Rust's \<open>next_multiple_of\<close>, whose second argument is positive, and \<open>next_power_of_two\<close>.\<close>

definition next_multiple_of :: "nat \<Rightarrow> nat \<Rightarrow> nat" where
  "next_multiple_of n m = (n + (m - 1)) div m * m"

lemma next_multiple_of_bounds:
  assumes "0 < m"
  shows "n \<le> next_multiple_of n m" and "next_multiple_of n m < n + m" and "m dvd next_multiple_of n m"
proof -
  let ?k = "n + (m - 1)"
  have "?k div m * m + ?k mod m = ?k" by (rule div_mult_mod_eq)
  moreover have "?k mod m < m" using assms by simp
  ultimately show "n \<le> next_multiple_of n m" "next_multiple_of n m < n + m"
    unfolding next_multiple_of_def using assms by linarith+
qed (simp add: next_multiple_of_def)

lemma next_multiple_of_dvd: "0 < m \<Longrightarrow> m dvd n \<Longrightarrow> next_multiple_of n m = n"
  using next_multiple_of_bounds [of m n]
  by (metis add_diff_inverse_nat add_cancel_right_right dvd_diff_nat linorder_not_le nat_add_left_cancel_less nat_dvd_not_less
      not_gr_zero)

fun next_power_of_two :: "nat \<Rightarrow> nat" where
  "next_power_of_two n = (if n \<le> 1 then 1 else 2 * next_power_of_two ((n + 1) div 2))"

declare next_power_of_two.simps [simp del]

text \<open>
  Parts given by offset and width, in order and apart, between \<open>lo\<close> and \<open>hi\<close>.
\<close>

fun parts_between :: "nat \<Rightarrow> (nat \<times> nat) list \<Rightarrow> nat \<Rightarrow> bool" where
  "parts_between lo [] hi \<longleftrightarrow> True"
| "parts_between lo ((off, w) # ps) hi \<longleftrightarrow>
     lo \<le> off \<and> off + w \<le> hi \<and> parts_between (off + w) ps hi"

lemma parts_between_le: "parts_between lo ps hi \<Longrightarrow> lo' \<le> lo \<Longrightarrow> hi \<le> hi' \<Longrightarrow> parts_between lo' ps hi'"
  by (induction ps arbitrary: lo lo') auto

lemma parts_between_append:
  "parts_between lo ps mid \<Longrightarrow> parts_between mid qs hi \<Longrightarrow> lo \<le> mid \<Longrightarrow> mid \<le> hi \<Longrightarrow> parts_between lo (ps @ qs) hi"
proof (induction ps arbitrary: lo)
  case Nil
  then show ?case by (auto intro: parts_between_le)
qed auto

text \<open>Parts in order are inside the range and do not overlap.\<close>

lemma parts_between_member:
  "parts_between lo ps hi \<Longrightarrow> (off, w) \<in> set ps \<Longrightarrow> lo \<le> off \<and> off + w \<le> hi"
  by (induction ps arbitrary: lo) fastforce+

lemma parts_between_apart:
  assumes "parts_between lo ps hi" and "i < j" and "j < length ps"
  shows "fst (ps ! i) + snd (ps ! i) \<le> fst (ps ! j)"
  using assms
proof (induction ps arbitrary: lo i j)
  case (Cons p ps)
  obtain off w where p: "p = (off, w)" by (cases p)
  have tl: "parts_between (off + w) ps hi" using Cons.prems(1) p by simp
  obtain j' where j': "j = Suc j'" using Cons.prems(2) by (cases j) simp_all
  show ?case
  proof (cases i)
    case 0
    have "(fst (ps ! j'), snd (ps ! j')) \<in> set ps" using Cons.prems(3) j' by simp
    then show ?thesis using parts_between_member [OF tl] 0 j' p by fastforce
  next
    case (Suc i')
    then show ?thesis using Cons.IH [OF tl, of i' j'] Cons.prems j' by simp
  qed
qed simp

end
