(* ===== verification/Vm_Memory.thy ===== *)
theory Vm_Memory
  imports Softfp Target_Abi
begin

text \<open>
  The byte-addressed memory of the SSA interpreter, \<^verbatim>\<open>src/src/c5/vm/ssa.rs\<close>: a data
  segment, a stack region that frames bump through and a bump-pointer heap with a registry of
  allocations, which the optional access check reads.  Addresses are Rust \<open>usize\<close> values and are
  \<open>nat\<close> here.  Single-precision conversions are Rust's own and are parameters.
\<close>

section \<open>State\<close>

record Allocation =
  al_start :: nat
  al_len :: nat
  freed :: bool
  al_id :: nat

record 'fp Memory =
  bytes :: "u8 list"
  data_end :: nat
  stack_top :: nat
  heap_base :: nat
  heap_top :: nat
  stack_base :: nat
  allocations :: "Allocation list"
  next_alloc_id :: nat
  track_pointers :: bool
  stdio :: nat
  target :: Target
  fp :: 'fp

text \<open>The runtime errors of the memory operations, with the data their messages print.\<close>

datatype mem_error =
    UseAfterFree nat nat
  | PastAllocationEnd nat nat nat
  | NotInAllocation nat nat
  | StorePastEnd nat nat
  | LoadPastEnd nat nat
  | CopyPastEnd nat nat nat
  | StackOverflow nat
  | VectorAccess

abbreviation STACK_BYTES :: nat where "STACK_BYTES \<equiv> 262144"
abbreviation HEAP_BYTES :: nat where "HEAP_BYTES \<equiv> 262144"
abbreviation LIMIT :: nat where "LIMIT \<equiv> 4294967296"
abbreviation STDIO_FILE_BYTES :: nat where "STDIO_FILE_BYTES \<equiv> 48"
abbreviation STDIO_SLOTS :: nat where "STDIO_SLOTS \<equiv> 144"
abbreviation STDIO_ERRNO :: nat where "STDIO_ERRNO \<equiv> 168"
abbreviation ENOMEM :: u32 where "ENOMEM \<equiv> 12"

section \<open>Byte access\<close>

text \<open>Overwrite the bytes at \<open>addr\<close>.\<close>

definition splice :: "'a list \<Rightarrow> nat \<Rightarrow> 'a list \<Rightarrow> 'a list" where
  "splice xs addr src = take addr xs @ src @ drop (addr + length src) xs"

definition read_bytes :: "'fp Memory \<Rightarrow> nat \<Rightarrow> nat \<Rightarrow> mem_error + u8 list" where
  "read_bytes mem addr n =
     (if addr + n > length (bytes mem) then Inl (LoadPastEnd addr n)
      else Inr (take n (drop addr (bytes mem))))"

definition write_bytes :: "'fp Memory \<Rightarrow> nat \<Rightarrow> u8 list \<Rightarrow> mem_error + 'fp Memory" where
  "write_bytes mem addr src =
     (if addr + length src > length (bytes mem) then Inl (StorePastEnd addr (length src))
      else Inr (mem\<lparr>bytes := splice (bytes mem) addr src\<rparr>))"

definition fill_bytes :: "'fp Memory \<Rightarrow> nat \<Rightarrow> u8 \<Rightarrow> nat \<Rightarrow> mem_error + 'fp Memory" where
  "fill_bytes mem addr val n =
     (if addr + n \<ge> 2 ^ 64 \<or> addr + n > length (bytes mem) then Inl (StorePastEnd addr n)
      else Inr (mem\<lparr>bytes := splice (bytes mem) addr (replicate n val)\<rparr>))"

definition copy_within :: "'fp Memory \<Rightarrow> nat \<Rightarrow> nat \<Rightarrow> nat \<Rightarrow> mem_error + 'fp Memory" where
  "copy_within mem dst src n =
     (if dst + n > length (bytes mem) \<or> src + n > length (bytes mem) then Inl (CopyPastEnd dst src n)
      else Inr (mem\<lparr>bytes := splice (bytes mem) dst (take n (drop src (bytes mem)))\<rparr>))"

datatype AccessKind = AccessKind_Read | AccessKind_Write

text \<open>The scan over the registry: the first allocation that holds the address decides.\<close>

fun check_allocations :: "Allocation list \<Rightarrow> nat \<Rightarrow> nat \<Rightarrow> mem_error + unit" where
  "check_allocations [] addr len = Inl (NotInAllocation addr len)"
| "check_allocations (a # rest) addr len =
     (if addr \<ge> al_start a \<and> addr < al_start a + al_len a then
        (if freed a then Inl (UseAfterFree addr (al_id a))
         else if addr + len > al_start a + al_len a then Inl (PastAllocationEnd addr len (al_id a))
         else Inr ())
      else check_allocations rest addr len)"

definition check_data_access :: "'fp Memory \<Rightarrow> nat \<Rightarrow> nat \<Rightarrow> AccessKind \<Rightarrow> mem_error + unit" where
  "check_data_access mem addr len kind =
     (if \<not> track_pointers mem \<or> len = 0 then Inr ()
      else if addr < data_end mem then Inr ()
      else if stack_base mem \<le> addr \<and> addr < heap_base mem then Inr ()
      else check_allocations (allocations mem) addr len)"

section \<open>The heap\<close>

definition record_allocation :: "'fp Memory \<Rightarrow> nat \<Rightarrow> nat \<Rightarrow> 'fp Memory" where
  "record_allocation mem start len =
     mem\<lparr>next_alloc_id := next_alloc_id mem + 1,
         allocations := allocations mem @
           [\<lparr>al_start = start, al_len = len, freed = False, al_id = next_alloc_id mem\<rparr>]\<rparr>"

text \<open>
  \<open>heap_alloc\<close>: the end of the new block is formed with checked arithmetic and capped at
  \<open>LIMIT\<close>; \<open>reserve\<close> answers whether the host grants the growth (\<open>try_reserve\<close>).
\<close>

definition next_multiple_of_16 :: "nat \<Rightarrow> nat" where
  "next_multiple_of_16 n = (n + 15) div 16 * 16"

definition heap_alloc :: "(nat \<Rightarrow> bool) \<Rightarrow> 'fp Memory \<Rightarrow> nat \<Rightarrow> nat \<times> 'fp Memory" where
  "heap_alloc reserve mem n =
     (let base = heap_top mem;
          size = next_multiple_of_16 (max n 1);
          next = base + size
      in if size \<ge> 2 ^ 64 \<or> next \<ge> 2 ^ 64 \<or> next > LIMIT then (0, mem)
         else if next > length (bytes mem) \<and> \<not> reserve (next - length (bytes mem)) then (0, mem)
         else
           let grown = bytes mem @ replicate (next - length (bytes mem)) 0;
               mem' = mem\<lparr>bytes := splice grown base (replicate (next - base) 0), heap_top := next\<rparr>
           in (base, record_allocation mem' base n))"

definition install_cstring :: "(nat \<Rightarrow> bool) \<Rightarrow> 'fp Memory \<Rightarrow> u8 list \<Rightarrow> nat \<times> 'fp Memory" where
  "install_cstring reserve mem src =
     (case heap_alloc reserve mem (length src + 1) of
        (base, mem') \<Rightarrow>
          if base = 0 then (0, mem')
          else (base, mem'\<lparr>bytes := splice (bytes mem') base (src @ [0])\<rparr>))"

definition set_enomem :: "'fp Memory \<Rightarrow> 'fp Memory" where
  "set_enomem mem = mem\<lparr>bytes := splice (bytes mem) (stdio mem + STDIO_ERRNO) (to_le_bytes 4 ENOMEM)\<rparr>"

text \<open>
  \<open>Memory::new\<close>: the regions, then the stdio block as the first heap allocation.  \<open>fp_new\<close> makes the
  floating-point environment of the target.
\<close>

definition stdio_slot :: "nat \<Rightarrow> 'fp Memory \<Rightarrow> nat \<Rightarrow> 'fp Memory" where
  "stdio_slot base mem i =
     mem\<lparr>bytes := splice (bytes mem) (base + STDIO_SLOTS + i * 8)
           (to_le_bytes 8 (word_of_nat (base + i * STDIO_FILE_BYTES) :: u64))\<rparr>"

definition memory_new :: "(nat \<Rightarrow> bool) \<Rightarrow> (Target \<Rightarrow> 'fp) \<Rightarrow> u8 list \<Rightarrow> Target \<Rightarrow> 'fp Memory" where
  "memory_new reserve fp_new data tgt =
     (let de = length data;
          hb = de + STACK_BYTES;
          mem = \<lparr>bytes = data @ replicate (STACK_BYTES + HEAP_BYTES) 0, data_end = de, stack_top = de,
                 heap_base = hb, heap_top = hb, stack_base = de, allocations = [], next_alloc_id = 1,
                 track_pointers = False, stdio = 0, target = tgt,
                 fp = fp_new tgt\<rparr>
      in case heap_alloc reserve mem (STDIO_ERRNO + 8) of
           (base, mem') \<Rightarrow> (foldl (stdio_slot base) mem' [0, 1, 2])\<lparr>stdio := base\<rparr>)"

section \<open>Frames\<close>

definition alloc_frame :: "'fp Memory \<Rightarrow> nat \<Rightarrow> mem_error + nat \<times> 'fp Memory" where
  "alloc_frame mem frame_bytes =
     (let base = (stack_top mem + 15) div 16 * 16; next = base + frame_bytes
      in if next \<ge> 2 ^ 64 then Inl (StackOverflow frame_bytes)
         else if next > heap_base mem then Inl (StackOverflow frame_bytes)
         else Inr (base, mem\<lparr>bytes := splice (bytes mem) base (replicate (next - base) 0), stack_top := next\<rparr>))"

text \<open>\<open>align\<close> is a power of two in every call, so the mask rounds up to a multiple of it.\<close>

definition alloc_aligned_frame :: "'fp Memory \<Rightarrow> nat \<Rightarrow> nat \<Rightarrow> mem_error + nat \<times> 'fp Memory" where
  "alloc_aligned_frame mem align n =
     (let base = (stack_top mem + align - 1) div align * align; next = base + n
      in if next \<ge> 2 ^ 64 then Inl (StackOverflow n)
         else if next > heap_base mem then Inl (StackOverflow n)
         else Inr (base, mem\<lparr>bytes := splice (bytes mem) (stack_top mem) (replicate (next - stack_top mem) 0),
                             stack_top := next\<rparr>))"

definition release_frame :: "'fp Memory \<Rightarrow> nat \<Rightarrow> 'fp Memory" where
  "release_frame mem base = mem\<lparr>stack_top := base\<rparr>"

section \<open>Typed access\<close>

fun load_width :: "LoadKind \<Rightarrow> nat" where
  "load_width LoadKind_F80 = 10"
| "load_width LoadKind_F128 = 16"
| "load_width LoadKind_V128 = 16"
| "load_width LoadKind_I64 = 8"
| "load_width LoadKind_F64 = 8"
| "load_width LoadKind_I32 = 4"
| "load_width LoadKind_U32 = 4"
| "load_width LoadKind_F32 = 4"
| "load_width LoadKind_I16 = 2"
| "load_width LoadKind_U16 = 2"
| "load_width LoadKind_I8 = 1"
| "load_width LoadKind_U8 = 1"

fun store_width :: "StoreKind \<Rightarrow> nat" where
  "store_width StoreKind_F80 = 10"
| "store_width StoreKind_F128 = 16"
| "store_width StoreKind_V128 = 16"
| "store_width StoreKind_I64 = 8"
| "store_width StoreKind_F64 = 8"
| "store_width StoreKind_I32 = 4"
| "store_width StoreKind_F32 = 4"
| "store_width StoreKind_I16 = 2"
| "store_width StoreKind_I8 = 1"

text \<open>The conversions between single and double precision that Rust's \<open>as\<close> performs.\<close>

record fp_cast =
  f32_as_f64 :: "u32 \<Rightarrow> u64"
  f64_as_f32 :: "u64 \<Rightarrow> u32"

definition decode_value :: "fp_cast \<Rightarrow> LoadKind \<Rightarrow> u8 list \<Rightarrow> mem_error + i64" where
  "decode_value C kind s =
     (case kind of
        LoadKind_I64 \<Rightarrow> Inr (from_le_bytes s)
      | LoadKind_I32 \<Rightarrow> Inr (scast (from_le_bytes s :: u32))
      | LoadKind_U32 \<Rightarrow> Inr (ucast (from_le_bytes s :: u32))
      | LoadKind_F32 \<Rightarrow> Inr (f32_as_f64 C (from_le_bytes s))
      | LoadKind_F64 \<Rightarrow> Inr (from_le_bytes s)
      | LoadKind_F80 \<Rightarrow> Inr (f80_to_f64 (from_le_bytes (take 8 s)) (from_le_bytes (take 2 (drop 8 s))))
      | LoadKind_F128 \<Rightarrow> Inr (f128_to_f64 (from_le_bytes (take 8 s)) (from_le_bytes (take 8 (drop 8 s))))
      | LoadKind_I16 \<Rightarrow> Inr (scast (from_le_bytes s :: u16))
      | LoadKind_U16 \<Rightarrow> Inr (ucast (from_le_bytes s :: u16))
      | LoadKind_I8 \<Rightarrow> Inr (scast (from_le_bytes s :: u8))
      | LoadKind_U8 \<Rightarrow> Inr (ucast (from_le_bytes s :: u8))
      | LoadKind_V128 \<Rightarrow> Inl VectorAccess)"

definition load_from_memory :: "fp_cast \<Rightarrow> 'fp Memory \<Rightarrow> nat \<Rightarrow> LoadKind \<Rightarrow> mem_error + i64" where
  "load_from_memory C mem addr kind =
     (case read_bytes mem addr (load_width kind) of Inl e \<Rightarrow> Inl e | Inr s \<Rightarrow> decode_value C kind s)"

definition encode_value :: "fp_cast \<Rightarrow> StoreKind \<Rightarrow> i64 \<Rightarrow> mem_error + u8 list" where
  "encode_value C kind value =
     (case kind of
        StoreKind_I64 \<Rightarrow> Inr (to_le_bytes 8 value)
      | StoreKind_I32 \<Rightarrow> Inr (to_le_bytes 4 (ucast value :: u32))
      | StoreKind_I16 \<Rightarrow> Inr (to_le_bytes 2 (ucast value :: u16))
      | StoreKind_I8 \<Rightarrow> Inr (to_le_bytes 1 (ucast value :: u8))
      | StoreKind_F32 \<Rightarrow> Inr (to_le_bytes 4 (f64_as_f32 C value))
      | StoreKind_F64 \<Rightarrow> Inr (to_le_bytes 8 value)
      | StoreKind_F80 \<Rightarrow> (case f64_to_f80 value of (frac, se) \<Rightarrow> Inr (to_le_bytes 8 frac @ to_le_bytes 2 se))
      | StoreKind_F128 \<Rightarrow> (case f64_to_f128 value of (l, h) \<Rightarrow> Inr (to_le_bytes 8 l @ to_le_bytes 8 h))
      | StoreKind_V128 \<Rightarrow> Inl VectorAccess)"

definition store_to_memory :: "fp_cast \<Rightarrow> 'fp Memory \<Rightarrow> nat \<Rightarrow> i64 \<Rightarrow> StoreKind \<Rightarrow> mem_error + 'fp Memory" where
  "store_to_memory C mem addr value kind =
     (case encode_value C kind value of Inl e \<Rightarrow> Inl e | Inr bs \<Rightarrow> write_bytes mem addr bs)"

definition atomic_kinds :: "nat \<Rightarrow> LoadKind \<times> StoreKind" where
  "atomic_kinds width =
     (if width = 1 then (LoadKind_I8, StoreKind_I8)
      else if width = 2 then (LoadKind_I16, StoreKind_I16)
      else if width = 4 then (LoadKind_I32, StoreKind_I32)
      else (LoadKind_I64, StoreKind_I64))"

definition atomic_load_kind :: "nat \<Rightarrow> LoadKind" where
  "atomic_load_kind width =
     (if width = 1 then LoadKind_U8 else if width = 2 then LoadKind_U16
      else if width = 4 then LoadKind_U32 else LoadKind_I64)"

fun narrow_store :: "i64 \<Rightarrow> StoreKind \<Rightarrow> i64" where
  "narrow_store value StoreKind_I32 = scast (ucast value :: u32)"
| "narrow_store value StoreKind_I16 = scast (ucast value :: u16)"
| "narrow_store value StoreKind_I8 = scast (ucast value :: u8)"
| "narrow_store value _ = value"

end
