(* ===== verification/Vm_Access.thy ===== *)
theory Vm_Access
  imports Vm_Memory
begin

text \<open>
  Laws of the byte store and of the typed accesses over it.  The interface \<open>byte_store\<close> is what the
  loads and stores of the interpreter rely on: a read after a write returns the bytes written, and a
  write leaves every disjoint window alone.  \<open>read_bytes\<close> and \<open>write_bytes\<close> provide it.
\<close>

section \<open>Splicing\<close>

lemma length_splice [simp]: "addr + length src \<le> length xs \<Longrightarrow> length (splice xs addr src) = length xs"
  by (simp add: splice_def)

lemma splice_nth:
  assumes "addr + length src \<le> length xs" "i < length xs"
  shows "splice xs addr src ! i = (if addr \<le> i \<and> i < addr + length src then src ! (i - addr) else xs ! i)"
  using assms by (auto simp: splice_def nth_append min_def)

lemma splice_window:
  "addr + length src \<le> length xs \<Longrightarrow> take (length src) (drop addr (splice xs addr src)) = src"
  by (simp add: splice_def)

lemma splice_disjoint:
  assumes "addr + length src \<le> length xs" "addr + length src \<le> b \<or> b + n \<le> addr" "b + n \<le> length xs"
  shows "take n (drop b (splice xs addr src)) = take n (drop b xs)"
  using assms by (intro nth_equalityI) (auto simp: splice_nth)

section \<open>The interface of the byte store\<close>

locale byte_store =
  fixes rd :: "'m \<Rightarrow> nat \<Rightarrow> nat \<Rightarrow> 'e + u8 list"
    and wr :: "'m \<Rightarrow> nat \<Rightarrow> u8 list \<Rightarrow> 'e + 'm"
  assumes read_length: "rd m a n = Inr bs \<Longrightarrow> length bs = n"
    and read_written: "wr m a bs = Inr m' \<Longrightarrow> rd m' a (length bs) = Inr bs"
    and read_elsewhere:
      "wr m a bs = Inr m' \<Longrightarrow> a + length bs \<le> b \<or> b + n \<le> a \<Longrightarrow> rd m' b n = rd m b n"
    and writable: "rd m a (length bs) = Inr old \<Longrightarrow> \<exists>m'. wr m a bs = Inr m'"
begin

lemma overwrite:
  assumes "wr m a bs = Inr m1" "wr m1 a cs = Inr m2" "length cs = length bs"
  shows "rd m2 a (length bs) = Inr cs" and "a + length bs \<le> b \<or> b + n \<le> a \<Longrightarrow> rd m2 b n = rd m b n"
proof -
  show "rd m2 a (length bs) = Inr cs" using read_written [OF assms(2)] assms(3) by simp
  show "rd m2 b n = rd m b n" if "a + length bs \<le> b \<or> b + n \<le> a"
    using read_elsewhere [OF assms(2), of b n] read_elsewhere [OF assms(1), of b n] that assms(3) by simp
qed

text \<open>Two writes to disjoint windows: both survive, in either order.\<close>

lemma disjoint_writes:
  assumes "wr m a bs = Inr m1" "wr m1 b cs = Inr m2" "a + length bs \<le> b \<or> b + length cs \<le> a"
  shows "rd m2 a (length bs) = Inr bs" and "rd m2 b (length cs) = Inr cs"
proof -
  have "b + length cs \<le> a \<or> a + length bs \<le> b" using assms(3) by blast
  then have "rd m2 a (length bs) = rd m1 a (length bs)" by (rule read_elsewhere [OF assms(2)])
  then show "rd m2 a (length bs) = Inr bs" using read_written [OF assms(1)] by simp
qed (rule read_written [OF assms(2)])

text \<open>A writable window stays writable after a write elsewhere or to itself.\<close>

lemma still_writable:
  assumes "rd m a (length bs) = Inr old" "wr m b cs = Inr m'" "b + length cs \<le> a \<or> a + length bs \<le> b"
  shows "\<exists>m''. wr m' a bs = Inr m''"
  using writable read_elsewhere [OF assms(2,3)] assms(1) by metis

end

lemma read_bytes_Inr:
  "read_bytes mem a n = Inr bs \<longleftrightarrow> a + n \<le> length (bytes mem) \<and> bs = take n (drop a (bytes mem))"
  by (auto simp: read_bytes_def)

lemma write_bytes_Inr:
  "write_bytes mem a bs = Inr mem' \<longleftrightarrow>
     a + length bs \<le> length (bytes mem) \<and> mem' = mem\<lparr>bytes := splice (bytes mem) a bs\<rparr>"
  by (auto simp: write_bytes_def)

interpretation bs: byte_store read_bytes write_bytes
proof
  fix m :: "'a Memory" and a n bs assume "read_bytes m a n = Inr bs"
  then show "length bs = n" by (auto simp: read_bytes_Inr)
next
  fix m m' :: "'a Memory" and a bs assume "write_bytes m a bs = Inr m'"
  then show "read_bytes m' a (length bs) = Inr bs"
    by (auto simp: write_bytes_Inr read_bytes_Inr splice_window)
next
  fix m m' :: "'a Memory" and a bs b n
  assume "write_bytes m a bs = Inr m'" "a + length bs \<le> b \<or> b + n \<le> a"
  then show "read_bytes m' b n = read_bytes m b n"
    by (auto simp: write_bytes_Inr read_bytes_def splice_disjoint)
next
  fix m :: "'a Memory" and a and bs old :: "u8 list" assume "read_bytes m a (length bs) = Inr old"
  then show "\<exists>m'. write_bytes m a bs = Inr m'" by (simp add: read_bytes_Inr write_bytes_Inr)
qed

section \<open>Byte images of words\<close>

lemma length_to_le_bytes [simp]: "length (to_le_bytes n x) = n"
  by (simp add: to_le_bytes_def)

lemma from_le_bytes_Cons: "from_le_bytes (b # bs) = push_bit 8 (from_le_bytes bs) OR ucast b"
  by (simp add: from_le_bytes_def)

lemma to_le_bytes_Suc: "to_le_bytes (Suc n) x = ucast x # to_le_bytes n (drop_bit 8 x)"
  by (simp add: to_le_bytes_def upt_conv_Cons map_Suc_upt [symmetric] drop_bit_drop_bit comp_def add.commute
      del: upt_Suc)

lemma from_to_le_bytes: "from_le_bytes (to_le_bytes n x) = take_bit (8 * n) (x :: 'a::len word)"
proof (induction n arbitrary: x)
  case 0
  then show ?case by (simp add: to_le_bytes_def from_le_bytes_def)
next
  case (Suc n)
  show ?case unfolding to_le_bytes_Suc from_le_bytes_Cons Suc.IH
    by (rule bit_word_eqI) (auto simp: bit_simps)
qed

lemma from_le_bytes_full:
  fixes x :: "'a::len word"
  assumes "LENGTH('a) = 8 * n"
  shows "from_le_bytes (to_le_bytes n x) = x"
  unfolding from_to_le_bytes using assms by (simp add: take_bit_word_eq_self)

section \<open>Typed accesses\<close>

lemma encode_length: "encode_value C kind v = Inr bs \<Longrightarrow> length bs = store_width kind"
  by (cases kind) (auto simp: encode_value_def split: prod.splits)

text \<open>
  What a load at the width of a store returns.  Integers come back truncated and extended, a
  double unchanged, a single through the two conversions, and an extended format quieted.
\<close>

definition loaded_back :: "fp_cast \<Rightarrow> StoreKind \<Rightarrow> LoadKind \<Rightarrow> i64 \<Rightarrow> i64 option" where
  "loaded_back C sk lk v =
     (case (sk, lk) of
        (StoreKind_I64, LoadKind_I64) \<Rightarrow> Some v
      | (StoreKind_I32, LoadKind_I32) \<Rightarrow> Some (scast (ucast v :: u32))
      | (StoreKind_I32, LoadKind_U32) \<Rightarrow> Some (ucast (ucast v :: u32))
      | (StoreKind_I16, LoadKind_I16) \<Rightarrow> Some (scast (ucast v :: u16))
      | (StoreKind_I16, LoadKind_U16) \<Rightarrow> Some (ucast (ucast v :: u16))
      | (StoreKind_I8, LoadKind_I8) \<Rightarrow> Some (scast (ucast v :: u8))
      | (StoreKind_I8, LoadKind_U8) \<Rightarrow> Some (ucast (ucast v :: u8))
      | (StoreKind_F32, LoadKind_F32) \<Rightarrow> Some (f32_as_f64 C (f64_as_f32 C v))
      | (StoreKind_F64, LoadKind_F64) \<Rightarrow> Some v
      | (StoreKind_F80, LoadKind_F80) \<Rightarrow> Some (quieted v)
      | (StoreKind_F128, LoadKind_F128) \<Rightarrow> Some (quieted v)
      | _ \<Rightarrow> None)"

lemma decode_encode:
  assumes "loaded_back C sk lk v = Some w" "encode_value C sk v = Inr bs"
  shows "decode_value C lk bs = Inr w" and "load_width lk = length bs"
  using assms f80_round_trip [of v] f128_round_trip [of v]
  by (cases sk; cases lk; auto simp: loaded_back_def encode_value_def decode_value_def from_le_bytes_full
      split: prod.splits)+

lemma store_load:
  assumes "store_to_memory C mem addr v sk = Inr mem'" "loaded_back C sk lk v = Some w"
  shows "load_from_memory C mem' addr lk = Inr w"
proof -
  obtain bs where b: "encode_value C sk v = Inr bs" "write_bytes mem addr bs = Inr mem'"
    using assms(1) by (auto simp: store_to_memory_def split: sum.splits)
  show ?thesis
    using bs.read_written [OF b(2)] decode_encode [OF assms(2) b(1)] by (simp add: load_from_memory_def)
qed

lemma store_load_elsewhere:
  assumes "store_to_memory C mem addr v sk = Inr mem'"
    and "addr + store_width sk \<le> b \<or> b + load_width lk \<le> addr"
  shows "load_from_memory C mem' b lk = load_from_memory C mem b lk"
proof -
  obtain bs where b: "encode_value C sk v = Inr bs" "write_bytes mem addr bs = Inr mem'"
    using assms(1) by (auto simp: store_to_memory_def split: sum.splits)
  show ?thesis
    using bs.read_elsewhere [OF b(2), of b "load_width lk"] assms(2) encode_length [OF b(1)]
    by (simp add: load_from_memory_def)
qed

text \<open>An access fails exactly when it is a vector access or runs past the memory.\<close>

lemma load_ok_iff:
  "(\<exists>v. load_from_memory C mem addr lk = Inr v) \<longleftrightarrow>
     lk \<noteq> LoadKind_V128 \<and> addr + load_width lk \<le> length (bytes mem)"
  by (cases lk) (auto simp: load_from_memory_def read_bytes_def decode_value_def)

lemma store_ok_iff:
  "(\<exists>mem'. store_to_memory C mem addr v sk = Inr mem') \<longleftrightarrow>
     sk \<noteq> StoreKind_V128 \<and> addr + store_width sk \<le> length (bytes mem)"
  by (cases sk) (auto simp: store_to_memory_def write_bytes_def encode_value_def split: prod.splits)

end
