(* ===== verification/Vm_Heap.thy ===== *)
theory Vm_Heap
  imports Vm_Access
begin

text \<open>
  The allocation functions the interpreter offers its guest, \<^verbatim>\<open>src/src/c5/vm/ssa.rs\<close>: \<open>malloc\<close>,
  \<open>calloc\<close>, \<open>realloc\<close> and \<open>free\<close> over the bump-pointer heap, with the invariant of the memory and of
  the registry that every operation keeps.  \<open>reserve\<close> is the host's answer to a request for growth.
\<close>

section \<open>The allocation functions\<close>

datatype heap_error =
    MissingSize
  | ReallocUnknown nat
  | ReallocFreed nat nat
  | DoubleFree nat nat
  | FreeUnknown nat
  | HeapMem mem_error

text \<open>Argument \<open>idx\<close> of an allocation function: every bit pattern is a size.\<close>

definition alloc_size :: "i64 list \<Rightarrow> nat \<Rightarrow> heap_error + nat" where
  "alloc_size args idx = (if idx < length args then Inr (unat (args ! idx)) else Inl MissingSize)"

definition guest_alloc :: "(nat \<Rightarrow> bool) \<Rightarrow> 'fp Memory \<Rightarrow> nat option \<Rightarrow> i64 \<times> 'fp Memory" where
  "guest_alloc reserve mem n =
     (case (case n of None \<Rightarrow> (0, mem) | Some n \<Rightarrow> heap_alloc reserve mem n) of
        (base, mem') \<Rightarrow> (word_of_nat base, if base = 0 then set_enomem mem' else mem'))"

definition libc_malloc :: "(nat \<Rightarrow> bool) \<Rightarrow> 'fp Memory \<Rightarrow> i64 list \<Rightarrow> heap_error + i64 \<times> 'fp Memory" where
  "libc_malloc reserve mem args =
     (case alloc_size args 0 of Inl e \<Rightarrow> Inl e | Inr n \<Rightarrow> Inr (guest_alloc reserve mem (Some n)))"

definition libc_calloc :: "(nat \<Rightarrow> bool) \<Rightarrow> 'fp Memory \<Rightarrow> i64 list \<Rightarrow> heap_error + i64 \<times> 'fp Memory" where
  "libc_calloc reserve mem args =
     (case alloc_size args 0 of
        Inl e \<Rightarrow> Inl e
      | Inr nmemb \<Rightarrow>
          (case alloc_size args 1 of
             Inl e \<Rightarrow> Inl e
           | Inr sz \<Rightarrow>
               Inr (guest_alloc reserve mem (if nmemb * sz < 2 ^ 64 then Some (nmemb * sz) else None))))"

text \<open>\<open>position\<close>: the index of the first allocation that starts at the address.\<close>

fun alloc_at :: "Allocation list \<Rightarrow> nat \<Rightarrow> nat option" where
  "alloc_at [] p = None"
| "alloc_at (a # rest) p = (if al_start a = p then Some 0 else map_option Suc (alloc_at rest p))"

definition set_freed :: "'fp Memory \<Rightarrow> nat \<Rightarrow> 'fp Memory" where
  "set_freed mem i = mem\<lparr>allocations := (allocations mem)[i := (allocations mem ! i)\<lparr>freed := True\<rparr>]\<rparr>"

abbreviation first_arg :: "i64 list \<Rightarrow> i64" where
  "first_arg args \<equiv> (case args of [] \<Rightarrow> 0 | x # _ \<Rightarrow> x)"

definition libc_realloc :: "(nat \<Rightarrow> bool) \<Rightarrow> 'fp Memory \<Rightarrow> i64 list \<Rightarrow> heap_error + i64 \<times> 'fp Memory" where
  "libc_realloc reserve mem args =
     (let ptr = first_arg args in
      case alloc_size args 1 of
        Inl e \<Rightarrow> Inl e
      | Inr n \<Rightarrow>
          if ptr = 0 then Inr (guest_alloc reserve mem (Some n))
          else
            (let p = unat ptr in
             case alloc_at (allocations mem) p of
               None \<Rightarrow> Inl (ReallocUnknown p)
             | Some old \<Rightarrow>
                 (let a = allocations mem ! old in
                  if freed a \<and> track_pointers mem then Inl (ReallocFreed (al_id a) p)
                  else
                    (case guest_alloc reserve mem (Some n) of
                       (base, mem') \<Rightarrow>
                         if base = 0 then Inr (base, mem')
                         else
                           (case copy_within mem' (unat base) p (min (al_len a) n) of
                              Inl e \<Rightarrow> Inl (HeapMem e)
                            | Inr mem'' \<Rightarrow> Inr (base, set_freed mem'' old))))))"

definition libc_free :: "'fp Memory \<Rightarrow> i64 list \<Rightarrow> heap_error + i64 \<times> 'fp Memory" where
  "libc_free mem args =
     (let ptr = first_arg args in
      if ptr = 0 \<or> \<not> track_pointers mem then Inr (0, mem)
      else
        (let p = unat ptr in
         case alloc_at (allocations mem) p of
           None \<Rightarrow> Inl (FreeUnknown p)
         | Some i \<Rightarrow>
             if freed (allocations mem ! i) then Inl (DoubleFree (al_id (allocations mem ! i)) p)
             else Inr (0, set_freed mem i)))"

section \<open>The invariant\<close>

text \<open>
  The regions lie in order, the standard-stream block lies in the heap, and the registry lists the
  blocks in address order, each inside the heap and ending before the next begins.
\<close>

definition regions_ok :: "'fp Memory \<Rightarrow> bool" where
  "regions_ok mem \<longleftrightarrow>
     data_end mem \<le> stack_base mem \<and> stack_base mem \<le> stack_top mem \<and> stack_top mem \<le> heap_base mem \<and>
     heap_base mem \<le> heap_top mem \<and> heap_top mem \<le> length (bytes mem) \<and> heap_top mem \<le> LIMIT \<and> 0 < heap_base mem"

definition stdio_ok :: "'fp Memory \<Rightarrow> bool" where
  "stdio_ok mem \<longleftrightarrow> heap_base mem \<le> stdio mem \<and> stdio mem + STDIO_ERRNO + 8 \<le> heap_top mem"

definition before :: "Allocation \<Rightarrow> Allocation \<Rightarrow> bool" where
  "before a b \<longleftrightarrow> al_start a + max (al_len a) 1 \<le> al_start b \<and> al_id a < al_id b"

definition allocs_ok :: "'fp Memory \<Rightarrow> bool" where
  "allocs_ok mem \<longleftrightarrow>
     sorted_wrt before (allocations mem) \<and>
     list_all (\<lambda>a. heap_base mem \<le> al_start a \<and> al_start a + max (al_len a) 1 \<le> heap_top mem \<and>
                   al_id a < next_alloc_id mem) (allocations mem)"

definition mem_ok :: "'fp Memory \<Rightarrow> bool" where
  "mem_ok mem \<longleftrightarrow> regions_ok mem \<and> stdio_ok mem \<and> allocs_ok mem"

lemmas mem_ok_defs = mem_ok_def regions_ok_def stdio_ok_def allocs_ok_def

lemma next_multiple_of_16_bounds:
  "n \<le> next_multiple_of_16 n" "next_multiple_of_16 n < n + 16" "16 dvd next_multiple_of_16 n"
  unfolding next_multiple_of_16_def by auto

text \<open>What an allocation does, failing or succeeding.\<close>

lemma heap_alloc_cases:
  assumes "heap_alloc reserve mem n = (base, mem')" "heap_base mem \<le> heap_top mem" "0 < heap_base mem"
  obtains (fail) "base = 0" "mem' = mem"
  | (ok) nxt where "base = heap_top mem" "0 < base" "nxt = base + next_multiple_of_16 (max n 1)" "nxt \<le> LIMIT"
      "mem' = record_allocation (mem\<lparr>bytes := splice (bytes mem @ replicate (nxt - length (bytes mem)) 0) base
                 (replicate (nxt - base) 0), heap_top := nxt\<rparr>) base n"
proof -
  let ?nxt = "heap_top mem + next_multiple_of_16 (max n 1)"
  let ?big = "next_multiple_of_16 (max n 1) \<ge> 2 ^ 64 \<or> ?nxt \<ge> 2 ^ 64 \<or> ?nxt > LIMIT"
  let ?denied = "?nxt > length (bytes mem) \<and> \<not> reserve (?nxt - length (bytes mem))"
  show thesis
  proof (cases "?big \<or> ?denied")
    case True
    then have "(base, mem') = (0, mem)"
      unfolding assms(1) [symmetric] heap_alloc_def Let_def by (simp only: if_True if_False if_cancel simp_thms split: if_split) blast
    then show thesis using fail by simp
  next
    case False
    then have nb: "\<not> ?big" and nd: "\<not> ?denied" by blast+
    have "(base, mem') = (heap_top mem, record_allocation
        (mem\<lparr>bytes := splice (bytes mem @ replicate (?nxt - length (bytes mem)) 0) (heap_top mem)
           (replicate (?nxt - heap_top mem) 0), heap_top := ?nxt\<rparr>) (heap_top mem) n)"
      unfolding assms(1) [symmetric] heap_alloc_def Let_def if_not_P [OF nb] if_not_P [OF nd] ..
    moreover have "?nxt \<le> LIMIT" using nb by linarith
    ultimately show thesis using ok [of ?nxt] assms(2,3) by simp
  qed
qed

lemma grown_bytes:
  fixes xs :: "u8 list"
  assumes "base \<le> length xs" "base \<le> nxt"
  defines "ys \<equiv> splice (xs @ replicate (nxt - length xs) 0) base (replicate (nxt - base) 0)"
  shows "length ys = max (length xs) nxt" and "i < base \<Longrightarrow> ys ! i = xs ! i"
    and "base \<le> i \<Longrightarrow> i < nxt \<Longrightarrow> ys ! i = 0"
proof -
  have l: "base + length (replicate (nxt - base) (0 :: u8)) \<le> length (xs @ replicate (nxt - length xs) 0)"
    using assms(1,2) by simp
  show "length ys = max (length xs) nxt" unfolding ys_def length_splice [OF l] by simp
  show "ys ! i = xs ! i" if "i < base" using that assms(1) splice_nth [OF l, of i] by (simp add: ys_def nth_append)
  show "ys ! i = 0" if "base \<le> i" "i < nxt" using that assms(1,2) splice_nth [OF l, of i] by (simp add: ys_def)
qed

lemma sorted_before_snoc:
  "sorted_wrt before (xs @ [a]) \<longleftrightarrow> sorted_wrt before xs \<and> (\<forall>b \<in> set xs. before b a)"
  by (simp add: sorted_wrt_append)

lemma heap_alloc_ok:
  assumes ok: "mem_ok mem" and run: "heap_alloc reserve mem n = (base, mem')"
  shows "mem_ok mem'"
proof -
  have r: "heap_base mem \<le> heap_top mem" "0 < heap_base mem" "heap_top mem \<le> length (bytes mem)"
    using ok by (simp_all add: mem_ok_defs)
  show ?thesis
    using run r(1,2)
  proof (cases rule: heap_alloc_cases)
    case fail
    then show ?thesis using ok by simp
  next
    case (ok nxt)
    have n: "base + max n 1 \<le> nxt" "base \<le> nxt" using ok(3) next_multiple_of_16_bounds(1) [of "max n 1"] by auto
    note g = grown_bytes [of base "bytes mem" nxt]
    have "list_all (\<lambda>a. heap_base mem \<le> al_start a \<and> al_start a + max (al_len a) 1 \<le> nxt \<and>
        al_id a < Suc (next_alloc_id mem)) (allocations mem)"
      using \<open>mem_ok mem\<close> ok(1) n(2) by (auto simp: mem_ok_defs list_all_iff)
    moreover have "\<forall>b \<in> set (allocations mem). before b
        \<lparr>al_start = base, al_len = n, freed = False, al_id = next_alloc_id mem\<rparr>"
      using \<open>mem_ok mem\<close> ok(1) by (auto simp: mem_ok_defs list_all_iff before_def)
    moreover have "nxt \<le> length (bytes mem')" using g(1) r(3) n(2) ok(1,5) by (simp add: record_allocation_def)
    ultimately show ?thesis
      using \<open>mem_ok mem\<close> ok n r by (auto simp: mem_ok_defs record_allocation_def sorted_before_snoc list_all_iff)
  qed
qed

lemma heap_alloc_fresh:
  assumes ok: "mem_ok mem" and run: "heap_alloc reserve mem n = (base, mem')" and base: "base \<noteq> 0"
  shows "base = heap_top mem" and "base + max n 1 \<le> heap_top mem'"
    and "allocations mem' = allocations mem @ [\<lparr>al_start = base, al_len = n, freed = False, al_id = next_alloc_id mem\<rparr>]"
    and "\<And>i. i < heap_top mem \<Longrightarrow> bytes mem' ! i = bytes mem ! i"
    and "\<And>i. base \<le> i \<Longrightarrow> i < heap_top mem' \<Longrightarrow> bytes mem' ! i = 0"
    and "16 dvd heap_top mem' - base"
    and "heap_top mem' \<le> length (bytes mem')" "length (bytes mem) \<le> length (bytes mem')"
proof -
  have r: "heap_base mem \<le> heap_top mem" "0 < heap_base mem" "heap_top mem \<le> length (bytes mem)"
    using ok by (simp_all add: mem_ok_defs)
  obtain nxt where s: "base = heap_top mem" "nxt = base + next_multiple_of_16 (max n 1)" "nxt \<le> LIMIT"
      "mem' = record_allocation (mem\<lparr>bytes := splice (bytes mem @ replicate (nxt - length (bytes mem)) 0) base
                 (replicate (nxt - base) 0), heap_top := nxt\<rparr>) base n"
    using run r(1,2) base by (cases rule: heap_alloc_cases) auto
  have n: "base + max n 1 \<le> nxt" "base \<le> nxt" using s(2) next_multiple_of_16_bounds(1) [of "max n 1"] by auto
  have b: "base \<le> length (bytes mem)" using s(1) r(3) by simp
  note g = grown_bytes [OF b n(2)]
  have f: "bytes mem' = splice (bytes mem @ replicate (nxt - length (bytes mem)) 0) base (replicate (nxt - base) 0)"
    "heap_top mem' = nxt"
    "allocations mem' = allocations mem @ [\<lparr>al_start = base, al_len = n, freed = False, al_id = next_alloc_id mem\<rparr>]"
    using s(4) by (simp_all add: record_allocation_def)
  show "base = heap_top mem" by (rule s(1))
  show "base + max n 1 \<le> heap_top mem'" using n f by simp
  show "allocations mem' = allocations mem @ [\<lparr>al_start = base, al_len = n, freed = False, al_id = next_alloc_id mem\<rparr>]"
    by (rule f(3))
  show "bytes mem' ! i = bytes mem ! i" if "i < heap_top mem" for i using g(2) that s(1) f(1) by simp
  show "bytes mem' ! i = 0" if "base \<le> i" "i < heap_top mem'" for i using g(3) that f by simp
  show "16 dvd heap_top mem' - base" using s(2) f(2) next_multiple_of_16_bounds(3) by simp
  show "heap_top mem' \<le> length (bytes mem')" "length (bytes mem) \<le> length (bytes mem')" using g(1) f by simp_all
qed

lemma heap_alloc_failed:
  assumes "mem_ok mem" "heap_alloc reserve mem n = (0, mem')"
  shows "mem' = mem"
proof -
  have "heap_base mem \<le> heap_top mem" "0 < heap_base mem" using assms(1) by (simp_all add: mem_ok_defs)
  from assms(2) this show ?thesis by (cases rule: heap_alloc_cases) auto
qed

text \<open>A request within the limit that the host grants is served.\<close>

lemma heap_alloc_served:
  assumes "mem_ok mem" "heap_top mem + next_multiple_of_16 (max n 1) \<le> LIMIT" "\<And>k. reserve k"
  shows "fst (heap_alloc reserve mem n) = heap_top mem"
proof -
  have "next_multiple_of_16 (max n 1) < 2 ^ 64" "heap_top mem + next_multiple_of_16 (max n 1) < 2 ^ 64"
    using assms(2) by auto
  then show ?thesis using assms(2,3) unfolding heap_alloc_def Let_def by simp
qed

section \<open>Operations keep the invariant\<close>

lemma mem_ok_bytes: "mem_ok mem \<Longrightarrow> length bs \<ge> length (bytes mem) \<Longrightarrow> mem_ok (mem\<lparr>bytes := bs\<rparr>)"
  by (auto simp: mem_ok_defs)

lemma set_enomem_ok:
  assumes "mem_ok mem"
  shows "mem_ok (set_enomem mem)"
  unfolding set_enomem_def using assms by (intro mem_ok_bytes) (auto simp: mem_ok_defs)

lemma guest_alloc_ok: "mem_ok mem \<Longrightarrow> mem_ok (snd (guest_alloc reserve mem n))"
  by (auto simp: guest_alloc_def set_enomem_ok split: option.splits prod.splits dest: heap_alloc_ok)

lemma copy_within_ok: "mem_ok mem \<Longrightarrow> copy_within mem dst src n = Inr mem' \<Longrightarrow> mem_ok mem'"
  by (auto simp: copy_within_def intro!: mem_ok_bytes split: if_splits)

lemma write_bytes_ok: "mem_ok mem \<Longrightarrow> write_bytes mem addr bs = Inr mem' \<Longrightarrow> mem_ok mem'"
  by (auto simp: write_bytes_def intro!: mem_ok_bytes split: if_splits)

lemma fill_bytes_ok: "mem_ok mem \<Longrightarrow> fill_bytes mem addr v n = Inr mem' \<Longrightarrow> mem_ok mem'"
  by (auto simp: fill_bytes_def intro!: mem_ok_bytes split: if_splits)

lemma alloc_at_Some: "alloc_at as p = Some i \<Longrightarrow> i < length as \<and> al_start (as ! i) = p"
  by (induction as p arbitrary: i rule: alloc_at.induct) (auto split: if_splits)

lemma alloc_at_None: "alloc_at as p = None \<longleftrightarrow> (\<forall>a \<in> set as. al_start a \<noteq> p)"
  by (induction as p rule: alloc_at.induct) auto

lemma sorted_before_update:
  assumes "sorted_wrt before as" "i < length as" "al_start a = al_start (as ! i)" "al_len a = al_len (as ! i)"
    "al_id a = al_id (as ! i)"
  shows "sorted_wrt before (as[i := a])"
  using assms by (auto simp: sorted_wrt_iff_nth_less before_def nth_list_update)

lemma set_freed_ok:
  assumes "mem_ok mem" "i < length (allocations mem)"
  shows "mem_ok (set_freed mem i)"
proof -
  let ?a = "(allocations mem ! i)\<lparr>freed := True\<rparr>"
  have "sorted_wrt before ((allocations mem)[i := ?a])"
    using assms by (intro sorted_before_update) (auto simp: mem_ok_defs)
  moreover have "list_all (\<lambda>a. heap_base mem \<le> al_start a \<and> al_start a + max (al_len a) 1 \<le> heap_top mem \<and>
      al_id a < next_alloc_id mem) ((allocations mem)[i := ?a])"
    using assms by (auto simp: mem_ok_defs list_all_length nth_list_update)
  ultimately show ?thesis using assms(1) by (simp add: mem_ok_defs set_freed_def)
qed

lemma libc_free_ok: "mem_ok mem \<Longrightarrow> libc_free mem args = Inr (r, mem') \<Longrightarrow> mem_ok mem'"
  by (auto simp: libc_free_def Let_def split: if_splits option.splits dest: alloc_at_Some intro: set_freed_ok)

lemma libc_malloc_ok: "mem_ok mem \<Longrightarrow> libc_malloc reserve mem args = Inr (r, mem') \<Longrightarrow> mem_ok mem'"
  using guest_alloc_ok [of mem reserve] by (auto simp: libc_malloc_def split: sum.splits) (metis snd_conv)

lemma libc_calloc_ok: "mem_ok mem \<Longrightarrow> libc_calloc reserve mem args = Inr (r, mem') \<Longrightarrow> mem_ok mem'"
  using guest_alloc_ok [of mem reserve] by (auto simp: libc_calloc_def split: sum.splits) (metis snd_conv)+

lemma guest_alloc_allocations: "\<exists>new. allocations (snd (guest_alloc reserve mem n)) = allocations mem @ new"
  by (auto simp: guest_alloc_def heap_alloc_def set_enomem_def record_allocation_def Let_def split: option.splits)

lemma copy_within_allocations: "copy_within mem dst src n = Inr mem' \<Longrightarrow> allocations mem' = allocations mem"
  by (auto simp: copy_within_def split: if_splits)

lemma libc_realloc_shape:
  assumes "libc_realloc reserve mem args = Inr (r, mem')"
  obtains n b m where "guest_alloc reserve mem (Some n) = (b, m)"
    and "mem' = m \<or> (\<exists>i k m2. alloc_at (allocations mem) (unat (first_arg args)) = Some i \<and>
        copy_within m (unat b) (unat (first_arg args)) k = Inr m2 \<and> mem' = set_freed m2 i)"
  using assms unfolding libc_realloc_def Let_def
  by (auto split: option.splits if_splits prod.splits sum.splits) blast+

lemma libc_realloc_ok:
  assumes inv: "mem_ok mem" and run: "libc_realloc reserve mem args = Inr (r, mem')"
  shows "mem_ok mem'"
proof -
  obtain n b m where g: "guest_alloc reserve mem (Some n) = (b, m)"
    and c: "mem' = m \<or> (\<exists>i k m2. alloc_at (allocations mem) (unat (first_arg args)) = Some i \<and>
        copy_within m (unat b) (unat (first_arg args)) k = Inr m2 \<and> mem' = set_freed m2 i)"
    by (rule libc_realloc_shape [OF run])
  have m: "mem_ok m" using guest_alloc_ok [OF inv, of reserve "Some n"] g by simp
  obtain new where new: "allocations m = allocations mem @ new"
    using guest_alloc_allocations [of reserve mem "Some n"] g by auto
  show ?thesis
    using c
  proof (elim disjE exE conjE)
    fix i k m2
    assume i: "alloc_at (allocations mem) (unat (first_arg args)) = Some i" and m2: "mem' = set_freed m2 i"
      "copy_within m (unat b) (unat (first_arg args)) k = Inr m2"
    have "i < length (allocations m2)"
      using alloc_at_Some [OF i] new copy_within_allocations [OF m2(2)] by simp
    then show ?thesis using set_freed_ok copy_within_ok [OF m m2(2)] m2(1) by blast
  qed (use m in simp)
qed

text \<open>An address below the limit survives the trip through the guest's register.\<close>

lemma base_word:
  assumes "base \<le> LIMIT"
  shows "unat (word_of_nat base :: i64) = base" and "(word_of_nat base :: i64) = 0 \<longleftrightarrow> base = 0"
proof -
  show u: "unat (word_of_nat base :: i64) = base" using assms by (intro unat_of_nat_small) simp
  show "(word_of_nat base :: i64) = 0 \<longleftrightarrow> base = 0"
    unfolding word_unat_eq_iff u unsigned_0 by (rule refl)
qed

lemma guest_alloc_cases:
  assumes inv: "mem_ok mem" and run: "guest_alloc reserve mem (Some n) = (r, mem')"
  obtains (fail) "r = 0" "mem' = set_enomem mem"
  | (ok) "r \<noteq> 0" "heap_alloc reserve mem n = (unat r, mem')" "unat r = heap_top mem"
proof -
  obtain base m where h: "heap_alloc reserve mem n = (base, m)" by fastforce
  have top: "heap_top mem \<le> LIMIT" using inv by (simp add: mem_ok_defs)
  show thesis
  proof (cases "base = 0")
    case True
    then have "m = mem" using heap_alloc_failed [OF inv] h by simp
    then show thesis using fail run h True by (simp add: guest_alloc_def)
  next
    case False
    have b: "base = heap_top mem" using heap_alloc_fresh(1) [OF inv h False] .
    then have w: "unat (word_of_nat base :: i64) = base" "(word_of_nat base :: i64) \<noteq> 0"
      using base_word [of base] top False by simp_all
    have "r = word_of_nat base" "mem' = m" using run h False by (simp_all add: guest_alloc_def)
    then show thesis using that(2) w b h by simp
  qed
qed

text \<open>
  The behaviour of \<open>realloc\<close> on a known live block: it fails with the block untouched, or moves the
  bytes to a fresh block and retires the old one.
\<close>

lemma libc_realloc_moves:
  assumes ok: "mem_ok mem" and run: "libc_realloc reserve mem [ptr, size'] = Inr (r, mem')"
    and ptr: "ptr \<noteq> 0" and r: "r \<noteq> 0"
  obtains i where "i < length (allocations mem)" "al_start (allocations mem ! i) = unat ptr"
    "freed (allocations mem' ! i)" "unat r = heap_top mem" "mem_ok mem'"
    "\<And>k. k < min (al_len (allocations mem ! i)) (unat size') \<Longrightarrow> bytes mem' ! (unat r + k) = bytes mem ! (unat ptr + k)"
    "\<And>k. k < heap_top mem \<Longrightarrow> bytes mem' ! k = bytes mem ! k"
proof -
  let ?n = "unat size'"
  obtain i m m2 where i: "alloc_at (allocations mem) (unat ptr) = Some i"
    and g: "guest_alloc reserve mem (Some ?n) = (r, m)"
    and c0: "copy_within m (unat r) (unat ptr) (min (al_len (allocations mem ! i)) ?n) = Inr m2" "mem' = set_freed m2 i"
    using run ptr r
    by (auto simp: libc_realloc_def alloc_size_def Let_def split: option.splits if_splits prod.splits sum.splits)
  define k where "k = min (al_len (allocations mem ! i)) ?n"
  note c = c0 [folded k_def]
  have h: "heap_alloc reserve mem ?n = (unat r, m)" "unat r = heap_top mem"
    using ok g r by (cases rule: guest_alloc_cases; simp)+
  have r0: "unat r \<noteq> 0" using r by (simp add: word_unat_eq_iff)
  note f = heap_alloc_fresh [OF ok h(1) r0]
  have ia: "i < length (allocations mem)" "al_start (allocations mem ! i) = unat ptr"
    using alloc_at_Some [OF i] by simp_all
  have old: "unat ptr + k \<le> heap_top mem"
    using ok ia by (auto simp: mem_ok_defs list_all_length k_def)
  have src: "unat ptr + k \<le> length (bytes m)" and dst: "unat r + k \<le> length (bytes m)"
    using c(1) by (auto simp: copy_within_def split: if_splits)
  have b2: "bytes m2 = splice (bytes m) (unat r) (take k (drop (unat ptr) (bytes m)))"
    using c(1) by (auto simp: copy_within_def split: if_splits)
  have l: "length (take k (drop (unat ptr) (bytes m))) = k" using src by simp
  have nth: "bytes mem' ! j = (if unat r \<le> j \<and> j < unat r + k then bytes m ! (unat ptr + (j - unat r)) else bytes m ! j)"
    if "j < length (bytes m)" for j
    using splice_nth [of "unat r" "take k (drop (unat ptr) (bytes m))" "bytes m" j] that dst src
    by (auto simp: c(2) set_freed_def b2)
  have mok: "mem_ok m2" using copy_within_ok [OF heap_alloc_ok [OF ok h(1)] c(1)] .
  have a2: "allocations m2 = allocations m" using c(1) by (auto simp: copy_within_def split: if_splits)
  have i2: "i < length (allocations m2)" using ia f(3) a2 by simp
  have low: "bytes mem' ! j = bytes mem ! j" if "j < heap_top mem" for j
    using nth [of j] f(4) [OF that] that h(2) dst by simp
  have moved: "bytes mem' ! (unat r + j) = bytes mem ! (unat ptr + j)" if j: "j < k" for j
    using nth [of "unat r + j"] j dst f(4) [of "unat ptr + j"] old by simp
  have "freed (allocations mem' ! i)" using i2 by (simp add: c(2) set_freed_def)
  moreover have "mem_ok mem'" using set_freed_ok [OF mok i2] c(2) by simp
  ultimately show thesis using that ia h(2) moved low by (simp add: k_def)
qed

text \<open>When \<open>realloc\<close> cannot serve the request, only \<open>errno\<close> changes.\<close>

lemma libc_realloc_fails:
  assumes inv: "mem_ok mem" and run: "libc_realloc reserve mem [ptr, size'] = Inr (0, mem')"
  shows "mem' = set_enomem mem"
proof -
  let ?n = "unat size'"
  obtain m where g: "guest_alloc reserve mem (Some ?n) = (0, m)" "mem' = m"
    using run by (auto simp: libc_realloc_def alloc_size_def Let_def split: option.splits if_splits prod.splits sum.splits)
  show ?thesis using inv g(1) by (cases rule: guest_alloc_cases) (use g in auto)
qed

section \<open>The access check\<close>

lemma check_allocations_iff:
  assumes "sorted_wrt before as"
  shows "check_allocations as addr len = Inr () \<longleftrightarrow>
    (\<exists>a \<in> set as. \<not> freed a \<and> al_start a \<le> addr \<and> addr < al_start a + al_len a \<and> addr + len \<le> al_start a + al_len a)"
  using assms
proof (induction as)
  case (Cons a as)
  have later: "addr < al_start b" if "b \<in> set as" "addr < al_start a + al_len a" for b
    using Cons.prems that by (auto simp: before_def)
  show ?case
  proof (cases "al_start a \<le> addr \<and> addr < al_start a + al_len a")
    case True
    then have "\<not> (al_start b \<le> addr)" if "b \<in> set as" for b using later that by (auto simp: not_le)
    then show ?thesis using True by auto
  next
    case False
    then show ?thesis using Cons by auto
  qed
qed simp

lemma check_data_access_iff:
  assumes "mem_ok mem" "track_pointers mem" "heap_base mem \<le> addr" "0 < len"
  shows "check_data_access mem addr len kind = Inr () \<longleftrightarrow>
    (\<exists>a \<in> set (allocations mem). \<not> freed a \<and> al_start a \<le> addr \<and> addr + len \<le> al_start a + al_len a)"
proof -
  have d: "data_end mem \<le> addr" using assms(1,3) by (auto simp: mem_ok_defs)
  have "check_data_access mem addr len kind = check_allocations (allocations mem) addr len"
    using assms(2-4) d by (simp add: check_data_access_def)
  moreover have "(addr < al_start a + al_len a \<and> addr + len \<le> al_start a + al_len a) \<longleftrightarrow>
      addr + len \<le> al_start a + al_len a" for a :: Allocation
    using assms(4) by auto
  ultimately show ?thesis
    using check_allocations_iff [of "allocations mem" addr len] assms(1) by (simp add: mem_ok_defs)
qed

lemma check_allocations_freed:
  assumes "sorted_wrt before as" "a \<in> set as" "freed a" "al_start a \<le> addr" "addr < al_start a + al_len a"
  shows "check_allocations as addr len = Inl (UseAfterFree addr (al_id a))"
  using assms
proof (induction as)
  case (Cons b as)
  have "\<not> (al_start b \<le> addr \<and> addr < al_start b + al_len b)" if "a \<noteq> b"
    using Cons.prems that by (auto simp: before_def)
  then show ?case using Cons by auto
qed simp

lemma start_unique:
  assumes "sorted_wrt before as" "i < length as" "j < length as" "al_start (as ! i) = al_start (as ! j)"
  shows "i = j"
proof -
  have "before (as ! a) (as ! b)" if "a < b" "b < length as" for a b
    using sorted_wrt_nth_less [OF assms(1) that] .
  then show ?thesis using assms(2-4) by (cases i j rule: linorder_cases) (fastforce simp: before_def)+
qed

text \<open>A freed block stays unusable: every access inside it is reported.\<close>

lemma freed_access_reported:
  assumes inv: "mem_ok mem" and free: "libc_free mem [ptr] = Inr (r, mem')" and ptr: "ptr \<noteq> 0" "track_pointers mem"
    and a: "a \<in> set (allocations mem)" "al_start a = unat ptr"
    and addr: "unat ptr \<le> addr" "addr < unat ptr + al_len a" "0 < len"
  shows "check_data_access mem' addr len kind = Inl (UseAfterFree addr (al_id a))"
proof -
  obtain i where i: "alloc_at (allocations mem) (unat ptr) = Some i" "mem' = set_freed mem i"
    using free ptr by (auto simp: libc_free_def Let_def split: option.splits if_splits)
  have ia: "i < length (allocations mem)" "al_start (allocations mem ! i) = unat ptr" using alloc_at_Some [OF i(1)] by auto
  obtain j where j: "j < length (allocations mem)" "a = allocations mem ! j" using a(1) by (auto simp: in_set_conv_nth)
  have "sorted_wrt before (allocations mem)" using inv by (simp add: mem_ok_defs)
  then have ij: "j = i" using start_unique ia j a(2) by metis
  have ok': "mem_ok mem'" using set_freed_ok [OF inv ia(1)] i(2) by simp
  have mem': "allocations mem' ! i = a\<lparr>freed := True\<rparr>" "i < length (allocations mem')" "heap_base mem' = heap_base mem"
    "track_pointers mem'" "data_end mem' = data_end mem"
    using ia ij j i(2) ptr(2) by (simp_all add: set_freed_def)
  have "a\<lparr>freed := True\<rparr> \<in> set (allocations mem')" using mem' by (metis nth_mem)
  then have c: "check_allocations (allocations mem') addr len = Inl (UseAfterFree addr (al_id a))"
    using check_allocations_freed [of "allocations mem'" "a\<lparr>freed := True\<rparr>" addr len] ok' addr a(2)
    by (simp add: mem_ok_defs)
  have "heap_base mem \<le> addr" using inv a addr by (auto simp: mem_ok_defs list_all_iff)
  moreover have "data_end mem \<le> heap_base mem" using inv by (simp add: mem_ok_defs)
  ultimately show ?thesis using c mem' addr(3) by (simp add: check_data_access_def)
qed

section \<open>Frames\<close>

lemma nat_round_up_bounds:
  assumes "0 < (k :: nat)"
  shows "x \<le> (x + k - 1) div k * k" and "k dvd (x + k - 1) div k * k" and "(x + k - 1) div k * k < x + k"
proof -
  have e: "(x + k - 1) div k * k + (x + k - 1) mod k = x + k - 1" by simp
  have m: "(x + k - 1) mod k < k" using assms by simp
  show "x \<le> (x + k - 1) div k * k" using e m by linarith
  show "k dvd (x + k - 1) div k * k" by simp
  show "(x + k - 1) div k * k < x + k" using e m assms by linarith
qed

lemma alloc_frame_spec:
  assumes inv: "mem_ok mem" and run: "alloc_frame mem n = Inr (base, mem')"
  shows "16 dvd base" and "stack_top mem \<le> base" and "stack_top mem' = base + n" and "stack_top mem' \<le> heap_base mem'"
    and "\<And>i. base \<le> i \<Longrightarrow> i < base + n \<Longrightarrow> bytes mem' ! i = 0"
    and "\<And>i. i < length (bytes mem) \<Longrightarrow> i < base \<or> base + n \<le> i \<Longrightarrow> bytes mem' ! i = bytes mem ! i"
    and "mem_ok mem'"
proof -
  have b: "base = (stack_top mem + 15) div 16 * 16" "base + n \<le> heap_base mem"
    and m: "mem' = mem\<lparr>bytes := splice (bytes mem) base (replicate n 0), stack_top := base + n\<rparr>"
    using run by (auto simp: alloc_frame_def Let_def split: if_splits)
  note ru = nat_round_up_bounds [of 16 "stack_top mem"]
  have fit: "base + length (replicate n (0 :: u8)) \<le> length (bytes mem)" using b(2) inv by (auto simp: mem_ok_defs)
  note nth = splice_nth [OF fit]
  show "16 dvd base" "stack_top mem \<le> base" using ru(1,2) b(1) by simp_all
  show "stack_top mem' = base + n" "stack_top mem' \<le> heap_base mem'" using m b(2) by simp_all
  show "bytes mem' ! i = 0" if "base \<le> i" "i < base + n" for i using nth [of i] that fit m by simp
  show "bytes mem' ! i = bytes mem ! i" if "i < length (bytes mem)" "i < base \<or> base + n \<le> i" for i
    using nth [of i] that m by auto
  show "mem_ok mem'" using inv m fit b ru by (auto simp: mem_ok_defs)
qed

lemma alloc_aligned_frame_spec:
  assumes inv: "mem_ok mem" and run: "alloc_aligned_frame mem align n = Inr (base, mem')" and align: "0 < align"
  shows "align dvd base" and "stack_top mem \<le> base" and "stack_top mem' = base + n" and "stack_top mem' \<le> heap_base mem'"
    and "\<And>i. stack_top mem \<le> i \<Longrightarrow> i < base + n \<Longrightarrow> bytes mem' ! i = 0"
    and "\<And>i. i < length (bytes mem) \<Longrightarrow> i < stack_top mem \<or> base + n \<le> i \<Longrightarrow> bytes mem' ! i = bytes mem ! i"
    and "mem_ok mem'"
proof -
  let ?t = "stack_top mem"
  have b: "base = (?t + align - 1) div align * align" "base + n \<le> heap_base mem"
    and m: "mem' = mem\<lparr>bytes := splice (bytes mem) ?t (replicate (base + n - ?t) 0), stack_top := base + n\<rparr>"
    using run by (auto simp: alloc_aligned_frame_def Let_def split: if_splits)
  note ru = nat_round_up_bounds [OF align, of ?t]
  have tb: "?t \<le> base" using ru(1) b(1) by simp
  have fit: "?t + length (replicate (base + n - ?t) (0 :: u8)) \<le> length (bytes mem)"
    using b(2) inv tb by (auto simp: mem_ok_defs)
  note nth = splice_nth [OF fit]
  show "align dvd base" "stack_top mem \<le> base" using ru(2) b(1) tb by simp_all
  show "stack_top mem' = base + n" "stack_top mem' \<le> heap_base mem'" using m b(2) by simp_all
  show "bytes mem' ! i = 0" if "?t \<le> i" "i < base + n" for i using nth [of i] that fit m tb by simp
  show "bytes mem' ! i = bytes mem ! i" if "i < length (bytes mem)" "i < ?t \<or> base + n \<le> i" for i
    using nth [of i] that m tb by auto
  show "mem_ok mem'" using inv m fit b tb by (auto simp: mem_ok_defs)
qed

text \<open>The stack region is never outgrown: a frame that does not fit is refused.\<close>

lemma alloc_frame_overflow:
  "(stack_top mem + 15) div 16 * 16 + n > heap_base mem \<Longrightarrow> alloc_frame mem n = Inl (StackOverflow n)"
  by (simp add: alloc_frame_def Let_def)

lemma release_frame_ok:
  "mem_ok mem \<Longrightarrow> stack_base mem \<le> base \<Longrightarrow> base \<le> heap_base mem \<Longrightarrow> mem_ok (release_frame mem base)"
  by (simp add: release_frame_def mem_ok_defs)

section \<open>The initial memory\<close>

lemma stdio_slot_frame [simp]:
  "data_end (stdio_slot b mem i) = data_end mem" "stack_top (stdio_slot b mem i) = stack_top mem"
  "heap_base (stdio_slot b mem i) = heap_base mem" "heap_top (stdio_slot b mem i) = heap_top mem"
  "stack_base (stdio_slot b mem i) = stack_base mem" "allocations (stdio_slot b mem i) = allocations mem"
  "next_alloc_id (stdio_slot b mem i) = next_alloc_id mem" "stdio (stdio_slot b mem i) = stdio mem"
  by (simp_all add: stdio_slot_def)

lemma stdio_slot_length:
  "b + STDIO_SLOTS + i * 8 + 8 \<le> length (bytes mem) \<Longrightarrow> length (bytes (stdio_slot b mem i)) = length (bytes mem)"
  by (simp add: stdio_slot_def)

lemma memory_new_ok:
  fixes data :: "u8 list"
  assumes "length data + 262320 \<le> LIMIT"
  shows "mem_ok (memory_new reserve fp_new data tgt)" and "stdio (memory_new reserve fp_new data tgt) = length data + STACK_BYTES"
    and "track_pointers (memory_new reserve fp_new data tgt) = False"
proof -
  let ?hb = "length data + STACK_BYTES"
  define m0 :: "'a Memory" where
    "m0 = \<lparr>bytes = data @ replicate (STACK_BYTES + HEAP_BYTES) 0, data_end = length data, stack_top = length data,
       heap_base = ?hb, heap_top = ?hb, stack_base = length data, allocations = [], next_alloc_id = 1,
       track_pointers = False, stdio = 0, target = tgt, fp = fp_new tgt\<rparr>"
  define m1 where
    "m1 = record_allocation (m0\<lparr>bytes := splice (bytes m0 @ replicate (?hb + 176 - length (bytes m0)) 0) ?hb
       (replicate 176 0), heap_top := ?hb + 176\<rparr>) ?hb 176"
  have nm: "next_multiple_of_16 (max (STDIO_ERRNO + 8) 1) = 176" by (simp add: next_multiple_of_16_def)
  have h: "heap_alloc reserve m0 (STDIO_ERRNO + 8) = (?hb, m1)"
    unfolding heap_alloc_def Let_def nm using assms by (simp add: m0_def m1_def)
  have l0: "length (bytes m1) = length data + 524288" by (simp add: m1_def m0_def record_allocation_def)
  define m2 where "m2 = foldl (stdio_slot ?hb) m1 [0, 1, 2]"
  have new: "memory_new reserve fp_new data tgt = m2\<lparr>stdio := ?hb\<rparr>"
    unfolding memory_new_def Let_def m0_def [symmetric] h m2_def by simp
  have l2: "length (bytes m2) = length data + 524288"
    using l0 by (simp add: m2_def stdio_slot_length)
  have f: "data_end m2 = length data" "stack_top m2 = length data" "heap_base m2 = ?hb" "heap_top m2 = ?hb + 176"
    "stack_base m2 = length data" "next_alloc_id m2 = 2"
    "allocations m2 = [\<lparr>al_start = ?hb, al_len = 176, freed = False, al_id = 1\<rparr>]"
    by (simp_all add: m2_def m1_def m0_def record_allocation_def)
  show "mem_ok (memory_new reserve fp_new data tgt)"
    using assms l2 f by (simp add: new mem_ok_defs)
  show "stdio (memory_new reserve fp_new data tgt) = length data + STACK_BYTES" by (simp add: new)
  show "track_pointers (memory_new reserve fp_new data tgt) = False"
    by (simp add: new m2_def m1_def m0_def stdio_slot_def record_allocation_def)
qed

section \<open>The interface of an allocator\<close>

text \<open>
  What a client of the heap relies on: a block it is given touches no address in use, and stays in use.
  A run of requests then yields blocks that are pairwise apart.
\<close>

fun alloc_all :: "('m \<Rightarrow> nat \<Rightarrow> nat \<times> 'm) \<Rightarrow> 'm \<Rightarrow> nat list \<Rightarrow> (nat \<times> nat) list \<times> 'm" where
  "alloc_all al m [] = ([], m)"
| "alloc_all al m (n # ns) =
     (case al m n of (b, m1) \<Rightarrow>
        (case alloc_all al m1 ns of (bs, m2) \<Rightarrow> (if b = 0 then bs else (b, n) # bs, m2)))"

definition block :: "nat \<times> nat \<Rightarrow> nat set" where
  "block bn = {fst bn ..< fst bn + max (snd bn) 1}"

locale allocator =
  fixes al :: "'m \<Rightarrow> nat \<Rightarrow> nat \<times> 'm" and ok :: "'m \<Rightarrow> bool" and used :: "'m \<Rightarrow> nat set"
  assumes al_ok: "ok m \<Longrightarrow> al m n = (b, m') \<Longrightarrow> ok m'"
    and al_fresh: "ok m \<Longrightarrow> al m n = (b, m') \<Longrightarrow> b \<noteq> 0 \<Longrightarrow> block (b, n) \<inter> used m = {}"
    and al_keeps: "ok m \<Longrightarrow> al m n = (b, m') \<Longrightarrow> used m \<subseteq> used m'"
    and al_owns: "ok m \<Longrightarrow> al m n = (b, m') \<Longrightarrow> b \<noteq> 0 \<Longrightarrow> block (b, n) \<subseteq> used m'"
begin

lemma run_ok: "ok m \<Longrightarrow> alloc_all al m ns = (bs, m') \<Longrightarrow> ok m' \<and> used m \<subseteq> used m'"
proof (induction ns arbitrary: m bs m')
  case (Cons n ns)
  obtain b m1 where 1: "al m n = (b, m1)" by fastforce
  obtain cs m2 where 2: "alloc_all al m1 ns = (cs, m2)" by fastforce
  have "ok m1" "used m \<subseteq> used m1" using al_ok al_keeps 1 Cons.prems(1) by blast+
  then show ?case using Cons.IH [OF _ 2] Cons.prems(2) 1 2 by auto
qed simp

lemma run_apart:
  "ok m \<Longrightarrow> alloc_all al m ns = (bs, m') \<Longrightarrow>
     sorted_wrt (\<lambda>x y. block x \<inter> block y = {}) bs \<and> (\<forall>x \<in> set bs. block x \<inter> used m = {})"
proof (induction ns arbitrary: m bs m')
  case (Cons n ns)
  obtain b m1 where 1: "al m n = (b, m1)" by fastforce
  obtain cs m2 where 2: "alloc_all al m1 ns = (cs, m2)" by fastforce
  have m1: "ok m1" "used m \<subseteq> used m1" using al_ok al_keeps 1 Cons.prems(1) by blast+
  have ih: "sorted_wrt (\<lambda>x y. block x \<inter> block y = {}) cs" "\<forall>x \<in> set cs. block x \<inter> used m1 = {}"
    using Cons.IH [OF m1(1) 2] by blast+
  have cs: "\<forall>x \<in> set cs. block x \<inter> used m = {}" using ih(2) m1(2) by blast
  show ?case
  proof (cases "b = 0")
    case True
    then show ?thesis using Cons.prems(2) 1 2 ih(1) cs by simp
  next
    case False
    have b: "block (b, n) \<inter> used m = {}" "block (b, n) \<subseteq> used m1"
      using al_fresh al_owns 1 False Cons.prems(1) by blast+
    have "bs = (b, n) # cs" using Cons.prems(2) 1 2 False by simp
    then show ?thesis using ih cs b by (auto simp: disjoint_iff)
  qed
qed simp

end

interpretation heap: allocator "heap_alloc reserve" mem_ok "\<lambda>mem. {..< heap_top mem}" for reserve
proof
  fix m m' :: "'a Memory" and n b assume a: "mem_ok m" "heap_alloc reserve m n = (b, m')"
  show "mem_ok m'" using heap_alloc_ok [OF a] .
  show keeps: "{..< heap_top m} \<subseteq> {..< heap_top m'}"
  proof (cases "b = 0")
    case True
    then show ?thesis using heap_alloc_failed [OF a(1), of reserve n m'] a(2) by simp
  next
    case False
    then show ?thesis using heap_alloc_fresh(1,2) [OF a False] by auto
  qed
  assume b: "b \<noteq> 0"
  show "block (b, n) \<inter> {..< heap_top m} = {}" using heap_alloc_fresh(1) [OF a b] by (auto simp: block_def)
  show "block (b, n) \<subseteq> {..< heap_top m'}" using heap_alloc_fresh(2) [OF a b] by (auto simp: block_def)
qed

end
