(* ===== verification/Intrinsics.thy ===== *)
theory Intrinsics
  imports Badc_Prelude
begin

text \<open>
  The intrinsic operations and the descriptor of a variadic argument,
  \<^verbatim>\<open>src/src/c5/op.rs\<close>.  A call carries an intrinsic as its \<open>i64\<close> discriminant, and
  \<open>__builtin_va_arg\<close> carries its argument's shape packed in one word.
\<close>

section \<open>Intrinsics\<close>

text \<open>The constructors in the order of the source.\<close>

datatype (plugins only: code size) Intrinsic =
    Intr_Alloca | Intr_SetjmpAArch64 | Intr_LongjmpAArch64 | Intr_VaStart | Intr_VaArg
  | Intr_VaEnd | Intr_VaCopy | Intr_Fma | Intr_Fmaf | Intr_Trap | Intr_Sqrt | Intr_Sqrtf
  | Intr_Fabs | Intr_Fabsf | Intr_Floor | Intr_Floorf | Intr_Ceil | Intr_Ceilf | Intr_Trunc
  | Intr_Truncf | Intr_Clz | Intr_Ctz | Intr_Popcount | Intr_Clzll | Intr_Ctzll
  | Intr_Popcountll | Intr_Bswap16 | Intr_Bswap32 | Intr_Bswap64 | Intr_FrameAddress
  | Intr_CpuRelax | Intr_X87StoreControlWord | Intr_X87LoadControlWord
  | Intr_AtomicThreadFence | Intr_AllocaSave | Intr_AllocaRestore | Intr_Clrsb
  | Intr_Clrsbll | Intr_Parity | Intr_Parityll | Intr_Divq128 | Intr_AArch64ReadCacheType
  | Intr_AArch64DcCvau | Intr_AArch64IcIvau | Intr_AArch64DsbIsh | Intr_AArch64Isb
  | Intr_Ffs | Intr_Ffsll | Intr_Atomic128CmpXchg | Intr_Atomic128Xchg
  | Intr_Atomic128FetchAnd | Intr_Atomic128FetchOr | Intr_Atomic128Load
  | Intr_Atomic128Store | Intr_Atomic128LoadEx | Intr_Atomic128StoreEx | Intr_ReturnAddress
  | Intr_Atomic128StoreInsert | Intr_X86FxSave | Intr_X86FxRestore | Intr_X86Sgdt
  | Intr_X86Sidt | Intr_X86Sldt | Intr_X86Str | Intr_X86Lgdt | Intr_X86Lidt
  | Intr_X86Clflush | Intr_X86Lldt | Intr_StackPointer | Intr_ConstantP
  | Intr_AtomicAcquireFence | Intr_AtomicReleaseFence | Intr_AtomicSignalFence
  | Intr_PlatformRegister | Intr_FuncletFrame | Intr_EstablisherFrame

text \<open>The discriminants, and the decoder of a call's operand.\<close>

primrec discriminant :: "Intrinsic \<Rightarrow> i64" where
  "discriminant Intr_Alloca = 1"
| "discriminant Intr_SetjmpAArch64 = 2"
| "discriminant Intr_LongjmpAArch64 = 3"
| "discriminant Intr_VaStart = 4"
| "discriminant Intr_VaArg = 5"
| "discriminant Intr_VaEnd = 6"
| "discriminant Intr_VaCopy = 7"
| "discriminant Intr_Fma = 8"
| "discriminant Intr_Fmaf = 9"
| "discriminant Intr_Trap = 10"
| "discriminant Intr_Sqrt = 11"
| "discriminant Intr_Sqrtf = 12"
| "discriminant Intr_Fabs = 13"
| "discriminant Intr_Fabsf = 14"
| "discriminant Intr_Floor = 15"
| "discriminant Intr_Floorf = 16"
| "discriminant Intr_Ceil = 17"
| "discriminant Intr_Ceilf = 18"
| "discriminant Intr_Trunc = 19"
| "discriminant Intr_Truncf = 20"
| "discriminant Intr_Clz = 21"
| "discriminant Intr_Ctz = 22"
| "discriminant Intr_Popcount = 23"
| "discriminant Intr_Clzll = 24"
| "discriminant Intr_Ctzll = 25"
| "discriminant Intr_Popcountll = 26"
| "discriminant Intr_Bswap16 = 27"
| "discriminant Intr_Bswap32 = 28"
| "discriminant Intr_Bswap64 = 29"
| "discriminant Intr_FrameAddress = 30"
| "discriminant Intr_CpuRelax = 31"
| "discriminant Intr_X87StoreControlWord = 41"
| "discriminant Intr_X87LoadControlWord = 42"
| "discriminant Intr_AtomicThreadFence = 43"
| "discriminant Intr_AllocaSave = 44"
| "discriminant Intr_AllocaRestore = 45"
| "discriminant Intr_Clrsb = 46"
| "discriminant Intr_Clrsbll = 47"
| "discriminant Intr_Parity = 48"
| "discriminant Intr_Parityll = 49"
| "discriminant Intr_Divq128 = 50"
| "discriminant Intr_AArch64ReadCacheType = 51"
| "discriminant Intr_AArch64DcCvau = 52"
| "discriminant Intr_AArch64IcIvau = 53"
| "discriminant Intr_AArch64DsbIsh = 54"
| "discriminant Intr_AArch64Isb = 55"
| "discriminant Intr_Ffs = 56"
| "discriminant Intr_Ffsll = 57"
| "discriminant Intr_Atomic128CmpXchg = 58"
| "discriminant Intr_Atomic128Xchg = 59"
| "discriminant Intr_Atomic128FetchAnd = 60"
| "discriminant Intr_Atomic128FetchOr = 61"
| "discriminant Intr_Atomic128Load = 62"
| "discriminant Intr_Atomic128Store = 63"
| "discriminant Intr_Atomic128LoadEx = 64"
| "discriminant Intr_Atomic128StoreEx = 65"
| "discriminant Intr_ReturnAddress = 66"
| "discriminant Intr_Atomic128StoreInsert = 67"
| "discriminant Intr_X86FxSave = 68"
| "discriminant Intr_X86FxRestore = 69"
| "discriminant Intr_X86Sgdt = 70"
| "discriminant Intr_X86Sidt = 71"
| "discriminant Intr_X86Sldt = 72"
| "discriminant Intr_X86Str = 73"
| "discriminant Intr_X86Lgdt = 74"
| "discriminant Intr_X86Lidt = 75"
| "discriminant Intr_X86Clflush = 76"
| "discriminant Intr_X86Lldt = 77"
| "discriminant Intr_StackPointer = 78"
| "discriminant Intr_ConstantP = 79"
| "discriminant Intr_AtomicAcquireFence = 80"
| "discriminant Intr_AtomicReleaseFence = 81"
| "discriminant Intr_AtomicSignalFence = 82"
| "discriminant Intr_PlatformRegister = 83"
| "discriminant Intr_FuncletFrame = 84"
| "discriminant Intr_EstablisherFrame = 85"

definition intrinsic_table :: "(i64 \<times> Intrinsic) list" where
  "intrinsic_table =
     [(1, Intr_Alloca), (2, Intr_SetjmpAArch64), (3, Intr_LongjmpAArch64), (4, Intr_VaStart),
      (5, Intr_VaArg), (6, Intr_VaEnd), (7, Intr_VaCopy), (8, Intr_Fma), (9, Intr_Fmaf),
      (10, Intr_Trap), (11, Intr_Sqrt), (12, Intr_Sqrtf), (13, Intr_Fabs),
      (14, Intr_Fabsf), (15, Intr_Floor), (16, Intr_Floorf), (17, Intr_Ceil),
      (18, Intr_Ceilf), (19, Intr_Trunc), (20, Intr_Truncf), (21, Intr_Clz),
      (22, Intr_Ctz), (23, Intr_Popcount), (24, Intr_Clzll), (25, Intr_Ctzll),
      (26, Intr_Popcountll), (27, Intr_Bswap16), (28, Intr_Bswap32), (29, Intr_Bswap64),
      (30, Intr_FrameAddress), (31, Intr_CpuRelax), (41, Intr_X87StoreControlWord),
      (42, Intr_X87LoadControlWord), (43, Intr_AtomicThreadFence), (44, Intr_AllocaSave),
      (45, Intr_AllocaRestore), (46, Intr_Clrsb), (47, Intr_Clrsbll), (48, Intr_Parity),
      (49, Intr_Parityll), (50, Intr_Divq128), (51, Intr_AArch64ReadCacheType),
      (52, Intr_AArch64DcCvau), (53, Intr_AArch64IcIvau), (54, Intr_AArch64DsbIsh),
      (55, Intr_AArch64Isb), (56, Intr_Ffs), (57, Intr_Ffsll),
      (58, Intr_Atomic128CmpXchg), (59, Intr_Atomic128Xchg),
      (60, Intr_Atomic128FetchAnd), (61, Intr_Atomic128FetchOr),
      (62, Intr_Atomic128Load), (63, Intr_Atomic128Store), (64, Intr_Atomic128LoadEx),
      (65, Intr_Atomic128StoreEx), (66, Intr_ReturnAddress),
      (67, Intr_Atomic128StoreInsert), (68, Intr_X86FxSave), (69, Intr_X86FxRestore),
      (70, Intr_X86Sgdt), (71, Intr_X86Sidt), (72, Intr_X86Sldt), (73, Intr_X86Str),
      (74, Intr_X86Lgdt), (75, Intr_X86Lidt), (76, Intr_X86Clflush), (77, Intr_X86Lldt),
      (78, Intr_StackPointer), (79, Intr_ConstantP), (80, Intr_AtomicAcquireFence),
      (81, Intr_AtomicReleaseFence), (82, Intr_AtomicSignalFence),
      (83, Intr_PlatformRegister), (84, Intr_FuncletFrame), (85, Intr_EstablisherFrame)]"

definition from_i64 :: "i64 \<Rightarrow> Intrinsic option" where
  "from_i64 v = map_of intrinsic_table v"

definition is_bswap :: "Intrinsic \<Rightarrow> bool" where
  "is_bswap i \<longleftrightarrow>
     i \<in> {Intr_Bswap16, Intr_Bswap32, Intr_Bswap64}"

definition is_int_bit_unary :: "Intrinsic \<Rightarrow> bool" where
  "is_int_bit_unary i \<longleftrightarrow>
     i \<in> {Intr_Clz, Intr_Ctz, Intr_Popcount, Intr_Clzll, Intr_Ctzll, Intr_Popcountll, Intr_Clrsb,
       Intr_Clrsbll, Intr_Parity, Intr_Parityll, Intr_Ffs, Intr_Ffsll}"

definition is_bit_unary_64 :: "Intrinsic \<Rightarrow> bool" where
  "is_bit_unary_64 i \<longleftrightarrow>
     i \<in> {Intr_Clzll, Intr_Ctzll, Intr_Popcountll, Intr_Clrsbll, Intr_Parityll, Intr_Ffsll}"

definition is_clrsb :: "Intrinsic \<Rightarrow> bool" where
  "is_clrsb i \<longleftrightarrow>
     i \<in> {Intr_Clrsb, Intr_Clrsbll}"

definition is_fp_unary :: "Intrinsic \<Rightarrow> bool" where
  "is_fp_unary i \<longleftrightarrow>
     i \<in> {Intr_Sqrt, Intr_Sqrtf, Intr_Fabs, Intr_Fabsf, Intr_Floor, Intr_Floorf, Intr_Ceil,
       Intr_Ceilf, Intr_Trunc, Intr_Truncf}"

definition is_single_precision :: "Intrinsic \<Rightarrow> bool" where
  "is_single_precision i \<longleftrightarrow>
     i \<in> {Intr_Fmaf, Intr_Sqrtf, Intr_Fabsf, Intr_Floorf, Intr_Ceilf, Intr_Truncf}"

definition is_frame_bound :: "Intrinsic \<Rightarrow> bool" where
  "is_frame_bound i \<longleftrightarrow>
     i \<in> {Intr_Alloca, Intr_SetjmpAArch64, Intr_LongjmpAArch64, Intr_VaStart, Intr_AllocaSave,
       Intr_AllocaRestore}"

definition intrinsic_is_noreturn :: "i64 \<Rightarrow> bool" where
  "intrinsic_is_noreturn kind \<longleftrightarrow> kind = discriminant Intr_Trap \<or> kind = discriminant Intr_LongjmpAArch64"

section \<open>Variadic argument descriptors\<close>

text \<open>The fields are \<open>u32\<close> and \<open>u8\<close> words.\<close>

record VaArgDesc =
  vd_size :: u32
  vd_kind :: u8
  vd_align :: u32
  by_ref :: bool
  elements :: u8
  eightbytes :: u8

abbreviation (input) VA_INT :: u8 where "VA_INT \<equiv> 0"
abbreviation (input) VA_FLOAT :: u8 where "VA_FLOAT \<equiv> 1"
abbreviation (input) VA_VECTOR :: u8 where "VA_VECTOR \<equiv> 2"
abbreviation (input) VA_MEMORY :: u8 where "VA_MEMORY \<equiv> 3"
abbreviation (input) VA_HOMOGENEOUS :: u8 where "VA_HOMOGENEOUS \<equiv> 4"
abbreviation (input) VA_EIGHTBYTES :: u8 where "VA_EIGHTBYTES \<equiv> 5"
abbreviation (input) VA_NONE :: u8 where "VA_NONE \<equiv> 6"

definition eightbyte :: "VaArgDesc \<Rightarrow> nat \<Rightarrow> u8" where
  "eightbyte self k = drop_bit (2 * k) (eightbytes self) AND 3"

definition va_pack :: "VaArgDesc \<Rightarrow> i64" where
  "va_pack self =
     push_bit 29 (ucast (eightbytes self AND 0xf)) OR
     push_bit 26 (ucast (elements self AND 7)) OR
     push_bit 25 (if by_ref self then 1 else 0) OR
     push_bit 24 (if vd_align self > 8 then 1 else 0) OR
     push_bit 16 (ucast (vd_kind self)) OR
     ucast (vd_size self AND 0xffff)"

definition va_unpack :: "i64 \<Rightarrow> VaArgDesc" where
  "va_unpack d =
     \<lparr>vd_size = ucast (d AND 0xffff),
      vd_kind = ucast (signed_drop_bit 16 d AND 0xff),
      vd_align = (if signed_drop_bit 24 d AND 1 \<noteq> 0 then 16 else 8),
      by_ref = (signed_drop_bit 25 d AND 1 \<noteq> 0),
      elements = ucast (signed_drop_bit 26 d AND 7),
      eightbytes = ucast (signed_drop_bit 29 d AND 0xf)\<rparr>"

text \<open>What a descriptor word keeps: sizes below 64 KiB, two alignments, seven elements.\<close>

definition va_desc_fits :: "VaArgDesc \<Rightarrow> bool" where
  "va_desc_fits d \<longleftrightarrow>
     vd_size d < 0x10000 \<and> vd_align d \<in> {8, 16} \<and> elements d < 8 \<and> eightbytes d < 16"

section \<open>Laws\<close>

lemma from_discriminant: "from_i64 (discriminant i) = Some i"
  by (cases i) (simp_all add: from_i64_def intrinsic_table_def)

text \<open>Masks of low bits as truncations, so that the bit rules decide the fields.\<close>

lemma mask_as_take_bit:
  "(x :: 'a::len word) AND 1 = take_bit 1 x" "x AND 3 = take_bit 2 x" "x AND 7 = take_bit 3 x"
  "x AND 0xf = take_bit 4 x" "x AND 0xff = take_bit 8 x" "x AND 0xffff = take_bit 16 x"
  by (simp_all add: take_bit_eq_mask mask_eq_exp_minus_1)

lemma take_bit_1_nonzero: "take_bit 1 (x :: 'a::len word) \<noteq> 0 \<longleftrightarrow> bit x 0"
  by (simp add: bit_0 take_bit_Suc mod_2_eq_odd)

lemma bit_flag: "k < 64 \<Longrightarrow> bit (push_bit k (if b then 1 else 0) :: i64) n \<longleftrightarrow> b \<and> n = k"
  by (auto simp: bit_push_bit_iff bit_1_iff)

lemma bit_field:
  "w \<le> LENGTH('a) \<Longrightarrow> k + w \<le> 64 \<Longrightarrow>
   bit (push_bit k (ucast (take_bit w (x :: 'a::len word))) :: i64) n \<longleftrightarrow> k \<le> n \<and> n < k + w \<and> bit x (n - k)"
  by (auto simp: bit_push_bit_iff bit_ucast_iff bit_take_bit_iff)

lemma bit_signed_shift: "k + n < 64 \<Longrightarrow> bit (signed_drop_bit k (w :: i64)) n \<longleftrightarrow> bit w (k + n)"
  by (auto simp: bit_signed_drop_bit_iff)

lemma small_bit:
  assumes "unat (x :: 'a::len word) < 2 ^ n" "n \<le> i"
  shows "\<not> bit x i"
proof -
  have "unat x < 2 ^ i" using assms by (meson less_le_trans one_le_numeral power_increasing)
  then have "\<not> bit (unat x) i" by (simp add: bit_iff_odd)
  then show ?thesis by (auto simp: bit_unsigned_iff dest: bit_imp_le_length)
qed

lemma bit_va_pack:
  "bit (va_pack d) n \<longleftrightarrow>
     (29 \<le> n \<and> n < 29 + 4 \<and> bit (eightbytes d) (n - 29)) \<or>
     (26 \<le> n \<and> n < 26 + 3 \<and> bit (elements d) (n - 26)) \<or>
     (by_ref d \<and> n = 25) \<or> (8 < vd_align d \<and> n = 24) \<or>
     (16 \<le> n \<and> n < 16 + 8 \<and> bit (vd_kind d) (n - 16)) \<or>
     (0 \<le> n \<and> n < 0 + 16 \<and> bit (vd_size d) (n - 0))"
proof -
  have k: "vd_kind d = take_bit 8 (vd_kind d)" by (simp add: take_bit_word_eq_self)
  have "va_pack d = push_bit 29 (ucast (take_bit 4 (eightbytes d))) OR
     push_bit 26 (ucast (take_bit 3 (elements d))) OR
     push_bit 25 (if by_ref d then 1 else 0) OR
     push_bit 24 (if vd_align d > 8 then 1 else 0) OR
     push_bit 16 (ucast (take_bit 8 (vd_kind d))) OR
     push_bit 0 (ucast (take_bit 16 (vd_size d)))"
    unfolding va_pack_def mask_as_take_bit k [symmetric] push_bit_0_id id_apply ..
  then show ?thesis
    by (simp only: bit_or_iff disj_assoc) (intro arg_cong2 [where f = "(\<or>)"] bit_field bit_flag; simp)
qed

lemma va_unpack_fields:
  "bit (vd_size (va_unpack w)) n \<longleftrightarrow> n < 16 \<and> bit w n"
  "bit (vd_kind (va_unpack w)) n \<longleftrightarrow> n < 8 \<and> bit w (16 + n)"
  "vd_align (va_unpack w) = (if bit w 24 then 16 else 8)"
  "by_ref (va_unpack w) \<longleftrightarrow> bit w 25"
  "bit (elements (va_unpack w)) n \<longleftrightarrow> n < 3 \<and> bit w (26 + n)"
  "bit (eightbytes (va_unpack w)) n \<longleftrightarrow> n < 4 \<and> bit w (29 + n)"
  unfolding va_unpack_def VaArgDesc.select_convs mask_as_take_bit take_bit_1_nonzero
  by (auto simp: bit_ucast_iff bit_take_bit_iff bit_signed_shift)

lemma pack_unpack: "va_pack (va_unpack w) = take_bit 33 w"
proof (rule bit_word_eqI)
  fix n assume n: "n < LENGTH(64)"
  have e: "k \<le> n \<Longrightarrow> k + (n - k) = n" for k by simp
  have c: "n < 16 \<or> (16 \<le> n \<and> n < 24) \<or> n = 24 \<or> n = 25 \<or> (26 \<le> n \<and> n < 29) \<or> (29 \<le> n \<and> n < 33) \<or> 33 \<le> n"
    by linarith
  show "bit (va_pack (va_unpack w)) n \<longleftrightarrow> bit (take_bit 33 w) n"
    unfolding bit_va_pack va_unpack_fields bit_take_bit_iff
    using c by (elim disjE) (simp_all add: e less_diff_conv2)
qed

lemma unpack_pack:
  assumes "va_desc_fits d"
  shows "va_unpack (va_pack d) = d"
proof -
  have b: "unat (vd_size d) < 2 ^ 16" "unat (elements d) < 2 ^ 3" "unat (eightbytes d) < 2 ^ 4" "vd_align d \<in> {8, 16}"
    using assms by (auto simp: va_desc_fits_def word_less_nat_alt)
  have e: "k + n - k = n" for k n :: nat by simp
  have "vd_size (va_unpack (va_pack d)) = vd_size d"
  proof (rule bit_word_eqI)
    show "bit (vd_size (va_unpack (va_pack d))) n = bit (vd_size d) n" for n
      unfolding va_unpack_fields bit_va_pack e by (cases "n < 16") (simp_all add: small_bit [OF b(1)])
  qed
  moreover have "vd_kind (va_unpack (va_pack d)) = vd_kind d"
    by (rule bit_word_eqI, unfold va_unpack_fields bit_va_pack e) simp
  moreover have "elements (va_unpack (va_pack d)) = elements d"
  proof (rule bit_word_eqI)
    show "bit (elements (va_unpack (va_pack d))) n = bit (elements d) n" for n
      unfolding va_unpack_fields bit_va_pack e by (cases "n < 3") (simp_all add: small_bit [OF b(2)])
  qed
  moreover have "eightbytes (va_unpack (va_pack d)) = eightbytes d"
  proof (rule bit_word_eqI)
    show "bit (eightbytes (va_unpack (va_pack d))) n = bit (eightbytes d) n" for n
      unfolding va_unpack_fields bit_va_pack e by (cases "n < 4") (simp_all add: small_bit [OF b(3)])
  qed
  moreover have "vd_align (va_unpack (va_pack d)) = vd_align d" "by_ref (va_unpack (va_pack d)) = by_ref d"
    using b(4) unfolding va_unpack_fields bit_va_pack by auto
  ultimately show ?thesis by (intro VaArgDesc.equality) simp_all
qed

end
