(* ===== verification/Vm_Exec.thy ===== *)
theory Vm_Exec
  imports Vm_Heap Eval Intrinsics
begin

text \<open>
  The instruction step of the SSA interpreter, \<^verbatim>\<open>src/src/c5/vm/ssa.rs\<close>: frames, code
  positions, the arms of \<open>run_inst\<close> and the calls they make.  A computation maps the state to a
  result and a state, so that the state an error leaves behind is visible: \<open>exit\<close> unwinds the
  interpreter as an error, and destructors run on what it left.  \<open>Stop_Panic\<close> is a Rust panic,
  \<open>Stop_Overflow\<close> the panic of a build with overflow checks on an address whose end is past
  \<open>usize\<close>, and \<open>Stop_Fuel\<close> a run that was cut short.
\<close>

section \<open>Results\<close>

datatype vm_error =
    VE_Mem mem_error
  | VE_Heap heap_error
  | VE_NotData i64
  | VE_Slot i64
  | VE_CodeOperand
  | VE_BadOperands
  | VE_NoFunction nat
  | VE_Binding i64
  | VE_Position i64
  | VE_NotCode i64
  | VE_Goto i64
  | VE_JumpTable nat
  | VE_Trap EvalTrap
  | VE_DivOverflow
  | VE_Exit i64
  | VE_Library string
  | VE_Unimplemented string
  | VE_Intrinsic string
  | VE_UnknownIntrinsic i64
  | VE_Unreachable
  | VE_TooLarge

datatype stop = Stop_Err vm_error | Stop_Panic | Stop_Overflow | Stop_Fuel

text \<open>The machine: the memory and the host behind it.\<close>

record ('fp, 'h) Machine =
  vm_mem :: "'fp Memory"
  vm_host :: 'h

text \<open>The state an instruction works on: the machine and the registers of its frame.\<close>

record ('fp, 'h) VmState = "('fp, 'h) Machine" +
  regs :: "i64 list"

type_synonym ('s, 'a) exec = "'s \<Rightarrow> (stop + 'a) \<times> 's"

definition ret :: "'a \<Rightarrow> ('s, 'a) exec" where
  "ret x = (\<lambda>s. (Inr x, s))"

definition stop_with :: "stop \<Rightarrow> ('s, 'a) exec" where
  "stop_with e = (\<lambda>s. (Inl e, s))"

abbreviation throw :: "vm_error \<Rightarrow> ('s, 'a) exec" where
  "throw e \<equiv> stop_with (Stop_Err e)"

definition andThen :: "('s, 'a) exec \<Rightarrow> ('a \<Rightarrow> ('s, 'b) exec) \<Rightarrow> ('s, 'b) exec" where
  "andThen m f = (\<lambda>s. case m s of (Inl e, s') \<Rightarrow> (Inl e, s') | (Inr x, s') \<Rightarrow> f x s')"

definition check_that :: "bool \<Rightarrow> vm_error \<Rightarrow> ('s, unit) exec" where
  "check_that b e = (if b then ret () else throw e)"

text \<open>Index into a vector: out of range is a panic.\<close>

definition index_of :: "'a list \<Rightarrow> nat \<Rightarrow> ('s, 'a) exec" where
  "index_of xs i = (if i < length xs then ret (xs ! i) else stop_with Stop_Panic)"

text \<open>The first element, then the rest.\<close>

fun each :: "('a \<Rightarrow> ('s, 'b) exec) \<Rightarrow> 'a list \<Rightarrow> ('s, 'b list) exec" where
  "each f [] = ret []"
| "each f (x # xs) = andThen (f x) (\<lambda>y. andThen (each f xs) (\<lambda>ys. ret (y # ys)))"

definition get_reg :: "ValueId \<Rightarrow> (('fp, 'h) VmState, i64) exec" where
  "get_reg v = (\<lambda>s. index_of (regs s) v s)"

definition set_reg :: "ValueId \<Rightarrow> i64 \<Rightarrow> (('fp, 'h) VmState, unit) exec" where
  "set_reg v x = (\<lambda>s. if v < length (regs s) then (Inr (), s\<lparr>regs := (regs s)[v := x]\<rparr>) else (Inl Stop_Panic, s))"

text \<open>An operation of the memory that reads it, and one that replaces it.\<close>

definition read_mem :: "('fp Memory \<Rightarrow> mem_error + 'a) \<Rightarrow> (('fp, 'h, 'z) Machine_scheme, 'a) exec" where
  "read_mem f = (\<lambda>s. case f (vm_mem s) of Inl e \<Rightarrow> (Inl (Stop_Err (VE_Mem e)), s) | Inr x \<Rightarrow> (Inr x, s))"

definition write_mem :: "('fp Memory \<Rightarrow> mem_error + 'fp Memory) \<Rightarrow> (('fp, 'h, 'z) Machine_scheme, unit) exec" where
  "write_mem f =
     (\<lambda>s. case f (vm_mem s) of
            Inl e \<Rightarrow> (Inl (Stop_Err (VE_Mem e)), s)
          | Inr m \<Rightarrow> (Inr (), s\<lparr>vm_mem := m\<rparr>))"

text \<open>An operation of the memory that returns a value and replaces it.\<close>

definition on_mem :: "('fp Memory \<Rightarrow> mem_error + 'a \<times> 'fp Memory) \<Rightarrow> (('fp, 'h, 'z) Machine_scheme, 'a) exec" where
  "on_mem f =
     (\<lambda>s. case f (vm_mem s) of
            Inl e \<Rightarrow> (Inl (Stop_Err (VE_Mem e)), s)
          | Inr (x, m) \<Rightarrow> (Inr x, s\<lparr>vm_mem := m\<rparr>))"

text \<open>An operation of the floating-point environment.\<close>

definition with_fp :: "('fp \<Rightarrow> 'a \<times> 'fp) \<Rightarrow> (('fp, 'h, 'z) Machine_scheme, 'a) exec" where
  "with_fp f = (\<lambda>s. case f (fp (vm_mem s)) of (x, e) \<Rightarrow> (Inr x, s\<lparr>vm_mem := (vm_mem s)\<lparr>fp := e\<rparr>\<rparr>))"

section \<open>What the interpreter is given\<close>

text \<open>
  The floating-point environment of the interpreter rounds to binary32 when the flag is set.
\<close>

record 'fp fp_env =
  fe_add :: "u64 \<Rightarrow> u64 \<Rightarrow> bool \<Rightarrow> 'fp \<Rightarrow> u64 \<times> 'fp"
  fe_sub :: "u64 \<Rightarrow> u64 \<Rightarrow> bool \<Rightarrow> 'fp \<Rightarrow> u64 \<times> 'fp"
  fe_mul :: "u64 \<Rightarrow> u64 \<Rightarrow> bool \<Rightarrow> 'fp \<Rightarrow> u64 \<times> 'fp"
  fe_div :: "u64 \<Rightarrow> u64 \<Rightarrow> bool \<Rightarrow> 'fp \<Rightarrow> u64 \<times> 'fp"
  fe_compare_operands :: "u64 \<Rightarrow> u64 \<Rightarrow> 'fp \<Rightarrow> unit \<times> 'fp"
  fe_fma :: "u64 \<Rightarrow> u64 \<Rightarrow> u64 \<Rightarrow> bool \<Rightarrow> 'fp \<Rightarrow> u64 \<times> 'fp"
  fe_float_to_int :: "u64 \<Rightarrow> bool \<Rightarrow> 'fp \<Rightarrow> i64 \<times> 'fp"
  fe_int_to_float :: "int \<Rightarrow> bool \<Rightarrow> 'fp \<Rightarrow> u64 \<times> 'fp"
  fe_narrow :: "u64 \<Rightarrow> 'fp \<Rightarrow> u64 \<times> 'fp"
  fe_sqrt :: "u64 \<Rightarrow> bool \<Rightarrow> 'fp \<Rightarrow> u64 \<times> 'fp"

text \<open>The calls of the \<open>Host\<close> trait that the modelled library functions make.\<close>

record 'h host_calls =
  host_write :: "i64 \<Rightarrow> u8 list \<Rightarrow> 'h \<Rightarrow> i64 \<times> 'h"
  host_read :: "i64 \<Rightarrow> nat \<Rightarrow> 'h \<Rightarrow> (i64 \<times> u8 list) \<times> 'h"
  host_close :: "i64 \<Rightarrow> 'h \<Rightarrow> i64 \<times> 'h"

section \<open>Code positions\<close>

abbreviation (input) CODE_ADDR_TAG :: i64 where "CODE_ADDR_TAG \<equiv> 0x4000000000000000"
abbreviation (input) CODE_POSITION_TAG :: i64 where "CODE_POSITION_TAG \<equiv> 0x1000000000000000"
abbreviation (input) IMPORT_ADDR_TAG :: i64 where "IMPORT_ADDR_TAG \<equiv> 0x2000000000000000"
abbreviation (input) CODE_POSITION_FIELD :: nat where "CODE_POSITION_FIELD \<equiv> 1048576"
abbreviation (input) CODE_BASE :: nat where "CODE_BASE \<equiv> 0x20000000"
abbreviation (input) FRAME_RECORD_BYTES :: nat where "FRAME_RECORD_BYTES \<equiv> 16"

definition code_position :: "nat \<Rightarrow> nat \<Rightarrow> nat \<Rightarrow> i64" where
  "code_position func_idx blk offset =
     CODE_ADDR_TAG OR CODE_POSITION_TAG OR push_bit 40 (of_nat func_idx) OR
     push_bit 20 (of_nat blk) OR of_nat offset"

definition label_block :: "FunctionSsa \<Rightarrow> nat \<Rightarrow> i64 \<Rightarrow> nat option" where
  "label_block func func_idx position =
     (let blk = unat (signed_drop_bit 20 position AND 0xFFFFF)
      in if blk \<in> set (computed_goto_targets func) \<and> position = code_position func_idx blk 0
         then Some blk else None)"

section \<open>Programs and frames\<close>

record Program =
  funcs :: "FunctionSsa list"
  ent_pc_to_idx :: "nat \<rightharpoonup> nat"
  binding_names :: "string list"
  tls_base :: nat
  aarch64 :: bool

definition program_new :: "FunctionSsa list \<Rightarrow> string list \<Rightarrow> nat \<Rightarrow> Target \<Rightarrow> Program" where
  "program_new fs names base tgt =
     \<lparr>funcs = fs,
      ent_pc_to_idx = foldl (\<lambda>m (i, f). m(ent_pc f \<mapsto> i)) Map.empty (List.enumerate 0 fs),
      binding_names = names, tls_base = base, aarch64 = is_aarch64 tgt\<rparr>"

definition binding_name :: "Program \<Rightarrow> i64 \<Rightarrow> ('s, string) exec" where
  "binding_name prog idx =
     (if 0 \<le> sint idx \<and> unat idx < length (binding_names prog)
      then ret (binding_names prog ! unat idx) else throw (VE_Binding idx))"

record CallLink =
  cl_func_idx :: nat
  caller_record :: nat
  return_address :: i64

definition link_entry :: "nat \<Rightarrow> CallLink" where
  "link_entry idx = \<lparr>cl_func_idx = idx, caller_record = 0, return_address = 0\<rparr>"

text \<open>A frame; its registers are part of the state.\<close>

record Frame =
  fr_func :: FunctionSsa
  fr_stack_base :: nat
  fr_record :: nat
  fr_func_idx :: nat
  frame_bytes :: nat
  fr_locals :: nat
  realign_base :: nat
  block_idx :: nat

definition link_to :: "Frame \<Rightarrow> nat \<Rightarrow> ValueId \<Rightarrow> ('s, CallLink) exec" where
  "link_to self callee call =
     andThen (index_of (blocks (fr_func self)) (block_idx self)) (\<lambda>blk.
       ret \<lparr>cl_func_idx = callee, caller_record = fr_record self,
            return_address = code_position (fr_func_idx self) (block_idx self) (call - fst (inst_range blk) + 1)\<rparr>)"

text \<open>The address of a slot.  An over-aligned object lives in the realigned region.\<close>

definition slot_addr :: "Frame \<Rightarrow> i64 \<Rightarrow> nat option" where
  "slot_addr self off =
     (if sint off < 0 then
        (case (if realign_base self \<noteq> 0 then find (\<lambda>m. rm_slot m = off) (over_aligned (fr_func self)) else None) of
           Some m \<Rightarrow> Some (realign_base self + nat (rm_off m))
         | None \<Rightarrow>
             let slot_n = nat (- sint off)
             in if 1 \<le> slot_n \<and> slot_n \<le> fr_locals self
                then Some (fr_stack_base self + (fr_locals self - slot_n) * 8) else None)
      else if 2 \<le> sint off then
        let i = nat (sint off - 2); frame_slots = frame_bytes self div 8
        in if fr_locals self + i < frame_slots
           then Some (fr_stack_base self + (fr_locals self + i) * 8) else None
      else None)"

definition slot_of :: "Frame \<Rightarrow> i64 \<Rightarrow> ('s, nat) exec" where
  "slot_of fr off = (case slot_addr fr off of Some a \<Rightarrow> ret a | None \<Rightarrow> throw (VE_Slot off))"

definition f32_flag :: "Frame \<Rightarrow> ValueId \<Rightarrow> bool option" where
  "f32_flag fr v =
     (if v < length (f32_values (fr_func fr)) then Some (f32_values (fr_func fr) ! v) else None)"

definition f32_value :: "Frame \<Rightarrow> ValueId \<Rightarrow> bool" where
  "f32_value fr v \<longleftrightarrow> v < length (f32_values (fr_func fr)) \<and> f32_values (fr_func fr) ! v"

section \<open>Guards\<close>

definition not_data :: "i64 \<Rightarrow> bool" where
  "not_data a \<longleftrightarrow> a AND CODE_ADDR_TAG \<noteq> 0 \<or> sint a < 0 \<or> (CODE_BASE \<le> unat a \<and> unat a < CODE_BASE + 2 ^ 20)"

definition data_addr :: "i64 \<Rightarrow> ('s, unit) exec" where
  "data_addr a = check_that (\<not> not_data a) (VE_NotData a)"

definition checked :: "i64 \<Rightarrow> nat \<Rightarrow> AccessKind \<Rightarrow> (('fp, 'h, 'z) Machine_scheme, unit) exec" where
  "checked a n kind = read_mem (\<lambda>m. check_data_access m (unat a) n kind)"

text \<open>Checks for a read and a write of the same bytes.\<close>

definition checked_both :: "i64 \<Rightarrow> nat \<Rightarrow> (('fp, 'h, 'z) Machine_scheme, unit) exec" where
  "checked_both a n = andThen (checked a n AccessKind_Read) (\<lambda>_. checked a n AccessKind_Write)"

text \<open>The end of an access is formed with an unchecked addition.\<close>

definition in_usize :: "nat \<Rightarrow> nat \<Rightarrow> ('s, unit) exec" where
  "in_usize a n = (if a + n < 2 ^ 64 then ret () else stop_with Stop_Overflow)"

definition load_mem :: "fp_cast \<Rightarrow> nat \<Rightarrow> LoadKind \<Rightarrow> (('fp, 'h, 'z) Machine_scheme, i64) exec" where
  "load_mem C a kind =
     andThen (in_usize a (load_width kind)) (\<lambda>_. read_mem (\<lambda>m. load_from_memory C m a kind))"

definition store_mem :: "fp_cast \<Rightarrow> nat \<Rightarrow> i64 \<Rightarrow> StoreKind \<Rightarrow> (('fp, 'h, 'z) Machine_scheme, unit) exec" where
  "store_mem C a x kind =
     andThen (in_usize a (store_width kind)) (\<lambda>_. write_mem (\<lambda>m. store_to_memory C m a x kind))"

definition copy_mem :: "nat \<Rightarrow> nat \<Rightarrow> nat \<Rightarrow> (('fp, 'h, 'z) Machine_scheme, unit) exec" where
  "copy_mem dst src n =
     andThen (in_usize dst n) (\<lambda>_. andThen (in_usize src n) (\<lambda>_. write_mem (\<lambda>m. copy_within m dst src n)))"

section \<open>Memory instructions\<close>

definition inst_load :: "fp_cast \<Rightarrow> ValueId \<Rightarrow> ValueId \<Rightarrow> i32 \<Rightarrow> LoadKind \<Rightarrow> (('fp, 'h) VmState, unit) exec" where
  "inst_load C v addr disp kind =
     andThen (get_reg addr) (\<lambda>base.
       let a = base + scast disp in
       andThen (data_addr a) (\<lambda>_.
       andThen (checked a (load_width kind) AccessKind_Read) (\<lambda>_.
       andThen (load_mem C (unat a) kind) (set_reg v))))"

definition inst_store ::
  "fp_cast \<Rightarrow> ValueId \<Rightarrow> ValueId \<Rightarrow> i32 \<Rightarrow> ValueId \<Rightarrow> StoreKind \<Rightarrow> (('fp, 'h) VmState, unit) exec" where
  "inst_store C v addr disp val kind =
     andThen (get_reg addr) (\<lambda>base.
       let a = base + scast disp in
       andThen (data_addr a) (\<lambda>_.
       andThen (checked a (store_width kind) AccessKind_Write) (\<lambda>_.
       andThen (get_reg val) (\<lambda>x.
         let stored = narrow_store x kind in
         andThen (store_mem C (unat a) stored kind) (\<lambda>_. set_reg v stored)))))"

definition local_addr :: "Frame \<Rightarrow> i64 \<Rightarrow> i32 \<Rightarrow> ('s, nat) exec" where
  "local_addr fr off disp =
     andThen (slot_of fr off) (\<lambda>a. ret (unat (of_nat a + scast disp :: i64)))"

definition inst_load_local :: "fp_cast \<Rightarrow> Frame \<Rightarrow> ValueId \<Rightarrow> i64 \<Rightarrow> i32 \<Rightarrow> LoadKind \<Rightarrow> (('fp, 'h) VmState, unit) exec" where
  "inst_load_local C fr v off disp kind =
     andThen (local_addr fr off disp) (\<lambda>a. andThen (load_mem C a kind) (set_reg v))"

definition inst_store_local ::
  "fp_cast \<Rightarrow> Frame \<Rightarrow> ValueId \<Rightarrow> i64 \<Rightarrow> i32 \<Rightarrow> ValueId \<Rightarrow> StoreKind \<Rightarrow> (('fp, 'h) VmState, unit) exec" where
  "inst_store_local C fr v off disp val kind =
     andThen (local_addr fr off disp) (\<lambda>a.
     andThen (get_reg val) (\<lambda>x.
       let stored = narrow_store x kind in
       andThen (store_mem C a stored kind) (\<lambda>_. set_reg v stored)))"

definition inst_mcpy :: "ValueId \<Rightarrow> ValueId \<Rightarrow> ValueId \<Rightarrow> i64 \<Rightarrow> (('fp, 'h) VmState, unit) exec" where
  "inst_mcpy v dst src sz =
     andThen (get_reg dst) (\<lambda>d.
     andThen (get_reg src) (\<lambda>s.
     andThen (check_that (\<not> (d AND CODE_ADDR_TAG \<noteq> 0 \<or> s AND CODE_ADDR_TAG \<noteq> 0)) VE_CodeOperand) (\<lambda>_.
     andThen (check_that (\<not> (sint d < 0 \<or> sint s < 0 \<or> sint sz < 0)) VE_BadOperands) (\<lambda>_.
     andThen (checked s (unat sz) AccessKind_Read) (\<lambda>_.
     andThen (checked d (unat sz) AccessKind_Write) (\<lambda>_.
     andThen (copy_mem (unat d) (unat s) (unat sz)) (\<lambda>_. set_reg v d)))))))"

definition inst_mzero :: "ValueId \<Rightarrow> i64 \<Rightarrow> (('fp, 'h) VmState, unit) exec" where
  "inst_mzero dst sz =
     andThen (get_reg dst) (\<lambda>d.
     andThen (check_that (d AND CODE_ADDR_TAG = 0) VE_CodeOperand) (\<lambda>_.
     andThen (check_that (\<not> (sint d < 0 \<or> sint sz < 0)) VE_BadOperands) (\<lambda>_.
     andThen (checked d (unat sz) AccessKind_Write) (\<lambda>_.
       write_mem (\<lambda>m. fill_bytes m (unat d) 0 (unat sz))))))"

fun rmw_value :: "AtomicRmwOp \<Rightarrow> i64 \<Rightarrow> i64 \<Rightarrow> i64" where
  "rmw_value AtomicRmwOp_Xchg old operand = operand"
| "rmw_value AtomicRmwOp_Add old operand = old + operand"
| "rmw_value AtomicRmwOp_Sub old operand = old - operand"
| "rmw_value AtomicRmwOp_And old operand = old AND operand"
| "rmw_value AtomicRmwOp_Or old operand = old OR operand"
| "rmw_value AtomicRmwOp_Xor old operand = old XOR operand"

definition inst_atomic_rmw ::
  "fp_cast \<Rightarrow> ValueId \<Rightarrow> AtomicRmwOp \<Rightarrow> ValueId \<Rightarrow> ValueId \<Rightarrow> nat \<Rightarrow> (('fp, 'h) VmState, unit) exec" where
  "inst_atomic_rmw C v op addr val width =
     andThen (get_reg addr) (\<lambda>a.
     andThen (get_reg val) (\<lambda>operand.
     andThen (data_addr a) (\<lambda>_.
     andThen (checked_both a width) (\<lambda>_.
     andThen (load_mem C (unat a) (fst (atomic_kinds width))) (\<lambda>old.
       let sk = snd (atomic_kinds width) in
       andThen (store_mem C (unat a) (narrow_store (rmw_value op old operand) sk) sk) (\<lambda>_. set_reg v old))))))"

definition width_mask :: "nat \<Rightarrow> i64" where
  "width_mask width = (if width < 8 then push_bit (8 * width) 1 - 1 else -1)"

definition inst_atomic_cas ::
  "fp_cast \<Rightarrow> ValueId \<Rightarrow> ValueId \<Rightarrow> ValueId \<Rightarrow> ValueId \<Rightarrow> nat \<Rightarrow> (('fp, 'h) VmState, unit) exec" where
  "inst_atomic_cas C v addr expected desired width =
     andThen (get_reg addr) (\<lambda>a.
     andThen (data_addr a) (\<lambda>_.
     andThen (checked_both a width) (\<lambda>_.
     andThen (load_mem C (unat a) (atomic_load_kind width)) (\<lambda>cur.
     andThen (get_reg expected) (\<lambda>e.
     andThen
       (if cur = e AND width_mask width then
          andThen (get_reg desired) (\<lambda>des.
            let sk = snd (atomic_kinds width) in store_mem C (unat a) (narrow_store des sk) sk)
        else ret ()) (\<lambda>_. set_reg v cur))))))"

definition load_pair :: "fp_cast \<Rightarrow> i64 \<Rightarrow> (('fp, 'h, 'z) Machine_scheme, i64 \<times> i64) exec" where
  "load_pair C at =
     andThen (load_mem C (unat at) LoadKind_I64) (\<lambda>l.
     andThen (load_mem C (unat at + 8) LoadKind_I64) (\<lambda>h. ret (l, h)))"

definition inst_atomic_cas16 ::
  "fp_cast \<Rightarrow> ValueId \<Rightarrow> ValueId \<Rightarrow> ValueId \<Rightarrow> ValueId \<Rightarrow> (('fp, 'h) VmState, unit) exec" where
  "inst_atomic_cas16 C v addr expected desired =
     andThen (get_reg addr) (\<lambda>a.
     andThen (get_reg expected) (\<lambda>e.
     andThen (get_reg desired) (\<lambda>d.
     andThen (data_addr a) (\<lambda>_.
     andThen (checked_both a 16) (\<lambda>_.
     andThen (load_pair C a) (\<lambda>cur.
     andThen (load_pair C e) (\<lambda>exp.
     andThen (if cur = exp then andThen (load_pair C d) (\<lambda>new. ret (a, new)) else ret (e, cur)) (\<lambda>(to, val).
     andThen (store_mem C (unat to) (fst val) StoreKind_I64) (\<lambda>_.
     andThen (store_mem C (unat to + 8) (snd val) StoreKind_I64) (\<lambda>_.
       set_reg v (bool_i64 (cur = exp))))))))))))"

definition inst_atomic_load :: "fp_cast \<Rightarrow> ValueId \<Rightarrow> ValueId \<Rightarrow> nat \<Rightarrow> (('fp, 'h) VmState, unit) exec" where
  "inst_atomic_load C v addr width =
     andThen (get_reg addr) (\<lambda>a.
     andThen (data_addr a) (\<lambda>_.
     andThen (checked a width AccessKind_Read) (\<lambda>_.
     andThen (load_mem C (unat a) (atomic_load_kind width)) (set_reg v))))"

definition inst_atomic_store :: "fp_cast \<Rightarrow> ValueId \<Rightarrow> ValueId \<Rightarrow> nat \<Rightarrow> (('fp, 'h) VmState, unit) exec" where
  "inst_atomic_store C addr val width =
     andThen (get_reg addr) (\<lambda>a.
     andThen (data_addr a) (\<lambda>_.
     andThen (checked a width AccessKind_Write) (\<lambda>_.
     andThen (get_reg val) (\<lambda>x.
       let sk = snd (atomic_kinds width) in store_mem C (unat a) (narrow_store x sk) sk))))"

end
