(* ===== verification/Vm_Library.thy ===== *)
theory Vm_Library
  imports Vm_Exec
begin

text \<open>
  The library calls the interpreter answers itself, \<open>dispatch_callext\<close> of
  \<^verbatim>\<open>src/src/c5/vm/ssa.rs\<close>: process exit, block memory functions, allocation and stream
  output.  The formatted-output, environment, dynamic-loading and floating-point-environment
  names go to the parameter \<open>nt_library\<close>; the host behind the streams is \<open>host_calls\<close>.
\<close>

section \<open>What is left to parameters\<close>

text \<open>The rounding functions of the \<open>libm\<close> crate, on bit patterns.\<close>

record libm =
  libm_floor :: "u64 \<Rightarrow> u64"
  libm_ceil :: "u64 \<Rightarrow> u64"
  libm_trunc :: "u64 \<Rightarrow> u64"

record ('fp, 'h) vm_env =
  vm_cast :: fp_cast
  vm_fpu :: fpu
  vm_fp :: "'fp fp_env"
  vm_libm :: libm
  vm_calls :: "'h host_calls"
  vm_reserve :: "nat \<Rightarrow> bool"
  nt_library :: "string \<Rightarrow> i64 list \<Rightarrow> (('fp, 'h) Machine, i64) exec"
  nt_simd :: "Frame \<Rightarrow> nat \<Rightarrow> nat option \<Rightarrow> ValueId list \<Rightarrow> (('fp, 'h) VmState, unit) exec"
  nt_asm :: "bool \<Rightarrow> Frame \<Rightarrow> AsmBlock \<Rightarrow> ValueId list \<Rightarrow> ValueId \<Rightarrow> (('fp, 'h) VmState, unit) exec"

text \<open>A computation of the machine inside a frame.\<close>

definition on_machine :: "(('fp, 'h) Machine, 'a) exec \<Rightarrow> (('fp, 'h) VmState, 'a) exec" where
  "on_machine m =
     (\<lambda>s. case m (Machine.truncate s) of (r, k) \<Rightarrow> (r, s\<lparr>vm_mem := vm_mem k, vm_host := vm_host k\<rparr>))"

section \<open>Arguments\<close>

definition libc_size :: "string \<Rightarrow> i64 option \<Rightarrow> ('s, nat) exec" where
  "libc_size name raw =
     (case raw of
        None \<Rightarrow> throw (VE_Library name)
      | Some n \<Rightarrow> if sint n < 0 then throw (VE_Library name) else ret (unat n))"

definition libc_three_arg :: "string \<Rightarrow> i64 list \<Rightarrow> ('s, nat \<times> nat \<times> nat) exec" where
  "libc_three_arg name args =
     (if length args < 3 then throw (VE_Library name)
      else
        andThen (libc_size name (Some (args ! 2))) (\<lambda>n.
          if sint (args ! 0) < 0 \<or> sint (args ! 1) < 0 then throw (VE_Library name)
          else ret (unat (args ! 0), unat (args ! 1), n)))"

definition arg_get :: "i64 list \<Rightarrow> nat \<Rightarrow> i64 option" where
  "arg_get args i = (if i < length args then Some (args ! i) else None)"

definition arg_or :: "i64 \<Rightarrow> i64 list \<Rightarrow> nat \<Rightarrow> i64" where
  "arg_or d args i = (if i < length args then args ! i else d)"

definition read_cstring_bytes :: "'fp Memory \<Rightarrow> nat \<Rightarrow> u8 list option" where
  "read_cstring_bytes mem addr =
     (let rest = drop addr (bytes mem); str = takeWhile (\<lambda>b. b \<noteq> 0) rest
      in if length str < length rest then Some str else None)"

definition cstring_arg :: "string \<Rightarrow> i64 list \<Rightarrow> nat \<Rightarrow> (('fp, 'h, 'z) Machine_scheme, u8 list) exec" where
  "cstring_arg name args idx =
     (\<lambda>s. case arg_get args idx of
            Some addr \<Rightarrow>
              if 0 \<le> sint addr then
                (case read_cstring_bytes (vm_mem s) (unat addr) of
                   Some str \<Rightarrow> (Inr str, s)
                 | None \<Rightarrow> (Inl (Stop_Err (VE_Library name)), s))
              else (Inl (Stop_Err (VE_Library name)), s)
          | None \<Rightarrow> (Inl (Stop_Err (VE_Library name)), s))"

definition stdio_fd :: "string \<Rightarrow> i64 list \<Rightarrow> nat \<Rightarrow> (('fp, 'h, 'z) Machine_scheme, i64) exec" where
  "stdio_fd name args idx =
     (\<lambda>s. let off = unat (arg_or 0 args idx - of_nat (stdio (vm_mem s)) :: u64)
          in if stdio (vm_mem s) \<noteq> 0 \<and> off < STDIO_SLOTS \<and> off mod STDIO_FILE_BYTES = 0
             then (Inr (of_nat (off div STDIO_FILE_BYTES)), s)
             else (Inl (Stop_Err (VE_Library name)), s))"

definition std_stream_index :: "string \<Rightarrow> nat option" where
  "std_stream_index nm =
     (if nm \<in> {''stdin'', ''__stdinp''} then Some 0
      else if nm \<in> {''stdout'', ''__stdoutp''} then Some 1
      else if nm \<in> {''stderr'', ''__stderrp''} then Some 2
      else None)"

definition to_host :: "('h \<Rightarrow> 'a \<times> 'h) \<Rightarrow> (('fp, 'h, 'z) Machine_scheme, 'a) exec" where
  "to_host f = (\<lambda>s. case f (vm_host s) of (x, h) \<Rightarrow> (Inr x, s\<lparr>vm_host := h\<rparr>))"

section \<open>Block memory functions\<close>

definition libc_memmove :: "string \<Rightarrow> i64 list \<Rightarrow> (('fp, 'h, 'z) Machine_scheme, i64) exec" where
  "libc_memmove name args =
     andThen (libc_three_arg name args) (\<lambda>(dst, src, n).
     andThen (read_mem (\<lambda>m. check_data_access m src n AccessKind_Read)) (\<lambda>_.
     andThen (read_mem (\<lambda>m. check_data_access m dst n AccessKind_Write)) (\<lambda>_.
     andThen (copy_mem dst src n) (\<lambda>_. ret (of_nat dst)))))"

definition libc_memset :: "i64 list \<Rightarrow> (('fp, 'h, 'z) Machine_scheme, i64) exec" where
  "libc_memset args =
     (case arg_get args 0 of
        None \<Rightarrow> throw (VE_Library ''memset'')
      | Some dst \<Rightarrow>
          let val = ucast (arg_or 0 args 1) :: u8 in
          andThen (libc_size ''memset'' (arg_get args 2)) (\<lambda>n.
          andThen (check_that (\<not> sint dst < 0) (VE_Library ''memset'')) (\<lambda>_.
          andThen (read_mem (\<lambda>m. check_data_access m (unat dst) n AccessKind_Write)) (\<lambda>_.
          andThen (write_mem (\<lambda>m. fill_bytes m (unat dst) val n)) (\<lambda>_. ret dst)))))"

text \<open>The loop of \<open>memcmp\<close> from offset \<open>i\<close>, with \<open>n\<close> bytes to go.\<close>

fun memcmp_from :: "'fp Memory \<Rightarrow> nat \<Rightarrow> nat \<Rightarrow> nat \<Rightarrow> nat \<Rightarrow> mem_error + i64" where
  "memcmp_from m s1 s2 i 0 = Inr 0"
| "memcmp_from m s1 s2 i (Suc n) =
     (case read_bytes m (s1 + i) 1 of
        Inl e \<Rightarrow> Inl e
      | Inr a \<Rightarrow>
          (case read_bytes m (s2 + i) 1 of
             Inl e \<Rightarrow> Inl e
           | Inr b \<Rightarrow>
               if hd a \<noteq> hd b then Inr (ucast (hd a) - ucast (hd b)) else memcmp_from m s1 s2 (i + 1) n))"

definition libc_memcmp :: "i64 list \<Rightarrow> (('fp, 'h, 'z) Machine_scheme, i64) exec" where
  "libc_memcmp args =
     andThen (libc_three_arg ''memcmp'' args) (\<lambda>(s1, s2, n).
     andThen (read_mem (\<lambda>m. check_data_access m s1 n AccessKind_Read)) (\<lambda>_.
     andThen (read_mem (\<lambda>m. check_data_access m s2 n AccessKind_Read)) (\<lambda>_.
       read_mem (\<lambda>m. memcmp_from m s1 s2 0 n))))"

section \<open>Streams\<close>

definition libc_write :: "('fp, 'h) vm_env \<Rightarrow> i64 list \<Rightarrow> (('fp, 'h, 'z) Machine_scheme, i64) exec" where
  "libc_write E args =
     (if length args < 3 then throw (VE_Library ''write'')
      else
        andThen (libc_size ''write'' (Some (args ! 2))) (\<lambda>n.
        andThen (check_that (\<not> sint (args ! 1) < 0) (VE_Library ''write'')) (\<lambda>_.
        andThen (read_mem (\<lambda>m. read_bytes m (unat (args ! 1)) n)) (\<lambda>out.
          to_host (host_write (vm_calls E) (args ! 0) out)))))"

definition libc_read :: "('fp, 'h) vm_env \<Rightarrow> i64 list \<Rightarrow> (('fp, 'h, 'z) Machine_scheme, i64) exec" where
  "libc_read E args =
     (if length args < 3 then throw (VE_Library ''read'')
      else
        andThen (libc_size ''read'' (Some (args ! 2))) (\<lambda>want.
        andThen (check_that (\<not> sint (args ! 1) < 0) (VE_Library ''read'')) (\<lambda>_.
        andThen (\<lambda>s. (Inr (min want (length (bytes (vm_mem s)) - unat (args ! 1))), s)) (\<lambda>n.
        andThen (to_host (host_read (vm_calls E) (args ! 0) n)) (\<lambda>(got, buf).
          if sint got < 0 then ret got
          else andThen (write_mem (\<lambda>m. write_bytes m (unat (args ! 1)) (take (min (unat got) n) buf)))
                 (\<lambda>_. ret got))))))"

definition put_bytes :: "('fp, 'h) vm_env \<Rightarrow> i64 \<Rightarrow> u8 list \<Rightarrow> i64 \<Rightarrow> (('fp, 'h, 'z) Machine_scheme, i64) exec" where
  "put_bytes E fd out r = andThen (to_host (host_write (vm_calls E) fd out)) (\<lambda>_. ret r)"

definition libc_fputs :: "('fp, 'h) vm_env \<Rightarrow> i64 list \<Rightarrow> (('fp, 'h, 'z) Machine_scheme, i64) exec" where
  "libc_fputs E args =
     andThen (stdio_fd ''fputs'' args 1) (\<lambda>fd.
     andThen (cstring_arg ''fputs'' args 0) (\<lambda>str. put_bytes E fd str 0))"

definition libc_puts :: "('fp, 'h) vm_env \<Rightarrow> i64 list \<Rightarrow> (('fp, 'h, 'z) Machine_scheme, i64) exec" where
  "libc_puts E args = andThen (cstring_arg ''puts'' args 0) (\<lambda>line. put_bytes E 1 (line @ [10]) 0)"

definition libc_fputc :: "('fp, 'h) vm_env \<Rightarrow> string \<Rightarrow> i64 list \<Rightarrow> (('fp, 'h, 'z) Machine_scheme, i64) exec" where
  "libc_fputc E name args =
     andThen (stdio_fd name args 1) (\<lambda>fd.
       let byte = ucast (arg_or (- 1) args 0) :: u8 in put_bytes E fd [byte] (ucast byte))"

definition libc_fwrite :: "('fp, 'h) vm_env \<Rightarrow> i64 list \<Rightarrow> (('fp, 'h, 'z) Machine_scheme, i64) exec" where
  "libc_fwrite E args =
     andThen (stdio_fd ''fwrite'' args 3) (\<lambda>fd.
     andThen (libc_three_arg ''fwrite'' args) (\<lambda>(buf, sz, n).
       let len = min (sz * n) (2 ^ 64 - 1) in
       andThen (in_usize buf len) (\<lambda>_.
       andThen (read_mem (\<lambda>m. read_bytes m buf len)) (\<lambda>out.
         put_bytes E fd out (if sz = 0 then 0 else of_nat n)))))"

definition libc_putchar :: "('fp, 'h) vm_env \<Rightarrow> i64 list \<Rightarrow> (('fp, 'h, 'z) Machine_scheme, i64) exec" where
  "libc_putchar E args = (let c = arg_or (- 1) args 0 in put_bytes E 1 [ucast c] c)"

section \<open>Allocation\<close>

definition heap_call ::
  "('fp Memory \<Rightarrow> heap_error + i64 \<times> 'fp Memory) \<Rightarrow> (('fp, 'h, 'z) Machine_scheme, i64) exec" where
  "heap_call f =
     (\<lambda>s. case f (vm_mem s) of
            Inl e \<Rightarrow> (Inl (Stop_Err (VE_Heap e)), s)
          | Inr (r, m) \<Rightarrow> (Inr r, s\<lparr>vm_mem := m\<rparr>))"

definition interp_supplies :: "string \<Rightarrow> bool" where
  "interp_supplies name \<longleftrightarrow>
     name \<in> {''exit'', ''memcpy'', ''memmove'', ''memset'', ''memcmp'', ''write'', ''read'', ''close'',
       ''malloc'', ''calloc'', ''realloc'', ''free'', ''printf'', ''__iob_func'', ''errno_location'',
       ''fprintf'', ''fputs'', ''puts'', ''fputc'', ''putc'', ''fwrite'', ''fflush'', ''fileno'',
       ''putchar'', ''open'', ''getenv'', ''setenv'', ''_putenv_s'', ''dlopen'', ''dlsym'',
       ''dlclose'', ''dlerror'', ''feraiseexcept'', ''feupdateenv''}"

definition dispatch_callext :: "('fp, 'h) vm_env \<Rightarrow> string \<Rightarrow> i64 list \<Rightarrow> (('fp, 'h) Machine, i64) exec" where
  "dispatch_callext E name args =
     (if name = ''exit'' then throw (VE_Exit (arg_or 0 args 0))
      else if name \<in> {''memcpy'', ''memmove''} then libc_memmove name args
      else if name = ''memset'' then libc_memset args
      else if name = ''memcmp'' then libc_memcmp args
      else if name = ''write'' then libc_write E args
      else if name = ''read'' then libc_read E args
      else if name = ''close'' then to_host (host_close (vm_calls E) (arg_or (- 1) args 0))
      else if name = ''malloc'' then heap_call (\<lambda>m. libc_malloc (vm_reserve E) m args)
      else if name = ''calloc'' then heap_call (\<lambda>m. libc_calloc (vm_reserve E) m args)
      else if name = ''realloc'' then heap_call (\<lambda>m. libc_realloc (vm_reserve E) m args)
      else if name = ''free'' then heap_call (\<lambda>m. libc_free m args)
      else if name = ''__iob_func'' then (\<lambda>s. (Inr (of_nat (stdio (vm_mem s))), s))
      else if name = ''errno_location'' then (\<lambda>s. (Inr (of_nat (stdio (vm_mem s) + STDIO_ERRNO)), s))
      else if name = ''fputs'' then libc_fputs E args
      else if name = ''puts'' then libc_puts E args
      else if name \<in> {''fputc'', ''putc''} then libc_fputc E name args
      else if name = ''fwrite'' then libc_fwrite E args
      else if name = ''fflush'' then ret 0
      else if name = ''fileno'' then stdio_fd ''fileno'' args 0
      else if name = ''putchar'' then libc_putchar E args
      else nt_library E name args)"

end
