(* ===== verification/Vm_Intrinsic.thy ===== *)
theory Vm_Intrinsic
  imports Vm_Library
begin

text \<open>
  The intrinsic operations of the interpreter, \<open>run_intrinsic\<close> of
  \<^verbatim>\<open>src/src/c5/vm/ssa.rs\<close>: dynamic stack allocation, the variadic cursor, 128-bit
  division and atomics, the frame reads, and the machine-state operations that the interpreter
  answers with fixed values or ignores.
\<close>

section \<open>Operands\<close>

text \<open>\<open>frame.regs[args[i]]\<close>: a missing argument is a panic.\<close>

definition arg_reg :: "ValueId list \<Rightarrow> nat \<Rightarrow> (('fp, 'h) VmState, i64) exec" where
  "arg_reg args i = andThen (index_of args i) get_reg"

definition sole_arg :: "string \<Rightarrow> ValueId list \<Rightarrow> (('fp, 'h) VmState, i64) exec" where
  "sole_arg name args = (case args of [] \<Rightarrow> throw (VE_Intrinsic name) | a # _ \<Rightarrow> get_reg a)"

section \<open>Dynamic stack storage\<close>

definition intr_alloca :: "ValueId \<Rightarrow> ValueId list \<Rightarrow> (('fp, 'h) VmState, unit) exec" where
  "intr_alloca v args =
     andThen (sole_arg ''Alloca'' args) (\<lambda>n_raw.
     andThen (check_that (\<not> sint n_raw < 0) (VE_Intrinsic ''Alloca'')) (\<lambda>_.
     andThen (on_mem (\<lambda>m. alloc_aligned_frame m 16 ((unat n_raw + 15) div 16 * 16))) (\<lambda>base.
       set_reg v (of_nat base))))"

definition intr_alloca_save :: "ValueId \<Rightarrow> (('fp, 'h) VmState, unit) exec" where
  "intr_alloca_save v = (\<lambda>s. set_reg v (of_nat (stack_top (vm_mem s))) s)"

definition intr_alloca_restore :: "ValueId list \<Rightarrow> (('fp, 'h) VmState, unit) exec" where
  "intr_alloca_restore args =
     andThen (sole_arg ''AllocaRestore'' args) (\<lambda>saved.
       (\<lambda>s. (Inr (), s\<lparr>vm_mem := release_frame (vm_mem s) (unat saved)\<rparr>)))"

section \<open>The variadic cursor\<close>

definition intr_va_start :: "fp_cast \<Rightarrow> Frame \<Rightarrow> ValueId list \<Rightarrow> (('fp, 'h) VmState, unit) exec" where
  "intr_va_start C fr args =
     andThen (arg_reg args 0) (\<lambda>ap.
       store_mem C (unat ap) (of_nat (fr_stack_base fr + (fr_locals fr + n_params (fr_func fr)) * 8)) StoreKind_I64)"

definition va_stride :: "VaArgDesc \<Rightarrow> nat" where
  "va_stride desc = max (((if by_ref desc then 8 else unat (vd_size desc)) + 7) div 8 * 8) 8"

definition intr_va_arg :: "fp_cast \<Rightarrow> ValueId \<Rightarrow> ValueId list \<Rightarrow> (('fp, 'h) VmState, unit) exec" where
  "intr_va_arg C v args =
     andThen (if 1 < length args then arg_reg args 1 else ret 0) (\<lambda>descriptor.
       let desc = va_unpack descriptor in
       andThen (arg_reg args 0) (\<lambda>ap.
         if vd_kind desc = VA_NONE then set_reg v ap
         else
           andThen (load_mem C (unat ap) LoadKind_I64) (\<lambda>cursor.
           andThen (if sint cursor + int (va_stride desc) < 2 ^ 63 then ret () else stop_with Stop_Overflow) (\<lambda>_.
           andThen (store_mem C (unat ap) (cursor + of_nat (va_stride desc)) StoreKind_I64) (\<lambda>_.
           andThen (if by_ref desc then load_mem C (unat cursor) LoadKind_I64 else ret cursor) (set_reg v))))))"

definition intr_va_copy :: "fp_cast \<Rightarrow> ValueId list \<Rightarrow> (('fp, 'h) VmState, unit) exec" where
  "intr_va_copy C args =
     andThen (arg_reg args 0) (\<lambda>dst.
     andThen (arg_reg args 1) (\<lambda>src.
     andThen (load_mem C (unat src) LoadKind_I64) (\<lambda>cursor.
       store_mem C (unat dst) cursor StoreKind_I64)))"

section \<open>Floating-point operations\<close>

definition intr_sqrt :: "('fp, 'h) vm_env \<Rightarrow> ValueId \<Rightarrow> ValueId list \<Rightarrow> bool \<Rightarrow> (('fp, 'h) VmState, unit) exec" where
  "intr_sqrt E v args f32 =
     andThen (arg_reg args 0) (\<lambda>x. andThen (with_fp (fe_sqrt (vm_fp E) x f32)) (set_reg v))"

definition intr_fp_unary ::
  "('fp, 'h) vm_env \<Rightarrow> Frame \<Rightarrow> ValueId \<Rightarrow> ValueId list \<Rightarrow> (u64 \<Rightarrow> u64) \<Rightarrow> (('fp, 'h) VmState, unit) exec" where
  "intr_fp_unary E fr v args f =
     andThen (arg_reg args 0) (\<lambda>x. set_reg v (round_if_f32 (vm_fpu E) (f x) (f32_flag fr v)))"

section \<open>Machine state\<close>

definition intr_store_word :: "fp_cast \<Rightarrow> ValueId list \<Rightarrow> i64 \<Rightarrow> StoreKind \<Rightarrow> (('fp, 'h) VmState, unit) exec" where
  "intr_store_word C args x kind = andThen (arg_reg args 0) (\<lambda>addr. store_mem C (unat addr) x kind)"

definition intr_zero_bytes :: "fp_cast \<Rightarrow> ValueId list \<Rightarrow> nat \<Rightarrow> (('fp, 'h) VmState, unit) exec" where
  "intr_zero_bytes C args w =
     andThen (arg_reg args 0) (\<lambda>addr.
     andThen (each (\<lambda>off. store_mem C (unat addr + off) 0 StoreKind_I8) [0..<w]) (\<lambda>_. ret ()))"

definition intr_return_address :: "fp_cast \<Rightarrow> Frame \<Rightarrow> ValueId \<Rightarrow> ValueId list \<Rightarrow> (('fp, 'h) VmState, unit) exec" where
  "intr_return_address C fr v args =
     andThen
       (case args of
          [] \<Rightarrow> ret (fr_record fr)
        | [walked] \<Rightarrow> andThen (get_reg walked) (\<lambda>r. ret (unat r))
        | _ \<Rightarrow> throw (VE_Intrinsic ''ReturnAddress'')) (\<lambda>rec.
     andThen (load_mem C (rec + 8) LoadKind_I64) (set_reg v))"

section \<open>128-bit operations\<close>

definition store_pair :: "fp_cast \<Rightarrow> i64 \<Rightarrow> i64 \<times> i64 \<Rightarrow> (('fp, 'h, 'z) Machine_scheme, unit) exec" where
  "store_pair C at val =
     andThen (store_mem C (unat at) (fst val) StoreKind_I64) (\<lambda>_.
       store_mem C (unat at + 8) (snd val) StoreKind_I64)"

text \<open>Publish the two halves through two addresses.\<close>

definition store_halves :: "fp_cast \<Rightarrow> i64 \<Rightarrow> i64 \<Rightarrow> i64 \<times> i64 \<Rightarrow> (('fp, 'h, 'z) Machine_scheme, unit) exec" where
  "store_halves C l_addr h_addr val =
     andThen (store_mem C (unat l_addr) (fst val) StoreKind_I64) (\<lambda>_.
       store_mem C (unat h_addr) (snd val) StoreKind_I64)"

definition intr_divq128 :: "fp_cast \<Rightarrow> ValueId list \<Rightarrow> (('fp, 'h) VmState, unit) exec" where
  "intr_divq128 C args =
     andThen (arg_reg args 0) (\<lambda>q_addr.
     andThen (arg_reg args 1) (\<lambda>rem_addr.
     andThen (arg_reg args 2) (\<lambda>n0.
     andThen (arg_reg args 3) (\<lambda>n1.
     andThen (arg_reg args 4) (\<lambda>d.
     andThen (check_that (d \<noteq> 0) (VE_Intrinsic ''divq'')) (\<lambda>_.
       let num = uint n1 * 2 ^ 64 + uint n0
       in store_halves C q_addr rem_addr (word_of_int (num div uint d), word_of_int (num mod uint d))))))))"

definition intr_atomic128_load :: "fp_cast \<Rightarrow> ValueId list \<Rightarrow> (('fp, 'h) VmState, unit) exec" where
  "intr_atomic128_load C args =
     andThen (arg_reg args 0) (\<lambda>p.
     andThen (arg_reg args 1) (\<lambda>l_addr.
     andThen (arg_reg args 2) (\<lambda>h_addr.
     andThen (load_pair C p) (\<lambda>cur. store_halves C l_addr h_addr cur))))"

definition intr_atomic128_store :: "fp_cast \<Rightarrow> ValueId list \<Rightarrow> (('fp, 'h) VmState, unit) exec" where
  "intr_atomic128_store C args =
     andThen (arg_reg args 0) (\<lambda>p.
     andThen (arg_reg args 1) (\<lambda>l.
     andThen (arg_reg args 2) (\<lambda>h. store_pair C p (l, h))))"

definition intr_atomic128_store_insert :: "fp_cast \<Rightarrow> ValueId list \<Rightarrow> (('fp, 'h) VmState, unit) exec" where
  "intr_atomic128_store_insert C args =
     andThen (arg_reg args 0) (\<lambda>p.
     andThen (arg_reg args 1) (\<lambda>vl.
     andThen (arg_reg args 2) (\<lambda>vh.
     andThen (arg_reg args 3) (\<lambda>ml.
     andThen (arg_reg args 4) (\<lambda>mh.
     andThen (load_pair C p) (\<lambda>(l, h).
       store_pair C p ((l AND NOT ml) OR vl, (h AND NOT mh) OR vh)))))))"

text \<open>The read-modify-write forms publish the old value before they store the new one.\<close>

definition atomic128_old :: "fp_cast \<Rightarrow> ValueId list \<Rightarrow> (('fp, 'h) VmState, i64 \<times> i64 \<times> i64) exec" where
  "atomic128_old C args =
     andThen (arg_reg args 0) (\<lambda>p.
     andThen (arg_reg args 1) (\<lambda>oldl.
     andThen (arg_reg args 2) (\<lambda>oldh.
     andThen (load_pair C p) (\<lambda>cur.
     andThen (store_halves C oldl oldh cur) (\<lambda>_. ret (p, cur))))))"

definition intr_atomic128_cmpxchg :: "fp_cast \<Rightarrow> ValueId list \<Rightarrow> (('fp, 'h) VmState, unit) exec" where
  "intr_atomic128_cmpxchg C args =
     andThen (atomic128_old C args) (\<lambda>(p, cur).
     andThen (arg_reg args 3) (\<lambda>cmpl.
     andThen (arg_reg args 4) (\<lambda>cmph.
     andThen (arg_reg args 5) (\<lambda>newl.
     andThen (arg_reg args 6) (\<lambda>newh.
       if cur = (cmpl, cmph) then store_pair C p (newl, newh) else ret ())))))"

definition intr_atomic128_update ::
  "fp_cast \<Rightarrow> ValueId list \<Rightarrow> (i64 \<Rightarrow> i64 \<Rightarrow> i64) \<Rightarrow> (('fp, 'h) VmState, unit) exec" where
  "intr_atomic128_update C args f =
     andThen (atomic128_old C args) (\<lambda>(p, (cur_l, cur_h)).
     andThen (arg_reg args 3) (\<lambda>x.
     andThen (arg_reg args 4) (\<lambda>y. store_pair C p (f cur_l x, f cur_h y))))"

section \<open>The dispatch\<close>

primrec exec_intrinsic ::
  "('fp, 'h) vm_env \<Rightarrow> Frame \<Rightarrow> ValueId \<Rightarrow> ValueId list \<Rightarrow> Intrinsic \<Rightarrow> (('fp, 'h) VmState, unit) exec" where
  "exec_intrinsic E fr v args Intr_Alloca = intr_alloca v args"
| "exec_intrinsic E fr v args Intr_SetjmpAArch64 = throw (VE_Intrinsic ''SetjmpAArch64'')"
| "exec_intrinsic E fr v args Intr_LongjmpAArch64 = throw (VE_Intrinsic ''LongjmpAArch64'')"
| "exec_intrinsic E fr v args Intr_VaStart = intr_va_start (vm_cast E) fr args"
| "exec_intrinsic E fr v args Intr_VaArg = intr_va_arg (vm_cast E) v args"
| "exec_intrinsic E fr v args Intr_VaEnd = ret ()"
| "exec_intrinsic E fr v args Intr_VaCopy = intr_va_copy (vm_cast E) args"
| "exec_intrinsic E fr v args Intr_Fma = throw (VE_Intrinsic ''Fma'')"
| "exec_intrinsic E fr v args Intr_Fmaf = throw (VE_Intrinsic ''Fmaf'')"
| "exec_intrinsic E fr v args Intr_Trap = throw (VE_Intrinsic ''__builtin_trap'')"
| "exec_intrinsic E fr v args Intr_Sqrt = intr_sqrt E v args False"
| "exec_intrinsic E fr v args Intr_Sqrtf = intr_sqrt E v args True"
| "exec_intrinsic E fr v args Intr_Fabs = intr_fp_unary E fr v args (\<lambda>x. x AND 0x7fffffffffffffff)"
| "exec_intrinsic E fr v args Intr_Fabsf = intr_fp_unary E fr v args (\<lambda>x. x AND 0x7fffffffffffffff)"
| "exec_intrinsic E fr v args Intr_Floor = intr_fp_unary E fr v args (libm_floor (vm_libm E))"
| "exec_intrinsic E fr v args Intr_Floorf = intr_fp_unary E fr v args (libm_floor (vm_libm E))"
| "exec_intrinsic E fr v args Intr_Ceil = intr_fp_unary E fr v args (libm_ceil (vm_libm E))"
| "exec_intrinsic E fr v args Intr_Ceilf = intr_fp_unary E fr v args (libm_ceil (vm_libm E))"
| "exec_intrinsic E fr v args Intr_Trunc = intr_fp_unary E fr v args (libm_trunc (vm_libm E))"
| "exec_intrinsic E fr v args Intr_Truncf = intr_fp_unary E fr v args (libm_trunc (vm_libm E))"
| "exec_intrinsic E fr v args Intr_Clz = throw (VE_Intrinsic ''bit builtin'')"
| "exec_intrinsic E fr v args Intr_Ctz = throw (VE_Intrinsic ''bit builtin'')"
| "exec_intrinsic E fr v args Intr_Popcount = throw (VE_Intrinsic ''bit builtin'')"
| "exec_intrinsic E fr v args Intr_Clzll = throw (VE_Intrinsic ''bit builtin'')"
| "exec_intrinsic E fr v args Intr_Ctzll = throw (VE_Intrinsic ''bit builtin'')"
| "exec_intrinsic E fr v args Intr_Popcountll = throw (VE_Intrinsic ''bit builtin'')"
| "exec_intrinsic E fr v args Intr_Bswap16 = throw (VE_Intrinsic ''bit builtin'')"
| "exec_intrinsic E fr v args Intr_Bswap32 = throw (VE_Intrinsic ''bit builtin'')"
| "exec_intrinsic E fr v args Intr_Bswap64 = throw (VE_Intrinsic ''bit builtin'')"
| "exec_intrinsic E fr v args Intr_FrameAddress = set_reg v (of_nat (fr_record fr))"
| "exec_intrinsic E fr v args Intr_CpuRelax = set_reg v 0"
| "exec_intrinsic E fr v args Intr_X87StoreControlWord = intr_store_word (vm_cast E) args 0x037f StoreKind_I16"
| "exec_intrinsic E fr v args Intr_X87LoadControlWord = ret ()"
| "exec_intrinsic E fr v args Intr_AtomicThreadFence = ret ()"
| "exec_intrinsic E fr v args Intr_AllocaSave = intr_alloca_save v"
| "exec_intrinsic E fr v args Intr_AllocaRestore = intr_alloca_restore args"
| "exec_intrinsic E fr v args Intr_Clrsb = throw (VE_Intrinsic ''bit builtin'')"
| "exec_intrinsic E fr v args Intr_Clrsbll = throw (VE_Intrinsic ''bit builtin'')"
| "exec_intrinsic E fr v args Intr_Parity = throw (VE_Intrinsic ''bit builtin'')"
| "exec_intrinsic E fr v args Intr_Parityll = throw (VE_Intrinsic ''bit builtin'')"
| "exec_intrinsic E fr v args Intr_Divq128 = intr_divq128 (vm_cast E) args"
| "exec_intrinsic E fr v args Intr_AArch64ReadCacheType = intr_store_word (vm_cast E) args 0x8444C004 StoreKind_I64"
| "exec_intrinsic E fr v args Intr_AArch64DcCvau = ret ()"
| "exec_intrinsic E fr v args Intr_AArch64IcIvau = ret ()"
| "exec_intrinsic E fr v args Intr_AArch64DsbIsh = ret ()"
| "exec_intrinsic E fr v args Intr_AArch64Isb = ret ()"
| "exec_intrinsic E fr v args Intr_Ffs = throw (VE_Intrinsic ''bit builtin'')"
| "exec_intrinsic E fr v args Intr_Ffsll = throw (VE_Intrinsic ''bit builtin'')"
| "exec_intrinsic E fr v args Intr_Atomic128CmpXchg = intr_atomic128_cmpxchg (vm_cast E) args"
| "exec_intrinsic E fr v args Intr_Atomic128Xchg = intr_atomic128_update (vm_cast E) args (\<lambda>_ x. x)"
| "exec_intrinsic E fr v args Intr_Atomic128FetchAnd = intr_atomic128_update (vm_cast E) args (\<lambda>cur x. cur AND x)"
| "exec_intrinsic E fr v args Intr_Atomic128FetchOr = intr_atomic128_update (vm_cast E) args (\<lambda>cur x. cur OR x)"
| "exec_intrinsic E fr v args Intr_Atomic128Load = intr_atomic128_load (vm_cast E) args"
| "exec_intrinsic E fr v args Intr_Atomic128Store = intr_atomic128_store (vm_cast E) args"
| "exec_intrinsic E fr v args Intr_Atomic128LoadEx = intr_atomic128_load (vm_cast E) args"
| "exec_intrinsic E fr v args Intr_Atomic128StoreEx = intr_atomic128_store (vm_cast E) args"
| "exec_intrinsic E fr v args Intr_ReturnAddress = intr_return_address (vm_cast E) fr v args"
| "exec_intrinsic E fr v args Intr_Atomic128StoreInsert = intr_atomic128_store_insert (vm_cast E) args"
| "exec_intrinsic E fr v args Intr_X86FxSave = ret ()"
| "exec_intrinsic E fr v args Intr_X86FxRestore = ret ()"
| "exec_intrinsic E fr v args Intr_X86Sgdt = intr_zero_bytes (vm_cast E) args 10"
| "exec_intrinsic E fr v args Intr_X86Sidt = intr_zero_bytes (vm_cast E) args 10"
| "exec_intrinsic E fr v args Intr_X86Sldt = intr_zero_bytes (vm_cast E) args 2"
| "exec_intrinsic E fr v args Intr_X86Str = intr_zero_bytes (vm_cast E) args 2"
| "exec_intrinsic E fr v args Intr_X86Lgdt = ret ()"
| "exec_intrinsic E fr v args Intr_X86Lidt = ret ()"
| "exec_intrinsic E fr v args Intr_X86Clflush = ret ()"
| "exec_intrinsic E fr v args Intr_X86Lldt = ret ()"
| "exec_intrinsic E fr v args Intr_StackPointer = set_reg v (of_nat (fr_stack_base fr))"
| "exec_intrinsic E fr v args Intr_ConstantP = throw (VE_Intrinsic ''ConstantP'')"
| "exec_intrinsic E fr v args Intr_AtomicAcquireFence = ret ()"
| "exec_intrinsic E fr v args Intr_AtomicReleaseFence = ret ()"
| "exec_intrinsic E fr v args Intr_AtomicSignalFence = ret ()"
| "exec_intrinsic E fr v args Intr_PlatformRegister = throw (VE_Intrinsic ''PlatformRegister'')"
| "exec_intrinsic E fr v args Intr_FuncletFrame = stop_with Stop_Panic"
| "exec_intrinsic E fr v args Intr_EstablisherFrame = set_reg v 0"

definition run_intrinsic ::
  "('fp, 'h) vm_env \<Rightarrow> Frame \<Rightarrow> ValueId \<Rightarrow> i64 \<Rightarrow> ValueId list \<Rightarrow> (('fp, 'h) VmState, unit) exec" where
  "run_intrinsic E fr v kind args =
     (case from_i64 kind of
        None \<Rightarrow> throw (VE_UnknownIntrinsic kind)
      | Some intr \<Rightarrow> exec_intrinsic E fr v args intr)"

end
