(* ===== verification/Vm_Run.thy ===== *)
theory Vm_Run
  imports Vm_Intrinsic
begin

text \<open>
  The interpreter loop, \<^verbatim>\<open>src/src/c5/vm/ssa.rs\<close>: \<open>run_inst\<close>, \<open>run_func\<close> and the program
  entry.  Calls and block transfers may go on for ever, so a run is given fuel: the depth of calls
  and the number of blocks one call may enter.
\<close>

section \<open>Arithmetic\<close>

definition vm_binop :: "('fp, 'h) vm_env \<Rightarrow> BinOp \<Rightarrow> i64 \<Rightarrow> i64 \<Rightarrow> bool \<Rightarrow> (('fp, 'h, 'z) Machine_scheme, i64) exec" where
  "vm_binop E op lhs rhs f32 =
     (case op of
        BinOp_Fadd \<Rightarrow> with_fp (fe_add (vm_fp E) lhs rhs f32)
      | BinOp_Fsub \<Rightarrow> with_fp (fe_sub (vm_fp E) lhs rhs f32)
      | BinOp_Fmul \<Rightarrow> with_fp (fe_mul (vm_fp E) lhs rhs f32)
      | BinOp_FmulContractible \<Rightarrow> with_fp (fe_mul (vm_fp E) lhs rhs f32)
      | BinOp_Fdiv \<Rightarrow> with_fp (fe_div (vm_fp E) lhs rhs f32)
      | _ \<Rightarrow>
          andThen (if is_fp_op op then with_fp (fe_compare_operands (vm_fp E) lhs rhs) else ret ()) (\<lambda>_.
            case apply_binop (vm_fpu E) op lhs rhs of
              Inr r \<Rightarrow> ret r
            | Inl (Err t) \<Rightarrow> throw (VE_Trap t)
            | Inl Panic \<Rightarrow> stop_with Stop_Panic))"

text \<open>\<open>eval_int_binop\<close> with a division by zero read as zero.\<close>

definition shift_op_eval :: "BinOp \<Rightarrow> i64 \<Rightarrow> i64 \<Rightarrow> ('s, i64) exec" where
  "shift_op_eval op a b =
     (case eval_int_binop op a b of
        Inr r \<Rightarrow> ret r
      | Inl (Err _) \<Rightarrow> ret 0
      | Inl Panic \<Rightarrow> stop_with Stop_Panic)"

definition flip_sign :: "i64 \<Rightarrow> bool \<Rightarrow> u64" where
  "flip_sign x neg = x XOR push_bit 63 (if neg then 1 else 0)"

fun fp_cast_value :: "'fp fp_env \<Rightarrow> FpCastKind \<Rightarrow> i64 \<Rightarrow> bool \<Rightarrow> (('fp, 'h, 'z) Machine_scheme, i64) exec" where
  "fp_cast_value F FpCastKind_FpToInt raw f32 = with_fp (fe_float_to_int F raw True)"
| "fp_cast_value F FpCastKind_UFpToInt raw f32 = with_fp (fe_float_to_int F raw False)"
| "fp_cast_value F FpCastKind_IntToFp raw f32 = with_fp (fe_int_to_float F (sint raw) f32)"
| "fp_cast_value F FpCastKind_UIntToFp raw f32 = with_fp (fe_int_to_float F (uint raw) f32)"
| "fp_cast_value F FpCastKind_F32ToF64 raw f32 = ret raw"
| "fp_cast_value F FpCastKind_F64ToF32 raw f32 = with_fp (fe_narrow F raw)"

section \<open>Calls\<close>

type_synonym ('fp, 'h) caller = "CallLink \<Rightarrow> i64 list \<Rightarrow> nat option list \<Rightarrow> (('fp, 'h) Machine, i64) exec"

definition agg_entry :: "nat option list \<Rightarrow> nat \<Rightarrow> nat option" where
  "agg_entry aggs i = (if i < length aggs then aggs ! i else None)"

definition call_arg ::
  "('fp, 'h) vm_env \<Rightarrow> Frame \<Rightarrow> nat option list \<Rightarrow> nat \<Rightarrow> nat \<times> ValueId \<Rightarrow> (('fp, 'h) VmState, i64 list) exec" where
  "call_arg E fr arg_aggs fixed_args =
     (\<lambda>(i, a). andThen (get_reg a) (\<lambda>val.
        case (if fixed_args \<le> i then agg_entry arg_aggs i else None) of
          Some idx \<Rightarrow>
            andThen (index_of (agg_descs (fr_func fr)) idx) (\<lambda>desc.
              each (\<lambda>k. load_mem (vm_cast E) (unat val + 8 * k) LoadKind_I64) [0..<(agg_size desc + 7) div 8])
        | None \<Rightarrow>
            if f32_value fr a then ret [ucast (f64_as_f32 (vm_cast E) val)] else ret [val]))"

definition collect_call_args ::
  "('fp, 'h) vm_env \<Rightarrow> Frame \<Rightarrow> ValueId list \<Rightarrow> nat option list \<Rightarrow> nat \<Rightarrow> (('fp, 'h) VmState, i64 list) exec" where
  "collect_call_args E fr args arg_aggs fixed_args =
     andThen (each (call_arg E fr arg_aggs fixed_args) (List.enumerate 0 args)) (\<lambda>xss. ret (concat xss))"

definition finish_agg_return ::
  "Frame \<Rightarrow> nat option \<Rightarrow> i64 \<Rightarrow> i64 \<Rightarrow> (('fp, 'h) VmState, i64) exec" where
  "finish_agg_return fr ret_agg' ret_slot r =
     (case ret_agg' of
        None \<Rightarrow> ret r
      | Some ai \<Rightarrow>
          andThen (index_of (agg_descs (fr_func fr)) ai) (\<lambda>desc.
          andThen (slot_of fr ret_slot) (\<lambda>dst.
          andThen (copy_mem dst (unat r) (agg_size desc)) (\<lambda>_. ret (of_nat dst)))))"

definition lookup_fn :: "Program \<Rightarrow> nat \<Rightarrow> ('s, nat) exec" where
  "lookup_fn prog pc = (case ent_pc_to_idx prog pc of Some i \<Rightarrow> ret i | None \<Rightarrow> throw (VE_NoFunction pc))"

definition call_body ::
  "('fp, 'h) vm_env \<Rightarrow> ('fp, 'h) caller \<Rightarrow> Frame \<Rightarrow> ValueId \<Rightarrow> nat \<Rightarrow> ValueId list \<Rightarrow> nat \<Rightarrow>
     nat option list \<Rightarrow> nat option \<Rightarrow> i64 \<Rightarrow> (('fp, 'h) VmState, unit) exec" where
  "call_body E call fr v callee args fixed_args arg_aggs ret_agg' ret_slot =
     andThen (collect_call_args E fr args arg_aggs fixed_args) (\<lambda>vals.
     andThen (link_to fr callee v) (\<lambda>link.
     andThen (on_machine (call link vals arg_aggs)) (\<lambda>r.
     andThen (finish_agg_return fr ret_agg' ret_slot r) (set_reg v))))"

definition call_library ::
  "('fp, 'h) vm_env \<Rightarrow> Program \<Rightarrow> ValueId \<Rightarrow> i64 \<Rightarrow> ValueId list \<Rightarrow> (('fp, 'h) VmState, unit) exec" where
  "call_library E prog v binding args =
     andThen (binding_name prog binding) (\<lambda>name.
     andThen (each get_reg args) (\<lambda>vals.
     andThen (on_machine (dispatch_callext E name vals)) (set_reg v)))"

definition indirect_target :: "i64 \<Rightarrow> ('s, nat) exec" where
  "indirect_target raw =
     (let position = CODE_ADDR_TAG OR CODE_POSITION_TAG
      in if raw AND position = position then throw (VE_Position raw)
         else if raw AND CODE_ADDR_TAG \<noteq> 0 then ret (unat (raw AND NOT CODE_ADDR_TAG))
         else if unat raw \<ge> CODE_BASE then ret (unat raw - CODE_BASE)
         else throw (VE_NotCode raw))"

definition call_indirect ::
  "('fp, 'h) vm_env \<Rightarrow> ('fp, 'h) caller \<Rightarrow> Program \<Rightarrow> Frame \<Rightarrow> ValueId \<Rightarrow> ValueId \<Rightarrow> ValueId list \<Rightarrow> nat \<Rightarrow>
     nat option list \<Rightarrow> nat option \<Rightarrow> i64 \<Rightarrow> (('fp, 'h) VmState, unit) exec" where
  "call_indirect E call prog fr v tgt args fixed_args arg_aggs ret_agg' ret_slot =
     andThen (get_reg tgt) (\<lambda>raw.
       if raw AND IMPORT_ADDR_TAG \<noteq> 0 then call_library E prog v (raw AND NOT IMPORT_ADDR_TAG) args
       else
         andThen (indirect_target raw) (\<lambda>pc.
         andThen (lookup_fn prog pc) (\<lambda>callee.
           call_body E call fr v callee args fixed_args arg_aggs ret_agg' ret_slot)))"

definition inst_param_ref :: "('fp, 'h) vm_env \<Rightarrow> Frame \<Rightarrow> ValueId \<Rightarrow> nat \<Rightarrow> LoadKind \<Rightarrow> (('fp, 'h) VmState, unit) exec" where
  "inst_param_ref E fr v idx kind =
     andThen (slot_of fr (of_nat idx + 2)) (\<lambda>addr.
     andThen (load_mem (vm_cast E) addr (if kind = LoadKind_F32 then LoadKind_F32 else LoadKind_I64)) (\<lambda>raw.
       set_reg v (case kind of
                    LoadKind_I8 \<Rightarrow> scast (ucast raw :: u8)
                  | LoadKind_I16 \<Rightarrow> scast (ucast raw :: u16)
                  | LoadKind_I32 \<Rightarrow> scast (ucast raw :: u32)
                  | _ \<Rightarrow> raw)))"

section \<open>One instruction\<close>

definition unary :: "ValueId \<Rightarrow> ValueId \<Rightarrow> (i64 \<Rightarrow> i64) \<Rightarrow> (('fp, 'h) VmState, unit) exec" where
  "unary v src f = andThen (get_reg src) (\<lambda>x. set_reg v (f x))"

fun exec_inst ::
  "('fp, 'h) vm_env \<Rightarrow> ('fp, 'h) caller \<Rightarrow> Program \<Rightarrow> Frame \<Rightarrow> ValueId \<Rightarrow> Inst \<Rightarrow> (('fp, 'h) VmState, unit) exec" where
  "exec_inst E call prog fr v (Imm k) =
     set_reg v (if f32_value fr v then f32_as_f64 (vm_cast E) (ucast k) else k)"
| "exec_inst E call prog fr v Undef = set_reg v 0"
| "exec_inst E call prog fr v (ImmData off) = set_reg v off"
| "exec_inst E call prog fr v ExceptionCode = stop_with Stop_Panic"
| "exec_inst E call prog fr v (ParentLocalAddr _ _ _) = stop_with Stop_Panic"
| "exec_inst E call prog fr v (ImmCode pc) = set_reg v (CODE_ADDR_TAG OR of_nat pc)"
| "exec_inst E call prog fr v (ImmExtCode b) = set_reg v (IMPORT_ADDR_TAG OR b)"
| "exec_inst E call prog fr v (BlockAddr b) = set_reg v (code_position (fr_func_idx fr) b 0)"
| "exec_inst E call prog fr v (LocalAddr off) = andThen (slot_of fr off) (\<lambda>a. set_reg v (of_nat a))"
| "exec_inst E call prog fr v (TlsAddr off) = set_reg v (of_nat (tls_base prog) + off)"
| "exec_inst E call prog fr v (Load addr disp kind _ _ _) = inst_load (vm_cast E) v addr disp kind"
| "exec_inst E call prog fr v (Store addr disp val kind _ _ _) = inst_store (vm_cast E) v addr disp val kind"
| "exec_inst E call prog fr v (LoadLocal off disp kind _) = inst_load_local (vm_cast E) fr v off disp kind"
| "exec_inst E call prog fr v (StoreLocal off disp val kind _ _) = inst_store_local (vm_cast E) fr v off disp val kind"
| "exec_inst E call prog fr v (Mcpy dst src sz _) = inst_mcpy v dst src sz"
| "exec_inst E call prog fr v (Mzero dst sz _) = inst_mzero dst sz"
| "exec_inst E call prog fr v (AtomicRmw op addr val width _) = inst_atomic_rmw (vm_cast E) v op addr val width"
| "exec_inst E call prog fr v (AtomicCas addr expd des width _) = inst_atomic_cas (vm_cast E) v addr expd des width"
| "exec_inst E call prog fr v (AtomicCas16 addr expd des _) = inst_atomic_cas16 (vm_cast E) v addr expd des"
| "exec_inst E call prog fr v (AtomicLoad addr width _) = inst_atomic_load (vm_cast E) v addr width"
| "exec_inst E call prog fr v (AtomicStore addr val width _) = inst_atomic_store (vm_cast E) addr val width"
| "exec_inst E call prog fr v (LoadIndexed _ _ _ _ _ _) = throw (VE_Unimplemented ''LoadIndexed'')"
| "exec_inst E call prog fr v (StoreIndexed _ _ _ _ _ _ _) = throw (VE_Unimplemented ''StoreIndexed'')"
| "exec_inst E call prog fr v (Binop op l r) =
     andThen (get_reg l) (\<lambda>lv. andThen (get_reg r) (\<lambda>rv.
       andThen (vm_binop E op lv rv (f32_value fr v)) (set_reg v)))"
| "exec_inst E call prog fr v (BinopI op l imm) =
     andThen (get_reg l) (\<lambda>lv. andThen (vm_binop E op lv imm (f32_value fr v)) (set_reg v))"
| "exec_inst E call prog fr v (Neg src) = unary v src uminus"
| "exec_inst E call prog fr v (Fneg src) =
     unary v src (\<lambda>x. round_if_f32 (vm_fpu E) (eval_fneg x) (f32_flag fr v))"
| "exec_inst E call prog fr v (Bswap val width) = unary v val (\<lambda>x. eval_bswap x width)"
| "exec_inst E call prog fr v (BitCount op val width) = unary v val (\<lambda>x. eval_bit_count op x width)"
| "exec_inst E call prog fr v (Fma a b c neg_product neg_addend) =
     andThen (get_reg a) (\<lambda>av. andThen (get_reg c) (\<lambda>cv. andThen (get_reg b) (\<lambda>bv.
       andThen (with_fp (fe_fma (vm_fp E) (flip_sign av neg_product) bv (flip_sign cv neg_addend) (f32_value fr v)))
         (set_reg v))))"
| "exec_inst E call prog fr v (Udiv128 hi lo divisor) =
     andThen (get_reg hi) (\<lambda>h. andThen (get_reg lo) (\<lambda>l. andThen (get_reg divisor) (\<lambda>d.
       case udiv128 h l d of None \<Rightarrow> throw VE_DivOverflow | Some q \<Rightarrow> set_reg v q)))"
| "exec_inst E call prog fr v (MulAdd a b c neg_product) =
     andThen (get_reg a) (\<lambda>av. andThen (get_reg b) (\<lambda>bv. andThen (get_reg c) (\<lambda>cv.
       set_reg v (if neg_product then cv - av * bv else cv + av * bv))))"
| "exec_inst E call prog fr v (ShiftOp op l r shift amount) =
     andThen (get_reg r) (\<lambda>rv. andThen (shift_op_eval shift rv (of_nat amount)) (\<lambda>shifted.
       andThen (get_reg l) (\<lambda>lv. andThen (shift_op_eval op lv shifted) (set_reg v))))"
| "exec_inst E call prog fr v (BitField val lsb width is_sgn) =
     andThen (get_reg val) (\<lambda>x.
       case eval_bit_field x lsb width is_sgn of None \<Rightarrow> stop_with Stop_Panic | Some r \<Rightarrow> set_reg v r)"
| "exec_inst E call prog fr v (Extend val kind _) = unary v val (\<lambda>x. eval_extend x kind)"
| "exec_inst E call prog fr v (Copy val _) = unary v val id"
| "exec_inst E call prog fr v (FpCast kind val) =
     andThen (get_reg val) (\<lambda>raw. andThen (fp_cast_value (vm_fp E) kind raw (f32_value fr v)) (set_reg v))"
| "exec_inst E call prog fr v (Call pc args fixed _ _ _ _ _ arg_aggs ret_agg' ret_slot) =
     andThen (lookup_fn prog pc) (\<lambda>callee. call_body E call fr v callee args fixed arg_aggs ret_agg' ret_slot)"
| "exec_inst E call prog fr v (CallIndirect tgt args _ fixed _ _ _ _ _ arg_aggs ret_agg' ret_slot) =
     call_indirect E call prog fr v tgt args fixed arg_aggs ret_agg' ret_slot"
| "exec_inst E call prog fr v (CallExt binding args _ _ _ _ _ _ _) = call_library E prog v binding args"
| "exec_inst E call prog fr v (TailExt _) = throw (VE_Unimplemented ''TailExt'')"
| "exec_inst E call prog fr v (Intrinsic kind args) = run_intrinsic E fr v kind args"
| "exec_inst E call prog fr v (X86Simd op imm args) = nt_simd E fr op imm args"
| "exec_inst E call prog fr v (InlineAsm asm args) = nt_asm E (aarch64 prog) fr asm args v"
| "exec_inst E call prog fr v (LifetimeEnd _) = ret ()"
| "exec_inst E call prog fr v (AsmOut _ _) = ret ()"
| "exec_inst E call prog fr v (AllocaInit _) = ret ()"
| "exec_inst E call prog fr v (ParamRef idx kind) = inst_param_ref E fr v idx kind"
| "exec_inst E call prog fr v (SegLoad _ _ _ _) = throw (VE_Unimplemented ''SegLoad'')"
| "exec_inst E call prog fr v (SegStore _ _ _ _ _) = throw (VE_Unimplemented ''SegStore'')"
| "exec_inst E call prog fr v (ParamPart _ _ _) = throw (VE_Unimplemented ''ParamPart'')"
| "exec_inst E call prog fr v (RetPart _ _) = throw (VE_Unimplemented ''RetPart'')"
| "exec_inst E call prog fr v (AggParts _ _ _) = throw (VE_Unimplemented ''AggParts'')"
| "exec_inst E call prog fr v (Phi _ _) = throw (VE_Unimplemented ''Phi'')"

definition run_inst ::
  "('fp, 'h) vm_env \<Rightarrow> ('fp, 'h) caller \<Rightarrow> Program \<Rightarrow> Frame \<Rightarrow> ValueId \<Rightarrow> (('fp, 'h) VmState, unit) exec" where
  "run_inst E call prog fr v = andThen (index_of (insts (fr_func fr)) v) (exec_inst E call prog fr v)"

section \<open>Blocks\<close>

fun run_insts ::
  "('fp, 'h) vm_env \<Rightarrow> ('fp, 'h) caller \<Rightarrow> Program \<Rightarrow> Frame \<Rightarrow> ValueId list \<Rightarrow> (('fp, 'h) VmState, unit) exec" where
  "run_insts E call prog fr [] = ret ()"
| "run_insts E call prog fr (v # vs) =
     andThen (run_inst E call prog fr v) (\<lambda>_. run_insts E call prog fr vs)"

text \<open>What a terminator decides: to leave the function with a value or to enter a block.\<close>

datatype flow = Leave i64 | Enter BlockId

fun run_terminator :: "Frame \<Rightarrow> Terminator \<Rightarrow> (('fp, 'h) VmState, flow) exec" where
  "run_terminator fr (T_Return rv) =
     (if rv = NO_VALUE then ret (Leave 0) else andThen (get_reg rv) (\<lambda>r. ret (Leave r)))"
| "run_terminator fr (T_Jmp t) = ret (Enter t)"
| "run_terminator fr (T_Bz cond t ft) = andThen (get_reg cond) (\<lambda>c. ret (Enter (if c = 0 then t else ft)))"
| "run_terminator fr (T_Bnz cond t ft) = andThen (get_reg cond) (\<lambda>c. ret (Enter (if c \<noteq> 0 then t else ft)))"
| "run_terminator fr (T_FallThrough t) = ret (Enter t)"
| "run_terminator fr (T_GotoIndirect v) =
     andThen (get_reg v) (\<lambda>raw.
       case label_block (fr_func fr) (fr_func_idx fr) raw of
         Some b \<Rightarrow> ret (Enter b)
       | None \<Rightarrow> throw (VE_Goto raw))"
| "run_terminator fr (T_JumpTable idx table) =
     andThen (get_reg idx) (\<lambda>x.
       let i = unat x; tables = jump_tables (fr_func fr)
       in if table < length tables \<and> i < length (tables ! table) then ret (Enter (tables ! table ! i))
          else throw (VE_JumpTable i))"
| "run_terminator fr (T_TailExt _) = throw (VE_Unimplemented ''TailExt'')"
| "run_terminator fr (T_AsmGoto _) = throw (VE_Unimplemented ''asm goto'')"
| "run_terminator fr T_Unreachable = throw VE_Unreachable"

text \<open>The block loop; the fuel is the number of blocks it may enter.\<close>

fun run_blocks ::
  "nat \<Rightarrow> ('fp, 'h) vm_env \<Rightarrow> ('fp, 'h) caller \<Rightarrow> Program \<Rightarrow> Frame \<Rightarrow> (('fp, 'h) VmState, i64) exec" where
  "run_blocks 0 E call prog fr = stop_with Stop_Fuel"
| "run_blocks (Suc n) E call prog fr =
     andThen (index_of (blocks (fr_func fr)) (block_idx fr)) (\<lambda>blk.
     andThen (run_insts E call prog fr [fst (inst_range blk) ..< snd (inst_range blk)]) (\<lambda>_.
     andThen (run_terminator fr (terminator blk)) (\<lambda>fl.
       case fl of
         Leave r \<Rightarrow> ret r
       | Enter b \<Rightarrow> run_blocks n E call prog (fr\<lparr>block_idx := b\<rparr>))))"

section \<open>Functions\<close>

text \<open>
  The frame of a call: the slots, the two words of the frame record above them, and the region of
  the over-aligned objects.
\<close>

definition enter_frame :: "FunctionSsa \<Rightarrow> CallLink \<Rightarrow> nat \<Rightarrow> (('fp, 'h) Machine, Frame) exec" where
  "enter_frame func link nargs =
     (let nlocals = nat (max (sint (locals func)) 0);
          fbytes = (nlocals + max (n_params func) nargs) * 8
      in
        andThen (in_usize fbytes FRAME_RECORD_BYTES) (\<lambda>_.
        andThen (on_mem (\<lambda>m. alloc_frame m (fbytes + FRAME_RECORD_BYTES))) (\<lambda>base.
        andThen (write_mem (\<lambda>m. write_bytes m (base + fbytes) (to_le_bytes 8 (of_nat (caller_record link) :: u64)))) (\<lambda>_.
        andThen (write_mem (\<lambda>m. write_bytes m (base + fbytes + 8) (to_le_bytes 8 (return_address link)))) (\<lambda>_.
        andThen
          (if over_aligned func = [] then ret 0
           else on_mem (\<lambda>m. alloc_aligned_frame m (unat (frame_align func)) (unat (realign_region_bytes func)))) (\<lambda>realign.
          ret \<lparr>fr_func = func, fr_stack_base = base, fr_record = base + fbytes, fr_func_idx = cl_func_idx link,
               frame_bytes = fbytes, fr_locals = nlocals, realign_base = realign, block_idx = 0\<rparr>))))))"

text \<open>
  Argument \<open>i\<close> into its slot.  An aggregate parameter is filled from the caller's copy when the
  call tags the argument with a layout, and from the word itself otherwise.
\<close>

definition stage_arg :: "Frame \<Rightarrow> nat option list \<Rightarrow> nat \<times> i64 \<Rightarrow> (('fp, 'h) Machine, unit) exec" where
  "stage_arg fr arg_aggs =
     (\<lambda>(i, v).
        case agg_entry (param_aggs (fr_func fr)) i of
          Some idx \<Rightarrow>
            andThen (index_of (agg_descs (fr_func fr)) idx) (\<lambda>desc.
            andThen (index_of (param_local_slots (fr_func fr)) i) (\<lambda>slot.
            andThen (slot_of fr slot) (\<lambda>dst.
              if agg_entry arg_aggs i \<noteq> None then copy_mem dst (unat v) (agg_size desc)
              else write_mem (\<lambda>m. write_bytes m dst (take (min (agg_size desc) 8) (to_le_bytes 8 v))))))
        | None \<Rightarrow>
            write_mem (\<lambda>m. write_bytes m (fr_stack_base fr + (fr_locals fr + i) * 8) (to_le_bytes 8 v)))"

definition stage_args :: "Frame \<Rightarrow> nat option list \<Rightarrow> i64 list \<Rightarrow> (('fp, 'h) Machine, unit) exec" where
  "stage_args fr arg_aggs args =
     andThen (each (stage_arg fr arg_aggs) (List.enumerate 0 args)) (\<lambda>_. ret ())"

text \<open>A frame's computation, with its registers set up.\<close>

definition in_frame :: "i64 list \<Rightarrow> (('fp, 'h) VmState, 'a) exec \<Rightarrow> (('fp, 'h) Machine, 'a) exec" where
  "in_frame rs m =
     (\<lambda>k. case m (Machine.extend k (VmState.fields rs)) of (r, s) \<Rightarrow> (r, Machine.truncate s))"

text \<open>The loop ended, with a value or an error: the frame is released.  A panic does not get here.\<close>

definition releasing :: "nat \<Rightarrow> (('fp, 'h) Machine, 'a) exec \<Rightarrow> (('fp, 'h) Machine, 'a) exec" where
  "releasing base m =
     (\<lambda>k. case m k of (r, k') \<Rightarrow>
        (r, if r \<in> {Inl Stop_Panic, Inl Stop_Overflow, Inl Stop_Fuel} then k'
            else k'\<lparr>vm_mem := release_frame (vm_mem k') base\<rparr>))"

abbreviation (input) REG_UNSET :: i64 where "REG_UNSET \<equiv> 0x8000000000000000"

definition call_func ::
  "nat \<Rightarrow> ('fp, 'h) vm_env \<Rightarrow> ('fp, 'h) caller \<Rightarrow> Program \<Rightarrow> ('fp, 'h) caller" where
  "call_func blks E call prog link args arg_aggs =
     andThen (index_of (funcs prog) (cl_func_idx link)) (\<lambda>func.
     andThen (enter_frame func link (length args)) (\<lambda>fr.
     andThen (stage_args fr arg_aggs args) (\<lambda>_.
       releasing (fr_stack_base fr)
         (in_frame (replicate (length (insts func)) REG_UNSET) (run_blocks blks E call prog fr)))))"

text \<open>\<open>run_func\<close> calls itself through the instructions; the fuel is the depth of calls.\<close>

fun run_func :: "nat \<Rightarrow> nat \<Rightarrow> ('fp, 'h) vm_env \<Rightarrow> Program \<Rightarrow> ('fp, 'h) caller" where
  "run_func 0 blks E prog link args arg_aggs = stop_with Stop_Fuel"
| "run_func (Suc d) blks E prog link args arg_aggs =
     call_func blks E (run_func d blks E prog) prog link args arg_aggs"

section \<open>Programs\<close>

text \<open>
  \<open>stage_argv\<close>: the pointer array, then the strings.  \<open>push_arg\<close> appends one string and notes where
  it starts.
\<close>

definition push_arg :: "u8 list \<times> nat list \<Rightarrow> u8 list \<Rightarrow> u8 list \<times> nat list" where
  "push_arg st arg = (case st of (out, entries) \<Rightarrow> (out @ arg @ [0], entries @ [length out]))"

definition argv_entry :: "nat \<Rightarrow> u8 list \<Rightarrow> nat \<times> nat \<Rightarrow> u8 list" where
  "argv_entry argv_addr out = (\<lambda>(i, addr). splice out (argv_addr + i * 8) (to_le_bytes 8 (of_nat addr :: i64)))"

definition stage_argv :: "u8 list \<Rightarrow> u8 list list \<Rightarrow> u8 list \<times> i64 \<times> i64" where
  "stage_argv data args =
     (if args = [] then (data, 0, 0)
      else
        let out0 = (if data = [] then replicate 8 0 else data);
            argv_addr = length out0;
            out1 = out0 @ replicate ((length args + 1) * 8) 0
        in case foldl push_arg (out1, []) args of
             (out2, entries) \<Rightarrow>
               (foldl (argv_entry argv_addr) out2 (List.enumerate 0 entries),
                of_nat (length args), of_nat argv_addr))"

definition with_track_pointers :: "bool \<Rightarrow> 'fp Memory \<Rightarrow> 'fp Memory" where
  "with_track_pointers on mem = mem\<lparr>track_pointers := on\<rparr>"

definition too_large :: "FunctionSsa list \<Rightarrow> bool" where
  "too_large fs \<longleftrightarrow>
     length fs \<ge> CODE_POSITION_FIELD \<or>
     list_ex (\<lambda>f. length (blocks f) \<ge> CODE_POSITION_FIELD \<or>
       list_ex (\<lambda>b. snd (inst_range b) - fst (inst_range b) \<ge> CODE_POSITION_FIELD) (blocks f)) fs"

fun exit_status_of :: "stop \<Rightarrow> i64 option" where
  "exit_status_of (Stop_Err (VE_Exit status)) = Some status"
| "exit_status_of _ = None"

text \<open>A call at the program boundary: \<open>Inl\<close> is the value it returned, \<open>Inr\<close> the status of an \<open>exit\<close>.\<close>

definition catch_exit :: "('s, 'a) exec \<Rightarrow> ('s, 'a + i64) exec" where
  "catch_exit m =
     (\<lambda>k. case m k of
            (Inr v, k') \<Rightarrow> (Inr (Inl v), k')
          | (Inl e, k') \<Rightarrow> (case exit_status_of e of Some status \<Rightarrow> (Inr (Inr status), k') | None \<Rightarrow> (Inl e, k')))"

text \<open>
  A list of constructors or destructors.  \<open>Some\<close> is the status of one that called \<open>exit\<close>, which ends
  the program at once.
\<close>

fun run_hooks :: "('fp, 'h) caller \<Rightarrow> Program \<Rightarrow> nat list \<Rightarrow> (('fp, 'h) Machine, i64 option) exec" where
  "run_hooks call prog [] = ret None"
| "run_hooks call prog (pc # pcs) =
     andThen (lookup_fn prog pc) (\<lambda>i.
     andThen (catch_exit (call (link_entry i) [] [])) (\<lambda>r.
       case r of Inl _ \<Rightarrow> run_hooks call prog pcs | Inr status \<Rightarrow> ret (Some status)))"

text \<open>The entry function; an \<open>exit\<close> from it is its status.\<close>

definition run_entry ::
  "('fp, 'h) caller \<Rightarrow> Program \<Rightarrow> nat \<Rightarrow> i64 list \<Rightarrow> (('fp, 'h) Machine, i64) exec" where
  "run_entry call prog entry_pc argv =
     andThen (lookup_fn prog entry_pc) (\<lambda>i.
     andThen (index_of (funcs prog) i) (\<lambda>f.
     andThen (catch_exit (call (link_entry i) (if n_params f = 0 then [] else argv) [])) (\<lambda>r.
       ret (case r of Inl v \<Rightarrow> v | Inr status \<Rightarrow> status))))"

definition run_sequence ::
  "('fp, 'h) caller \<Rightarrow> Program \<Rightarrow> nat list \<Rightarrow> nat \<Rightarrow> i64 list \<Rightarrow> nat list \<Rightarrow> (('fp, 'h) Machine, i64) exec" where
  "run_sequence call prog init_pcs entry_pc argv fini_pcs =
     andThen (run_hooks call prog init_pcs) (\<lambda>early.
       case early of
         Some status \<Rightarrow> ret status
       | None \<Rightarrow>
           andThen (run_entry call prog entry_pc argv) (\<lambda>status.
           andThen (run_hooks call prog (rev fini_pcs)) (\<lambda>late.
             ret (case late of Some s \<Rightarrow> s | None \<Rightarrow> status))))"

definition run_program_with_args_tracked ::
  "nat \<Rightarrow> nat \<Rightarrow> ('fp, 'h) vm_env \<Rightarrow> (Target \<Rightarrow> 'fp) \<Rightarrow> FunctionSsa list \<Rightarrow> u8 list \<Rightarrow> string list \<Rightarrow> nat \<Rightarrow> nat \<Rightarrow> 'h \<Rightarrow>
     u8 list list \<Rightarrow> bool \<Rightarrow> nat list \<Rightarrow> nat list \<Rightarrow> Target \<Rightarrow> (stop + i64) \<times> 'h" where
  "run_program_with_args_tracked d blks E fp_new fs data names base entry_pc host args track init_pcs fini_pcs tgt =
     (if too_large fs then (Inl (Stop_Err VE_TooLarge), host)
      else
        let prog = program_new fs names base tgt
        in case stage_argv data args of
             (data', argc, argv_addr) \<Rightarrow>
               let mem = with_track_pointers track (memory_new (vm_reserve E) fp_new data' tgt)
               in case run_sequence (run_func d blks E prog) prog init_pcs entry_pc [argc, argv_addr] fini_pcs
                         \<lparr>vm_mem = mem, vm_host = host\<rparr> of
                    (r, k) \<Rightarrow> (r, vm_host k))"

definition run_program_with_args ::
  "nat \<Rightarrow> nat \<Rightarrow> ('fp, 'h) vm_env \<Rightarrow> (Target \<Rightarrow> 'fp) \<Rightarrow> FunctionSsa list \<Rightarrow> u8 list \<Rightarrow> string list \<Rightarrow> nat \<Rightarrow> nat \<Rightarrow> 'h \<Rightarrow>
     u8 list list \<Rightarrow> Target \<Rightarrow> (stop + i64) \<times> 'h" where
  "run_program_with_args d blks E fp_new fs data names base entry_pc host args tgt =
     run_program_with_args_tracked d blks E fp_new fs data names base entry_pc host args False [] [] tgt"

definition run_program ::
  "nat \<Rightarrow> nat \<Rightarrow> ('fp, 'h) vm_env \<Rightarrow> (Target \<Rightarrow> 'fp) \<Rightarrow> FunctionSsa list \<Rightarrow> u8 list \<Rightarrow> string list \<Rightarrow> nat \<Rightarrow> 'h \<Rightarrow> Target \<Rightarrow>
     (stop + i64) \<times> 'h" where
  "run_program d blks E fp_new fs data names entry_pc host tgt =
     run_program_with_args d blks E fp_new fs data names 0 entry_pc host [] tgt"

text \<open>The host of \<open>run_ssa\<close> refuses every call: \<open>NullHost\<close>.\<close>

definition null_host :: "unit host_calls" where
  "null_host = \<lparr>host_write = \<lambda>fd buf h. (- 1, h), host_read = \<lambda>fd n h. ((- 1, replicate n 0), h), host_close = \<lambda>fd h. (- 1, h)\<rparr>"

definition run_ssa ::
  "nat \<Rightarrow> nat \<Rightarrow> ('fp, unit) vm_env \<Rightarrow> (Target \<Rightarrow> 'fp) \<Rightarrow> Target \<Rightarrow> FunctionSsa \<Rightarrow> stop + i64" where
  "run_ssa d blks E fp_new host_target func =
     fst (run_program d blks (E\<lparr>vm_calls := null_host\<rparr>) fp_new [func] [] [] (ent_pc func) () host_target)"

end
