(* ===== verification/Vm_Wf.thy ===== *)
theory Vm_Wf
  imports Vm_Run
begin

text \<open>
  Well-formed functions and programs: what the interpreter takes for granted of the code it is
  given.  Every operand names an instruction, every transfer a block, every aggregate a layout; the
  operations that the interpreter answers with a panic do not occur.  The predicates are executable.
\<close>

definition int_binop :: "BinOp \<Rightarrow> bool" where
  "int_binop op \<longleftrightarrow> \<not> is_fp_op op \<and> op \<notin> {BinOp_Mulh, BinOp_Mulhu, BinOp_Ror}"

text \<open>How many operands the interpreter reads of an intrinsic.\<close>

definition intrinsic_arity :: "Intrinsic \<Rightarrow> nat" where
  "intrinsic_arity i =
     (if i = Intr_Atomic128CmpXchg then 7
      else if i \<in> {Intr_Divq128, Intr_Atomic128Xchg, Intr_Atomic128FetchAnd, Intr_Atomic128FetchOr,
        Intr_Atomic128StoreInsert} then 5
      else if i \<in> {Intr_Atomic128Load, Intr_Atomic128LoadEx, Intr_Atomic128Store, Intr_Atomic128StoreEx} then 3
      else if i = Intr_VaCopy then 2
      else if is_fp_unary i \<or> i \<in> {Intr_VaStart, Intr_VaArg, Intr_X87StoreControlWord, Intr_X86Sgdt, Intr_X86Sidt,
        Intr_X86Sldt, Intr_X86Str, Intr_AArch64ReadCacheType} then 1
      else 0)"

definition intrinsic_wf :: "i64 \<Rightarrow> nat \<Rightarrow> bool" where
  "intrinsic_wf kind nargs \<longleftrightarrow>
     (case from_i64 kind of
        None \<Rightarrow> True
      | Some i \<Rightarrow> i \<noteq> Intr_FuncletFrame \<and> intrinsic_arity i \<le> nargs)"

definition agg_ref_wf :: "FunctionSsa \<Rightarrow> nat option \<Rightarrow> bool" where
  "agg_ref_wf f e \<longleftrightarrow> (case e of None \<Rightarrow> True | Some i \<Rightarrow> i < length (agg_descs f))"

definition inst_wf :: "FunctionSsa \<Rightarrow> Inst \<Rightarrow> bool" where
  "inst_wf f inst \<longleftrightarrow>
     list_all (\<lambda>v. v < length (insts f)) (for_each_operand inst) \<and>
     (case inst of
        ExceptionCode \<Rightarrow> False
      | ParentLocalAddr _ _ _ \<Rightarrow> False
      | ShiftOp op _ _ shift _ \<Rightarrow> int_binop op \<and> int_binop shift
      | BitField _ lsb width _ \<Rightarrow> lsb + width \<le> 64 \<and> width \<noteq> 0
      | Call _ _ _ _ _ _ _ _ arg_aggs ret_agg' _ \<Rightarrow> list_all (agg_ref_wf f) arg_aggs \<and> agg_ref_wf f ret_agg'
      | CallIndirect _ _ _ _ _ _ _ _ _ arg_aggs ret_agg' _ \<Rightarrow> list_all (agg_ref_wf f) arg_aggs \<and> agg_ref_wf f ret_agg'
      | Intrinsic kind args \<Rightarrow> intrinsic_wf kind (length args)
      | _ \<Rightarrow> True)"

fun term_targets :: "Terminator \<Rightarrow> BlockId list" where
  "term_targets (T_Jmp t) = [t]"
| "term_targets (T_Bz _ t ft) = [t, ft]"
| "term_targets (T_Bnz _ t ft) = [t, ft]"
| "term_targets (T_FallThrough t) = [t]"
| "term_targets _ = []"

definition block_wf :: "FunctionSsa \<Rightarrow> Block \<Rightarrow> bool" where
  "block_wf f b \<longleftrightarrow>
     snd (inst_range b) \<le> length (insts f) \<and>
     list_all (\<lambda>v. v < length (insts f)) (term_for_each_operand (terminator b)) \<and>
     list_all (\<lambda>t. t < length (blocks f)) (term_targets (terminator b))"

text \<open>A parameter passed as an aggregate has a layout and a slot to receive it.\<close>

definition param_wf :: "FunctionSsa \<Rightarrow> bool" where
  "param_wf f \<longleftrightarrow>
     list_all (agg_ref_wf f) (param_aggs f) \<and>
     list_all (\<lambda>(i, e). e \<noteq> None \<longrightarrow> i < length (param_local_slots f)) (List.enumerate 0 (param_aggs f))"

text \<open>The region of the over-aligned objects has an alignment.\<close>

definition realign_wf :: "FunctionSsa \<Rightarrow> bool" where
  "realign_wf f \<longleftrightarrow> over_aligned f = [] \<or> frame_align f \<noteq> 0"

definition func_wf :: "FunctionSsa \<Rightarrow> bool" where
  "func_wf f \<longleftrightarrow>
     blocks f \<noteq> [] \<and> list_all (inst_wf f) (insts f) \<and> list_all (block_wf f) (blocks f) \<and> param_wf f \<and> realign_wf f \<and>
     list_all (\<lambda>t. t < length (blocks f)) (computed_goto_targets f) \<and>
     list_all (list_all (\<lambda>t. t < length (blocks f))) (jump_tables f)"

definition program_wf :: "Program \<Rightarrow> bool" where
  "program_wf prog \<longleftrightarrow> list_all func_wf (funcs prog)"

text \<open>The intrinsic that lowers the stack top, which only block-scoped variable-length arrays use.\<close>

definition restores_stack :: "Inst \<Rightarrow> bool" where
  "restores_stack inst \<longleftrightarrow>
     (case inst of Intrinsic kind _ \<Rightarrow> from_i64 kind = Some Intr_AllocaRestore | _ \<Rightarrow> False)"

end
