(* ===== verification/Vm_Rules.thy ===== *)
theory Vm_Rules
  imports Vm_Wf
begin

text \<open>
  Proof rules for the interpreter's computations.  \<open>keeps P R bad m\<close> says that \<open>m\<close> preserves the
  invariant \<open>P\<close>, relates the states before and after by \<open>R\<close>, and never stops with a reason in
  \<open>bad\<close>.  The locale \<open>discipline\<close> proves the rules of the combinators once; the memory discipline
  and the register discipline of the interpreter are its interpretations.
\<close>

section \<open>Computations that keep a discipline\<close>

definition keeps :: "('s \<Rightarrow> bool) \<Rightarrow> ('s \<Rightarrow> 's \<Rightarrow> bool) \<Rightarrow> stop set \<Rightarrow> ('s, 'a) exec \<Rightarrow> bool" where
  "keeps P R bad m \<longleftrightarrow>
     (\<forall>s. P s \<longrightarrow> P (snd (m s)) \<and> R s (snd (m s)) \<and> (\<forall>e. fst (m s) = Inl e \<longrightarrow> e \<notin> bad))"

lemma keepsI:
  "(\<And>s. P s \<Longrightarrow> P (snd (m s)) \<and> R s (snd (m s)) \<and> (\<forall>e. fst (m s) = Inl e \<longrightarrow> e \<notin> bad)) \<Longrightarrow> keeps P R bad m"
  by (simp add: keeps_def)

lemma keepsD:
  assumes "keeps P R bad m" "P s"
  shows "P (snd (m s))" "R s (snd (m s))" "fst (m s) = Inl e \<Longrightarrow> e \<notin> bad"
  using assms by (auto simp: keeps_def)

lemma keeps_if: "(b \<Longrightarrow> keeps P R bad m) \<Longrightarrow> (\<not> b \<Longrightarrow> keeps P R bad m') \<Longrightarrow> keeps P R bad (if b then m else m')"
  by simp

lemma keeps_option:
  "(x = None \<Longrightarrow> keeps P R bad m) \<Longrightarrow> (\<And>y. x = Some y \<Longrightarrow> keeps P R bad (f y)) \<Longrightarrow>
   keeps P R bad (case x of None \<Rightarrow> m | Some y \<Rightarrow> f y)"
  by (cases x) simp_all

lemma keeps_prod: "(\<And>a b. p = (a, b) \<Longrightarrow> keeps P R bad (f a b)) \<Longrightarrow> keeps P R bad (case p of (a, b) \<Rightarrow> f a b)"
  by (cases p) simp

lemma keeps_let: "(\<And>x. x = y \<Longrightarrow> keeps P R bad (f x)) \<Longrightarrow> keeps P R bad (let x = y in f x)"
  by simp

lemma keeps_list:
  "(xs = [] \<Longrightarrow> keeps P R bad m) \<Longrightarrow> (\<And>y ys. xs = y # ys \<Longrightarrow> keeps P R bad (f y ys)) \<Longrightarrow>
   keeps P R bad (case xs of [] \<Rightarrow> m | y # ys \<Rightarrow> f y ys)"
  by (cases xs) simp_all

lemmas keeps_splits = keeps_if keeps_option keeps_prod keeps_let keeps_list

text \<open>Successful runs of the combinators.\<close>

lemma ret_Inr: "ret x s = (Inr y, t) \<longleftrightarrow> y = x \<and> t = s"
  by (auto simp: ret_def)

lemma andThen_Inr: "andThen m f s = (Inr y, u) \<longleftrightarrow> (\<exists>x t. m s = (Inr x, t) \<and> f x t = (Inr y, u))"
  by (auto simp: andThen_def split: prod.splits sum.splits)

lemma in_usize_Inr: "in_usize a n s = (Inr y, t) \<longleftrightarrow> a + n < 2 ^ 64 \<and> t = s"
  by (auto simp: in_usize_def ret_def stop_with_def)

lemma on_mem_Inr:
  "on_mem f s = (Inr x, t) \<longleftrightarrow> (\<exists>m. f (vm_mem s) = Inr (x, m) \<and> t = s\<lparr>vm_mem := m\<rparr>)"
  by (auto simp: on_mem_def split: sum.splits)

lemma index_of_Inr: "index_of xs i s = (Inr y, t) \<longleftrightarrow> i < length xs \<and> y = xs ! i \<and> t = s"
  by (auto simp: index_of_def ret_def stop_with_def)

lemma get_reg_Inr: "get_reg v s = (Inr x, t) \<longleftrightarrow> v < length (regs s) \<and> x = regs s ! v \<and> t = s"
  by (auto simp: get_reg_def index_of_Inr)

lemmas run_Inr = ret_Inr andThen_Inr in_usize_Inr on_mem_Inr index_of_Inr get_reg_Inr

locale discipline =
  fixes P :: "'s \<Rightarrow> bool" and R :: "'s \<Rightarrow> 's \<Rightarrow> bool" and bad :: "stop set"
  assumes R_refl: "P s \<Longrightarrow> R s s"
    and R_trans: "R s t \<Longrightarrow> R t u \<Longrightarrow> R s u"
    and errors_allowed: "Stop_Err e \<notin> bad"
begin

lemma ret_rule: "keeps P R bad (ret x)"
  by (simp add: keeps_def ret_def R_refl)

lemma stop_rule: "e \<notin> bad \<Longrightarrow> keeps P R bad (stop_with e)"
  by (simp add: keeps_def stop_with_def R_refl)

lemma throw_rule: "keeps P R bad (throw e)"
  by (rule stop_rule) (rule errors_allowed)

lemma andThen_result:
  assumes m: "keeps P R bad m" and f: "\<And>x s s'. P s \<Longrightarrow> m s = (Inr x, s') \<Longrightarrow> keeps P R bad (f x)"
  shows "keeps P R bad (andThen m f)"
proof (rule keepsI)
  fix s assume s: "P s"
  obtain r t where run: "m s = (r, t)" by fastforce
  note 1 = keepsD [OF m s, unfolded run prod.sel]
  show "P (snd (andThen m f s)) \<and> R s (snd (andThen m f s)) \<and> (\<forall>e. fst (andThen m f s) = Inl e \<longrightarrow> e \<notin> bad)"
  proof (cases r)
    case (Inl e)
    then show ?thesis using 1 run by (simp add: andThen_def)
  next
    case (Inr x)
    have "keeps P R bad (f x)" using f [OF s] run Inr by simp
    from keepsD [OF this 1(1)] show ?thesis using run Inr 1(2) by (auto simp: andThen_def intro: R_trans)
  qed
qed

lemma andThen_rule:
  "keeps P R bad m \<Longrightarrow> (\<And>x. keeps P R bad (f x)) \<Longrightarrow> keeps P R bad (andThen m f)"
  by (rule andThen_result)

lemma check_rule: "keeps P R bad (check_that b e)"
  by (simp add: check_that_def ret_rule throw_rule)

lemma index_rule: "i < length xs \<or> Stop_Panic \<notin> bad \<Longrightarrow> keeps P R bad (index_of xs i)"
  by (auto simp: index_of_def intro: ret_rule stop_rule)

lemma in_usize_rule: "Stop_Overflow \<notin> bad \<Longrightarrow> keeps P R bad (in_usize a n)"
  by (simp add: in_usize_def ret_rule stop_rule)

lemma each_rule: "(\<And>x. x \<in> set xs \<Longrightarrow> keeps P R bad (f x)) \<Longrightarrow> keeps P R bad (each f xs)"
  by (induction xs) (auto intro!: ret_rule andThen_rule)

lemma slot_rule: "keeps P R bad (slot_of fr off)"
  by (auto simp: slot_of_def intro: ret_rule throw_rule split: option.splits)

lemma lookup_rule: "keeps P R bad (lookup_fn prog pc)"
  by (auto simp: lookup_fn_def intro: ret_rule throw_rule split: option.splits)

lemma binding_rule: "keeps P R bad (binding_name prog i)"
  by (auto simp: binding_name_def intro: ret_rule throw_rule)

lemma data_addr_rule: "keeps P R bad (data_addr a)"
  by (simp add: data_addr_def check_rule)

lemma indirect_rule: "keeps P R bad (indirect_target raw)"
  unfolding indirect_target_def by (intro keeps_splits throw_rule ret_rule)

lemma size_rule: "keeps P R bad (libc_size name n)"
  unfolding libc_size_def by (intro keeps_splits throw_rule ret_rule)

lemma three_arg_rule: "keeps P R bad (libc_three_arg name args)"
  unfolding libc_three_arg_def by (intro keeps_splits throw_rule ret_rule andThen_rule size_rule)

lemma local_addr_rule: "keeps P R bad (local_addr fr off disp)"
  unfolding local_addr_def by (intro andThen_rule slot_rule ret_rule)

lemma link_rule:
  "block_idx fr < length (blocks (fr_func fr)) \<or> Stop_Panic \<notin> bad \<Longrightarrow> keeps P R bad (link_to fr callee v)"
  unfolding link_to_def by (intro andThen_rule index_rule ret_rule)

lemmas base_rules =
  ret_rule throw_rule andThen_rule check_rule each_rule slot_rule lookup_rule binding_rule data_addr_rule
  indirect_rule size_rule three_arg_rule local_addr_rule

end

section \<open>What an operation may do to the memory\<close>

text \<open>
  The regions stay where they are; the stack top, the heap and the registry only grow.  A frame's
  release is the one operation that lowers the stack top.
\<close>

definition grows :: "'fp Memory \<Rightarrow> 'fp Memory \<Rightarrow> bool" where
  "grows m m' \<longleftrightarrow>
     data_end m' = data_end m \<and> stack_base m' = stack_base m \<and> heap_base m' = heap_base m \<and> stdio m' = stdio m \<and>
     track_pointers m' = track_pointers m \<and> target m' = target m \<and> stack_top m \<le> stack_top m' \<and>
     heap_top m \<le> heap_top m' \<and> length (bytes m) \<le> length (bytes m') \<and>
     length (allocations m) \<le> length (allocations m')"

lemma grows_refl: "grows m m"
  by (simp add: grows_def)

lemma grows_trans: "grows m m' \<Longrightarrow> grows m' m'' \<Longrightarrow> grows m m''"
  by (simp add: grows_def)

definition mem_step :: "'fp Memory \<Rightarrow> 'fp Memory \<Rightarrow> bool" where
  "mem_step m m' \<longleftrightarrow> (mem_ok m \<longrightarrow> mem_ok m' \<and> grows m m')"

lemma mem_step_bytes: "length bs \<ge> length (bytes m) \<Longrightarrow> mem_step m (m\<lparr>bytes := bs\<rparr>)"
  by (simp add: mem_step_def grows_def mem_ok_bytes)

lemma write_bytes_step: "write_bytes m a bs = Inr m' \<Longrightarrow> mem_step m m'"
  by (auto simp: write_bytes_Inr intro!: mem_step_bytes)

lemma fill_bytes_step: "fill_bytes m a x n = Inr m' \<Longrightarrow> mem_step m m'"
  by (auto simp: fill_bytes_def split: if_splits intro!: mem_step_bytes)

lemma copy_within_step: "copy_within m dst src n = Inr m' \<Longrightarrow> mem_step m m'"
  by (auto simp: copy_within_def split: if_splits intro!: mem_step_bytes)

lemma store_step: "store_to_memory C m a x k = Inr m' \<Longrightarrow> mem_step m m'"
  by (auto simp: store_to_memory_def split: sum.splits intro: write_bytes_step)

lemma fp_step: "mem_step m (m\<lparr>fp := e\<rparr>)"
  by (simp add: mem_step_def grows_def mem_ok_defs)

lemma alloc_frame_step: "alloc_frame m n = Inr (base, m') \<Longrightarrow> mem_step m m'"
  using alloc_frame_spec [of m n base m']
  by (auto simp: mem_step_def grows_def alloc_frame_def Let_def mem_ok_defs split: if_splits)

lemma alloc_aligned_frame_step: "0 < align \<Longrightarrow> alloc_aligned_frame m align n = Inr (base, m') \<Longrightarrow> mem_step m m'"
  using alloc_aligned_frame_spec [of m align n base m'] nat_round_up_bounds [of align "stack_top m"]
  by (auto simp: mem_step_def grows_def alloc_aligned_frame_def Let_def mem_ok_defs split: if_splits)

lemma heap_alloc_step: "mem_step m (snd (heap_alloc reserve m n))"
  unfolding mem_step_def
proof
  assume ok: "mem_ok m"
  obtain base m' where run: "heap_alloc reserve m n = (base, m')" by fastforce
  have r: "heap_base m \<le> heap_top m" "0 < heap_base m" "heap_top m \<le> length (bytes m)"
    using ok by (auto simp: mem_ok_defs)
  have "grows m m'" using run r(1,2)
  proof (cases rule: heap_alloc_cases)
    case (ok nxt)
    then show ?thesis using r(3) grown_bytes(1) [of "heap_top m" "bytes m" nxt]
      by (simp add: grows_def record_allocation_def)
  qed (simp add: grows_refl)
  then show "mem_ok (snd (heap_alloc reserve m n)) \<and> grows m (snd (heap_alloc reserve m n))"
    using ok run heap_alloc_ok [of m reserve n] by simp
qed

lemma mem_step_trans: "mem_step m m' \<Longrightarrow> mem_step m' m'' \<Longrightarrow> mem_step m m''"
  by (auto simp: mem_step_def intro: grows_trans)

lemma set_enomem_step: "mem_step m (set_enomem m)"
  unfolding mem_step_def
proof
  assume ok: "mem_ok m"
  then have "stdio m + STDIO_ERRNO + length (to_le_bytes 4 ENOMEM) \<le> length (bytes m)"
    by (simp add: mem_ok_defs)
  then show "mem_ok (set_enomem m) \<and> grows m (set_enomem m)"
    using set_enomem_ok [OF ok] by (simp add: set_enomem_def grows_def)
qed

lemma mem_step_refl: "mem_step m m"
  by (simp add: mem_step_def grows_refl)

lemma guest_alloc_step: "mem_step m (snd (guest_alloc reserve m n))"
proof -
  obtain base m' where r: "(case n of None \<Rightarrow> (0, m) | Some n \<Rightarrow> heap_alloc reserve m n) = (base, m')" by fastforce
  then have "mem_step m m'" using heap_alloc_step [of m reserve] by (cases n) (auto simp: mem_step_refl dest!: arg_cong [where f = snd])
  then show ?thesis by (simp add: guest_alloc_def r mem_step_trans [OF _ set_enomem_step])
qed

lemma set_freed_step: "i < length (allocations m) \<Longrightarrow> mem_step m (set_freed m i)"
  by (simp add: mem_step_def set_freed_ok) (simp add: set_freed_def grows_def)

lemma libc_free_step: "libc_free m args = Inr (r, m') \<Longrightarrow> mem_step m m'"
  by (auto simp: libc_free_def Let_def split: if_splits option.splits dest: alloc_at_Some
      intro: set_freed_step mem_step_refl)

lemma libc_malloc_step: "libc_malloc reserve m args = Inr (r, m') \<Longrightarrow> mem_step m m'"
  using guest_alloc_step [of m reserve] by (auto simp: libc_malloc_def split: sum.splits dest!: arg_cong [where f = snd])

lemma libc_calloc_step: "libc_calloc reserve m args = Inr (r, m') \<Longrightarrow> mem_step m m'"
  using guest_alloc_step [of m reserve] by (auto simp: libc_calloc_def split: sum.splits dest!: arg_cong [where f = snd])

lemma libc_realloc_step:
  assumes "libc_realloc reserve m args = Inr (r, m')"
  shows "mem_step m m'"
proof -
  obtain n b m1 where g: "guest_alloc reserve m (Some n) = (b, m1)"
    and c: "m' = m1 \<or> (\<exists>i k m2. alloc_at (allocations m) (unat (case args of [] \<Rightarrow> 0 | x # _ \<Rightarrow> x)) = Some i \<and>
        copy_within m1 (unat b) (unat (case args of [] \<Rightarrow> 0 | x # _ \<Rightarrow> x)) k = Inr m2 \<and> m' = set_freed m2 i)"
    by (rule libc_realloc_shape [OF assms])
  have 1: "mem_step m m1" using guest_alloc_step [of m reserve "Some n"] g by simp
  obtain new where new: "allocations m1 = allocations m @ new"
    using guest_alloc_allocations [of reserve m "Some n"] g by auto
  show ?thesis
    using c
  proof (elim disjE exE conjE)
    fix i k m2
    assume i: "alloc_at (allocations m) (unat (case args of [] \<Rightarrow> 0 | x # _ \<Rightarrow> x)) = Some i"
      and m2: "m' = set_freed m2 i" "copy_within m1 (unat b) (unat (case args of [] \<Rightarrow> 0 | x # _ \<Rightarrow> x)) k = Inr m2"
    have "i < length (allocations m2)"
      using alloc_at_Some [OF i] new copy_within_allocations [OF m2(2)] by simp
    then show ?thesis using mem_step_trans [OF 1 mem_step_trans [OF copy_within_step [OF m2(2)] set_freed_step]] m2(1) by simp
  qed (use 1 in simp)
qed

section \<open>Disciplines on machines\<close>

text \<open>
  A discipline that allows every \<open>mem_step\<close> and every call of the host.  The library functions keep
  it, given that those behind the parameter do.
\<close>

locale machine_discipline = discipline P R bad
  for P :: "('fp, 'h, 'z) Machine_scheme \<Rightarrow> bool" and R and bad +
  assumes mem_law: "P s \<Longrightarrow> mem_step (vm_mem s) m \<Longrightarrow> P (s\<lparr>vm_mem := m\<rparr>) \<and> R s (s\<lparr>vm_mem := m\<rparr>)"
    and host_law: "P s \<Longrightarrow> P (s\<lparr>vm_host := h\<rparr>) \<and> R s (s\<lparr>vm_host := h\<rparr>)"
    and overflow_allowed: "Stop_Overflow \<notin> bad"
begin

lemma read_rule: "keeps P R bad (read_mem f)"
  by (auto simp: keeps_def read_mem_def R_refl errors_allowed split: sum.splits)

lemma write_rule: "(\<And>m m'. f m = Inr m' \<Longrightarrow> mem_step m m') \<Longrightarrow> keeps P R bad (write_mem f)"
  using mem_law by (auto simp: keeps_def write_mem_def R_refl errors_allowed split: sum.splits)

lemma on_mem_rule: "(\<And>m x m'. f m = Inr (x, m') \<Longrightarrow> mem_step m m') \<Longrightarrow> keeps P R bad (on_mem f)"
  using mem_law by (auto simp: keeps_def on_mem_def R_refl errors_allowed split: sum.splits)

lemma heap_rule: "(\<And>m x m'. f m = Inr (x, m') \<Longrightarrow> mem_step m m') \<Longrightarrow> keeps P R bad (heap_call f)"
  using mem_law by (auto simp: keeps_def heap_call_def R_refl errors_allowed split: sum.splits)

lemma fp_rule: "keeps P R bad (with_fp f)"
  using mem_law [OF _ fp_step] by (auto simp: keeps_def with_fp_def split: prod.splits)

lemma host_rule: "keeps P R bad (to_host f)"
  using host_law by (auto simp: keeps_def to_host_def split: prod.splits)

lemma usize_rule: "keeps P R bad (in_usize a n)"
  by (rule in_usize_rule) (rule overflow_allowed)

lemma checked_rule: "keeps P R bad (checked a n kind)"
  unfolding checked_def by (rule read_rule)

lemma checked_both_rule: "keeps P R bad (checked_both a n)"
  unfolding checked_both_def by (intro andThen_rule checked_rule)

lemma load_rule: "keeps P R bad (load_mem C a kind)"
  unfolding load_mem_def by (intro andThen_rule usize_rule read_rule)

lemma store_rule: "keeps P R bad (store_mem C a x kind)"
  unfolding store_mem_def by (intro andThen_rule usize_rule write_rule) (rule store_step)

lemma copy_rule: "keeps P R bad (copy_mem dst src n)"
  unfolding copy_mem_def by (intro andThen_rule usize_rule write_rule) (rule copy_within_step)

lemma cstring_rule: "keeps P R bad (cstring_arg name args i)"
  by (auto simp: keeps_def cstring_arg_def R_refl errors_allowed split: option.splits)

lemma stdio_rule: "keeps P R bad (stdio_fd name args i)"
  by (auto simp: keeps_def stdio_fd_def Let_def R_refl errors_allowed)

lemma pair_rule: "keeps P R bad (load_pair C a)"
  unfolding load_pair_def by (intro andThen_rule load_rule ret_rule)

lemma store_pair_rule: "keeps P R bad (store_pair C a x)"
  unfolding store_pair_def by (intro andThen_rule store_rule)

lemma store_halves_rule: "keeps P R bad (store_halves C a b x)"
  unfolding store_halves_def by (intro andThen_rule store_rule)

lemmas machine_rules =
  base_rules read_rule fp_rule host_rule usize_rule checked_rule checked_both_rule load_rule store_rule copy_rule
  cstring_rule stdio_rule pair_rule store_pair_rule store_halves_rule

lemma memmove_rule: "keeps P R bad (libc_memmove name args)"
  unfolding libc_memmove_def by (intro machine_rules keeps_splits)

lemma memset_rule: "keeps P R bad (libc_memset args)"
  unfolding libc_memset_def
  by (intro machine_rules keeps_splits write_rule) (rule fill_bytes_step)

lemma memcmp_rule: "keeps P R bad (libc_memcmp args)"
  unfolding libc_memcmp_def by (intro machine_rules keeps_splits)

lemma write_call_rule: "keeps P R bad (libc_write E args)"
  unfolding libc_write_def by (intro machine_rules keeps_splits)

lemma state_rule: "keeps P R bad (\<lambda>s. (Inr (f s), s))"
  by (simp add: keeps_def R_refl)

lemma read_call_rule: "keeps P R bad (libc_read E args)"
  unfolding libc_read_def
  by (intro machine_rules keeps_splits write_rule state_rule) (rule write_bytes_step)

lemma put_rule: "keeps P R bad (put_bytes E fd out r)"
  unfolding put_bytes_def by (intro machine_rules)

lemma stream_rules:
  "keeps P R bad (libc_fputs E args)" "keeps P R bad (libc_puts E args)" "keeps P R bad (libc_fputc E name args)"
  "keeps P R bad (libc_fwrite E args)" "keeps P R bad (libc_putchar E args)"
  unfolding libc_fputs_def libc_puts_def libc_fputc_def libc_fwrite_def libc_putchar_def
  by (intro machine_rules keeps_splits put_rule)+

end

section \<open>The disciplines of the interpreter\<close>

text \<open>
  \<open>I\<close> and \<open>G\<close> are an invariant of the memory and a relation between memories that every \<open>mem_step\<close>
  respects.  \<open>bad\<close> holds at most the panic, and \<open>restores\<close> tells whether the stack top may be set
  freely.  A frame's computation also keeps the number of its registers.
\<close>

locale vm_discipline =
  fixes I :: "'fp Memory \<Rightarrow> bool" and G :: "'fp Memory \<Rightarrow> 'fp Memory \<Rightarrow> bool" and bad :: "stop set"
    and restores :: bool
  assumes G_refl: "I m \<Longrightarrow> G m m"
    and G_trans: "G m m' \<Longrightarrow> G m' m'' \<Longrightarrow> G m m''"
    and G_step: "I m \<Longrightarrow> mem_step m m' \<Longrightarrow> I m' \<and> G m m'"
    and G_release: "restores \<Longrightarrow> I m \<Longrightarrow> I (release_frame m b) \<and> G m (release_frame m b)"
    and G_leave: "I m \<Longrightarrow> G m m' \<Longrightarrow> I m' \<Longrightarrow> stack_top m \<le> b \<Longrightarrow> b \<le> heap_base m \<Longrightarrow>
      I (release_frame m' b) \<and> G m (release_frame m' b)"
    and bad_panic: "bad \<subseteq> {Stop_Panic}"
begin

abbreviation kept :: "(('fp, 'h) Machine, 'a) exec \<Rightarrow> bool" where
  "kept m \<equiv> keeps (\<lambda>k. I (vm_mem k)) (\<lambda>k k'. G (vm_mem k) (vm_mem k')) bad m"

abbreviation kept_in :: "nat \<Rightarrow> (('fp, 'h) VmState, 'a) exec \<Rightarrow> bool" where
  "kept_in n m \<equiv>
     keeps (\<lambda>s. I (vm_mem s) \<and> length (regs s) = n) (\<lambda>s s'. G (vm_mem s) (vm_mem s')) bad m"

lemma bad_rules: "Stop_Err e \<notin> bad" "Stop_Overflow \<notin> bad" "Stop_Fuel \<notin> bad"
  using bad_panic by auto

end

sublocale vm_discipline \<subseteq>
  mach: machine_discipline "\<lambda>k :: ('fp, 'h) Machine. I (vm_mem k)" "\<lambda>k k'. G (vm_mem k) (vm_mem k')" bad
  by unfold_locales (auto intro: G_trans simp: G_refl bad_rules dest: G_step)

sublocale vm_discipline \<subseteq>
  frm: machine_discipline "\<lambda>s :: ('fp, 'h) VmState. I (vm_mem s) \<and> length (regs s) = n"
    "\<lambda>k k'. G (vm_mem k) (vm_mem k')" bad for n
  by unfold_locales (auto intro: G_trans simp: G_refl bad_rules dest: G_step)

context vm_discipline
begin

lemma get_rule: "(Stop_Panic \<in> bad \<Longrightarrow> v < n) \<Longrightarrow> kept_in n (get_reg v)"
  by (auto simp: keeps_def get_reg_def index_of_def ret_def stop_with_def G_refl)

lemma set_rule: "(Stop_Panic \<in> bad \<Longrightarrow> v < n) \<Longrightarrow> kept_in n (set_reg v x)"
  by (auto simp: keeps_def set_reg_def G_refl)

lemma on_machine_rule:
  fixes m :: "(('fp, 'h) Machine, 'a) exec"
  assumes "kept m"
  shows "kept_in n (on_machine m)"
proof (rule keepsI)
  fix s :: "('fp, 'h) VmState" assume s: "I (vm_mem s) \<and> length (regs s) = n"
  note d = keepsD [OF assms, where s = "Machine.truncate s"]
  show "(I (vm_mem (snd (on_machine m s))) \<and> length (regs (snd (on_machine m s))) = n) \<and>
      G (vm_mem s) (vm_mem (snd (on_machine m s))) \<and> (\<forall>e. fst (on_machine m s) = Inl e \<longrightarrow> e \<notin> bad)"
    using s d by (simp add: on_machine_def Machine.defs case_prod_unfold)
qed

lemma in_frame_rule:
  fixes m :: "(('fp, 'h) VmState, 'a) exec"
  assumes "kept_in (length rs) m"
  shows "kept (in_frame rs m)"
proof (rule keepsI)
  fix k :: "('fp, 'h) Machine" assume k: "I (vm_mem k)"
  let ?s = "Machine.extend k (VmState.fields rs)"
  note d = keepsD [OF assms, where s = ?s]
  show "I (vm_mem (snd (in_frame rs m k))) \<and>
      G (vm_mem k) (vm_mem (snd (in_frame rs m k))) \<and> (\<forall>e. fst (in_frame rs m k) = Inl e \<longrightarrow> e \<notin> bad)"
    using k d by (simp add: in_frame_def Machine.defs VmState.defs case_prod_unfold)
qed

lemma dispatch_rule: "kept (nt_library E name args) \<Longrightarrow> kept (dispatch_callext E name args)"
  unfolding dispatch_callext_def
  by (intro mach.machine_rules keeps_splits mach.memmove_rule mach.memset_rule mach.memcmp_rule mach.write_call_rule
      mach.read_call_rule mach.state_rule mach.stream_rules mach.heap_rule)
    (simp_all add: libc_malloc_step libc_calloc_step libc_realloc_step libc_free_step)

end

section \<open>Instructions\<close>

lemma apply_binop_no_panic: "apply_binop F op l r \<noteq> Inl Panic"
  by (cases op) (auto simp: apply_binop_def eval_int_binop_def split: if_splits)

lemma shift_eval_no_panic: "int_binop op \<Longrightarrow> eval_int_binop op l r \<noteq> Inl Panic"
  by (cases op) (auto simp: int_binop_def op_class_defs eval_int_binop_def split: if_splits)

text \<open>The parameters of the model keep the discipline on operands that name registers.\<close>

locale run_discipline = vm_discipline I G bad restores
  for I :: "'fp Memory \<Rightarrow> bool" and G and bad and restores +
  fixes E :: "('fp, 'h) vm_env"
  assumes library_law: "kept (nt_library E name vals)"
    and simd_law: "(Stop_Panic \<in> bad \<Longrightarrow> list_all (\<lambda>a. a < n) args) \<Longrightarrow> kept_in n (nt_simd E fr op imm args)"
    and asm_law: "(Stop_Panic \<in> bad \<Longrightarrow> v < n \<and> list_all (\<lambda>a. a < n) (for_each_operand (InlineAsm asm args))) \<Longrightarrow>
      kept_in n (nt_asm E arm fr asm args v)"
begin

lemmas frame_rules = frm.machine_rules get_rule set_rule keeps_splits

lemma memory_inst_rules:
  assumes "Stop_Panic \<in> bad \<Longrightarrow> v < n" "Stop_Panic \<in> bad \<Longrightarrow> a < n" "Stop_Panic \<in> bad \<Longrightarrow> b < n"
    "Stop_Panic \<in> bad \<Longrightarrow> c < n"
  shows "kept_in n (inst_load C v a disp lk)" "kept_in n (inst_store C v a disp b sk)"
    "kept_in n (inst_load_local C fr v off disp lk)" "kept_in n (inst_store_local C fr v off disp b sk)"
    "kept_in n (inst_mcpy v a b sz)" "kept_in n (inst_mzero a sz)" "kept_in n (inst_atomic_rmw C v op a b w)"
    "kept_in n (inst_atomic_cas C v a b c w)" "kept_in n (inst_atomic_cas16 C v a b c)"
    "kept_in n (inst_atomic_load C v a w)" "kept_in n (inst_atomic_store C a b w)"
    "kept_in n (inst_param_ref E fr v i lk)"
  unfolding inst_load_def inst_store_def inst_load_local_def inst_store_local_def inst_mcpy_def inst_mzero_def
    inst_atomic_rmw_def inst_atomic_cas_def inst_atomic_cas16_def inst_atomic_load_def inst_atomic_store_def
    inst_param_ref_def
  by (intro frame_rules frm.write_rule; erule assms fill_bytes_step)+

lemma arg_rule:
  assumes "Stop_Panic \<in> bad \<Longrightarrow> list_all (\<lambda>a. a < n) args" "Stop_Panic \<in> bad \<Longrightarrow> i < length args"
  shows "kept_in n (arg_reg args i)"
  unfolding arg_reg_def
proof (rule frm.andThen_result)
  show "kept_in n (index_of args i)" using assms(2) by (intro frm.index_rule) blast
  show "kept_in n (get_reg x)" if "index_of args i s = (Inr x, s')" for x s s'
    using that assms
    by (intro get_rule) (auto simp: index_of_def ret_def stop_with_def list_all_length split: if_splits)
qed

lemma sole_rule:
  "(Stop_Panic \<in> bad \<Longrightarrow> list_all (\<lambda>a. a < n) args) \<Longrightarrow> kept_in n (sole_arg name args)"
  unfolding sole_arg_def by (cases args) (auto intro: frm.throw_rule get_rule)

lemma alloca_rules:
  assumes "Stop_Panic \<in> bad \<Longrightarrow> list_all (\<lambda>a. a < n) args" "Stop_Panic \<in> bad \<Longrightarrow> v < n"
  shows "kept_in n (intr_alloca v args)" "kept_in n (intr_alloca_save v)"
    "restores \<Longrightarrow> kept_in n (intr_alloca_restore args)"
proof -
  show "kept_in n (intr_alloca v args)"
    unfolding intr_alloca_def
    by (intro frame_rules sole_rule frm.on_mem_rule; (erule assms alloc_aligned_frame_step [rotated])) simp
  show "kept_in n (intr_alloca_save v)"
    using assms(2) by (auto simp: keeps_def intr_alloca_save_def set_reg_def G_refl)
  show "kept_in n (intr_alloca_restore args)" if "restores"
    unfolding intr_alloca_restore_def using assms(1) G_release [OF that]
    by (intro frame_rules sole_rule) (auto simp: keeps_def)
qed

lemma intrinsic_parts:
  assumes "Stop_Panic \<in> bad \<Longrightarrow> list_all (\<lambda>a. a < n) args" "Stop_Panic \<in> bad \<Longrightarrow> v < n"
    "Stop_Panic \<in> bad \<Longrightarrow> 0 < length args"
  shows "kept_in n (intr_va_start C fr args)" "kept_in n (intr_va_arg C v args)" "kept_in n (intr_sqrt E v args f32)"
    "kept_in n (intr_fp_unary E fr v args f)" "kept_in n (intr_store_word C args x kind)"
    "kept_in n (intr_zero_bytes C args w)"
  unfolding intr_va_start_def intr_va_arg_def intr_sqrt_def intr_fp_unary_def intr_store_word_def intr_zero_bytes_def
  by (intro frame_rules arg_rule frm.stop_rule; simp add: assms(1,2) assms(3) [simplified] bad_rules)+

lemma return_address_rule:
  assumes "Stop_Panic \<in> bad \<Longrightarrow> list_all (\<lambda>a. a < n) args" "Stop_Panic \<in> bad \<Longrightarrow> v < n"
  shows "kept_in n (intr_return_address C fr v args)"
  unfolding intr_return_address_def by (intro frame_rules) (use assms in auto)

lemma wide_rules:
  assumes "Stop_Panic \<in> bad \<Longrightarrow> list_all (\<lambda>a. a < n) args"
  shows "(Stop_Panic \<in> bad \<Longrightarrow> 2 \<le> length args) \<Longrightarrow> kept_in n (intr_va_copy C args)"
    "(Stop_Panic \<in> bad \<Longrightarrow> 5 \<le> length args) \<Longrightarrow> kept_in n (intr_divq128 C args)"
    "(Stop_Panic \<in> bad \<Longrightarrow> 3 \<le> length args) \<Longrightarrow> kept_in n (intr_atomic128_load C args)"
    "(Stop_Panic \<in> bad \<Longrightarrow> 3 \<le> length args) \<Longrightarrow> kept_in n (intr_atomic128_store C args)"
    "(Stop_Panic \<in> bad \<Longrightarrow> 5 \<le> length args) \<Longrightarrow> kept_in n (intr_atomic128_store_insert C args)"
    "(Stop_Panic \<in> bad \<Longrightarrow> 7 \<le> length args) \<Longrightarrow> kept_in n (intr_atomic128_cmpxchg C args)"
    "(Stop_Panic \<in> bad \<Longrightarrow> 5 \<le> length args) \<Longrightarrow> kept_in n (intr_atomic128_update C args f)"
  unfolding intr_va_copy_def intr_divq128_def intr_atomic128_load_def intr_atomic128_store_def
    intr_atomic128_store_insert_def intr_atomic128_cmpxchg_def intr_atomic128_update_def atomic128_old_def
  by (intro frame_rules arg_rule; force simp: assms)+

lemma exec_intrinsic_rule:
  assumes "Stop_Panic \<in> bad \<Longrightarrow> list_all (\<lambda>a. a < n) args" "Stop_Panic \<in> bad \<Longrightarrow> v < n"
    "Stop_Panic \<in> bad \<Longrightarrow> i \<noteq> Intr_FuncletFrame \<and> intrinsic_arity i \<le> length args"
    "i = Intr_AllocaRestore \<Longrightarrow> restores"
  shows "kept_in n (exec_intrinsic E fr v args i)"
proof -
  note parts = alloca_rules [OF assms(1,2)] intrinsic_parts [OF assms(1,2)] wide_rules [OF assms(1)]
    return_address_rule [OF assms(1,2)] set_rule [OF assms(2)]
  show ?thesis using assms(3,4)
    by (cases i; simp only: exec_intrinsic.simps; (intro frm.ret_rule frm.throw_rule frm.stop_rule parts)?)
      (auto simp: intrinsic_arity_def is_fp_unary_def)
qed

subsection \<open>Arithmetic\<close>

lemma binop_rule: "kept_in n (vm_binop E op l r f32)"
proof -
  have "kept_in n (case apply_binop F op l r of Inr x \<Rightarrow> ret x | Inl (Err t) \<Rightarrow> throw (VE_Trap t) | Inl Panic \<Rightarrow> stop_with Stop_Panic)" for F
    using apply_binop_no_panic [of F op l r]
    by (auto intro: frm.ret_rule frm.throw_rule split: sum.splits fault.splits)
  then show ?thesis unfolding vm_binop_def by (cases op) (auto intro!: frame_rules)
qed

lemma shift_rule: "(Stop_Panic \<in> bad \<Longrightarrow> int_binop op) \<Longrightarrow> kept_in n (shift_op_eval op l r)"
  using shift_eval_no_panic [of op l r]
  by (auto simp: shift_op_eval_def intro!: frm.ret_rule frm.stop_rule split: sum.splits fault.splits)

lemma fp_cast_rule: "kept_in n (fp_cast_value F kind raw f32)"
  by (cases kind) (auto intro: frm.fp_rule frm.ret_rule)

lemma unary_rule: "(Stop_Panic \<in> bad \<Longrightarrow> v < n \<and> src < n) \<Longrightarrow> kept_in n (unary v src f)"
  unfolding unary_def by (intro frame_rules) auto

subsection \<open>Calls\<close>

lemma call_arg_rule:
  assumes "Stop_Panic \<in> bad \<Longrightarrow> a < n" "Stop_Panic \<in> bad \<Longrightarrow> list_all (agg_ref_wf (fr_func fr)) aggs"
  shows "kept_in n (call_arg E fr aggs fixed (i, a))"
proof -
  have "Stop_Panic \<in> bad \<Longrightarrow> agg_entry aggs i = Some k \<Longrightarrow> k < length (agg_descs (fr_func fr))" for k
    using assms(2) by (fastforce simp: agg_entry_def list_all_length agg_ref_wf_def split: if_splits)
  then show ?thesis unfolding call_arg_def prod.case
    by (intro frame_rules frm.index_rule) (auto simp: assms(1) split: if_splits)
qed

lemma collect_rule:
  assumes "Stop_Panic \<in> bad \<Longrightarrow> list_all (\<lambda>a. a < n) args" "Stop_Panic \<in> bad \<Longrightarrow> list_all (agg_ref_wf (fr_func fr)) aggs"
  shows "kept_in n (collect_call_args E fr args aggs fixed)"
proof -
  have "kept_in n (call_arg E fr aggs fixed p)" if "p \<in> set (List.enumerate 0 args)" for p
  proof (cases p)
    case (Pair i a)
    then have "a \<in> set args" using that by (auto simp: in_set_enumerate_eq)
    then show ?thesis unfolding Pair using assms by (intro call_arg_rule) (auto simp: list_all_iff)
  qed
  then show ?thesis unfolding collect_call_args_def by (intro frm.andThen_rule frm.each_rule frm.ret_rule)
qed

lemma finish_rule:
  "(Stop_Panic \<in> bad \<Longrightarrow> agg_ref_wf (fr_func fr) ra) \<Longrightarrow> kept_in n (finish_agg_return fr ra slot r)"
  unfolding finish_agg_return_def by (intro frame_rules frm.index_rule) (auto simp: agg_ref_wf_def)

lemma call_body_rule:
  assumes "\<And>link vals. cl_func_idx link = callee \<Longrightarrow> kept (call link vals aggs)"
    and "Stop_Panic \<in> bad \<Longrightarrow> v < n \<and> list_all (\<lambda>a. a < n) args \<and> list_all (agg_ref_wf (fr_func fr)) aggs \<and>
      agg_ref_wf (fr_func fr) ra \<and> block_idx fr < length (blocks (fr_func fr))"
  shows "kept_in n (call_body E call fr v callee args fixed aggs ra slot)"
  unfolding call_body_def
proof (rule frm.andThen_rule)
  show "kept_in n (collect_call_args E fr args aggs fixed)" using assms(2) by (intro collect_rule) auto
  show "kept_in n (andThen (link_to fr callee v) (\<lambda>link. andThen (on_machine (call link vals aggs))
          (\<lambda>r. andThen (finish_agg_return fr ra slot r) (set_reg v))))" for vals
  proof (rule frm.andThen_result)
    show "kept_in n (link_to fr callee v)" using assms(2) by (intro frm.link_rule) blast
    show "kept_in n (andThen (on_machine (call link vals aggs)) (\<lambda>r. andThen (finish_agg_return fr ra slot r) (set_reg v)))"
      if "link_to fr callee v s = (Inr link, s')" for link s s'
    proof -
      have "cl_func_idx link = callee"
        using that by (auto simp: link_to_def andThen_def index_of_def ret_def stop_with_def split: if_splits)
      then show ?thesis using assms by (intro frm.andThen_rule on_machine_rule finish_rule set_rule) auto
    qed
  qed
qed

lemma library_rule:
  assumes "Stop_Panic \<in> bad \<Longrightarrow> v < n \<and> list_all (\<lambda>a. a < n) args"
  shows "kept_in n (call_library E prog v binding args)"
  unfolding call_library_def
  by (intro frame_rules on_machine_rule dispatch_rule library_law) (use assms in \<open>auto simp: list_all_iff\<close>)

lemma lookup_then_rule:
  assumes "\<And>i. ent_pc_to_idx prog pc = Some i \<Longrightarrow> kept_in n (f i)"
  shows "kept_in n (andThen (lookup_fn prog pc) f)"
proof (rule frm.andThen_result [OF frm.lookup_rule])
  show "kept_in n (f x)" if "lookup_fn prog pc s = (Inr x, s')" for x s s'
    using that by (intro assms) (auto simp: lookup_fn_def ret_def stop_with_def split: option.splits)
qed

lemma indirect_call_rule:
  assumes "\<And>link vals. cl_func_idx link \<in> ran (ent_pc_to_idx prog) \<Longrightarrow> kept (call link vals aggs)"
    and "Stop_Panic \<in> bad \<Longrightarrow> v < n \<and> tgt < n \<and> list_all (\<lambda>a. a < n) args \<and> list_all (agg_ref_wf (fr_func fr)) aggs \<and>
      agg_ref_wf (fr_func fr) ra \<and> block_idx fr < length (blocks (fr_func fr))"
  shows "kept_in n (call_indirect E call prog fr v tgt args fixed aggs ra slot)"
  unfolding call_indirect_def
  by (intro frame_rules library_rule lookup_then_rule call_body_rule assms(1) ranI)
    (use assms(2) in auto)

subsection \<open>One instruction\<close>

lemma exec_inst_rule:
  assumes call: "\<And>link vals aggs. cl_func_idx link \<in> ran (ent_pc_to_idx prog) \<Longrightarrow> kept (call link vals aggs)"
    and wf: "Stop_Panic \<in> bad \<Longrightarrow> v < n \<and> n = length (insts (fr_func fr)) \<and> inst_wf (fr_func fr) inst \<and>
      block_idx fr < length (blocks (fr_func fr))"
    and restore: "restores_stack inst \<Longrightarrow> restores"
  shows "kept_in n (exec_inst E call prog fr v inst)"
proof (cases inst)
  case (Intrinsic kind args)
  then show ?thesis using wf restore
    by (auto simp: run_intrinsic_def inst_wf_def intrinsic_wf_def restores_stack_def
        intro!: frm.throw_rule exec_intrinsic_rule split: option.splits)
next
  case (InlineAsm asm args)
  then show ?thesis using wf by (auto simp: inst_wf_def intro!: asm_law)
next
  case (Call pc args fixed x4 x5 x6 x7 x8 aggs ra slot)
  then show ?thesis using wf
    by (auto simp: inst_wf_def intro!: lookup_then_rule call_body_rule call ranI)
next
  case (CallIndirect tgt args x3 fixed x5 x6 x7 x8 x9 aggs ra slot)
  then show ?thesis using wf by (auto simp: inst_wf_def intro!: indirect_call_rule call)
qed (use wf in \<open>auto simp: inst_wf_def eval_bit_field_def Let_def intro!: frame_rules memory_inst_rules binop_rule shift_rule
       fp_cast_rule unary_rule library_rule simd_law frm.stop_rule split: option.splits\<close>)

end

end

