(* ===== verification/Vm_Run_Sound.thy ===== *)
theory Vm_Run_Sound
  imports Vm_Rules
begin

text \<open>
  What a run of the interpreter keeps.  The block loop, the frame of a call and the recursion of
  \<open>run_func\<close> are carried by the rules of \<open>run_discipline\<close>; the two interpretations at the end are the
  memory discipline and the freedom from panics.
\<close>

section \<open>Frames\<close>

lemma enter_frame_result:
  assumes "enter_frame func link nargs k = (Inr fr, k')"
  shows "fr_func fr = func" "block_idx fr = 0" "fr_func_idx fr = cl_func_idx link"
    "fr_stack_base fr = (stack_top (vm_mem k) + 15) div 16 * 16" "fr_stack_base fr \<le> heap_base (vm_mem k)"
proof -
  let ?n = "(nat (max (sint (locals func)) 0) + max (n_params func) nargs) * 8"
  obtain base m where a: "alloc_frame (vm_mem k) (?n + FRAME_RECORD_BYTES) = Inr (base, m)" and "fr_stack_base fr = base"
    and "fr_func fr = func" "block_idx fr = 0" "fr_func_idx fr = cl_func_idx link"
    using assms unfolding enter_frame_def Let_def run_Inr by (elim exE conjE) simp
  then show "fr_func fr = func" "block_idx fr = 0" "fr_func_idx fr = cl_func_idx link"
    "fr_stack_base fr = (stack_top (vm_mem k) + 15) div 16 * 16" "fr_stack_base fr \<le> heap_base (vm_mem k)"
    by (auto simp: alloc_frame_def Let_def split: if_splits)
qed

context run_discipline
begin

lemma enter_rule:
  assumes "realign_wf func"
  shows "kept (enter_frame func link nargs)"
proof -
  have "over_aligned func \<noteq> [] \<Longrightarrow> 0 < unat (frame_align func)"
    using assms by (simp add: realign_wf_def unat_gt_0)
  then show ?thesis unfolding enter_frame_def
    by (intro mach.machine_rules keeps_splits mach.on_mem_rule mach.write_rule)
      (erule alloc_frame_step write_bytes_step alloc_aligned_frame_step [rotated] | simp)+
qed

lemma stage_rule:
  assumes "Stop_Panic \<in> bad \<Longrightarrow> param_wf (fr_func fr)"
  shows "kept (stage_args fr aggs args)"
proof -
  have "kept (stage_arg fr aggs (i, v))" for i v
  proof -
    have "Stop_Panic \<in> bad \<Longrightarrow> agg_entry (param_aggs (fr_func fr)) i = Some idx \<Longrightarrow>
        idx < length (agg_descs (fr_func fr)) \<and> i < length (param_local_slots (fr_func fr))" for idx
      using assms
      by (force simp: param_wf_def agg_entry_def agg_ref_wf_def list_all_length nth_enumerate_eq split: if_splits)
    then show ?thesis unfolding stage_arg_def prod.case
      by (intro mach.machine_rules keeps_splits mach.index_rule mach.write_rule) (auto intro: write_bytes_step)
  qed
  then show ?thesis unfolding stage_args_def by (intro mach.andThen_rule mach.each_rule mach.ret_rule) auto
qed

text \<open>A frame is entered and left: the stack top comes back to the frame's base.\<close>

lemma leave_rule:
  fixes enter :: "(('fp, 'h) Machine, Frame) exec"
  assumes enter: "kept enter" and stage: "\<And>fr k k'. enter k = (Inr fr, k') \<Longrightarrow> kept (stage fr)"
    and body: "\<And>fr k k'. enter k = (Inr fr, k') \<Longrightarrow> kept (body fr)"
    and base: "\<And>fr k k'. enter k = (Inr fr, k') \<Longrightarrow>
      stack_top (vm_mem k) \<le> fr_stack_base fr \<and> fr_stack_base fr \<le> heap_base (vm_mem k)"
  shows "kept (andThen enter (\<lambda>fr. andThen (stage fr) (\<lambda>_. releasing (fr_stack_base fr) (body fr))))"
    (is "kept ?m")
proof (rule keepsI)
  fix k :: "('fp, 'h) Machine" assume k: "I (vm_mem k)"
  obtain r1 k1 where 1: "enter k = (r1, k1)" by fastforce
  note e = keepsD [OF enter k, unfolded 1 prod.sel]
  show "I (vm_mem (snd (?m k))) \<and> G (vm_mem k) (vm_mem (snd (?m k))) \<and> (\<forall>e. fst (?m k) = Inl e \<longrightarrow> e \<notin> bad)"
  proof (cases r1)
    case (Inl x)
    then show ?thesis using e 1 by (simp add: andThen_def)
  next
    case (Inr fr)
    note run = 1 [unfolded Inr]
    obtain r2 k2 where 2: "stage fr k1 = (r2, k2)" by fastforce
    note s = keepsD [OF stage [OF run] e(1), unfolded 2 prod.sel]
    show ?thesis
    proof (cases r2)
      case (Inl x)
      then show ?thesis using s e G_trans run 2 by (auto simp: andThen_def)
    next
      case (Inr u)
      obtain r3 k3 where 3: "body fr k2 = (r3, k3)" by fastforce
      note b = keepsD [OF body [OF run] s(1), unfolded 3 prod.sel]
      have g: "G (vm_mem k) (vm_mem k3)" using G_trans [OF e(2) G_trans [OF s(2) b(2)]] .
      have "I (release_frame (vm_mem k3) (fr_stack_base fr)) \<and> G (vm_mem k) (release_frame (vm_mem k3) (fr_stack_base fr))"
        using G_leave [OF k g b(1)] base [OF run] by blast
      then show ?thesis using run 2 3 Inr b(1,3) g by (auto simp: andThen_def releasing_def)
    qed
  qed
qed

section \<open>Blocks\<close>

text \<open>What the rules need of a function: well-formed where panics count, no stray stack restore.\<close>

definition func_fits :: "FunctionSsa \<Rightarrow> bool" where
  "func_fits f \<longleftrightarrow>
     realign_wf f \<and> (Stop_Panic \<in> bad \<longrightarrow> func_wf f) \<and> (restores \<or> \<not> list_ex restores_stack (insts f))"

lemma run_inst_rule:
  assumes call: "\<And>link vals aggs. cl_func_idx link \<in> ran (ent_pc_to_idx prog) \<Longrightarrow> kept (call link vals aggs)"
    and fits: "func_fits (fr_func fr)"
    and idx: "Stop_Panic \<in> bad \<Longrightarrow> v < length (insts (fr_func fr)) \<and> block_idx fr < length (blocks (fr_func fr))"
  shows "kept_in (length (insts (fr_func fr))) (run_inst E call prog fr v)"
  unfolding run_inst_def
proof (rule frm.andThen_result)
  show "kept_in (length (insts (fr_func fr))) (index_of (insts (fr_func fr)) v)"
    using idx by (intro frm.index_rule) blast
  show "kept_in (length (insts (fr_func fr))) (exec_inst E call prog fr v inst)"
    if "index_of (insts (fr_func fr)) v s = (Inr inst, s')" for inst s s'
  proof (rule exec_inst_rule [OF call])
    have "inst \<in> set (insts (fr_func fr))" using that by (auto simp: index_of_Inr)
    then show "restores_stack inst \<Longrightarrow> restores"
      and "Stop_Panic \<in> bad \<Longrightarrow> v < length (insts (fr_func fr)) \<and> length (insts (fr_func fr)) = length (insts (fr_func fr)) \<and>
        inst_wf (fr_func fr) inst \<and> block_idx fr < length (blocks (fr_func fr))"
      using fits idx by (auto simp: func_fits_def func_wf_def list_all_iff list_ex_iff)
  qed
qed

lemma run_insts_rule:
  assumes call: "\<And>link vals aggs. cl_func_idx link \<in> ran (ent_pc_to_idx prog) \<Longrightarrow> kept (call link vals aggs)"
    and fits: "func_fits (fr_func fr)"
    and "Stop_Panic \<in> bad \<Longrightarrow> (\<forall>v \<in> set vs. v < length (insts (fr_func fr))) \<and> block_idx fr < length (blocks (fr_func fr))"
  shows "kept_in (length (insts (fr_func fr))) (run_insts E call prog fr vs)"
  using assms(3) by (induction vs) (auto intro!: frm.ret_rule frm.andThen_rule run_inst_rule [OF call fits])

lemma terminator_rule:
  assumes "Stop_Panic \<in> bad \<Longrightarrow> list_all (\<lambda>v. v < n) (term_for_each_operand t)"
  shows "kept_in n (run_terminator fr t)"
  using assms by (cases t) (auto simp: Let_def intro!: frame_rules)

end

text \<open>A block that a terminator enters is one of the function.\<close>

lemma terminator_target:
  assumes "run_terminator fr t s = (Inr (Enter b), s')" "func_wf (fr_func fr)" "blk \<in> set (blocks (fr_func fr))"
    "terminator blk = t"
  shows "b < length (blocks (fr_func fr))"
proof (cases t)
  case (T_GotoIndirect v)
  then have "b \<in> set (computed_goto_targets (fr_func fr))"
    using assms(1) by (auto simp: run_Inr label_block_def Let_def stop_with_def split: option.splits if_splits)
  then show ?thesis using assms(2) by (auto simp: func_wf_def list_all_iff)
next
  case (T_JumpTable v tbl)
  then obtain i where "tbl < length (jump_tables (fr_func fr))" "i < length (jump_tables (fr_func fr) ! tbl)"
      "b = jump_tables (fr_func fr) ! tbl ! i"
    using assms(1) by (auto simp: run_Inr Let_def stop_with_def split: if_splits)
  then show ?thesis using assms(2) by (auto simp: func_wf_def list_all_length)
qed (use assms in \<open>auto simp: run_Inr stop_with_def func_wf_def list_all_iff block_wf_def split: if_splits\<close>)

context run_discipline
begin

lemma transfer_rule:
  assumes fits: "func_fits (fr_func fr)" and blk: "blk \<in> set (blocks (fr_func fr))"
    and step: "\<And>b. (Stop_Panic \<in> bad \<Longrightarrow> b < length (blocks (fr_func fr))) \<Longrightarrow> kept_in (length (insts (fr_func fr))) (go b)"
  shows "kept_in (length (insts (fr_func fr)))
    (andThen (run_terminator fr (terminator blk)) (\<lambda>fl. case fl of Leave r \<Rightarrow> ret r | Enter b \<Rightarrow> go b))"
proof (rule frm.andThen_result)
  have wf: "Stop_Panic \<in> bad \<Longrightarrow> func_wf (fr_func fr)" using fits by (simp add: func_fits_def)
  then show "kept_in (length (insts (fr_func fr))) (run_terminator fr (terminator blk))"
    using blk by (intro terminator_rule) (auto simp: func_wf_def block_wf_def list_all_iff)
  show "kept_in (length (insts (fr_func fr))) (case fl of Leave r \<Rightarrow> ret r | Enter b \<Rightarrow> go b)"
    if "run_terminator fr (terminator blk) t = (Inr fl, t')" for fl t t'
  proof (cases fl)
    case (Enter b)
    show ?thesis unfolding Enter flow.case
      by (rule step) (rule terminator_target [OF that [unfolded Enter] wf blk refl])
  qed (simp add: frm.ret_rule)
qed

lemma run_blocks_rule:
  assumes call: "\<And>link vals aggs. cl_func_idx link \<in> ran (ent_pc_to_idx prog) \<Longrightarrow> kept (call link vals aggs)"
    and "func_fits (fr_func fr)" "Stop_Panic \<in> bad \<Longrightarrow> block_idx fr < length (blocks (fr_func fr))"
  shows "kept_in (length (insts (fr_func fr))) (run_blocks m E call prog fr)"
  using assms(2,3)
proof (induction m arbitrary: fr)
  case 0
  then show ?case by (simp add: frm.stop_rule bad_rules)
next
  case (Suc m)
  let ?n = "length (insts (fr_func fr))"
  show ?case unfolding run_blocks.simps
  proof (rule frm.andThen_result)
    show "kept_in ?n (index_of (blocks (fr_func fr)) (block_idx fr))" using Suc.prems(2) by (intro frm.index_rule) blast
    fix blk and s s' :: "('fp, 'h) VmState" assume "index_of (blocks (fr_func fr)) (block_idx fr) s = (Inr blk, s')"
    then have blk: "blk \<in> set (blocks (fr_func fr))" by (auto simp: index_of_Inr)
    then have "Stop_Panic \<in> bad \<Longrightarrow> block_wf (fr_func fr) blk"
      using Suc.prems(1) by (auto simp: func_fits_def func_wf_def list_all_iff)
    then have "kept_in ?n (run_insts E call prog fr [fst (inst_range blk) ..< snd (inst_range blk)])"
      using Suc.prems by (intro run_insts_rule [OF call]) (auto simp: block_wf_def)
    moreover have "kept_in ?n (andThen (run_terminator fr (terminator blk)) (\<lambda>fl.
        case fl of Leave r \<Rightarrow> ret r | Enter b \<Rightarrow> run_blocks m E call prog (fr\<lparr>block_idx := b\<rparr>)))"
      using Suc.IH [of "fr\<lparr>block_idx := _\<rparr>"] by (intro transfer_rule [OF Suc.prems(1) blk]) (simp add: Suc.prems(1))
    ultimately show "kept_in ?n (andThen (run_insts E call prog fr [fst (inst_range blk) ..< snd (inst_range blk)]) (\<lambda>_.
       andThen (run_terminator fr (terminator blk)) (\<lambda>fl.
         case fl of Leave r \<Rightarrow> ret r | Enter b \<Rightarrow> run_blocks m E call prog (fr\<lparr>block_idx := b\<rparr>))))"
      by (rule frm.andThen_rule)
  qed
qed

section \<open>Functions\<close>

lemma call_func_rule:
  assumes call: "\<And>link vals aggs. cl_func_idx link \<in> ran (ent_pc_to_idx prog) \<Longrightarrow> kept (call link vals aggs)"
    and fits: "list_all func_fits (funcs prog)" and idx: "Stop_Panic \<in> bad \<Longrightarrow> cl_func_idx link < length (funcs prog)"
  shows "kept (call_func blks E call prog link args aggs)"
  unfolding call_func_def
proof (rule mach.andThen_result)
  show "kept (index_of (funcs prog) (cl_func_idx link))" using idx by (intro mach.index_rule) blast
  fix func and k k' :: "('fp, 'h) Machine" assume "index_of (funcs prog) (cl_func_idx link) k = (Inr func, k')"
  then have ff: "func_fits func" using fits by (auto simp: index_of_Inr list_all_length)
  let ?enter = "enter_frame func link (length args)"
  have "kept (andThen ?enter (\<lambda>fr. andThen (stage_args fr aggs args) (\<lambda>_. releasing (fr_stack_base fr)
      (in_frame (replicate (length (insts func)) REG_UNSET) (run_blocks blks E call prog fr)))))"
  proof (rule leave_rule)
    show "kept ?enter" using ff by (intro enter_rule) (simp add: func_fits_def)
    fix fr and j j' :: "('fp, 'h) Machine" assume "?enter j = (Inr fr, j')"
    note r = enter_frame_result [OF this]
    show "kept (stage_args fr aggs args)" using ff r(1) by (intro stage_rule) (simp add: func_fits_def func_wf_def)
    show "kept (in_frame (replicate (length (insts func)) REG_UNSET) (run_blocks blks E call prog fr))"
      using ff r(1,2) run_blocks_rule [OF call, where fr = fr]
      by (intro in_frame_rule) (simp add: func_fits_def func_wf_def)
    show "stack_top (vm_mem j) \<le> fr_stack_base fr \<and> fr_stack_base fr \<le> heap_base (vm_mem j)"
      using r(4,5) nat_round_up_bounds(1) [of 16 "stack_top (vm_mem j)"] by simp
  qed
  then show "kept (andThen ?enter (\<lambda>fr. andThen (stage_args fr aggs args) (\<lambda>_. releasing (fr_stack_base fr)
      (in_frame (replicate (length (insts func)) REG_UNSET) (run_blocks blks E call prog fr)))))" .
qed

theorem run_func_rule:
  assumes "list_all func_fits (funcs prog)" "ran (ent_pc_to_idx prog) \<subseteq> {..< length (funcs prog)}"
    "Stop_Panic \<in> bad \<Longrightarrow> cl_func_idx link < length (funcs prog)"
  shows "kept (run_func d blks E prog link args aggs)"
  using assms(3)
proof (induction d arbitrary: link args aggs)
  case 0
  then show ?case by (simp add: mach.stop_rule bad_rules)
next
  case (Suc d)
  then show ?case using assms(1,2) by (auto intro!: call_func_rule)
qed

end

section \<open>The two disciplines\<close>

text \<open>
  The memory discipline: the invariant of the memory holds, its regions stay put and the stack top
  does not fall below where the run began.
\<close>

interpretation tidy: vm_discipline mem_ok grows "{}" False
proof
  fix m m' :: "'fp Memory" and b
  assume "mem_ok m" "grows m m'" "mem_ok m'" "stack_top m \<le> b" "b \<le> heap_base m"
  then show "mem_ok (release_frame m' b) \<and> grows m (release_frame m' b)"
    by (auto simp: grows_def release_frame_def mem_ok_defs)
qed (auto simp: grows_refl mem_step_def intro: grows_trans)

text \<open>Freedom from panics, whatever the memory holds.\<close>

interpretation total: vm_discipline "\<lambda>_. True" "\<lambda>_ _. True" "{Stop_Panic}" True
  by unfold_locales auto

text \<open>What the parameters have to respect, and an environment that refuses them all.\<close>

definition env_tidy :: "('fp, 'h) vm_env \<Rightarrow> bool" where
  "env_tidy E \<longleftrightarrow>
     (\<forall>name vals k. mem_ok (vm_mem k) \<longrightarrow>
        mem_ok (vm_mem (snd (nt_library E name vals k))) \<and> grows (vm_mem k) (vm_mem (snd (nt_library E name vals k)))) \<and>
     (\<forall>fr op imm args s. mem_ok (vm_mem s) \<longrightarrow>
        length (regs (snd (nt_simd E fr op imm args s))) = length (regs s) \<and>
        mem_ok (vm_mem (snd (nt_simd E fr op imm args s))) \<and> grows (vm_mem s) (vm_mem (snd (nt_simd E fr op imm args s)))) \<and>
     (\<forall>arm fr asm args v s. mem_ok (vm_mem s) \<longrightarrow>
        length (regs (snd (nt_asm E arm fr asm args v s))) = length (regs s) \<and>
        mem_ok (vm_mem (snd (nt_asm E arm fr asm args v s))) \<and> grows (vm_mem s) (vm_mem (snd (nt_asm E arm fr asm args v s))))"

definition env_total :: "('fp, 'h) vm_env \<Rightarrow> bool" where
  "env_total E \<longleftrightarrow>
     (\<forall>name vals k. fst (nt_library E name vals k) \<noteq> Inl Stop_Panic) \<and>
     (\<forall>fr op imm args s. list_all (\<lambda>a. a < length (regs s)) args \<longrightarrow>
        length (regs (snd (nt_simd E fr op imm args s))) = length (regs s) \<and> fst (nt_simd E fr op imm args s) \<noteq> Inl Stop_Panic) \<and>
     (\<forall>arm fr asm args v s. v < length (regs s) \<longrightarrow>
        list_all (\<lambda>a. a < length (regs s)) (for_each_operand (InlineAsm asm args)) \<longrightarrow>
        length (regs (snd (nt_asm E arm fr asm args v s))) = length (regs s) \<and> fst (nt_asm E arm fr asm args v s) \<noteq> Inl Stop_Panic)"

definition refusing :: "('fp, 'h) vm_env \<Rightarrow> ('fp, 'h) vm_env" where
  "refusing E = E\<lparr>nt_library := \<lambda>name _. throw (VE_Library name),
     nt_simd := \<lambda>_ _ _ _. throw (VE_Unimplemented ''simd''),
     nt_asm := \<lambda>_ _ _ _ _. throw (VE_Unimplemented ''asm'')\<rparr>"

lemma refusing_ok: "env_tidy (refusing E)" "env_total (refusing E)"
  by (auto simp: env_tidy_def env_total_def refusing_def stop_with_def grows_refl)

lemma env_tidy_run: "env_tidy E \<Longrightarrow> run_discipline mem_ok grows {} False E"
  by unfold_locales (auto simp: env_tidy_def keeps_def)

lemma env_total_run: "env_total E \<Longrightarrow> run_discipline (\<lambda>_. True) (\<lambda>_ _. True) {Stop_Panic} True E"
  by unfold_locales (auto simp: env_total_def keeps_def)

interpretation tidy_run: run_discipline mem_ok grows "{}" False "refusing E" for E
  by (rule env_tidy_run) (rule refusing_ok)

interpretation total_run: run_discipline "\<lambda>_. True" "\<lambda>_ _. True" "{Stop_Panic}" True "refusing E" for E
  by (rule env_total_run) (rule refusing_ok)

section \<open>Program indices\<close>

lemma index_map_range:
  "ran (foldl (\<lambda>m (i, f). m(ent_pc f \<mapsto> i)) m0 (List.enumerate k fs)) \<subseteq> ran m0 \<union> {k ..< k + length fs}"
proof (induction fs arbitrary: k m0)
  case (Cons f fs)
  have "ran (m0(ent_pc f \<mapsto> k)) \<subseteq> ran m0 \<union> {k}" by (auto simp: ran_def split: if_splits)
  moreover have "foldl (\<lambda>m (i, f). m(ent_pc f \<mapsto> i)) m0 (List.enumerate k (f # fs)) =
      foldl (\<lambda>m (i, f). m(ent_pc f \<mapsto> i)) (m0(ent_pc f \<mapsto> k)) (List.enumerate (Suc k) fs)"
    by simp
  ultimately show ?case using Cons.IH [of "m0(ent_pc f \<mapsto> k)" "Suc k"] by fastforce
qed simp

lemma program_new_range: "ran (ent_pc_to_idx (program_new fs names base tgt)) \<subseteq> {..< length fs}"
  using index_map_range [of Map.empty 0 fs] by (auto simp: program_new_def)

lemma program_new_funcs [simp]: "funcs (program_new fs names base tgt) = fs"
  by (simp add: program_new_def)

section \<open>Runs\<close>

lemma run_func_tidy:
  assumes "env_tidy E" "list_all (\<lambda>f. realign_wf f \<and> \<not> list_ex restores_stack (insts f)) fs" "mem_ok (vm_mem k)"
  shows "mem_ok (vm_mem (snd (run_func d blks E (program_new fs names base tgt) link args aggs k)))"
    "grows (vm_mem k) (vm_mem (snd (run_func d blks E (program_new fs names base tgt) link args aggs k)))"
proof -
  note D = env_tidy_run [OF assms(1)]
  have fits: "list_all (run_discipline.func_fits {} False) fs"
    using assms(2) by (auto simp: list_all_iff run_discipline.func_fits_def [OF D])
  from keepsD [OF run_discipline.run_func_rule [OF D, of "program_new fs names base tgt" link d blks args aggs] assms(3)]
  show "mem_ok (vm_mem (snd (run_func d blks E (program_new fs names base tgt) link args aggs k)))"
    "grows (vm_mem k) (vm_mem (snd (run_func d blks E (program_new fs names base tgt) link args aggs k)))"
    using program_new_range fits by simp_all
qed


text \<open>A call that returns leaves the stack top at the base of the frame it used.\<close>

lemma run_func_stack:
  assumes "run_func d blks E prog link args aggs k = (Inr r, k')"
  shows "stack_top (vm_mem k') = (stack_top (vm_mem k) + 15) div 16 * 16"
proof (cases d)
  case (Suc n)
  obtain func fr k1 k2 where e: "enter_frame func link (length args) k = (Inr fr, k1)"
    and b: "releasing (fr_stack_base fr) (in_frame (replicate (length (insts func)) REG_UNSET)
        (run_blocks blks E (run_func n blks E prog) prog fr)) k2 = (Inr r, k')"
    using assms Suc by (auto simp: call_func_def run_Inr)
  have "stack_top (vm_mem k') = fr_stack_base fr"
    using b by (auto simp: releasing_def release_frame_def split: prod.splits)
  then show ?thesis using enter_frame_result(4) [OF e] by simp
qed (use assms in \<open>simp add: stop_with_def\<close>)

lemma run_func_total:
  assumes "env_total E" "list_all func_wf fs" "cl_func_idx link < length fs"
  shows "fst (run_func d blks E (program_new fs names base tgt) link args aggs k) \<noteq> Inl Stop_Panic"
proof -
  note D = env_total_run [OF assms(1)]
  have "list_all (run_discipline.func_fits {Stop_Panic} True) fs"
    using assms(2) by (auto simp: list_all_iff run_discipline.func_fits_def [OF D] func_wf_def)
  with keepsD(3) [OF run_discipline.run_func_rule [OF D, of "program_new fs names base tgt" link d blks args aggs], of k Stop_Panic]
  show ?thesis using program_new_range assms(3) by auto
qed

end
