(* ===== verification/Vm_Program.thy ===== *)
theory Vm_Program
  imports Vm_Run_Sound
begin

text \<open>
  Whole programs: fuel only decides whether a run is cut short, constructors, entry and destructors
  run in order, and the code positions that frames and labels carry name what they encode.
\<close>

section \<open>Fuel\<close>

text \<open>\<open>m'\<close> does what \<open>m\<close> does wherever \<open>m\<close> is not cut short.\<close>

definition outruns :: "('s, 'a) exec \<Rightarrow> ('s, 'a) exec \<Rightarrow> bool" where
  "outruns m m' \<longleftrightarrow> (\<forall>s. fst (m s) = Inl Stop_Fuel \<or> m' s = m s)"

named_theorems fuel_rules

lemma outruns_refl [fuel_rules]: "outruns m m"
  by (simp add: outruns_def)

lemma outruns_fuel [fuel_rules]: "outruns (stop_with Stop_Fuel) m"
  by (simp add: outruns_def stop_with_def)

lemma outruns_andThen [fuel_rules]:
  assumes "outruns m m'" "\<And>x. outruns (f x) (f' x)"
  shows "outruns (andThen m f) (andThen m' f')"
  unfolding outruns_def
proof
  fix s
  show "fst (andThen m f s) = Inl Stop_Fuel \<or> andThen m' f' s = andThen m f s"
  proof (cases "fst (m s) = Inl Stop_Fuel")
    case True
    then show ?thesis by (auto simp: andThen_def split: prod.splits)
  next
    case False
    then have "m' s = m s" using assms(1) by (auto simp: outruns_def)
    then show ?thesis using assms(2) by (auto simp: outruns_def andThen_def split: prod.splits sum.splits)
  qed
qed

lemma outruns_post:
  assumes "outruns m m'" "\<And>k. fst (g (Inl Stop_Fuel) k) = Inl Stop_Fuel"
  shows "outruns (\<lambda>s. case m (h s) of (r, k) \<Rightarrow> g r k) (\<lambda>s. case m' (h s) of (r, k) \<Rightarrow> g r k)"
  unfolding outruns_def
proof
  fix s
  obtain r k where "m (h s) = (r, k)" by fastforce
  then show "fst (case m (h s) of (r, k) \<Rightarrow> g r k) = Inl Stop_Fuel \<or>
      (case m' (h s) of (r, k) \<Rightarrow> g r k) = (case m (h s) of (r, k) \<Rightarrow> g r k)"
    using assms(2) [of k] assms(1) [unfolded outruns_def, rule_format, of "h s"] by auto
qed

lemma outruns_on_machine [fuel_rules]: "outruns m m' \<Longrightarrow> outruns (on_machine m) (on_machine m')"
  unfolding on_machine_def
  by (simp add: outruns_def case_prod_unfold) metis

lemma outruns_in_frame [fuel_rules]: "outruns m m' \<Longrightarrow> outruns (in_frame rs m) (in_frame rs m')"
  unfolding in_frame_def by (rule outruns_post) simp_all

lemma outruns_releasing [fuel_rules]: "outruns m m' \<Longrightarrow> outruns (releasing b m) (releasing b m')"
  unfolding releasing_def by (rule outruns_post [where h = "\<lambda>s. s"]) simp_all

lemma outruns_catch [fuel_rules]: "outruns m m' \<Longrightarrow> outruns (catch_exit m) (catch_exit m')"
  unfolding catch_exit_def by (rule outruns_post [where h = "\<lambda>s. s"]) simp_all

lemma outruns_if [fuel_rules]: "outruns m n \<Longrightarrow> outruns m' n' \<Longrightarrow> outruns (if b then m else m') (if b then n else n')"
  by simp

lemma call_body_fuel [fuel_rules]:
  "(\<And>link vals aggs. outruns (call link vals aggs) (call' link vals aggs)) \<Longrightarrow>
   outruns (call_body E call fr v callee args fixed aggs ra slot) (call_body E call' fr v callee args fixed aggs ra slot)"
  unfolding call_body_def by (intro fuel_rules)

lemma exec_inst_fuel:
  assumes "\<And>link vals aggs. outruns (call link vals aggs) (call' link vals aggs)"
  shows "outruns (exec_inst E call prog fr v inst) (exec_inst E call' prog fr v inst)"
proof (cases inst)
  case (CallIndirect tgt args x3 fixed x5 x6 x7 x8 x9 aggs ra slot)
  then show ?thesis unfolding CallIndirect exec_inst.simps call_indirect_def by (intro fuel_rules assms)
qed (simp_all add: fuel_rules assms)

lemma run_insts_fuel:
  assumes "\<And>link vals aggs. outruns (call link vals aggs) (call' link vals aggs)"
  shows "outruns (run_insts E call prog fr vs) (run_insts E call' prog fr vs)"
proof (induction vs)
  case (Cons v vs)
  then show ?case unfolding run_insts.simps run_inst_def by (intro fuel_rules exec_inst_fuel assms)
qed (simp add: outruns_refl)

lemma run_blocks_fuel:
  assumes "\<And>link vals aggs. outruns (call link vals aggs) (call' link vals aggs)" "m \<le> m'"
  shows "outruns (run_blocks m E call prog fr) (run_blocks m' E call' prog fr)"
  using assms(2)
proof (induction m arbitrary: m' fr)
  case (Suc m)
  then obtain n where n: "m' = Suc n" "m \<le> n" by (metis Suc_le_D Suc_le_mono)
  have "outruns (case fl of Leave r \<Rightarrow> ret r | Enter b \<Rightarrow> run_blocks m E call prog (fr\<lparr>block_idx := b\<rparr>))
      (case fl of Leave r \<Rightarrow> ret r | Enter b \<Rightarrow> run_blocks n E call' prog (fr\<lparr>block_idx := b\<rparr>))" for fl
    using Suc.IH [OF n(2)] by (cases fl) (simp_all add: outruns_refl)
  then show ?case unfolding n(1) run_blocks.simps by (intro fuel_rules run_insts_fuel assms(1))
qed (simp add: outruns_fuel)

lemma run_func_fuel:
  assumes "d \<le> d'" "b \<le> b'"
  shows "outruns (run_func d b E prog link args aggs) (run_func d' b' E prog link args aggs)"
  using assms(1)
proof (induction d arbitrary: d' link args aggs)
  case (Suc d)
  then obtain n where n: "d' = Suc n" "d \<le> n" by (metis Suc_le_D Suc_le_mono)
  show ?case unfolding n(1) run_func.simps call_func_def
    by (intro fuel_rules run_blocks_fuel Suc.IH n(2) assms(2))
qed (simp add: outruns_fuel)

lemma run_hooks_fuel:
  assumes "\<And>link vals aggs. outruns (call link vals aggs) (call' link vals aggs)"
  shows "outruns (run_hooks call prog pcs) (run_hooks call' prog pcs)"
proof (induction pcs)
  case (Cons pc pcs)
  have "outruns (case r of Inl _ \<Rightarrow> run_hooks call prog pcs | Inr status \<Rightarrow> ret (Some status))
      (case r of Inl _ \<Rightarrow> run_hooks call' prog pcs | Inr status \<Rightarrow> ret (Some status))" for r :: "i64 + i64"
    using Cons.IH by (cases r) (simp_all add: outruns_refl)
  then show ?case unfolding run_hooks.simps by (intro fuel_rules assms)
qed (simp add: outruns_refl)

lemma run_sequence_fuel:
  assumes "\<And>link vals aggs. outruns (call link vals aggs) (call' link vals aggs)"
  shows "outruns (run_sequence call prog init entry argv fini) (run_sequence call' prog init entry argv fini)"
proof -
  have "outruns (run_entry call prog entry argv) (run_entry call' prog entry argv)"
    unfolding run_entry_def by (intro fuel_rules assms)
  then have "outruns (case early of Some status \<Rightarrow> ret status
        | None \<Rightarrow> andThen (run_entry call prog entry argv) (\<lambda>status.
           andThen (run_hooks call prog (rev fini)) (\<lambda>late. ret (case late of Some s \<Rightarrow> s | None \<Rightarrow> status))))
      (case early of Some status \<Rightarrow> ret status
        | None \<Rightarrow> andThen (run_entry call' prog entry argv) (\<lambda>status.
           andThen (run_hooks call' prog (rev fini)) (\<lambda>late. ret (case late of Some s \<Rightarrow> s | None \<Rightarrow> status))))" for early
    by (cases early) (auto intro!: fuel_rules run_hooks_fuel assms)
  then show ?thesis unfolding run_sequence_def by (intro fuel_rules run_hooks_fuel assms)
qed

section \<open>Programs keep the disciplines\<close>

context vm_discipline
begin

lemma catch_rule: "kept m \<Longrightarrow> kept (catch_exit m)"
  by (auto simp: keeps_def catch_exit_def split: prod.splits sum.splits option.splits)

end

context run_discipline
begin

lemma hook_rule:
  fixes call :: "('fp, 'h) caller"
  assumes "\<And>link vals aggs. cl_func_idx link \<in> ran (ent_pc_to_idx prog) \<Longrightarrow> kept (call link vals aggs)"
    and "\<And>i r. ent_pc_to_idx prog pc = Some i \<Longrightarrow> kept (f i r)"
  shows "kept (andThen (lookup_fn prog pc) (\<lambda>i. andThen (catch_exit (call (link_entry i) (vals i) [])) (f i)))"
proof (rule mach.andThen_result [OF mach.lookup_rule])
  fix i and k k' :: "('fp, 'h) Machine" assume "lookup_fn prog pc k = (Inr i, k')"
  then have i: "ent_pc_to_idx prog pc = Some i"
    by (auto simp: lookup_fn_def ret_def stop_with_def split: option.splits)
  then have "cl_func_idx (link_entry i) \<in> ran (ent_pc_to_idx prog)" by (auto simp: link_entry_def ran_def)
  then show "kept (andThen (catch_exit (call (link_entry i) (vals i) [])) (f i))"
    by (intro mach.andThen_rule catch_rule assms i)
qed

lemma run_hooks_rule:
  fixes call :: "('fp, 'h) caller"
  assumes "\<And>link vals aggs. cl_func_idx link \<in> ran (ent_pc_to_idx prog) \<Longrightarrow> kept (call link vals aggs)"
  shows "kept (run_hooks call prog pcs)"
proof (induction pcs)
  case (Cons pc pcs)
  then have "kept (case r of Inl _ \<Rightarrow> run_hooks call prog pcs | Inr status \<Rightarrow> ret (Some status))" for r :: "i64 + i64"
    by (auto intro: mach.ret_rule split: sum.splits)
  then show ?case unfolding run_hooks.simps by (intro hook_rule [where vals = "\<lambda>_. []"] assms)
qed (simp add: mach.ret_rule)

lemma run_entry_rule:
  fixes call :: "('fp, 'h) caller"
  assumes "\<And>link vals aggs. cl_func_idx link \<in> ran (ent_pc_to_idx prog) \<Longrightarrow> kept (call link vals aggs)"
    and "ran (ent_pc_to_idx prog) \<subseteq> {..< length (funcs prog)}"
  shows "kept (run_entry call prog pc argv)"
  unfolding run_entry_def
proof (rule mach.andThen_result [OF mach.lookup_rule])
  fix i and k k' :: "('fp, 'h) Machine" assume "lookup_fn prog pc k = (Inr i, k')"
  then have i: "i \<in> ran (ent_pc_to_idx prog)"
    by (auto simp: lookup_fn_def ret_def stop_with_def ran_def split: option.splits)
  then show "kept (andThen (index_of (funcs prog) i) (\<lambda>f.
     andThen (catch_exit (call (link_entry i) (if n_params f = 0 then [] else argv) [])) (\<lambda>r.
       ret (case r of Inl v \<Rightarrow> v | Inr status \<Rightarrow> status))))"
    using assms(2) by (intro mach.andThen_rule mach.index_rule catch_rule assms(1) mach.ret_rule) (auto simp: link_entry_def)
qed

lemma run_sequence_rule:
  fixes call :: "('fp, 'h) caller"
  assumes call: "\<And>link vals aggs. cl_func_idx link \<in> ran (ent_pc_to_idx prog) \<Longrightarrow> kept (call link vals aggs)"
    and "ran (ent_pc_to_idx prog) \<subseteq> {..< length (funcs prog)}"
  shows "kept (run_sequence call prog init entry argv fini)"
  unfolding run_sequence_def
  by (intro mach.andThen_rule keeps_splits run_hooks_rule run_entry_rule call assms(2) mach.ret_rule)

end

lemma run_program_total:
  assumes "env_total E" "list_all func_wf fs"
  shows "fst (run_program_with_args_tracked d blks E fp_new fs data names base entry host args track init fini tgt) \<noteq> Inl Stop_Panic"
proof -
  let ?p = "program_new fs names base tgt"
  note D = env_total_run [OF assms(1)]
  have fits: "list_all (run_discipline.func_fits {Stop_Panic} True) (funcs ?p)"
    using assms(2) by (auto simp: list_all_iff run_discipline.func_fits_def [OF D] func_wf_def)
  have r: "ran (ent_pc_to_idx ?p) \<subseteq> {..< length (funcs ?p)}" using program_new_range by simp
  have call: "keeps (\<lambda>_. True) (\<lambda>_ _. True) {Stop_Panic} (run_func d blks E ?p link vals aggs)"
    if "cl_func_idx link \<in> ran (ent_pc_to_idx ?p)" for link vals aggs
    using run_discipline.run_func_rule [OF D fits r] r that by auto
  have "keeps (\<lambda>_. True) (\<lambda>_ _. True) {Stop_Panic} (run_sequence (run_func d blks E ?p) ?p init entry argv fini)" for argv
    by (rule run_discipline.run_sequence_rule [OF D call r])
  then have "fst (run_sequence (run_func d blks E ?p) ?p init entry argv fini k) \<noteq> Inl Stop_Panic" for argv k
    by (auto simp: keeps_def)
  then show ?thesis
    by (auto simp: run_program_with_args_tracked_def Let_def split: prod.splits) (metis fst_conv)
qed

lemma run_program_fuel:
  assumes "fst (run_program_with_args_tracked d blks E fp_new fs data names base entry host args track init fini tgt) \<noteq> Inl Stop_Fuel"
    "d \<le> d'" "blks \<le> blks'"
  shows "run_program_with_args_tracked d' blks' E fp_new fs data names base entry host args track init fini tgt =
         run_program_with_args_tracked d blks E fp_new fs data names base entry host args track init fini tgt"
proof -
  let ?p = "program_new fs names base tgt"
  have x: "outruns (run_sequence (run_func d blks E ?p) ?p init entry argv fini) (run_sequence (run_func d' blks' E ?p) ?p init entry argv fini)" for argv
    by (intro run_sequence_fuel run_func_fuel assms(2,3))
  show ?thesis
    using assms(1) x unfolding run_program_with_args_tracked_def Let_def outruns_def
    by (auto split: prod.splits) (metis fst_conv prod.inject)+
qed

section \<open>Code positions\<close>

lemma bit_small_nat: "b < 2 ^ w \<Longrightarrow> bit (b :: nat) n \<Longrightarrow> n < w"
  by (metis bit_take_bit_iff take_bit_nat_eq_self)

lemma bit_tags: "bit (0x4000000000000000 :: i64) n \<longleftrightarrow> n = 62" "bit (0x1000000000000000 :: i64) n \<longleftrightarrow> n = 60"
proof -
  have t: "(0x4000000000000000 :: i64) = push_bit 62 1" "(0x1000000000000000 :: i64) = push_bit 60 1" by simp_all
  show "bit (0x4000000000000000 :: i64) n \<longleftrightarrow> n = 62" "bit (0x1000000000000000 :: i64) n \<longleftrightarrow> n = 60"
    unfolding t bit_push_bit_iff bit_1_iff by auto
qed

lemma bit_code_position:
  assumes "f < 2 ^ 20" "b < 2 ^ 20" "o' < 2 ^ 20"
  shows "bit (code_position f b o') n \<longleftrightarrow>
    n = 62 \<or> n = 60 \<or> (40 \<le> n \<and> bit f (n - 40)) \<or> (20 \<le> n \<and> bit b (n - 20)) \<or> bit o' n"
proof -
  have p: "bit (push_bit k (of_nat x) :: i64) n \<longleftrightarrow> k \<le> n \<and> bit x (n - k)" if "x < 2 ^ 20" "k \<le> 40" for x k
    using bit_small_nat [OF that(1), of "n - k"] that(2) by (auto simp: bit_push_bit_iff bit_of_nat_iff)
  have o: "bit (of_nat o' :: i64) n \<longleftrightarrow> bit o' n"
    using bit_small_nat [OF assms(3), of n] by (auto simp: bit_of_nat_iff)
  have b: "bit (push_bit 20 (of_nat b) :: i64) n \<longleftrightarrow> 20 \<le> n \<and> bit b (n - 20)" by (rule p [OF assms(2)]) simp
  show ?thesis unfolding code_position_def bit_or_iff bit_tags o p [OF assms(1) order_refl] b ..
qed

lemma code_position_block:
  assumes "f < 2 ^ 20" "b < 2 ^ 20"
  shows "unat (signed_drop_bit 20 (code_position f b 0) AND 0xFFFFF) = b"
proof -
  have m: "(x :: i64) AND 0xFFFFF = take_bit 20 x" for x by (simp add: take_bit_eq_mask mask_eq_exp_minus_1)
  have "signed_drop_bit 20 (code_position f b 0) AND 0xFFFFF = of_nat b"
  proof (rule bit_word_eqI)
    fix n assume "n < LENGTH(64)"
    show "bit (signed_drop_bit 20 (code_position f b 0) AND 0xFFFFF) n = bit (of_nat b :: i64) n"
      unfolding m bit_take_bit_iff
      using bit_small_nat [OF assms(2), of n] bit_code_position [OF assms, of 0 "20 + n"]
      by (cases "n < 20") (auto simp: bit_signed_shift bit_of_nat_iff)
  qed
  then show ?thesis using assms(2) by (simp add: unat_of_nat_small)
qed

lemma code_position_inject:
  assumes "f < 2 ^ 20" "b < 2 ^ 20" "o' < 2 ^ 20" "f' < 2 ^ 20" "b' < 2 ^ 20" "p' < 2 ^ 20"
    and eq: "code_position f b o' = code_position f' b' p'"
  shows "f = f' \<and> b = b' \<and> o' = p'"
proof -
  note s = assms(1-6) [THEN bit_small_nat]
  have e: "bit (code_position f b o') n = bit (code_position f' b' p') n" for n by (simp add: eq)
  note e = e [unfolded bit_code_position [OF assms(1-3)] bit_code_position [OF assms(4-6)]]
  have "bit o' n = bit p' n" for n using e [of n] s(3) [of n] s(6) [of n] by (cases "n < 20") auto
  moreover have "bit b n = bit b' n" for n
    using e [of "20 + n"] s(2,5) [of n] s(3,6) [of "20 + n"] by (cases "n < 20") auto
  moreover have "bit f n = bit f' n" for n
    using e [of "40 + n"] s(1,4) [of n] s(2,5) [of "20 + n"] s(3,6) [of "40 + n"] by (cases "n < 20") auto
  ultimately show ?thesis by (metis bit_eqI)
qed

lemma label_block_iff:
  assumes "idx < 2 ^ 20" "b < 2 ^ 20"
  shows "label_block f idx (code_position idx b 0) = (if b \<in> set (computed_goto_targets f) then Some b else None)"
  unfolding label_block_def Let_def code_position_block [OF assms] by simp

lemma label_block_exact:
  assumes "idx < 2 ^ 20" "b < 2 ^ 20" "off < 2 ^ 20" "self < 2 ^ 20"
  shows "label_block f self (code_position idx b off) =
    (if idx = self \<and> off = 0 \<and> b \<in> set (computed_goto_targets f) then Some b else None)"
proof (cases "idx = self \<and> off = 0")
  case True
  then show ?thesis using label_block_iff [OF assms(1,2)] by simp
next
  case False
  have "code_position idx b off \<noteq> code_position self c 0"
    if "c = unat (signed_drop_bit 20 (code_position idx b off) AND 0xFFFFF)" for c
  proof -
    have "signed_drop_bit 20 (code_position idx b off) AND 0xFFFFF \<le> 0xFFFFF" by (rule word_and_le1)
    then have "c < 2 ^ 20" using that by (simp add: word_le_nat_alt)
    then show ?thesis using code_position_inject [OF assms(1-4) _ _, of c 0] False by auto
  qed
  then show ?thesis using False by (auto simp: label_block_def Let_def)
qed

section \<open>The boundary of a program\<close>

lemma run_entry_exit:
  assumes "ent_pc_to_idx prog pc = Some i" "i < length (funcs prog)"
    and "call (link_entry i) (if n_params (funcs prog ! i) = 0 then [] else argv) [] k = (r, k')"
    and "r = Inr st \<or> r = Inl (Stop_Err (VE_Exit st))"
  shows "run_entry call prog pc argv k = (Inr st, k')"
  using assms
  by (auto simp: run_entry_def lookup_fn_def andThen_def ret_def index_of_def catch_exit_def)

section \<open>The argument vector\<close>

lemma push_args:
  "foldl push_arg (out, es) args =
     (out @ concat (map (\<lambda>a. a @ [0]) args),
      es @ map (\<lambda>i. length out + length (concat (map (\<lambda>a. a @ [0]) (take i args)))) [0..<length args])"
proof (induction args arbitrary: out es)
  case (Cons a args)
  have "[0..<length (a # args)] = 0 # map Suc [0..<length args]" by (simp add: upt_conv_Cons map_Suc_upt del: upt_Suc)
  moreover have "push_arg (out, es) a = (out @ a @ [0], es @ [length out])" by (simp add: push_arg_def)
  ultimately show ?case using Cons.IH [of "out @ a @ [0]" "es @ [length out]"] by (simp add: comp_def del: upt_Suc)
qed simp

lemma argv_entries:
  assumes "av + 8 * (k + length es) \<le> length out"
  shows "length (foldl (argv_entry av) out (List.enumerate k es)) = length out \<and>
    (\<forall>j < length es. take 8 (drop (av + 8 * (k + j)) (foldl (argv_entry av) out (List.enumerate k es))) =
      to_le_bytes 8 (of_nat (es ! j) :: i64)) \<and>
    (\<forall>b n. (b + n \<le> av + 8 * k \<or> av + 8 * (k + length es) \<le> b) \<longrightarrow> b + n \<le> length out \<longrightarrow>
      take n (drop b (foldl (argv_entry av) out (List.enumerate k es))) = take n (drop b out))"
  using assms
proof (induction es arbitrary: k out)
  case (Cons e es)
  let ?o = "argv_entry av out (k, e)" and ?x = "to_le_bytes 8 (of_nat e :: i64)"
  have o: "?o = splice out (av + 8 * k) ?x" by (simp add: argv_entry_def mult.commute)
  have fit: "av + 8 * k + length ?x \<le> length out" using Cons.prems by simp
  have len: "length ?o = length out" using fit by (simp add: o)
  have win: "take 8 (drop (av + 8 * k) ?o) = ?x" using splice_window [OF fit] by (simp add: o)
  have off: "take n (drop b ?o) = take n (drop b out)"
    if "b + n \<le> av + 8 * k \<or> av + 8 * k + 8 \<le> b" "b + n \<le> length out" for b n
    unfolding o by (rule splice_disjoint [OF fit]) (use that in auto)
  have "av + 8 * (Suc k + length es) \<le> length ?o" using Cons.prems len by simp
  note IH = Cons.IH [OF this, THEN conjunct1] Cons.IH [OF this, THEN conjunct2, THEN conjunct1, rule_format]
    Cons.IH [OF this, THEN conjunct2, THEN conjunct2, rule_format]
  let ?r = "foldl (argv_entry av) ?o (List.enumerate (Suc k) es)"
  have r: "foldl (argv_entry av) out (List.enumerate k (e # es)) = ?r" by simp
  have "take 8 (drop (av + 8 * (k + j)) ?r) = to_le_bytes 8 (of_nat ((e # es) ! j) :: i64)" if "j < length (e # es)" for j
  proof (cases j)
    case 0
    have "take 8 (drop (av + 8 * k) ?r) = take 8 (drop (av + 8 * k) ?o)" by (rule IH(3)) (use fit len in simp_all)
    then show ?thesis using 0 win by simp
  next
    case (Suc j')
    then show ?thesis using IH(2) [of j'] that by simp
  qed
  moreover have "take n (drop b ?r) = take n (drop b out)"
    if "b + n \<le> av + 8 * k \<or> av + 8 * (k + length (e # es)) \<le> b" "b + n \<le> length out" for b n
  proof -
    have "take n (drop b ?r) = take n (drop b ?o)" by (rule IH(3)) (use that len in auto)
    also have "\<dots> = take n (drop b out)" by (rule off) (use that in auto)
    finally show ?thesis .
  qed
  moreover have "length ?r = length out" using IH(1) len by simp
  ultimately show ?case unfolding r by (intro conjI allI impI) 
qed simp

lemma concat_window:
  assumes "i < length xs"
  shows "take (length (xs ! i)) (drop (length (concat (take i xs))) (concat xs)) = xs ! i"
proof -
  have "concat xs = concat (take i xs) @ xs ! i @ concat (drop (Suc i) xs)"
    using assms by (metis concat.simps(2) concat_append id_take_nth_drop)
  then show ?thesis by simp
qed

lemma stage_argv_length:
  assumes "args \<noteq> []"
  shows "length (fst (stage_argv data args)) =
    (if data = [] then 8 else length data) + (length args + 1) * 8 + sum_list (map (\<lambda>a. length a + 1) args)"
proof -
  let ?out0 = "if data = [] then replicate 8 0 else data"
  let ?out2 = "(?out0 @ replicate ((length args + 1) * 8) 0) @ concat (map (\<lambda>a. a @ [0]) args)"
  let ?es = "map (\<lambda>i. length (?out0 @ replicate ((length args + 1) * 8) (0 :: u8)) +
      length (concat (map (\<lambda>a. a @ [0]) (take i args)))) [0..<length args]"
  have "length (foldl (argv_entry (length ?out0)) ?out2 (List.enumerate 0 ?es)) = length ?out2"
    by (rule argv_entries [THEN conjunct1]) simp
  then show ?thesis using assms push_args [of "?out0 @ replicate ((length args + 1) * 8) 0" "[]" args]
    by (simp add: stage_argv_def Let_def length_concat comp_def)
qed

text \<open>
  The staged image: the data first, then the vector of pointers, a null after them, and each
  pointer at its string with a terminator.
\<close>

lemma stage_argv_spec:
  assumes ne: "args \<noteq> []" and run: "stage_argv data args = (out, argc, av)" and small: "length out < 2 ^ 63"
  shows "argc = of_nat (length args)" "unat av = (if data = [] then 8 else length data)" "take (length data) out = data"
    "take 8 (drop (unat av + 8 * length args) out) = replicate 8 0"
    "i < length args \<Longrightarrow> \<exists>p. take 8 (drop (unat av + 8 * i) out) = to_le_bytes 8 (of_nat p :: i64) \<and> p < 2 ^ 63 \<and>
      take (length (args ! i) + 1) (drop p out) = args ! i @ [0]"
proof -
  define out0 where "out0 = (if data = [] then replicate 8 0 else data)"
  define strs where "strs = map (\<lambda>a. a @ [0 :: u8]) args"
  define out1 where "out1 = out0 @ replicate ((length args + 1) * 8) (0 :: u8)"
  define es where "es = map (\<lambda>i. length out1 + length (concat (take i strs))) [0..<length args]"
  define out2 where "out2 = out1 @ concat strs"
  have "foldl push_arg (out1, []) args = (out2, es)"
    using push_args [of out1 "[]" args] by (simp add: es_def out2_def strs_def take_map)
  then have r: "out = foldl (argv_entry (length out0)) out2 (List.enumerate 0 es)" "argc = of_nat (length args)"
    "av = of_nat (length out0)"
    using run ne unfolding stage_argv_def Let_def out0_def [symmetric] out1_def [symmetric] by auto
  have les: "length es = length args" by (simp add: es_def)
  have fit: "length out0 + 8 * (0 + length es) \<le> length out2" by (simp add: out2_def out1_def les)
  note spec = argv_entries [OF fit, folded r(1)]
  have len: "length out = length out2" using spec by blast
  have win: "take 8 (drop (length out0 + 8 * (0 + j)) out) = to_le_bytes 8 (of_nat (es ! j) :: i64)" if "j < length es" for j
    using spec that by blast
  have off: "take n (drop b out) = take n (drop b out2)"
    if "b + n \<le> length out0 + 8 * 0 \<or> length out0 + 8 * (0 + length es) \<le> b" "b + n \<le> length out2" for b n
    using spec that by blast
  have o0: "length out0 = (if data = [] then 8 else length data)" "length data \<le> length out0" "take (length data) out0 = data"
    by (simp_all add: out0_def)
  have "length out0 < 2 ^ 64" using small len by (simp add: out2_def out1_def)
  then have av: "unat av = length out0" by (simp add: r(3) unat_of_nat_small)
  show "argc = of_nat (length args)" "unat av = (if data = [] then 8 else length data)" using r(2) av o0(1) by simp_all
  show "take (length data) out = data"
    using off [of 0 "length data"] o0(2,3) by (simp add: out2_def out1_def)
  show "take 8 (drop (unat av + 8 * length args) out) = replicate 8 0"
    unfolding av using off [of "length out0 + 8 * length args" 8] les by (simp add: out2_def out1_def)
  show "\<exists>p. take 8 (drop (unat av + 8 * i) out) = to_le_bytes 8 (of_nat p :: i64) \<and> p < 2 ^ 63 \<and>
      take (length (args ! i) + 1) (drop p out) = args ! i @ [0]" if i: "i < length args"
  proof (intro exI [of _ "es ! i"] conjI)
    show "take 8 (drop (unat av + 8 * i) out) = to_le_bytes 8 (of_nat (es ! i) :: i64)"
      using win [of i] i by (simp add: av les)
    have si: "i < length strs" "strs ! i = args ! i @ [0]" using i by (simp_all add: strs_def)
    have ei: "es ! i = length out1 + length (concat (take i strs))" using i by (simp add: es_def)
    have "concat strs = concat (take i strs) @ strs ! i @ concat (drop (Suc i) strs)"
      using si(1) by (metis concat.simps(2) concat_append id_take_nth_drop)
    then have l: "es ! i + length (strs ! i) \<le> length out2" by (simp add: ei out2_def)
    show "es ! i < 2 ^ 63" using l small len by linarith
    have "take (length (strs ! i)) (drop (es ! i) out) = take (length (strs ! i)) (drop (es ! i) out2)"
      using l by (intro off) (simp_all add: ei out1_def les)
    also have "\<dots> = strs ! i" using concat_window [OF si(1)] by (simp add: ei out2_def)
    finally show "take (length (args ! i) + 1) (drop (es ! i) out) = args ! i @ [0]" by (simp add: si(2))
  qed
qed

end
