(* ===== verification/Fenv.thy ===== *)
theory Fenv
  imports Target_Abi Eval Softfp
begin

text \<open>
  The floating-point environment of the interpreter, \<^verbatim>\<open>src/src/c5/vm/fenv.rs\<close>.  Each operation forms
  its exact result as a sign, an integer significand, an exponent and a sticky bit, and
  \<open>round_to\<close> rounds it once.  Values are binary64 bit patterns, and a \<open>float\<close> is the binary64 pattern
  of its value.  A \<open>u128\<close> is a \<open>128 word\<close>; exponents (\<open>i32\<close>) are \<open>int\<close>, since none leaves \<open>-5000..5000\<close>.
  To nearest, an operation takes the host's result: the host's arithmetic and the square root of
  the \<open>libm\<close> crate are a parameter.
\<close>

type_synonym u128 = "128 word"

abbreviation (input) INVALID :: u8 where "INVALID \<equiv> 1"
abbreviation (input) DIVBYZERO :: u8 where "DIVBYZERO \<equiv> 2"
abbreviation (input) OVERFLOW :: u8 where "OVERFLOW \<equiv> 4"
abbreviation (input) UNDERFLOW :: u8 where "UNDERFLOW \<equiv> 8"
abbreviation (input) INEXACT :: u8 where "INEXACT \<equiv> 16"

abbreviation (input) SIGN :: u64 where "SIGN \<equiv> 0x8000000000000000"
abbreviation (input) QUIET :: u64 where "QUIET \<equiv> 0x0008000000000000"
abbreviation (input) EXP_MASK :: u64 where "EXP_MASK \<equiv> 0x7ff0000000000000"

datatype Round = Round_Nearest | Round_Up | Round_Down | Round_Zero

record Format =
  fmt_p :: nat
  emin :: int
  emax :: int

definition BINARY64 :: Format where
  "BINARY64 = \<lparr>fmt_p = 53, emin = -1022, emax = 1023\<rparr>"

definition BINARY32 :: Format where
  "BINARY32 = \<lparr>fmt_p = 24, emin = -126, emax = 127\<rparr>"

datatype OutOfRange = OutOfRange_Minimum | OutOfRange_Saturate | OutOfRange_Zero

record FpEnv =
  fp_round :: Round
  fp_flags :: u8
  fp_target :: Target
  tiny_before_rounding :: bool
  default_nan :: u64
  convert_out_of_range :: OutOfRange
  lrint_out_of_range :: OutOfRange

type_synonym Term = "bool \<times> u128 \<times> int"

datatype Class = Class_Zero | Class_Finite u64 int | Class_Inf | Class_Nan

text \<open>The host's binary64 arithmetic with the square root of \<open>libm\<close>.\<close>

record host_fpu = fpu +
  libm_sqrt :: "u64 \<Rightarrow> u64"

section \<open>Bit patterns\<close>

definition fp_class :: "u64 \<Rightarrow> Class" where
  "fp_class b =
     (let e = uint (drop_bit 52 b AND 0x7ff); m = b AND (push_bit 52 1 - 1)
      in if e = 0 \<and> m = 0 then Class_Zero
         else if e = 0 then Class_Finite m (-1074)
         else if e = 0x7ff \<and> m = 0 then Class_Inf
         else if e = 0x7ff then Class_Nan
         else Class_Finite (m OR push_bit 52 1) (e - 1075))"

definition negative :: "u64 \<Rightarrow> bool" where
  "negative b \<longleftrightarrow> b AND SIGN \<noteq> 0"

definition is_nan :: "u64 \<Rightarrow> bool" where
  "is_nan b \<longleftrightarrow> b AND EXP_MASK = EXP_MASK \<and> b AND NOT (SIGN OR EXP_MASK) \<noteq> 0"

definition is_snan :: "u64 \<Rightarrow> bool" where
  "is_snan b \<longleftrightarrow> is_nan b \<and> b AND QUIET = 0"

definition with_sign :: "bool \<Rightarrow> u64 \<Rightarrow> u64" where
  "with_sign neg magnitude = (if neg then magnitude OR SIGN else magnitude)"

definition top_bit :: "Term \<Rightarrow> int" where
  "top_bit = (\<lambda>(neg, s, e). e + 127 - int (leading_zeros s))"

definition shift_round :: "u128 \<Rightarrow> int \<Rightarrow> bool \<Rightarrow> u128 \<times> bool \<times> bool" where
  "shift_round sig sh sticky =
     (if sh \<le> 0 then (push_bit (nat (- sh)) sig, False, sticky)
      else if sh \<ge> 128 then
        (let half = (sh = 128 \<and> drop_bit 127 sig \<noteq> 0);
             rest = (if sh = 128 then push_bit 1 sig \<noteq> 0 else sig \<noteq> 0)
         in (0, half, rest \<or> sticky))
      else
        (let n = nat sh;
             half = (drop_bit (n - 1) sig AND 1 \<noteq> 0);
             rest = (n > 1 \<and> sig AND (push_bit (n - 1) 1 - 1) \<noteq> 0)
         in (drop_bit n sig, half, rest \<or> sticky)))"

definition fp_pack :: "bool \<Rightarrow> u128 \<Rightarrow> int \<Rightarrow> u64" where
  "fp_pack neg kept q =
     (if kept = 0 then with_sign neg 0
      else
        let lead = 127 - int (leading_zeros kept);
            e = q + lead;
            b = (if e \<ge> -1022 then
                   (let m = ucast (push_bit (nat (52 - lead)) kept) AND (push_bit 52 1 - 1)
                    in push_bit 52 (word_of_int (e + 1023)) OR m)
                 else ucast (push_bit (nat (q + 1074)) kept))
        in with_sign neg b)"

text \<open>\<open>finite\<close>: the significand and exponent of a finite nonzero value.\<close>

definition finite_parts :: "u64 \<Rightarrow> u128 \<times> int" where
  "finite_parts b = (case fp_class b of Class_Finite s e \<Rightarrow> (ucast s, e) | _ \<Rightarrow> (0, 0))"

definition equal_scaled :: "u128 \<Rightarrow> int \<Rightarrow> u128 \<times> int \<Rightarrow> bool" where
  "equal_scaled m e = (\<lambda>(n, d).
     let (scaled, other, sh) = (if e \<ge> d then (m, n, e - d) else (n, m, d - e))
     in sh < 128 \<and> int (leading_zeros scaled) \<ge> sh \<and> push_bit (nat sh) scaled = other)"

definition normalized :: "u64 \<Rightarrow> int \<Rightarrow> u64 \<times> int" where
  "normalized s e = (let sh = int (leading_zeros s) - 11 in (push_bit (nat sh) s, e - sh))"

section \<open>Rounding\<close>

definition fpenv_new :: "Target \<Rightarrow> FpEnv" where
  "fpenv_new t =
     (let aarch64 = is_aarch64 t
      in \<lparr>fp_round = Round_Nearest, fp_flags = 0, fp_target = t, tiny_before_rounding = aarch64,
          default_nan = (if aarch64 then 0x7ff8000000000000 else 0xfff8000000000000),
          convert_out_of_range = (if aarch64 then OutOfRange_Saturate else OutOfRange_Minimum),
          lrint_out_of_range =
            (if t = WindowsX64 \<or> t = WindowsAarch64 then OutOfRange_Zero
             else if aarch64 then OutOfRange_Saturate else OutOfRange_Minimum)\<rparr>)"

definition raise_flags :: "u8 \<Rightarrow> FpEnv \<Rightarrow> FpEnv" where
  "raise_flags k env = env\<lparr>fp_flags := fp_flags env OR k\<rparr>"

definition round_up :: "FpEnv \<Rightarrow> bool \<Rightarrow> u128 \<Rightarrow> bool \<Rightarrow> bool \<Rightarrow> bool" where
  "round_up env neg kept half rest =
     (case fp_round env of
        Round_Nearest \<Rightarrow> half \<and> (rest \<or> kept AND 1 \<noteq> 0)
      | Round_Up \<Rightarrow> \<not> neg \<and> (half \<or> rest)
      | Round_Down \<Rightarrow> neg \<and> (half \<or> rest)
      | Round_Zero \<Rightarrow> False)"

definition tiny :: "FpEnv \<Rightarrow> bool \<Rightarrow> u128 \<Rightarrow> int \<Rightarrow> bool \<Rightarrow> int \<Rightarrow> Format \<Rightarrow> bool" where
  "tiny env neg sig ex sticky tb f =
     (if tb \<ge> emin f then False
      else if tiny_before_rounding env \<or> tb < emin f - 1 then True
      else
        case shift_round sig (tb - (int (fmt_p f) - 1) - ex) sticky of
          (kept, half, rest) \<Rightarrow>
            drop_bit (fmt_p f) (kept + of_bool (round_up env neg kept half rest)) = 0)"

definition overflowed :: "FpEnv \<Rightarrow> bool \<Rightarrow> Format \<Rightarrow> u64" where
  "overflowed env neg f =
     (let mx = (if f = BINARY64 then 0x7fefffffffffffff else 0x47efffffe0000000);
          infinite = (case fp_round env of
              Round_Nearest \<Rightarrow> True | Round_Zero \<Rightarrow> False | Round_Up \<Rightarrow> \<not> neg | Round_Down \<Rightarrow> neg)
      in with_sign neg (if infinite then EXP_MASK else mx))"

text \<open>\<open>FpEnv::round\<close>: the tail after the significand is cut, then the whole.\<close>

definition round_kept :: "FpEnv \<Rightarrow> bool \<Rightarrow> Format \<Rightarrow> u128 \<Rightarrow> bool \<Rightarrow> bool \<Rightarrow> int \<Rightarrow> u128 \<times> int" where
  "round_kept env neg f kept half rest q =
     (if round_up env neg kept half rest then
        (if drop_bit (fmt_p f) (kept + 1) \<noteq> 0 then (drop_bit 1 (kept + 1), q + 1) else (kept + 1, q))
      else (kept, q))"

definition round_to :: "bool \<Rightarrow> u128 \<Rightarrow> int \<Rightarrow> bool \<Rightarrow> Format \<Rightarrow> FpEnv \<Rightarrow> u64 \<times> FpEnv" where
  "round_to neg sig ex sticky f env =
     (let tb = top_bit (neg, sig, ex);
          p = int (fmt_p f);
          q0 = max (tb - (p - 1)) (emin f - (p - 1))
      in case shift_round sig (q0 - ex) sticky of
           (kept0, half, rest) \<Rightarrow>
             (case round_kept env neg f kept0 half rest q0 of
                (kept, q) \<Rightarrow>
                  let env1 = (if half \<or> rest then
                                (if tiny env neg sig ex sticky tb f
                                 then raise_flags UNDERFLOW (raise_flags INEXACT env)
                                 else raise_flags INEXACT env)
                              else env)
                  in if kept \<noteq> 0 \<and> q + 127 - int (leading_zeros kept) > emax f
                     then (overflowed env neg f, raise_flags (OVERFLOW OR INEXACT) env1)
                     else (fp_pack neg kept q, env1)))"

section \<open>Arithmetic\<close>

definition invalid :: "FpEnv \<Rightarrow> u64 \<times> FpEnv" where
  "invalid env = (default_nan env, raise_flags INVALID env)"

definition propagate :: "host_fpu \<Rightarrow> u64 \<Rightarrow> u64 \<Rightarrow> Format \<Rightarrow> FpEnv \<Rightarrow> u64 \<times> FpEnv" where
  "propagate H a b f env =
     (let n = (if is_nan a then a else b) OR QUIET
      in (if f = BINARY32 then f64_as_f32_as_f64 H n else n,
          if is_snan a \<or> is_snan b then raise_flags INVALID env else env))"

definition zero_sum :: "FpEnv \<Rightarrow> u64" where
  "zero_sum env = with_sign (fp_round env = Round_Down) 0"

text \<open>\<open>nearest\<close>: the host's result, where it is a normal number above the smallest.\<close>

definition nearest :: "Format \<Rightarrow> u64 \<Rightarrow> bool \<Rightarrow> FpEnv \<Rightarrow> u64 option \<times> FpEnv" where
  "nearest f r exact env =
     (let mag = r AND NOT SIGN;
          fast = (fp_round env = Round_Nearest \<and> f = BINARY64 \<and>
                  mag > 0x0010000000000000 \<and> mag \<le> 0x7fefffffffffffff)
      in (if fast then Some r else None, if fast \<and> \<not> exact then raise_flags INEXACT env else env))"

definition align_term :: "int \<Rightarrow> Term \<Rightarrow> bool \<times> u128 \<times> bool" where
  "align_term base = (\<lambda>(neg, s, e).
     let sh = e - base
     in if sh \<ge> 0 then (neg, push_bit (nat sh) s, False)
        else if sh \<le> -128 then (neg, 0, True)
        else (neg, drop_bit (nat (- sh)) s, s AND (push_bit (nat (- sh)) 1 - 1) \<noteq> 0))"

definition fp_sum :: "Term \<Rightarrow> Term \<Rightarrow> Format \<Rightarrow> FpEnv \<Rightarrow> u64 \<times> FpEnv" where
  "fp_sum a b f env =
     (let base = max (top_bit a) (top_bit b) - 125
      in case (align_term base a, align_term base b) of
           ((na, va, la), (nb, vb, lb)) \<Rightarrow>
             if na = nb then round_to na (va + vb) base (la \<or> lb) f env
             else
               (case (if va > vb then (na, va, vb, lb) else (nb, vb, va, la)) of
                  (neg, big, small, lost) \<Rightarrow>
                    if big = small then (zero_sum env, env)
                    else round_to neg (big - small - of_bool lost) base lost f env))"

definition fp_add :: "host_fpu \<Rightarrow> u64 \<Rightarrow> u64 \<Rightarrow> Format \<Rightarrow> FpEnv \<Rightarrow> u64 \<times> FpEnv" where
  "fp_add H a b f env =
     (let s = f64_add H a b;
          t = f64_sub H s a;
          err = f64_add H (f64_sub H a (f64_sub H s t)) (f64_sub H b t);
          exact = (err AND NOT SIGN = 0)
      in case nearest f s exact env of
           (Some r, env') \<Rightarrow> (r, env')
         | (None, _) \<Rightarrow>
             (case (fp_class a, fp_class b) of
                (Class_Nan, _) \<Rightarrow> propagate H a b f env
              | (_, Class_Nan) \<Rightarrow> propagate H a b f env
              | (Class_Inf, Class_Inf) \<Rightarrow> if negative a \<noteq> negative b then invalid env else (a, env)
              | (Class_Inf, _) \<Rightarrow> (a, env)
              | (_, Class_Inf) \<Rightarrow> (b, env)
              | (Class_Zero, Class_Zero) \<Rightarrow> if negative a \<noteq> negative b then (zero_sum env, env) else (b, env)
              | (Class_Zero, _) \<Rightarrow> (b, env)
              | (_, Class_Zero) \<Rightarrow> (a, env)
              | (Class_Finite sa ea, Class_Finite sb eb) \<Rightarrow>
                  fp_sum (negative a, ucast sa, ea) (negative b, ucast sb, eb) f env))"

definition fp_sub :: "host_fpu \<Rightarrow> u64 \<Rightarrow> u64 \<Rightarrow> Format \<Rightarrow> FpEnv \<Rightarrow> u64 \<times> FpEnv" where
  "fp_sub H a b f env = fp_add H a (if is_nan b then b else b XOR SIGN) f env"

definition mul_exact :: "u64 \<Rightarrow> u64 \<Rightarrow> bool" where
  "mul_exact a b =
     (let prod = fst (finite_parts a) * fst (finite_parts b);
          below = (128 - leading_zeros prod) - 53
      in prod AND (push_bit below 1 - 1) = 0)"

definition fp_mul :: "host_fpu \<Rightarrow> u64 \<Rightarrow> u64 \<Rightarrow> Format \<Rightarrow> FpEnv \<Rightarrow> u64 \<times> FpEnv" where
  "fp_mul H a b f env =
     (case nearest f (f64_mul H a b) (mul_exact a b) env of
        (Some r, env') \<Rightarrow> (r, env')
      | (None, _) \<Rightarrow>
          let neg = (negative a \<noteq> negative b)
          in (case (fp_class a, fp_class b) of
                (Class_Nan, _) \<Rightarrow> propagate H a b f env
              | (_, Class_Nan) \<Rightarrow> propagate H a b f env
              | (Class_Inf, Class_Zero) \<Rightarrow> invalid env
              | (Class_Zero, Class_Inf) \<Rightarrow> invalid env
              | (Class_Inf, _) \<Rightarrow> (with_sign neg EXP_MASK, env)
              | (_, Class_Inf) \<Rightarrow> (with_sign neg EXP_MASK, env)
              | (Class_Zero, _) \<Rightarrow> (with_sign neg 0, env)
              | (_, Class_Zero) \<Rightarrow> (with_sign neg 0, env)
              | (Class_Finite sa ea, Class_Finite sb eb) \<Rightarrow>
                  round_to neg (ucast sa * ucast sb) (ea + eb) False f env))"

definition div_exact :: "u64 \<Rightarrow> u64 \<Rightarrow> u64 \<Rightarrow> bool" where
  "div_exact qt a b =
     (case (finite_parts qt, finite_parts b) of
        ((sq, eq), (sb, eb)) \<Rightarrow> equal_scaled (sq * sb) (eq + eb) (finite_parts a))"

definition fp_div :: "host_fpu \<Rightarrow> u64 \<Rightarrow> u64 \<Rightarrow> Format \<Rightarrow> FpEnv \<Rightarrow> u64 \<times> FpEnv" where
  "fp_div H a b f env =
     (let qt = f64_div H a b
      in case nearest f qt (div_exact qt a b) env of
        (Some r, env') \<Rightarrow> (r, env')
      | (None, _) \<Rightarrow>
          let neg = (negative a \<noteq> negative b)
          in (case (fp_class a, fp_class b) of
                (Class_Nan, _) \<Rightarrow> propagate H a b f env
              | (_, Class_Nan) \<Rightarrow> propagate H a b f env
              | (Class_Inf, Class_Inf) \<Rightarrow> invalid env
              | (Class_Zero, Class_Zero) \<Rightarrow> invalid env
              | (Class_Inf, _) \<Rightarrow> (with_sign neg EXP_MASK, env)
              | (_, Class_Inf) \<Rightarrow> (with_sign neg 0, env)
              | (Class_Zero, _) \<Rightarrow> (with_sign neg 0, env)
              | (_, Class_Zero) \<Rightarrow> (with_sign neg EXP_MASK, raise_flags DIVBYZERO env)
              | (Class_Finite sa ea, Class_Finite sb eb) \<Rightarrow>
                  (case (normalized sa ea, normalized sb eb) of
                     ((sa, ea), (sb, eb)) \<Rightarrow>
                       let num = push_bit 74 (ucast sa :: u128)
                       in round_to neg (num div ucast sb) (ea - 74 - eb) (num mod ucast sb \<noteq> 0) f env)))"

text \<open>
  The integer square root: a guess from the host, one Newton step, and two loops that settle it.
  \<open>n as f64\<close> rounds to nearest; \<open>as u128\<close> truncates and saturates.
\<close>

definition u128_as_f64 :: "u128 \<Rightarrow> u64" where
  "u128_as_f64 n = (if n = 0 then 0 else fst (round_to False n 0 False BINARY64 (fpenv_new LinuxX64)))"

definition f64_as_u128 :: "u64 \<Rightarrow> u128" where
  "f64_as_u128 b =
     (case fp_class b of
        Class_Zero \<Rightarrow> 0
      | Class_Nan \<Rightarrow> 0
      | Class_Inf \<Rightarrow> if negative b then 0 else - 1
      | Class_Finite s e \<Rightarrow>
          if negative b then 0
          else if e < 0 then drop_bit (nat (- e)) (ucast s)
          else if unat s * 2 ^ nat e < 2 ^ 128 then push_bit (nat e) (ucast s) else - 1)"

function isqrt_down :: "nat \<Rightarrow> nat \<Rightarrow> nat" where
  "isqrt_down n r = (if r * r > n then isqrt_down n (r - 1) else r)"
  by pat_completeness auto
termination
proof (relation "measure snd")
  fix n r :: nat
  assume "n < r * r"
  then have "0 < r" by (cases r) simp_all
  then show "((n, r - 1), (n, r)) \<in> measure snd" by simp
qed simp

function isqrt_up :: "nat \<Rightarrow> nat \<Rightarrow> nat" where
  "isqrt_up n r = (if (r + 1) * (r + 1) \<le> n then isqrt_up n (r + 1) else r)"
  by pat_completeness auto
termination by (relation "measure (\<lambda>(n, r). n - r)") (auto simp: algebra_simps)

declare isqrt_down.simps [simp del] isqrt_up.simps [simp del]

definition isqrt :: "host_fpu \<Rightarrow> u128 \<Rightarrow> u128 \<times> bool" where
  "isqrt H n =
     (let r0 = max (unat (f64_as_u128 (libm_sqrt H (u128_as_f64 n)))) 1;
          r1 = (r0 + unat n div r0) div 2;
          r = isqrt_up (unat n) (isqrt_down (unat n) r1)
      in (of_nat r, r * r \<noteq> unat n))"

definition sqrt_exact :: "u64 \<Rightarrow> u64 \<Rightarrow> bool" where
  "sqrt_exact root a =
     (case finite_parts root of (sr, er) \<Rightarrow> equal_scaled (sr * sr) (2 * er) (finite_parts a))"

text \<open>Rust's \<open>e / 2\<close> truncates, but the exponent is even there.\<close>

definition fp_sqrt :: "host_fpu \<Rightarrow> u64 \<Rightarrow> Format \<Rightarrow> FpEnv \<Rightarrow> u64 \<times> FpEnv" where
  "fp_sqrt H a f env =
     (let root = libm_sqrt H a
      in case nearest f root (sqrt_exact root a) env of
           (Some r, env') \<Rightarrow> (r, env')
         | (None, _) \<Rightarrow>
             (case fp_class a of
                Class_Nan \<Rightarrow> propagate H a a f env
              | Class_Zero \<Rightarrow> (a, env)
              | Class_Inf \<Rightarrow> if negative a then invalid env else (a, env)
              | Class_Finite s e \<Rightarrow>
                  if negative a then invalid env
                  else
                    (case normalized s e of
                       (s, e) \<Rightarrow>
                         let (n, e) = (if odd e then (push_bit 73 (ucast s), e - 73) else (push_bit 72 (ucast s), e - 72))
                         in (case isqrt H n of
                               (r, inexact) \<Rightarrow> round_to False r (e sdiv 2) inexact f env))))"

definition fp_fma :: "host_fpu \<Rightarrow> u64 \<Rightarrow> u64 \<Rightarrow> u64 \<Rightarrow> Format \<Rightarrow> FpEnv \<Rightarrow> u64 \<times> FpEnv" where
  "fp_fma H a b c f env =
     (let np = (negative a \<noteq> negative b)
      in case (fp_class a, fp_class b) of
           (Class_Nan, _) \<Rightarrow> propagate H a b f env
         | (_, Class_Nan) \<Rightarrow> propagate H a b f env
         | (ca, cb) \<Rightarrow>
             if fp_class c = Class_Nan then propagate H c c f env
             else
               (case (ca, cb) of
                  (Class_Inf, Class_Zero) \<Rightarrow> invalid env
                | (Class_Zero, Class_Inf) \<Rightarrow> invalid env
                | (Class_Finite sa ea, Class_Finite sb eb) \<Rightarrow>
                    (case fp_class c of
                       Class_Inf \<Rightarrow> (c, env)
                     | Class_Finite sc ec \<Rightarrow>
                         fp_sum (np, ucast sa * ucast sb, ea + eb) (negative c, ucast sc, ec) f env
                     | _ \<Rightarrow> round_to np (ucast sa * ucast sb) (ea + eb) False f env)
                | _ \<Rightarrow>
                    if ca = Class_Inf \<or> cb = Class_Inf then
                      (if fp_class c = Class_Inf \<and> negative c \<noteq> np then invalid env
                       else (with_sign np EXP_MASK, env))
                    else if fp_class c = Class_Inf then (c, env)
                    else fp_add H (with_sign np 0) c f env))"

section \<open>Conversions\<close>

definition fp_narrow :: "host_fpu \<Rightarrow> u64 \<Rightarrow> FpEnv \<Rightarrow> u64 \<times> FpEnv" where
  "fp_narrow H a env =
     (case fp_class a of
        Class_Nan \<Rightarrow> propagate H a a BINARY32 env
      | Class_Finite s e \<Rightarrow> round_to (negative a) (ucast s) e False BINARY32 env
      | _ \<Rightarrow> (a, env))"

definition int_to_float :: "i128 \<Rightarrow> Format \<Rightarrow> FpEnv \<Rightarrow> u64 \<times> FpEnv" where
  "int_to_float n f env =
     (if n = 0 then (0, env) else round_to (n < 0) (word_of_int \<bar>n\<bar>) 0 False f env)"

definition fit_outside :: "u64 \<Rightarrow> i128 \<Rightarrow> i128 \<Rightarrow> OutOfRange \<Rightarrow> FpEnv \<Rightarrow> i64 \<times> FpEnv" where
  "fit_outside a lo hi oor env =
     (case oor of
        OutOfRange_Minimum \<Rightarrow> word_of_int (min lo (- (2 ^ 63)))
      | OutOfRange_Zero \<Rightarrow> 0
      | OutOfRange_Saturate \<Rightarrow> if is_nan a then 0 else if negative a then word_of_int lo else word_of_int hi,
      raise_flags INVALID env)"

definition fit :: "u64 \<Rightarrow> i128 option \<Rightarrow> i128 \<Rightarrow> i128 \<Rightarrow> OutOfRange \<Rightarrow> FpEnv \<Rightarrow> i64 \<times> FpEnv" where
  "fit a v lo hi oor env =
     (case v of
        Some x \<Rightarrow> if lo \<le> x \<and> x \<le> hi then (word_of_int x, env) else fit_outside a lo hi oor env
      | None \<Rightarrow> fit_outside a lo hi oor env)"

text \<open>The integral part of a value, \<open>None\<close> when it is not finite or above \<open>2^117\<close>.\<close>

definition float_to_int :: "u64 \<Rightarrow> bool \<Rightarrow> FpEnv \<Rightarrow> i64 \<times> FpEnv" where
  "float_to_int a is_signed env =
     (let (truncated, env1) =
            (case fp_class a of
               Class_Zero \<Rightarrow> (Some 0, env)
             | Class_Finite s e \<Rightarrow>
                 if e \<ge> 0 then (if e < 64 then Some (uint s * 2 ^ nat e) else None, env)
                 else
                   (case shift_round (ucast s) (- e) False of
                      (kept, half, rest) \<Rightarrow>
                        (Some (uint kept), if half \<or> rest then raise_flags INEXACT env else env))
             | _ \<Rightarrow> (None, env));
          v = map_option (\<lambda>v. if negative a then - v else v) truncated;
          (lo, hi) = (if is_signed then (- (2 ^ 63), 2 ^ 63 - 1) else (0, 2 ^ 64 - 1))
      in fit a v lo hi (convert_out_of_range env) env1)"

definition round_integral :: "host_fpu \<Rightarrow> u64 \<Rightarrow> bool \<Rightarrow> FpEnv \<Rightarrow> u64 \<times> FpEnv" where
  "round_integral H a raise_inexact env =
     (case fp_class a of
        Class_Nan \<Rightarrow> propagate H a a BINARY64 env
      | Class_Finite s e \<Rightarrow>
          if e < 0 then
            (case shift_round (ucast s) (- e) False of
               (kept, half, rest) \<Rightarrow>
                 (fp_pack (negative a) (kept + of_bool (round_up env (negative a) kept half rest)) 0,
                  if raise_inexact \<and> (half \<or> rest) then raise_flags INEXACT env else env))
          else (a, env)
      | _ \<Rightarrow> (a, env))"

definition lrint :: "host_fpu \<Rightarrow> u64 \<Rightarrow> nat \<Rightarrow> FpEnv \<Rightarrow> i64 \<times> FpEnv" where
  "lrint H a nbits env =
     (case round_integral H a True env of
        (r, env1) \<Rightarrow>
          let v = (case fp_class r of
                     Class_Zero \<Rightarrow> Some 0
                   | Class_Finite s e \<Rightarrow>
                       if e < 64 then
                         (let m = uint (if e < 0 then drop_bit (nat (- e)) s else s) * 2 ^ nat (max e 0)
                          in Some (if negative r then - m else m))
                       else None
                   | _ \<Rightarrow> None);
              hi = 2 ^ (nbits - 1) - 1
          in fit a v (- hi - 1) hi (lrint_out_of_range env) env1)"

definition compare_operands :: "u64 \<Rightarrow> u64 \<Rightarrow> FpEnv \<Rightarrow> unit \<times> FpEnv" where
  "compare_operands a b env = ((), if is_snan a \<or> is_snan b then raise_flags INVALID env else env)"

section \<open>The macros of \<open>fenv.h\<close> and the images of \<open>fenv_t\<close>\<close>

definition round_macros :: "FpEnv \<Rightarrow> i32 list" where
  "round_macros env =
     (case fp_target env of
        LinuxX64 \<Rightarrow> [0, 0x800, 0x400, 0xc00]
      | WindowsX64 \<Rightarrow> [0, 0x200, 0x100, 0x300]
      | WindowsAarch64 \<Rightarrow> [0, 0x200, 0x100, 0x300]
      | LinuxAarch64 \<Rightarrow> [0, 0x400000, 0x800000, 0xc00000]
      | MacOSAarch64 \<Rightarrow> [0, 0x400000, 0x800000, 0xc00000])"

definition flag_macros :: "FpEnv \<Rightarrow> i32 list" where
  "flag_macros env =
     (case fp_target env of
        LinuxX64 \<Rightarrow> [0x01, 0x04, 0x08, 0x10, 0x20]
      | WindowsX64 \<Rightarrow> [0x10, 0x08, 0x04, 0x02, 0x01]
      | WindowsAarch64 \<Rightarrow> [0x10, 0x08, 0x04, 0x02, 0x01]
      | LinuxAarch64 \<Rightarrow> [0x01, 0x02, 0x04, 0x08, 0x10]
      | MacOSAarch64 \<Rightarrow> [0x01, 0x02, 0x04, 0x08, 0x10])"

definition fe_test :: "FpEnv \<Rightarrow> i32 \<Rightarrow> i32" where
  "fe_test env excepts =
     fold (\<lambda>i acc. acc OR flag_macros env ! i) (filter (\<lambda>i. fp_flags env AND push_bit i 1 \<noteq> 0) [0..<5]) 0 AND excepts"

definition flags_of :: "FpEnv \<Rightarrow> i32 \<Rightarrow> u8" where
  "flags_of env excepts =
     fold (\<lambda>i acc. acc OR push_bit i 1) (filter (\<lambda>i. excepts AND flag_macros env ! i \<noteq> 0) [0..<5]) 0"

definition fe_clear :: "i32 \<Rightarrow> FpEnv \<Rightarrow> FpEnv" where
  "fe_clear excepts env = env\<lparr>fp_flags := fp_flags env AND NOT (flags_of env excepts)\<rparr>"

definition fe_raise :: "i32 \<Rightarrow> FpEnv \<Rightarrow> FpEnv" where
  "fe_raise excepts env =
     (let f = flags_of env excepts;
          f' = (if f AND (OVERFLOW OR UNDERFLOW) \<noteq> 0 \<and> fp_target env \<noteq> LinuxX64 then f OR INEXACT else f)
      in raise_flags f' env)"

primrec round_index :: "Round \<Rightarrow> nat" where
  "round_index Round_Nearest = 0"
| "round_index Round_Up = 1"
| "round_index Round_Down = 2"
| "round_index Round_Zero = 3"

definition get_round :: "FpEnv \<Rightarrow> i32" where
  "get_round env = round_macros env ! round_index (fp_round env)"

fun position :: "('a \<Rightarrow> bool) \<Rightarrow> 'a list \<Rightarrow> nat option" where
  "position P [] = None"
| "position P (x # xs) = (if P x then Some 0 else map_option Suc (position P xs))"

definition set_round :: "i32 \<Rightarrow> FpEnv \<Rightarrow> bool \<times> FpEnv" where
  "set_round val env =
     (case position (\<lambda>m. m = val) (round_macros env) of
        Some i \<Rightarrow> (True, env\<lparr>fp_round := [Round_Nearest, Round_Up, Round_Down, Round_Zero] ! i\<rparr>)
      | None \<Rightarrow> (False, env))"

definition except_size :: "FpEnv \<Rightarrow> nat" where
  "except_size env = (if fp_target env = LinuxX64 \<or> fp_target env = MacOSAarch64 then 2 else 4)"

definition env_image :: "FpEnv \<Rightarrow> u8 list" where
  "env_image env =
     (let rnd = get_round env; flags = fe_test env (- 1)
      in case fp_target env of
           LinuxX64 \<Rightarrow>
             to_le_bytes 2 (0x037f OR ucast rnd :: u16) @ replicate 2 0 @
             to_le_bytes 2 (ucast flags :: u16) @ replicate 2 0 @
             to_le_bytes 2 (0xffff :: u16) @ replicate 18 0 @
             to_le_bytes 4 (0x1f80 OR push_bit 3 rnd OR flags)
         | LinuxAarch64 \<Rightarrow> to_le_bytes 4 rnd @ to_le_bytes 4 flags
         | MacOSAarch64 \<Rightarrow> to_le_bytes 8 (ucast flags :: u64) @ to_le_bytes 8 (ucast rnd :: u64)
         | WindowsX64 \<Rightarrow> to_le_bytes 4 (0x3f00003f OR rnd) @ to_le_bytes 4 flags
         | WindowsAarch64 \<Rightarrow> to_le_bytes 4 (0x3f OR rnd) @ to_le_bytes 4 flags)"

definition env_size :: "FpEnv \<Rightarrow> nat" where
  "env_size env = length (env_image env)"

text \<open>The slices panic on an image shorter than \<open>env_size\<close>; the one caller reads that many bytes.\<close>

definition image_word :: "u8 list \<Rightarrow> nat \<Rightarrow> nat \<Rightarrow> i32" where
  "image_word img at n = from_le_bytes (take n (drop at img) @ replicate (4 - n) 0)"

definition set_env_image :: "u8 list \<Rightarrow> FpEnv \<Rightarrow> FpEnv" where
  "set_env_image img env =
     (let (rnd, flags) =
            (case fp_target env of
               LinuxX64 \<Rightarrow> (image_word img 0 2 AND 0xc00, image_word img 4 2 OR image_word img 28 4)
             | LinuxAarch64 \<Rightarrow> (image_word img 0 4, image_word img 4 4)
             | MacOSAarch64 \<Rightarrow> (image_word img 8 4, image_word img 0 4)
             | WindowsX64 \<Rightarrow> (image_word img 0 4, image_word img 4 4)
             | WindowsAarch64 \<Rightarrow> (image_word img 0 4, image_word img 4 4));
          dirs = round_macros env;
          pick = (case position (\<lambda>m. m = rnd AND (dirs ! 3)) dirs of Some i \<Rightarrow> i | None \<Rightarrow> 0);
          env1 = snd (set_round (dirs ! pick) env)
      in env1\<lparr>fp_flags := flags_of env flags\<rparr>)"

definition set_default_env :: "FpEnv \<Rightarrow> FpEnv" where
  "set_default_env env = env\<lparr>fp_round := Round_Nearest, fp_flags := 0\<rparr>"

end
