(* ===== verification/Fp_Spec.thy ===== *)
theory Fp_Spec
  imports Complex_Main Fenv
begin

text \<open>
  What it means to round a real number correctly (IEC 60559, clause 4): the values of a binary
  format, the result each direction asks for, and the lemmas that reduce rounding to a choice
  between two neighbours on the grid of the result's last place.
\<close>

section \<open>Values of a format and directed rounding\<close>

text \<open>
  The numbers with a significand of \<open>p\<close> bits over the exponents \<open>Q\<close> of the last place.  A format
  with subnormals has a smallest exponent; \<open>Q = UNIV\<close> is the unbounded exponent range that
  tininess after rounding refers to.
\<close>

definition fp_values :: "nat \<Rightarrow> int set \<Rightarrow> real set" where
  "fp_values p Q = {of_int m * 2 powi q |m q. \<bar>m\<bar> < 2 ^ p \<and> q \<in> Q}"

definition fp_even :: "nat \<Rightarrow> int set \<Rightarrow> real \<Rightarrow> bool" where
  "fp_even p Q r \<longleftrightarrow> (\<exists>m q. even m \<and> \<bar>m\<bar> < 2 ^ p \<and> q \<in> Q \<and> r = of_int m * 2 powi q)"

text \<open>\<open>rounds d p Q x r\<close>: \<open>r\<close> is the value that direction \<open>d\<close> asks for at \<open>x\<close>.\<close>

fun rounds :: "Round \<Rightarrow> nat \<Rightarrow> int set \<Rightarrow> real \<Rightarrow> real \<Rightarrow> bool" where
  "rounds Round_Nearest p Q x r \<longleftrightarrow>
     r \<in> fp_values p Q \<and> (\<forall>s \<in> fp_values p Q. \<bar>x - r\<bar> \<le> \<bar>x - s\<bar>) \<and>
     ((\<exists>s \<in> fp_values p Q. s \<noteq> r \<and> \<bar>x - s\<bar> = \<bar>x - r\<bar>) \<longrightarrow> fp_even p Q r)"
| "rounds Round_Down p Q x r \<longleftrightarrow>
     r \<in> fp_values p Q \<and> r \<le> x \<and> (\<forall>s \<in> fp_values p Q. s \<le> x \<longrightarrow> s \<le> r)"
| "rounds Round_Up p Q x r \<longleftrightarrow>
     r \<in> fp_values p Q \<and> x \<le> r \<and> (\<forall>s \<in> fp_values p Q. x \<le> s \<longrightarrow> r \<le> s)"
| "rounds Round_Zero p Q x r \<longleftrightarrow>
     r \<in> fp_values p Q \<and> 0 \<le> r * x \<and> \<bar>r\<bar> \<le> \<bar>x\<bar> \<and> (\<forall>s \<in> fp_values p Q. \<bar>s\<bar> \<le> \<bar>x\<bar> \<longrightarrow> \<bar>s\<bar> \<le> \<bar>r\<bar>)"

fun mirror :: "Round \<Rightarrow> Round" where
  "mirror Round_Up = Round_Down"
| "mirror Round_Down = Round_Up"
| "mirror d = d"

lemma fp_values_uminus [simp]: "- r \<in> fp_values p Q \<longleftrightarrow> r \<in> fp_values p Q"
proof -
  have *: "- r \<in> fp_values p Q" if "r \<in> fp_values p Q" for r
  proof -
    obtain m q where "r = of_int m * 2 powi q" "\<bar>m\<bar> < 2 ^ p" "q \<in> Q" using \<open>r \<in> _\<close> by (auto simp: fp_values_def)
    then have "- r = of_int (- m) * 2 powi q \<and> \<bar>- m\<bar> < 2 ^ p \<and> q \<in> Q" by simp
    then show ?thesis unfolding fp_values_def by blast
  qed
  show ?thesis using * [of r] * [of "- r"] by auto
qed

lemma fp_even_uminus: "fp_even p Q r \<Longrightarrow> fp_even p Q (- r)"
  unfolding fp_even_def by (metis abs_minus_cancel even_minus mult_minus_left of_int_minus)

lemma ball_uminus_values: "(\<forall>s \<in> fp_values p Q. P s) \<longleftrightarrow> (\<forall>s \<in> fp_values p Q. P (- s))"
  by (metis fp_values_uminus minus_minus)

lemma rounds_uminus:
  assumes "rounds (mirror d) p Q x r" shows "rounds d p Q (- x) (- r)"
proof (cases d)
  case Round_Nearest
  have "fp_even p Q (- r)" if "s \<in> fp_values p Q" "s \<noteq> - r" "\<bar>- x - s\<bar> = \<bar>- x - - r\<bar>" for s
  proof -
    have "- s \<in> fp_values p Q" "- s \<noteq> r" "\<bar>x - - s\<bar> = \<bar>x - r\<bar>" using that by auto
    then have "fp_even p Q r" using assms Round_Nearest by auto
    then show ?thesis by (rule fp_even_uminus)
  qed
  moreover have "\<forall>s \<in> fp_values p Q. \<bar>- x - - r\<bar> \<le> \<bar>- x - s\<bar>"
    using assms Round_Nearest by (subst ball_uminus_values) (simp add: abs_minus_commute)
  ultimately show ?thesis using assms Round_Nearest by auto
next
  case Round_Up
  have "\<forall>s \<in> fp_values p Q. - x \<le> s \<longrightarrow> - r \<le> s"
    using assms Round_Up by (subst ball_uminus_values) simp
  then show ?thesis using assms Round_Up by simp
next
  case Round_Down
  have "\<forall>s \<in> fp_values p Q. s \<le> - x \<longrightarrow> s \<le> - r"
    using assms Round_Down by (subst ball_uminus_values) simp
  then show ?thesis using assms Round_Down by simp
next
  case Round_Zero
  then show ?thesis using assms by simp
qed

section \<open>The grid of the last place\<close>

text \<open>
  The positive number \<open>y\<close> has its last place at exponent \<open>q\<close>: it is below \<open>2^p\<close> units there, and
  reaches half of that unless no smaller exponent is allowed.
\<close>

definition last_place :: "nat \<Rightarrow> int set \<Rightarrow> int \<Rightarrow> real \<Rightarrow> bool" where
  "last_place p Q q y \<longleftrightarrow>
     1 < p \<and> q \<in> Q \<and> (\<forall>i \<in> Q. i + 1 \<in> Q) \<and> 0 < y \<and> y < 2 ^ p * 2 powi q \<and>
     (\<forall>i \<in> Q. i < q \<longrightarrow> 2 ^ (p - 1) * 2 powi q \<le> y)"

text \<open>The two halves of the unit above \<open>k\<close> units.\<close>

definition cut_at :: "real \<Rightarrow> real \<Rightarrow> nat \<Rightarrow> bool \<Rightarrow> bool \<Rightarrow> bool" where
  "cut_at y u k half rest \<longleftrightarrow>
     real k * u \<le> y \<and> y < (real k + 1) * u \<and>
     (half \<longleftrightarrow> (real k + 1 / 2) * u \<le> y) \<and> (rest \<longleftrightarrow> y \<noteq> real k * u \<and> y \<noteq> (real k + 1 / 2) * u)"

lemma last_placeD:
  assumes "last_place p Q q y"
  shows "1 < p" "q \<in> Q" "q + 1 \<in> Q" "0 < y" "y < 2 ^ p * 2 powi q"
    and "\<And>i. i \<in> Q \<Longrightarrow> i < q \<Longrightarrow> 2 ^ (p - 1) * 2 powi q \<le> y"
  using assms unfolding last_place_def by blast+

lemma power_halves: "1 < p \<Longrightarrow> (2::'a::semiring_1) ^ p = 2 ^ (p - 1) * 2"
  by (cases p) (simp_all add: power_commutes)

lemma powi_split: "q \<le> i \<Longrightarrow> (2::real) powi i = 2 ^ nat (i - q) * 2 powi q"
  by (metis diff_add_cancel diff_ge_0_iff_ge power_int_add power_int_nonneg_exp zero_neq_numeral)

lemma small_exponent:
  assumes lp: "last_place p Q q y" and "\<bar>m\<bar> < 2 ^ p" "i \<in> Q" "i < q"
  shows "of_int \<bar>m\<bar> * 2 powi i < (2 ^ (p - 1) * 2 powi q :: real)" and "2 ^ (p - 1) * 2 powi q \<le> y"
proof -
  note p = last_placeD(1) [OF lp]
  have "of_int \<bar>m\<bar> < (2 ^ p :: real)" using assms(2) by (metis of_int_less_numeral_power_cancel_iff)
  then have "of_int \<bar>m\<bar> * 2 powi i < (2 ^ p * 2 powi i :: real)" by simp
  also have "\<dots> \<le> 2 ^ p * 2 powi (q - 1)" using assms(4) by (intro mult_left_mono power_int_increasing) auto
  also have "\<dots> = 2 ^ (p - 1) * 2 powi q"
    using power_halves [OF p, where 'a = real] by (simp add: power_int_diff)
  finally show "of_int \<bar>m\<bar> * 2 powi i < (2 ^ (p - 1) * 2 powi q :: real)" .
  show "2 ^ (p - 1) * 2 powi q \<le> y" using last_placeD(6) [OF lp assms(3,4)] .
qed

lemma value_on_grid:
  assumes lp: "last_place p Q q y" and s: "s \<in> fp_values p Q" and big: "2 ^ (p - 1) * 2 powi q \<le> \<bar>s\<bar>"
  shows "\<exists>j. s = of_int j * 2 powi q"
proof -
  obtain m i where mi: "s = of_int m * 2 powi i" "\<bar>m\<bar> < 2 ^ p" "i \<in> Q" using s by (auto simp: fp_values_def)
  have "\<not> i < q" using small_exponent(1) [OF lp mi(2,3)] big mi(1) by (auto simp: abs_mult)
  then have "s = of_int (m * 2 ^ nat (i - q)) * 2 powi q" using mi powi_split [of q i] by simp
  then show ?thesis by blast
qed

lemma grid_neighbours:
  assumes lp: "last_place p Q q y" and k: "real k * 2 powi q \<le> y" "y < (real k + 1) * 2 powi q"
    and s: "s \<in> fp_values p Q"
  shows "s \<le> real k * 2 powi q \<or> (real k + 1) * 2 powi q \<le> s"
proof -
  obtain m i where mi: "s = of_int m * 2 powi i" "\<bar>m\<bar> < 2 ^ p" "i \<in> Q" using s by (auto simp: fp_values_def)
  let ?u = "2 powi q :: real"
  have u: "0 < ?u" by simp
  show ?thesis
  proof (cases "i < q")
    case True
    note b = small_exponent [OF lp mi(2,3) True]
    have "2 ^ (p - 1) * ?u < (real k + 1) * ?u" using b(2) k(2) by linarith
    then have "(2 ^ (p - 1) :: real) < real (k + 1)" using u by simp
    then have "(2 ^ (p - 1) :: real) \<le> real k"
      by (metis Suc_eq_plus1 less_Suc_eq_le numeral_power_less_of_nat_cancel_iff numeral_power_le_of_nat_cancel_iff)
    then have "2 ^ (p - 1) * ?u \<le> real k * ?u" by simp
    moreover have "s \<le> \<bar>of_int m * 2 powi i\<bar>" using mi(1) by simp
    moreover have "\<bar>of_int m * 2 powi i\<bar> = of_int \<bar>m\<bar> * (2 powi i :: real)" by (simp add: abs_mult)
    ultimately have "s \<le> real k * ?u" using b(1) by linarith
    then show ?thesis ..
  next
    case False
    define j where "j = m * 2 ^ nat (i - q)"
    have sj: "s = of_int j * ?u" using mi(1) False powi_split [of q i] by (simp add: j_def)
    show ?thesis
    proof (cases "j \<le> int k")
      case True
      then have "of_int j \<le> real k" by linarith
      then show ?thesis using sj u by simp
    next
      case False
      then have "real k + 1 \<le> of_int j" by linarith
      then show ?thesis using sj u by simp
    qed
  qed
qed

lemma grid_value:
  assumes lp: "last_place p Q q y" and k: "k \<le> 2 ^ p"
  shows "real k * 2 powi q \<in> fp_values p Q" and "even k \<Longrightarrow> fp_even p Q (real k * 2 powi q)"
proof -
  note q = last_placeD(2,3) [OF lp] and p = last_placeD(1) [OF lp]
  show "real k * 2 powi q \<in> fp_values p Q"
  proof (cases "k = 2 ^ p")
    case True
    have "real k * 2 powi q = of_int (2 ^ (p - 1)) * 2 powi (q + 1)"
      using True power_halves [OF p, where 'a = real] by (simp add: power_int_add)
    then show ?thesis using q p unfolding fp_values_def by (intro CollectI exI [of _ "2 ^ (p - 1)"] exI [of _ "q + 1"]) simp
  next
    case False
    then have "\<bar>int k\<bar> < 2 ^ p" using k by (simp add: of_nat_less_numeral_power_cancel_iff)
    then show ?thesis using q unfolding fp_values_def by (intro CollectI exI [of _ "int k"] exI [of _ q]) simp
  qed
  assume ev: "even k"
  show "fp_even p Q (real k * 2 powi q)"
  proof (cases "k = 2 ^ p")
    case True
    have "real k * 2 powi q = of_int (2 ^ (p - 1)) * 2 powi (q + 1)"
      using True power_halves [OF p, where 'a = real] by (simp add: power_int_add)
    then show ?thesis using q p unfolding fp_even_def by (intro exI [of _ "2 ^ (p - 1)"] exI [of _ "q + 1"]) simp
  next
    case False
    then have "\<bar>int k\<bar> < 2 ^ p" using k by (simp add: of_nat_less_numeral_power_cancel_iff)
    then show ?thesis using q ev unfolding fp_even_def by (intro exI [of _ "int k"] exI [of _ q]) simp
  qed
qed

lemma kept_bound:
  assumes "last_place p Q q y" "cut_at y (2 powi q) k half rest" shows "k < 2 ^ p"
proof -
  have "real k * 2 powi q < 2 ^ p * 2 powi q"
    using last_placeD(5) [OF assms(1)] assms(2) unfolding cut_at_def by linarith
  then have "real k < 2 ^ p" by simp
  then show ?thesis by simp
qed

text \<open>Whether a magnitude is rounded away from zero.\<close>

definition away :: "Round \<Rightarrow> nat \<Rightarrow> bool \<Rightarrow> bool \<Rightarrow> bool" where
  "away d k half rest =
     (case d of Round_Nearest \<Rightarrow> half \<and> (rest \<or> odd k) | Round_Up \<Rightarrow> half \<or> rest | _ \<Rightarrow> False)"

text \<open>The core of every rounding: from the last place of a positive number to its rounded value.\<close>

theorem rounds_magnitude:
  assumes lp: "last_place p Q q y" and c: "cut_at y (2 powi q) k half rest"
  shows "rounds d p Q y (real (k + of_bool (away d k half rest)) * 2 powi q)"
proof -
  let ?u = "2 powi q :: real" and ?V = "fp_values p Q"
  define lo hi where "lo = real k * ?u" and "hi = (real k + 1) * ?u"
  have u: "0 < ?u" by simp
  have k: "k < 2 ^ p" using kept_bound [OF lp c] .
  have y: "lo \<le> y" "y < hi" and h: "half \<longleftrightarrow> (lo + hi) / 2 \<le> y" and r: "rest \<longleftrightarrow> y \<noteq> lo \<and> y \<noteq> (lo + hi) / 2"
    using c by (auto simp: cut_at_def lo_def hi_def algebra_simps)
  have lohi: "lo < hi" "0 \<le> lo" using u by (auto simp: lo_def hi_def)
  have in_lo: "lo \<in> ?V" and ev_lo: "even k \<Longrightarrow> fp_even p Q lo"
    using grid_value [OF lp, of k] k by (auto simp: lo_def)
  have in_hi: "hi \<in> ?V" and ev_hi: "odd k \<Longrightarrow> fp_even p Q hi"
    using grid_value [OF lp, of "Suc k"] k by (auto simp: hi_def algebra_simps)
  have nb: "s \<le> lo \<or> hi \<le> s" if "s \<in> ?V" for s
    using grid_neighbours [OF lp _ _ that, of k] y by (simp add: lo_def hi_def)
  have val: "real (k + of_bool (away d k half rest)) * ?u = (if away d k half rest then hi else lo)"
    by (simp add: lo_def hi_def algebra_simps)
  have exact: "\<not> half \<and> \<not> rest \<longleftrightarrow> y = lo" using h r lohi by (auto simp: field_simps)
  show ?thesis
  proof (cases d)
    case Round_Nearest
    have dist: "min (y - lo) (hi - y) \<le> \<bar>y - s\<bar>" if "s \<in> ?V" for s using nb [OF that] y by auto
    have tie: "\<bar>y - s\<bar> = y - lo \<Longrightarrow> s \<noteq> lo \<Longrightarrow> y - lo \<le> hi - y \<Longrightarrow> y - lo = hi - y"
       "\<bar>y - s\<bar> = hi - y \<Longrightarrow> s \<noteq> hi \<Longrightarrow> hi - y \<le> y - lo \<Longrightarrow> y - lo = hi - y" if "s \<in> ?V" for s
      using nb [OF that] y by auto
    show ?thesis
    proof (cases "away d k half rest")
      case True
      then have near: "hi - y \<le> y - lo" and eq: "y - lo = hi - y \<Longrightarrow> odd k"
        using h r lohi Round_Nearest by (auto simp: away_def field_simps)
      have a: "\<bar>y - hi\<bar> = hi - y" using y by simp
      have "fp_even p Q hi" if "s \<in> ?V" "s \<noteq> hi" "\<bar>y - s\<bar> = \<bar>y - hi\<bar>" for s
        using tie(2) [OF that(1)] that near eq ev_hi a by auto
      moreover have "\<bar>y - hi\<bar> \<le> \<bar>y - s\<bar>" if "s \<in> ?V" for s using dist [OF that] near a by linarith
      ultimately show ?thesis unfolding val using True Round_Nearest in_hi by auto
    next
      case False
      then have near: "y - lo \<le> hi - y" and eq: "y - lo = hi - y \<Longrightarrow> even k"
        using h r lohi Round_Nearest by (auto simp: away_def field_simps)
      have a: "\<bar>y - lo\<bar> = y - lo" using y by simp
      have "fp_even p Q lo" if "s \<in> ?V" "s \<noteq> lo" "\<bar>y - s\<bar> = \<bar>y - lo\<bar>" for s
        using tie(1) [OF that(1)] that near eq ev_lo a by auto
      moreover have "\<bar>y - lo\<bar> \<le> \<bar>y - s\<bar>" if "s \<in> ?V" for s using dist [OF that] near a by linarith
      ultimately show ?thesis unfolding val using False Round_Nearest in_lo by auto
    qed
  next
    case Round_Up
    have "lo \<le> s" if "s \<in> ?V" "y \<le> s" for s using y that by linarith
    moreover have "hi \<le> s" if "s \<in> ?V" "y \<le> s" "y \<noteq> lo" for s using nb [OF that(1)] y that by linarith
    ultimately show ?thesis
      unfolding val using Round_Up exact in_lo in_hi y by (auto simp: away_def)
  next
    case Round_Down
    have "s \<le> lo" if "s \<in> ?V" "s \<le> y" for s using nb [OF that(1)] y that by linarith
    then show ?thesis unfolding val using Round_Down in_lo y by (auto simp: away_def)
  next
    case Round_Zero
    have "\<bar>s\<bar> \<le> lo" if "s \<in> ?V" "\<bar>s\<bar> \<le> y" for s
      using nb [of "\<bar>s\<bar>"] that y fp_values_uminus [of s p Q] by (cases "0 \<le> s") (auto simp: abs_if)
    then show ?thesis unfolding val using Round_Zero in_lo y lohi by (auto simp: away_def)
  qed
qed

section \<open>There is one correct result\<close>

lemma grid_even:
  assumes lp: "last_place p Q q y" and small: "\<And>i. i \<in> Q \<Longrightarrow> i < q \<Longrightarrow> 2 ^ (p - 1) \<le> k"
    and ev: "fp_even p Q (real k * 2 powi q)"
  shows "even k"
proof -
  obtain m i where m: "even m" "\<bar>m\<bar> < 2 ^ p" "i \<in> Q" and e: "real k * 2 powi q = of_int m * 2 powi i"
    using ev by (auto simp: fp_even_def)
  have p: "(2 :: int) ^ p = 2 ^ (p - 1) * 2" using power_halves [OF last_placeD(1) [OF lp]] .
  show ?thesis
  proof (cases "i < q")
    case True
    have "real k * (2 ^ nat (q - i) * 2 powi i) = of_int m * 2 powi i" using e powi_split [of i q] True by simp
    then have "real k * 2 ^ nat (q - i) = of_int m" by simp
    then have "of_int (int k * 2 ^ nat (q - i)) = (of_int m :: real)" by simp
    then have mk: "m = int k * 2 ^ nat (q - i)" by (simp only: of_int_eq_iff)
    have "2 ^ (p - 1) \<le> int k" using small [OF m(3) True] by (metis of_nat_le_iff of_nat_numeral of_nat_power)
    moreover have "(2 :: int) \<le> 2 ^ nat (q - i)" using True by (simp add: self_le_power)
    ultimately have "2 ^ (p - 1) * 2 \<le> m" unfolding mk by (intro mult_mono) auto
    then show ?thesis using m(2) p by linarith
  next
    case False
    then have "real k * 2 powi q = of_int m * (2 ^ nat (i - q) * 2 powi q)" using e powi_split [of q i] by simp
    then have "real k = of_int m * 2 ^ nat (i - q)" by simp
    then have "of_int (int k) = (of_int (m * 2 ^ nat (i - q)) :: real)" by simp
    then have "int k = m * 2 ^ nat (i - q)" by (simp only: of_int_eq_iff)
    then show ?thesis using m(1) by (metis even_mult_iff even_of_nat)
  qed
qed

lemma nearest_unique:
  assumes lp: "last_place p Q q y" and r: "rounds Round_Nearest p Q y r" and s: "rounds Round_Nearest p Q y s"
  shows "r = s"
proof (rule ccontr)
  assume ne: "r \<noteq> s"
  let ?u = "2 powi q :: real"
  define k where "k = nat \<lfloor>y / ?u\<rfloor>"
  have yu: "0 < y / ?u" using last_placeD(4) [OF lp] by simp
  then have k: "real k \<le> y / ?u" "y / ?u < real k + 1" unfolding k_def by linarith+
  then have b: "real k * ?u \<le> y" "y < (real k + 1) * ?u" by (simp_all add: field_simps)
  have small: "2 ^ (p - 1) \<le> k" if "i \<in> Q" "i < q" for i
  proof -
    have "2 ^ (p - 1) \<le> y / ?u" using last_placeD(6) [OF lp that] by (simp add: field_simps)
    then have "(2 :: real) ^ (p - 1) < real (Suc k)" using k(2) by linarith
    then show ?thesis by (metis less_Suc_eq_le numeral_power_less_of_nat_cancel_iff)
  qed
  have "y / ?u < 2 ^ p" using last_placeD(5) [OF lp] by (simp add: field_simps)
  then have "real k < 2 ^ p" using k(1) by linarith
  then have kp: "k < 2 ^ p" by simp
  have lo: "real k * ?u \<in> fp_values p Q" using grid_value(1) [OF lp, of k] kp by simp
  have hi: "(real k + 1) * ?u \<in> fp_values p Q" using grid_value(1) [OF lp, of "Suc k"] kp by (simp add: add.commute)
  have end_pt: "z = real k * ?u \<or> z = (real k + 1) * ?u" if z: "rounds Round_Nearest p Q y z" for z
  proof -
    have "z \<in> fp_values p Q" "\<bar>y - z\<bar> \<le> \<bar>y - real k * ?u\<bar>" "\<bar>y - z\<bar> \<le> \<bar>y - (real k + 1) * ?u\<bar>" using z lo hi by auto
    then show ?thesis using grid_neighbours [OF lp b, of z] b by linarith
  qed
  have "\<bar>y - r\<bar> = \<bar>y - s\<bar>" using r s by (simp add: order_antisym)
  then have "fp_even p Q r" "fp_even p Q s" using r s ne by auto
  then have "fp_even p Q (real k * ?u)" "fp_even p Q (real (Suc k) * ?u)"
    using end_pt [OF r] end_pt [OF s] ne by (auto simp: add.commute)
  then have "even k" "even (Suc k)" using grid_even [OF lp] small by (blast intro: le_SucI)+
  then show False by simp
qed

theorem rounds_unique:
  assumes lp: "last_place p Q q \<bar>x\<bar>" and r: "rounds d p Q x r" and s: "rounds d p Q x s"
  shows "r = s"
proof (cases d)
  case Round_Nearest
  show ?thesis
  proof (cases "0 \<le> x")
    case True
    then have "last_place p Q q x" using lp by simp
    then show ?thesis by (rule nearest_unique) (use r s Round_Nearest in blast)+
  next
    case False
    have "rounds Round_Nearest p Q (- x) (- r)" "rounds Round_Nearest p Q (- x) (- s)"
      using rounds_uminus [of Round_Nearest p Q x r] rounds_uminus [of Round_Nearest p Q x s] r s Round_Nearest
      unfolding mirror.simps by blast+
    moreover have "last_place p Q q (- x)" using lp False by simp
    ultimately have "- r = - s" by (intro nearest_unique)
    then show ?thesis by simp
  qed
next
  case Round_Zero
  then have "\<bar>r\<bar> = \<bar>s\<bar>" "0 \<le> r * x" "0 \<le> s * x" using r s by (auto simp: order_antisym)
  moreover have "x \<noteq> 0" using last_placeD(4) [OF lp] by auto
  ultimately show ?thesis by (auto simp: abs_eq_iff zero_le_mult_iff)
qed (use r s in \<open>auto intro: order_antisym\<close>)

end
