(* ===== verification/Fenv_Bits.thy ===== *)
theory Fenv_Bits
  imports Fp_Spec
begin

text \<open>
  The bit-level half of the floating-point environment: the real value of a pattern, the top bit of
  a significand, the cut that \<open>shift_round\<close> makes and the pattern that \<open>fp_pack\<close> builds, each related
  to the numbers of \<open>Fp_Spec\<close>.
\<close>

section \<open>The value of a bit pattern\<close>

definition exp_nat :: "u64 \<Rightarrow> nat" where "exp_nat b = unat b div 2 ^ 52 mod 2 ^ 11"
definition mant_nat :: "u64 \<Rightarrow> nat" where "mant_nat b = unat b mod 2 ^ 52"

lemma unat_and_low: "unat ((x :: 'a::len word) AND (push_bit k 1 - 1)) = unat x mod 2 ^ k"
proof -
  have "x AND (push_bit k 1 - 1) = take_bit k x" by (simp add: take_bit_eq_mask mask_eq_exp_minus_1)
  then have "unat (x AND (push_bit k 1 - 1)) = take_bit k (unat x)" by (simp only: unsigned_take_bit_eq)
  then show ?thesis by (simp only: take_bit_nat_def)
qed

lemma unat_push_bit_small:
  assumes "unat (a :: 'a::len word) * 2 ^ k < 2 ^ LENGTH('a)"
  shows "unat (push_bit k a) = unat a * 2 ^ k"
proof -
  have "unat (push_bit k a) = take_bit LENGTH('a) (push_bit k (unat a))" by (rule unsigned_push_bit_eq)
  also have "\<dots> = unat a * 2 ^ k"
    using assms unfolding push_bit_nat_def by (rule take_bit_nat_eq_self)
  finally show ?thesis .
qed

lemma word_of_unat: "unat (x :: 'a::len word) = n \<Longrightarrow> x = of_nat n"
  by auto

lemma unat_or_disjoint:
  assumes "unat (m :: 'a::len word) < 2 ^ k" and "k \<le> LENGTH('a)" and "unat a * 2 ^ k < 2 ^ LENGTH('a)"
  shows "unat (push_bit k a OR m) = unat a * 2 ^ k + unat m"
proof -
  have m: "i < k" if "bit m i" for i
    using bit_less_of_uint [of m k i] that assms(1) by (metis of_nat_less_iff of_nat_numeral of_nat_power uint_nat)
  have "push_bit k a OR m = push_bit k a + m"
    using m by (intro disjunctive_add_eq_or [symmetric] bit_word_eqI) (force simp: bit_simps)
  moreover note unat_push_bit_small [OF assms(3)]
  moreover have "unat a * 2 ^ k + unat m < 2 ^ LENGTH('a)"
  proof -
    have e: "(2::nat) ^ LENGTH('a) = 2 ^ (LENGTH('a) - k) * 2 ^ k" using assms(2) by (simp add: power_add [symmetric])
    have "unat a < 2 ^ (LENGTH('a) - k)" using assms(3) unfolding e by simp
    then have "(unat a + 1) * 2 ^ k \<le> 2 ^ LENGTH('a)" unfolding e by (intro mult_right_mono) simp_all
    then show ?thesis using assms(1) by (simp add: algebra_simps)
  qed
  ultimately show ?thesis by (metis unat_add_lem)
qed

lemma fp_class_nat:
  "fp_class b =
     (if exp_nat b = 0 then (if mant_nat b = 0 then Class_Zero else Class_Finite (of_nat (mant_nat b)) (-1074))
      else if exp_nat b = 2047 then (if mant_nat b = 0 then Class_Inf else Class_Nan)
      else Class_Finite (of_nat (2 ^ 52 + mant_nat b)) (int (exp_nat b) - 1075))"
proof -
  let ?m = "b AND (push_bit 52 1 - 1)"
  have u: "unat (drop_bit 52 b AND 0x7ff) = exp_nat b"
    using unat_and_low [of "drop_bit 52 b" 11] by (simp add: unat_drop_bit exp_nat_def)
  then have e: "uint (drop_bit 52 b AND 0x7ff) = int (exp_nat b)" by (metis uint_nat)
  have m: "unat ?m = mant_nat b" by (simp only: unat_and_low mant_nat_def)
  have m0: "?m = 0 \<longleftrightarrow> mant_nat b = 0" unfolding m [symmetric] by (simp add: unat_eq_zero)
  have mw: "?m = of_nat (mant_nat b)" unfolding m [symmetric] by simp
  have lt: "mant_nat b < 2 ^ 52" by (simp add: mant_nat_def)
  have or1: "?m OR push_bit 52 1 = of_nat (2 ^ 52 + mant_nat b)"
  proof -
    have "unat (push_bit 52 1 OR ?m) = unat (1 :: u64) * 2 ^ 52 + unat ?m"
      using lt m by (intro unat_or_disjoint) simp_all
    then have "unat (?m OR push_bit 52 1) = 2 ^ 52 + mant_nat b" unfolding m by (simp add: or.commute)
    then show ?thesis by (rule word_of_unat)
  qed
  show ?thesis unfolding fp_class_def Let_def e m0 or1 unfolding mw by auto
qed

text \<open>The real number of a finite pattern.\<close>

definition fp_finite :: "u64 \<Rightarrow> bool" where
  "fp_finite b \<longleftrightarrow> exp_nat b \<noteq> 2047"

definition signed_real :: "bool \<Rightarrow> real \<Rightarrow> real" where
  "signed_real neg y = (if neg then - y else y)"

definition fval :: "u64 \<Rightarrow> real" where
  "fval b = signed_real (negative b)
     (case fp_class b of Class_Finite s e \<Rightarrow> real (unat s) * 2 powi e | _ \<Rightarrow> 0)"

lemma class_finite: "fp_finite b \<longleftrightarrow> fp_class b \<noteq> Class_Inf \<and> fp_class b \<noteq> Class_Nan"
  by (auto simp: fp_finite_def fp_class_nat)

lemma abs_signed_real [simp]: "\<bar>signed_real neg y\<bar> = \<bar>y\<bar>"
  by (simp add: signed_real_def)

lemma signed_real_eq [simp]: "signed_real neg x = signed_real neg y \<longleftrightarrow> x = y" "signed_real neg y = 0 \<longleftrightarrow> y = 0"
  by (simp_all add: signed_real_def)

lemma and_sign_iff: "b AND SIGN \<noteq> 0 \<longleftrightarrow> bit (b :: u64) 63"
proof -
  have "b AND 0x8000000000000000 = 0 \<longleftrightarrow> \<not> bit b 63"
    using and_exp_eq_0_iff_not_bit [of b 63] by simp
  then show ?thesis by blast
qed

lemma bit_63: "bit (b :: u64) 63 \<longleftrightarrow> 2 ^ 63 \<le> unat b"
proof -
  have "bit b 63 \<longleftrightarrow> bit (unat b) 63" by (simp add: bit_unsigned_iff)
  also have "\<dots> \<longleftrightarrow> odd (unat b div 2 ^ 63)" by (rule bit_iff_odd)
  also have "\<dots> \<longleftrightarrow> 2 ^ 63 \<le> unat b"
  proof -
    have "unat b div 2 ^ 63 < 2" using unat_lt_64 [of b] by (intro div_less_iff_less_mult [THEN iffD2]) simp_all
    moreover have "unat b div 2 ^ 63 = 0 \<longleftrightarrow> unat b < 2 ^ 63" by (simp add: div_eq_0_iff)
    ultimately show ?thesis by (auto simp: less_2_cases_iff)
  qed
  finally show ?thesis .
qed

lemma unat_with_sign:
  assumes "unat m < 2 ^ 63"
  shows "unat (with_sign neg m) = (if neg then 2 ^ 63 else 0) + unat m"
proof -
  have "unat (push_bit 63 (1 :: u64) OR m) = unat (1 :: u64) * 2 ^ 63 + unat m"
    using assms by (intro unat_or_disjoint) simp_all
  then show ?thesis by (simp add: with_sign_def or.commute)
qed

lemma negative_with_sign: "unat m < 2 ^ 63 \<Longrightarrow> negative (with_sign neg m) = neg"
  by (simp add: negative_def and_sign_iff bit_63 unat_with_sign)

lemma fields_with_sign:
  assumes "unat m < 2 ^ 63"
  shows "exp_nat (with_sign neg m) = unat m div 2 ^ 52" "mant_nat (with_sign neg m) = unat m mod 2 ^ 52"
proof -
  have e: "((2::nat) ^ 63 + unat m) div 2 ^ 52 = 2 ^ 11 + unat m div 2 ^ 52"
    using div_mult_self3 [of "2 ^ 52 :: nat" "2 ^ 11" "unat m"] by simp
  have m: "((2::nat) ^ 63 + unat m) mod 2 ^ 52 = unat m mod 2 ^ 52"
    using mod_mult_self3 [of "2 ^ 11" "2 ^ 52 :: nat" "unat m"] by simp
  have lt: "unat m div 2 ^ 52 < 2 ^ 11" using assms by (intro div_less_iff_less_mult [THEN iffD2]) simp_all
  have "exp_nat (with_sign neg m) = (if neg then 2 ^ 11 + unat m div 2 ^ 52 else unat m div 2 ^ 52) mod 2 ^ 11"
    using e by (simp add: exp_nat_def unat_with_sign [OF assms])
  also have "\<dots> = unat m div 2 ^ 52" using lt by auto
  finally show "exp_nat (with_sign neg m) = unat m div 2 ^ 52" .
  show "mant_nat (with_sign neg m) = unat m mod 2 ^ 52"
    using m by (simp add: mant_nat_def unat_with_sign [OF assms])
qed

text \<open>A pattern from its fields.\<close>

lemma fval_fields:
  assumes m: "unat m = e * 2 ^ 52 + k" "k < 2 ^ 52" "e < 2047"
  shows "fp_finite (with_sign neg m)" "negative (with_sign neg m) = neg"
    "fval (with_sign neg m) =
       signed_real neg (if e = 0 then real k * 2 powi (-1074) else (2 ^ 52 + real k) * 2 powi (int e - 1075))"
proof -
  have lt: "unat m < 2 ^ 63"
  proof -
    have "e * 2 ^ 52 \<le> 2046 * 2 ^ 52" using m(3) by simp
    then show ?thesis using m(1,2) by simp
  qed
  have d: "unat m div 2 ^ 52 = e" "unat m mod 2 ^ 52 = k" using m by simp_all
  show "fp_finite (with_sign neg m)" using m(3) d by (simp add: fp_finite_def fields_with_sign [OF lt])
  show n: "negative (with_sign neg m) = neg" by (rule negative_with_sign [OF lt])
  have u: "unat (of_nat k :: u64) = k" "unat (of_nat (2 ^ 52 + k) :: u64) = 2 ^ 52 + k"
    using m(2) by (intro unat_of_nat_small; simp)+
  show "fval (with_sign neg m) =
       signed_real neg (if e = 0 then real k * 2 powi (-1074) else (2 ^ 52 + real k) * 2 powi (int e - 1075))"
    unfolding fval_def n fp_class_nat fields_with_sign [OF lt] d
    using m(3) u by (simp del: of_nat_add of_nat_power)
qed

section \<open>The top bit, and the cut of a significand\<close>

lemma lead_bounds:
  fixes x :: "'a::len word"
  assumes "x \<noteq> 0"
  defines "n \<equiv> LENGTH('a) - 1 - leading_zeros x"
  shows "leading_zeros x < LENGTH('a)" "2 ^ n \<le> unat x" "unat x < 2 ^ Suc n"
proof -
  show lz: "leading_zeros x < LENGTH('a)" using leading_zeros_spec(1) [OF assms(1)] .
  have "drop_bit n x \<noteq> 0" using bit_nonzero(2) leading_zeros_spec(2) [OF assms(1)] by (auto simp: n_def)
  then have "unat x div 2 ^ n \<noteq> 0" by (metis unat_drop_bit unat_eq_zero)
  then show "2 ^ n \<le> unat x" by (simp add: div_eq_0_iff)
  have "drop_bit (Suc n) x = 0"
    using leading_zeros_spec(3) [OF assms(1)] by (intro bit_word_eqI) (auto simp: bit_simps n_def)
  then have "unat x div 2 ^ Suc n = 0" by (metis unat_drop_bit unsigned_0)
  then show "unat x < 2 ^ Suc n" by (simp add: div_eq_0_iff)
qed

definition lead :: "u128 \<Rightarrow> nat" where "lead x = 127 - leading_zeros x"

lemma lead_eq: "x \<noteq> 0 \<Longrightarrow> 127 - int (leading_zeros x) = int (lead x)"
  using lead_bounds(1) [of x] by (simp add: lead_def)

lemma lead_range: "x \<noteq> 0 \<Longrightarrow> 2 ^ lead x \<le> unat x" "x \<noteq> 0 \<Longrightarrow> unat x < 2 ^ Suc (lead x)"
  using lead_bounds(2,3) [of x] by (simp_all add: lead_def)

lemma lead_lt: "x \<noteq> 0 \<Longrightarrow> unat x < 2 ^ n \<Longrightarrow> lead x < n"
  using lead_range(1) [of x] by (metis le_less_trans nat_power_less_imp_less numeral_eq_one_iff pos2 power_strict_increasing_iff
      one_less_numeral_iff semiring_norm(76))

lemma lead_ge: "2 ^ n \<le> unat x \<Longrightarrow> n \<le> lead x"
proof -
  assume a: "2 ^ n \<le> unat x"
  then have "x \<noteq> 0" by (auto simp: unat_eq_zero)
  then have "(2::nat) ^ n < 2 ^ Suc (lead x)" using a lead_range(2) [of x] by linarith
  then show ?thesis by (simp add: less_Suc_eq_le del: power_Suc)
qed

lemma top_bit_lead: "x \<noteq> 0 \<Longrightarrow> top_bit (neg, x, e) = e + int (lead x)"
  using lead_eq [of x] by (simp add: top_bit_def)

lemma and_one_odd: "(x :: 'a::len word) AND 1 \<noteq> 0 \<longleftrightarrow> odd (unat x)"
proof -
  have "x AND 1 \<noteq> 0 \<longleftrightarrow> bit x 0" by (simp add: and_one_eq odd_iff_mod_2_eq_one bit_0)
  also have "\<dots> \<longleftrightarrow> bit (unat x) 0" by (simp add: bit_unsigned_iff)
  finally show ?thesis by (simp only: bit_0)
qed

text \<open>The part below the cut, in numbers.\<close>

lemma shift_round_down:
  assumes "shift_round sig sh sticky = (kept, half, rest)" and "1 \<le> sh"
  defines "n \<equiv> nat sh"
  shows "unat kept = unat sig div 2 ^ n" "half \<longleftrightarrow> odd (unat sig div 2 ^ (n - 1))"
    "rest \<longleftrightarrow> unat sig mod 2 ^ (n - 1) \<noteq> 0 \<or> sticky"
proof -
  have n: "1 \<le> n" using assms(2) by (simp add: n_def)
  have sig: "unat sig < 2 ^ 128" using unsigned_less [where 'a = nat, of sig] by simp
  have "unat kept = unat sig div 2 ^ n \<and> (half \<longleftrightarrow> odd (unat sig div 2 ^ (n - 1))) \<and>
    (rest \<longleftrightarrow> unat sig mod 2 ^ (n - 1) \<noteq> 0 \<or> sticky)"
  proof (cases "sh < 128")
    case True
    have k: "kept = drop_bit n sig" "half = (drop_bit (n - 1) sig AND 1 \<noteq> 0)"
      "rest = ((n > 1 \<and> sig AND (push_bit (n - 1) 1 - 1) \<noteq> 0) \<or> sticky)"
      using assms(1,2) True by (auto simp: shift_round_def n_def Let_def)
    have h: "half \<longleftrightarrow> odd (unat sig div 2 ^ (n - 1))"
      using k(2) by (simp only: and_one_odd unat_drop_bit)
    have "sig AND (push_bit (n - 1) 1 - 1) = 0 \<longleftrightarrow> unat sig mod 2 ^ (n - 1) = 0"
      by (metis unat_and_low unat_eq_zero)
    then show ?thesis using k n h by (cases "n = 1") (auto simp: unat_drop_bit)
  next
    case False
    have n128: "128 \<le> n" using False by (simp add: n_def)
    have z: "unat sig div 2 ^ n = 0"
      using sig power_increasing [OF n128, of "2::nat"] by (simp add: div_eq_0_iff)
    show ?thesis
    proof (cases "n = 128")
      case True
      then have "sh = 128" by (simp add: n_def)
      then have k: "kept = 0" "half = (drop_bit 127 sig \<noteq> 0)" "rest = (push_bit 1 sig \<noteq> 0 \<or> sticky)"
        using assms(1) by (auto simp: shift_round_def)
      have d: "unat sig div 2 ^ 127 < 2" using sig by (intro div_less_iff_less_mult [THEN iffD2]) simp_all
      have "drop_bit 127 sig \<noteq> 0 \<longleftrightarrow> unat sig div 2 ^ 127 \<noteq> 0" by (metis unat_drop_bit unat_eq_zero)
      then have h: "half \<longleftrightarrow> odd (unat sig div 2 ^ 127)" using d k(2) by (auto simp: less_2_cases_iff)
      have "unat (push_bit 1 sig) = unat sig * 2 mod (2 ^ 127 * 2)"
        by (simp add: unsigned_push_bit_eq push_bit_nat_def take_bit_nat_def del: push_bit_Suc push_bit_of_1)
      also have "\<dots> = unat sig mod 2 ^ 127 * 2" by (rule mod_mult_mult2)
      finally have "push_bit 1 sig = 0 \<longleftrightarrow> unat sig mod 2 ^ 127 = 0" by (metis mult_eq_0_iff unat_eq_zero zero_neq_numeral)
      then show ?thesis using k h True z by auto
    next
      case False
      then have "128 < sh" "127 < n - 1 \<or> n - 1 = 128" using n128 assms(2) by (auto simp: n_def)
      then have k: "kept = 0" "half = False" "rest = (sig \<noteq> 0 \<or> sticky)"
        using assms(1) by (auto simp: shift_round_def)
      have "unat sig < 2 ^ (n - 1)"
        using sig power_increasing [of 128 "n - 1" "2::nat"] False n128 by linarith
      then show ?thesis using k z by (auto simp: unat_eq_zero)
    qed
  qed
  then show "unat kept = unat sig div 2 ^ n" "half \<longleftrightarrow> odd (unat sig div 2 ^ (n - 1))"
    "rest \<longleftrightarrow> unat sig mod 2 ^ (n - 1) \<noteq> 0 \<or> sticky" by simp_all
qed

text \<open>\<open>sig * 2^ex\<close>, plus an amount below \<open>2^ex\<close> when the sticky bit is set.\<close>

definition represents :: "real \<Rightarrow> u128 \<Rightarrow> int \<Rightarrow> bool \<Rightarrow> bool" where
  "represents y sig ex sticky \<longleftrightarrow>
     (if sticky then real (unat sig) * 2 powi ex < y \<and> y < (real (unat sig) + 1) * 2 powi ex
      else y = real (unat sig) * 2 powi ex)"

lemma represents_delta:
  assumes "represents y sig ex sticky"
  obtains d where "y = (real (unat sig) + d) * 2 powi ex" "0 \<le> d" "d < 1" "d \<noteq> 0 \<longleftrightarrow> sticky"
proof
  let ?d = "y / 2 powi ex - real (unat sig)"
  show "y = (real (unat sig) + ?d) * 2 powi ex" by simp
  show "0 \<le> ?d" "?d < 1" "?d \<noteq> 0 \<longleftrightarrow> sticky"
    using assms by (auto simp: represents_def field_simps split: if_splits)
qed

lemma split_half:
  fixes s n :: nat
  assumes "0 < n"
  obtains k h m where "s = 2 * k * n + h * n + m" "k = s div (2 * n)" "h < 2" "m < n"
    "odd (s div n) \<longleftrightarrow> h = 1" "m = s mod n"
proof
  define k h m where "k = s div (2 * n)" and "h = s div n mod 2" and "m = s mod n"
  have "s div n = 2 * k + h" unfolding k_def h_def by (metis div_mult2_eq mult.commute mult_div_mod_eq)
  then show "s = 2 * k * n + h * n + m" unfolding m_def by (metis add_mult_distrib div_mult_mod_eq)
  show "k = s div (2 * n)" "h < 2" "m < n" "m = s mod n" using assms by (simp_all add: k_def h_def m_def)
  show "odd (s div n) \<longleftrightarrow> h = 1" unfolding h_def by (simp add: odd_iff_mod_2_eq_one)
qed

lemma shift_round_cut:
  assumes sr: "shift_round sig sh sticky = (kept, half, rest)" and y: "represents y sig ex sticky"
    and st: "sticky \<Longrightarrow> 1 \<le> sh" and room: "sh \<le> 0 \<Longrightarrow> unat sig * 2 ^ nat (- sh) < 2 ^ 128"
  shows "cut_at y (2 powi (ex + sh)) (unat kept) half rest"
proof (cases "1 \<le> sh")
  case False
  then have k: "kept = push_bit (nat (- sh)) sig" "\<not> half" "\<not> rest" "\<not> sticky"
    using sr st by (auto simp: shift_round_def)
  have "unat kept = unat sig * 2 ^ nat (- sh)" unfolding k(1) using room False by (intro unat_push_bit_small) simp
  moreover have "(2::real) powi ex = 2 ^ nat (- sh) * 2 powi (ex + sh)" using powi_split [of "ex + sh" ex] False by simp
  ultimately have "y = real (unat kept) * 2 powi (ex + sh)" using y k(4) by (simp add: represents_def)
  then show ?thesis using k(2,3) by (simp add: cut_at_def)
next
  case True
  define n where "n = nat sh - 1"
  have n: "nat sh = Suc n" "nat sh - 1 = n" using True by (simp_all add: n_def)
  note d = shift_round_down [OF sr True, unfolded n(1) diff_Suc_1]
  obtain k h m where s: "unat sig = 2 * k * 2 ^ n + h * 2 ^ n + m" "k = unat sig div (2 * 2 ^ n)" "h < 2" "m < 2 ^ n"
    "odd (unat sig div 2 ^ n) \<longleftrightarrow> h = 1" "m = unat sig mod 2 ^ n" using split_half [of "2 ^ n" "unat sig"] by auto
  obtain e where e: "y = (real (unat sig) + e) * 2 powi ex" "0 \<le> e" "e < 1" "e \<noteq> 0 \<longleftrightarrow> sticky"
    using represents_delta [OF y] .
  define w N A M where "w = (2 powi ex :: real)" and "N = (2 ^ n :: real)" and "A = real (2 * k * 2 ^ n)" and "M = real m"
  have w: "0 < w" by (simp add: w_def)
  have kept: "unat kept = k" using d(1) s(2) by simp
  have half: "half \<longleftrightarrow> h = 1" using d(2) s(5) by blast
  have "rest \<longleftrightarrow> m \<noteq> 0 \<or> sticky" using d(3) s(6) by blast
  then have rest: "rest \<longleftrightarrow> M + e \<noteq> 0" using e(2,4) by (auto simp: M_def)
  have u: "2 powi (ex + sh) = 2 * N * w"
    using powi_split [of ex "ex + sh"] True n by (simp add: w_def N_def)
  have "m + 1 \<le> 2 ^ n" using s(4) by simp
  then have "real (m + 1) \<le> real (2 ^ n)" by (simp only: of_nat_le_iff)
  then have M: "0 \<le> M" "M \<le> N - 1" by (simp_all add: M_def N_def)
  have yw: "y = (A + real h * N + M + e) * w" using e(1) s(1) by (simp add: A_def N_def M_def w_def)
  have kw: "real k * (2 * N * w) = A * w" "(real k + 1) * (2 * N * w) = (A + 2 * N) * w"
      "(real k + 1 / 2) * (2 * N * w) = (A + N) * w"
    by (simp_all add: A_def N_def algebra_simps)
  have h: "h = 0 \<or> h = 1" using s(3) by (simp add: less_2_cases_iff)
  show ?thesis unfolding cut_at_def kept u kw yw half rest using h w M e(2,3) by (elim disjE) simp_all
qed

section \<open>Packing\<close>

lemma unat_ucast_small: "unat (x :: 'a::len word) < 2 ^ LENGTH('b) \<Longrightarrow> unat (ucast x :: 'b::len word) = unat x"
  by (simp add: unsigned_ucast_eq take_bit_nat_eq_self)

lemma pack_normal:
  assumes "kept \<noteq> 0" "unat kept < 2 ^ 53" "-1022 \<le> q + int (lead kept)" "q + int (lead kept) \<le> 1023"
  obtains m E K where "fp_pack neg kept q = with_sign neg m" "unat m = E * 2 ^ 52 + K" "K < 2 ^ 52" "0 < E" "E < 2047"
    "(2 ^ 52 + real K) * 2 powi (int E - 1075) = real (unat kept) * 2 powi q"
proof -
  define L K E where "L = lead kept" and "K = unat kept * 2 ^ (52 - L)" and "E = nat (q + int L + 1023)"
  have L: "L \<le> 52" using lead_lt [OF assms(1,2)] by (simp add: L_def)
  have E: "int E = q + int L + 1023" "0 < E" "E < 2047" using assms(3,4) by (auto simp: E_def L_def)
  have pw: "(2::nat) ^ 52 = 2 ^ L * 2 ^ (52 - L)" "(2::nat) ^ 53 = 2 ^ Suc L * 2 ^ (52 - L)"
    using L by (simp_all only: power_add [symmetric]) simp_all
  have "2 ^ L * 2 ^ (52 - L) \<le> K" using lead_range(1) [OF assms(1)] unfolding K_def L_def by (intro mult_right_mono) simp_all
  then have K1: "2 ^ 52 \<le> K" using pw(1) by simp
  have "K < 2 ^ Suc L * 2 ^ (52 - L)" using lead_range(2) [OF assms(1)] unfolding K_def L_def by (intro mult_strict_right_mono) simp_all
  then have K2: "K < 2 ^ 53" using pw(2) by simp
  define m where "m = (ucast (push_bit (52 - L) kept) AND (push_bit 52 1 - 1) :: u64)"
  have "unat (push_bit (52 - L) kept) = K" unfolding K_def using K2 by (intro unat_push_bit_small) (simp add: K_def)
  then have "unat (ucast (push_bit (52 - L) kept) :: u64) = K" using K2 by (subst unat_ucast_small) simp_all
  then have "unat m = K mod 2 ^ 52" unfolding m_def by (simp only: unat_and_low)
  also have "K mod 2 ^ 52 = K - 2 ^ 52" using K1 K2 by (simp add: le_mod_geq)
  finally have um: "unat m = K - 2 ^ 52" .
  let ?e = "word_of_int (q + int L + 1023) :: u64"
  have "?e = of_nat E" unfolding E(1) [symmetric] by simp
  then have ue: "unat ?e = E" using E(3) by (simp add: unat_of_nat_small)
  show ?thesis
  proof
    show "fp_pack neg kept q = with_sign neg (push_bit 52 ?e OR m)"
    proof -
      have "nat (52 - int L) = 52 - L" by simp
      then show ?thesis unfolding fp_pack_def Let_def lead_eq [OF assms(1)] m_def L_def [symmetric]
        using assms(1,3) by (simp only: if_False if_True L_def)
    qed
    show "unat (push_bit 52 ?e OR m) = E * 2 ^ 52 + (K - 2 ^ 52)"
      unfolding um [symmetric] ue [symmetric] using K2 um ue E(3) by (intro unat_or_disjoint) simp_all
    show "K - 2 ^ 52 < 2 ^ 52" using K1 K2 by simp
    show "0 < E" "E < 2047" using E by simp_all
    have p52: "int E - 1075 = q - int (52 - L)" using E(1) L by simp
    have "2 ^ 52 + real (K - 2 ^ 52) = real K" using K1 by simp
    moreover have "(2::real) powi q = 2 ^ (52 - L) * 2 powi (q - int (52 - L))"
      using powi_split [of "q - int (52 - L)" q] by simp
    ultimately show "(2 ^ 52 + real (K - 2 ^ 52)) * 2 powi (int E - 1075) = real (unat kept) * 2 powi q"
      unfolding p52 by (simp add: K_def)
  qed
qed

lemma pack_subnormal:
  assumes "kept \<noteq> 0" "unat kept < 2 ^ 53" "q + int (lead kept) < -1022" "-1074 \<le> q"
  obtains m K where "fp_pack neg kept q = with_sign neg m" "unat m = K" "K < 2 ^ 52"
    "real K * 2 powi (-1074) = real (unat kept) * 2 powi q"
proof -
  define n where "n = nat (q + 1074)"
  have n: "int n = q + 1074" using assms(4) by (simp add: n_def)
  have "Suc (lead kept) + n \<le> 52" using assms(3) n by linarith
  then have "(2::nat) ^ (Suc (lead kept) + n) \<le> 2 ^ 52" by (rule power_increasing) simp
  moreover have "unat kept * 2 ^ n < 2 ^ Suc (lead kept) * 2 ^ n"
    using lead_range(2) [OF assms(1)] by (intro mult_strict_right_mono) simp_all
  ultimately have K: "unat kept * 2 ^ n < 2 ^ 52" by (simp only: power_add)
  have "unat (push_bit n kept) = unat kept * 2 ^ n" using K by (intro unat_push_bit_small) simp
  then have u: "unat (ucast (push_bit n kept) :: u64) = unat kept * 2 ^ n" using K by (subst unat_ucast_small) simp_all
  have p: "fp_pack neg kept q = with_sign neg (ucast (push_bit n kept))"
    unfolding fp_pack_def Let_def lead_eq [OF assms(1)] n_def using assms(1,3) by simp
  have "(2::real) powi q = 2 ^ n * 2 powi (-1074)" using powi_split [of "-1074" q] assms(4) by (simp add: n_def)
  then show thesis using that [OF p u K] by simp
qed

theorem fp_pack_value:
  assumes "unat kept < 2 ^ 53" "-1074 \<le> q" "kept \<noteq> 0 \<Longrightarrow> q + int (lead kept) \<le> 1023"
  shows "fp_finite (fp_pack neg kept q)" "negative (fp_pack neg kept q) = neg"
    "fval (fp_pack neg kept q) = signed_real neg (real (unat kept) * 2 powi q)"
proof -
  have "fp_finite (fp_pack neg kept q) \<and> negative (fp_pack neg kept q) = neg \<and>
    fval (fp_pack neg kept q) = signed_real neg (real (unat kept) * 2 powi q)"
  proof (cases "kept = 0")
    case True
    then show ?thesis using fval_fields [of 0 0 0 neg] by (simp add: fp_pack_def)
  next
    case False
    show ?thesis
    proof (cases "-1022 \<le> q + int (lead kept)")
      case True
      obtain m E K where m: "fp_pack neg kept q = with_sign neg m" "unat m = E * 2 ^ 52 + K" "K < 2 ^ 52" "0 < E" "E < 2047"
        "(2 ^ 52 + real K) * 2 powi (int E - 1075) = real (unat kept) * 2 powi q"
        using pack_normal [OF False assms(1) True assms(3) [OF False]] .
      then show ?thesis using fval_fields [OF m(2,3,5), of neg] by simp
    next
      case s: False
      then have s': "q + int (lead kept) < -1022" by linarith
      obtain m K where m: "fp_pack neg kept q = with_sign neg m" "unat m = K" "K < 2 ^ 52"
        "real K * 2 powi (-1074) = real (unat kept) * 2 powi q"
        using pack_subnormal [OF False assms(1) s' assms(2)] .
      then show ?thesis using fval_fields [of m 0 K neg] by simp
    qed
  qed
  then show "fp_finite (fp_pack neg kept q)" "negative (fp_pack neg kept q) = neg"
    "fval (fp_pack neg kept q) = signed_real neg (real (unat kept) * 2 powi q)" by simp_all
qed

end
