(* ===== verification/Fenv_Round.thy ===== *)
theory Fenv_Round
  imports Fenv_Bits
begin

text \<open>
  \<open>round_to\<close> is correct rounding: the pattern it returns has the value that the direction asks for,
  with the sign it was given, and the flags it raises are those of IEC 60559, clause 7: inexact,
  overflow, and underflow for an inexact tiny result, tininess being detected before or after
  rounding as the target does.
\<close>

section \<open>Formats\<close>

definition fmt_ok :: "Format \<Rightarrow> bool" where "fmt_ok f \<longleftrightarrow> f = BINARY64 \<or> f = BINARY32"

definition quanta :: "Format \<Rightarrow> int set" where
  "quanta f = {emin f - (int (fmt_p f) - 1)..}"

definition is_tiny :: "FpEnv \<Rightarrow> Format \<Rightarrow> real \<Rightarrow> bool" where
  "is_tiny env f x \<longleftrightarrow>
     (if tiny_before_rounding env then \<bar>x\<bar> < 2 powi emin f
      else \<exists>r. rounds (fp_round env) (fmt_p f) UNIV x r \<and> \<bar>r\<bar> < 2 powi emin f)"

text \<open>
  A result with its environment is \<open>x\<close> correctly rounded, or overflows where the rounded value
  reaches \<open>2^(emax+1)\<close>.
\<close>

definition rounded :: "FpEnv \<Rightarrow> Format \<Rightarrow> bool \<Rightarrow> real \<Rightarrow> u64 \<times> FpEnv \<Rightarrow> bool" where
  "rounded env f neg x res \<longleftrightarrow>
     (\<exists>r. rounds (fp_round env) (fmt_p f) (quanta f) x r \<and>
        (if \<bar>r\<bar> < 2 powi (emax f + 1) then
           fp_finite (fst res) \<and> fval (fst res) = r \<and> negative (fst res) = neg \<and>
           snd res = raise_flags (if r = x then 0 else if is_tiny env f x then INEXACT OR UNDERFLOW else INEXACT) env
         else fst res = overflowed env neg f \<and> snd res = raise_flags (OVERFLOW OR INEXACT) env))"

lemma fmt_bounds:
  assumes "fmt_ok f"
  shows "1 < fmt_p f" "fmt_p f \<le> 53" "-1074 \<le> emin f - (int (fmt_p f) - 1)" "emax f \<le> 1023" "emin f < emax f"
  using assms by (auto simp: fmt_ok_def BINARY64_def BINARY32_def)

lemma raise_flags_zero [simp]: "raise_flags 0 env = env"
  by (simp add: raise_flags_def)

lemma raise_flags_twice [simp]: "raise_flags a (raise_flags b env) = raise_flags (b OR a) env"
  by (simp add: raise_flags_def or.assoc)

lemma raise_flags_sel [simp]:
  "fp_round (raise_flags k env) = fp_round env" "tiny_before_rounding (raise_flags k env) = tiny_before_rounding env"
  by (simp_all add: raise_flags_def)

section \<open>From the significand to the last place\<close>

lemma represents_top:
  assumes "sig \<noteq> 0" "represents y sig ex sticky"
  shows "2 powi (ex + int (lead sig)) \<le> y" "y < 2 powi (ex + int (lead sig) + 1)"
proof -
  obtain d where d: "y = (real (unat sig) + d) * 2 powi ex" "0 \<le> d" "d < 1" using represents_delta [OF assms(2)] .
  have lo: "(2::real) ^ lead sig \<le> real (unat sig)"
    using lead_range(1) [OF assms(1)] by (metis of_nat_le_iff of_nat_numeral of_nat_power)
  have "unat sig + 1 \<le> 2 ^ Suc (lead sig)" using lead_range(2) [OF assms(1)] by simp
  then have hi: "real (unat sig) + 1 \<le> 2 ^ Suc (lead sig)"
    by (metis of_nat_1 of_nat_add of_nat_le_iff of_nat_numeral of_nat_power)
  have w: "0 < (2::real) powi ex" by simp
  have "2 ^ lead sig * 2 powi ex \<le> (real (unat sig) + d) * 2 powi ex" using lo d(2) by (intro mult_right_mono) simp_all
  then show "2 powi (ex + int (lead sig)) \<le> y" using d(1) by (simp add: power_int_add mult.commute)
  have "(real (unat sig) + d) * 2 powi ex < 2 ^ Suc (lead sig) * 2 powi ex"
    using hi d(3) by (intro mult_strict_right_mono) simp_all
  then show "y < 2 powi (ex + int (lead sig) + 1)" using d(1) by (simp add: power_int_add mult_ac)
qed

lemma powi_place: "1 < p \<Longrightarrow> 2 ^ (p - 1) * (2::real) powi (t - (int p - 1)) = 2 powi t"
  using powi_split [of "t - (int p - 1)" t] by (simp add: nat_diff_distrib)

lemma place_unbounded:
  assumes "1 < p" "2 powi t \<le> y" "y < 2 powi (t + 1)"
  shows "last_place p UNIV (t - (int p - 1)) y"
proof -
  have "0 < y" using assms(2) zero_less_power_int [of "2::real" t] by linarith
  moreover have "2 ^ p * (2::real) powi (t - (int p - 1)) = 2 powi (t + 1)"
    using powi_place [OF assms(1), of t] power_halves [OF assms(1), where 'a = real] by (simp add: power_int_add)
  ultimately show ?thesis using assms powi_place [OF assms(1), of t] by (simp add: last_place_def)
qed

lemma place_format:
  assumes "fmt_ok f" "2 powi t \<le> y" "y < 2 powi (t + 1)"
  shows "last_place (fmt_p f) (quanta f) (max (t - (int (fmt_p f) - 1)) (emin f - (int (fmt_p f) - 1))) y"
proof -
  let ?p = "fmt_p f" and ?m = "emin f - (int (fmt_p f) - 1)"
  let ?q = "max (t - (int ?p - 1)) ?m"
  note p = fmt_bounds(1) [OF assms(1)]
  note u = place_unbounded [OF p assms(2,3)]
  have "2 ^ ?p * (2::real) powi (t - (int ?p - 1)) \<le> 2 ^ ?p * 2 powi ?q"
    by (intro mult_left_mono power_int_increasing) simp_all
  then have "y < 2 ^ ?p * 2 powi ?q" using last_placeD(5) [OF u] by linarith
  moreover have "2 ^ (?p - 1) * 2 powi ?q \<le> y" if "i \<in> quanta f" "i < ?q" for i
  proof -
    have "?q = t - (int ?p - 1)" using that by (auto simp: quanta_def)
    then show ?thesis using powi_place [OF p, of t] assms(2) by simp
  qed
  ultimately show ?thesis using p last_placeD(4) [OF u] unfolding last_place_def by (auto simp: quanta_def)
qed

lemma cut_of_round:
  assumes "sig \<noteq> 0" "represents y sig ex sticky" "sticky \<Longrightarrow> 2 ^ p \<le> unat sig" "0 < p" "p \<le> 53"
    and "ex + int (lead sig) - (int p - 1) \<le> q" "shift_round sig (q - ex) sticky = (kept, half, rest)"
  shows "cut_at y (2 powi q) (unat kept) half rest"
proof -
  have st: "1 \<le> q - ex" if sticky using lead_ge [OF assms(3) [OF that]] assms(6) by linarith
  have room: "unat sig * 2 ^ nat (- (q - ex)) < 2 ^ 128" if "q - ex \<le> 0"
  proof -
    define n where "n = nat (- (q - ex))"
    have n: "Suc (lead sig) + n \<le> p" using assms(6) that by (simp add: n_def)
    have "unat sig * 2 ^ n < 2 ^ Suc (lead sig) * 2 ^ n"
      using lead_range(2) [OF assms(1)] by (intro mult_strict_right_mono) simp_all
    also have "\<dots> = 2 ^ (Suc (lead sig) + n)" by (simp only: power_add)
    also have "\<dots> \<le> (2::nat) ^ 128" using n assms(5) by (intro power_increasing) simp_all
    finally show ?thesis by (simp add: n_def)
  qed
  show ?thesis using shift_round_cut [OF assms(7,2) st room] by simp
qed

section \<open>One rounding step\<close>

lemma round_up_away:
  "round_up env neg kept half rest = away (if neg then mirror (fp_round env) else fp_round env) (unat kept) half rest"
  by (cases "fp_round env") (auto simp: round_up_def away_def and_one_odd)

lemma rounds_signed:
  assumes "rounds (if neg then mirror d else d) p Q y r" shows "rounds d p Q (signed_real neg y) (signed_real neg r)"
  using assms rounds_uminus [of d p Q y r] by (cases neg) (auto simp: signed_real_def simp del: rounds.simps)

lemma round_step:
  assumes "last_place p Q q y" "cut_at y (2 powi q) (unat kept) half rest"
  shows "rounds (fp_round env) p Q (signed_real neg y)
    (signed_real neg (real (unat kept + of_bool (round_up env neg kept half rest)) * 2 powi q))"
  unfolding round_up_away by (rule rounds_signed [OF rounds_magnitude [OF assms]])

lemma step_exact:
  assumes "cut_at y u k half rest" "0 < u"
  shows "real (k + of_bool (away d k half rest)) * u = y \<longleftrightarrow> \<not> half \<and> \<not> rest"
proof -
  have c: "real k * u \<le> y" "y < (real k + 1) * u" "half \<longleftrightarrow> (real k + 1 / 2) * u \<le> y"
      "rest \<longleftrightarrow> y \<noteq> real k * u \<and> y \<noteq> (real k + 1 / 2) * u"
    using assms(1) by (simp_all add: cut_at_def)
  have "real k * u < (real k + 1 / 2) * u" using assms(2) by simp
  then have "\<not> half \<and> \<not> rest \<longleftrightarrow> y = real k * u" using c by auto
  moreover have "\<not> away d k False False" by (simp add: away_def split: Round.split)
  moreover have "y \<noteq> (real k + 1) * u" using c(2) by simp
  ultimately show ?thesis by (auto simp: add.commute)
qed

lemma round_kept_value:
  assumes "round_kept env neg f kept half rest q = (kept', q')" "unat kept < 2 ^ fmt_p f" "0 < fmt_p f" "fmt_p f \<le> 53"
  shows "real (unat kept') * 2 powi q' = real (unat kept + of_bool (round_up env neg kept half rest)) * 2 powi q"
    "unat kept' < 2 ^ fmt_p f" "q \<le> q'"
proof -
  let ?p = "fmt_p f"
  have pp: "(2::nat) ^ ?p \<le> 2 ^ 53" using assms(4) by (rule power_increasing) simp
  have u1: "unat (kept + 1) = unat kept + 1"
  proof -
    have "unat kept + 1 < 2 ^ 128" using assms(2) pp by simp
    then show ?thesis by (simp add: unat_word_ariths)
  qed
  have d: "drop_bit ?p (kept + 1) \<noteq> 0 \<longleftrightarrow> unat kept + 1 = 2 ^ ?p"
  proof -
    have "drop_bit ?p (kept + 1) \<noteq> 0 \<longleftrightarrow> (unat kept + 1) div 2 ^ ?p \<noteq> 0" by (metis u1 unat_drop_bit unat_eq_zero)
    also have "\<dots> \<longleftrightarrow> 2 ^ ?p \<le> unat kept + 1" by (simp add: div_eq_0_iff not_less)
    finally show ?thesis using assms(2) by linarith
  qed
  consider (keep) "\<not> round_up env neg kept half rest" "kept' = kept" "q' = q"
    | (up) "round_up env neg kept half rest" "unat kept + 1 \<noteq> 2 ^ ?p" "kept' = kept + 1" "q' = q"
    | (carry) "round_up env neg kept half rest" "unat kept + 1 = 2 ^ ?p" "kept' = drop_bit 1 (kept + 1)" "q' = q + 1"
    using assms(1) d by (auto simp: round_kept_def split: if_splits)
  then have "real (unat kept') * 2 powi q' = real (unat kept + of_bool (round_up env neg kept half rest)) * 2 powi q \<and>
    unat kept' < 2 ^ ?p \<and> q \<le> q'"
  proof cases
    case carry
    obtain n where n: "?p = Suc n" using assms(3) gr0_conv_Suc by blast
    have "unat kept' = 2 ^ n" unfolding carry(3) unat_drop_bit u1 carry(2) n by simp
    then show ?thesis using carry(1,4) u1 carry(2) n by (simp add: power_int_add flip: of_nat_Suc)
  qed (use assms(2) u1 in auto)
  then show "real (unat kept') * 2 powi q' = real (unat kept + of_bool (round_up env neg kept half rest)) * 2 powi q"
    "unat kept' < 2 ^ fmt_p f" "q \<le> q'" by simp_all
qed

section \<open>Tininess\<close>

lemma word_up:
  assumes "unat (kept :: u128) < 2 ^ p" "p \<le> 53"
  shows "unat (kept + of_bool b) = unat kept + of_bool b"
    "drop_bit p (kept + of_bool b) = 0 \<longleftrightarrow> unat kept + of_bool b < 2 ^ p"
proof -
  have "(2::nat) ^ p \<le> 2 ^ 53" using assms(2) by (rule power_increasing) simp
  then have "unat kept + 1 < 2 ^ 128" using assms(1) by simp
  then show u: "unat (kept + of_bool b) = unat kept + of_bool b" by (cases b) (simp_all add: unat_word_ariths)
  show "drop_bit p (kept + of_bool b) = 0 \<longleftrightarrow> unat kept + of_bool b < 2 ^ p"
    by (metis u div_eq_0_iff power_not_zero unat_drop_bit unat_eq_zero zero_neq_numeral)
qed

lemma real_power_le: "2 ^ k \<le> n \<Longrightarrow> 2 ^ k \<le> real n" "n \<le> 2 ^ k \<Longrightarrow> real n \<le> 2 ^ k"
  by (metis of_nat_le_iff of_nat_numeral of_nat_power)+

text \<open>The rounding with an unbounded exponent: between the powers of two around the value.\<close>

lemma unbounded_result:
  fixes neg :: bool and env :: FpEnv
  assumes p: "1 < p" "p \<le> 53" and sig: "sig \<noteq> 0" "represents y sig ex sticky" "sticky \<Longrightarrow> 2 ^ p \<le> unat sig"
    and t: "t = ex + int (lead sig)"
    and sr: "shift_round sig (t - (int p - 1) - ex) sticky = (kept, half, rest)"
  defines "n \<equiv> unat kept + of_bool (round_up env neg kept half rest)"
  shows "rounds (fp_round env) p UNIV (signed_real neg y) (signed_real neg (real n * 2 powi (t - (int p - 1))))"
    "2 powi t \<le> real n * 2 powi (t - (int p - 1))"
    "real n * 2 powi (t - (int p - 1)) \<le> 2 powi (t + 1)"
    "real n * 2 powi (t - (int p - 1)) < 2 powi (t + 1) \<longleftrightarrow> n < 2 ^ p" "unat kept < 2 ^ p"
proof -
  let ?u = "2 powi (t - (int p - 1)) :: real"
  have y: "2 powi t \<le> y" "y < 2 powi (t + 1)" using represents_top [OF sig(1,2)] by (simp_all add: t)
  note lp = place_unbounded [OF p(1) y]
  have cut: "cut_at y ?u (unat kept) half rest" using cut_of_round [OF sig _ _ _ sr] p by (simp add: t)
  show "rounds (fp_round env) p UNIV (signed_real neg y) (signed_real neg (real n * ?u))"
    unfolding n_def by (rule round_step [OF lp cut])
  show kept: "unat kept < 2 ^ p" by (rule kept_bound [OF lp cut])
  have "2 ^ (p - 1) * ?u < (real (unat kept) + 1) * ?u"
    using cut y(1) powi_place [OF p(1), of t] by (simp add: cut_at_def)
  then have "2 ^ (p - 1) < real (Suc (unat kept))" by simp
  then have "2 ^ (p - 1) \<le> unat kept" by (metis less_Suc_eq_le numeral_power_less_of_nat_cancel_iff)
  then have "2 ^ (p - 1) \<le> n" by (simp add: n_def)
  then show "2 powi t \<le> real n * ?u"
    unfolding powi_place [OF p(1), of t, symmetric] by (intro mult_right_mono real_power_le) simp_all
  have e: "2 powi (t + 1) = (2::real) ^ p * ?u"
    using powi_place [OF p(1), of t] power_halves [OF p(1), where 'a = real] by (simp add: power_int_add)
  have "n \<le> 2 ^ p" using kept by (simp add: n_def)
  then show "real n * ?u \<le> 2 powi (t + 1)" unfolding e by (intro mult_right_mono real_power_le) simp_all
  have "real n * ?u < 2 ^ p * ?u \<longleftrightarrow> real n < 2 ^ p" by simp
  then show "real n * ?u < 2 powi (t + 1) \<longleftrightarrow> n < 2 ^ p" unfolding e by simp
qed

lemma tiny_spec:
  assumes f: "fmt_ok f" and sig: "sig \<noteq> 0" "represents y sig ex sticky" "sticky \<Longrightarrow> 2 ^ fmt_p f \<le> unat sig"
  shows "tiny env neg sig ex sticky (ex + int (lead sig)) f \<longleftrightarrow> is_tiny env f (signed_real neg y)"
proof -
  define t where "t = ex + int (lead sig)"
  let ?p = "fmt_p f" and ?q = "t - (int (fmt_p f) - 1)"
  note p = fmt_bounds(1,2) [OF f]
  have y: "2 powi t \<le> y" "y < 2 powi (t + 1)" using represents_top [OF sig(1,2)] by (simp_all add: t_def)
  note lp = place_unbounded [OF p(1) y]
  have y0: "\<bar>y\<bar> = y" using last_placeD(4) [OF lp] by simp
  obtain kept half rest where sr: "shift_round sig (?q - ex) sticky = (kept, half, rest)" using prod_cases3 by blast
  define n where "n = unat kept + of_bool (round_up env neg kept half rest)"
  define R where "R = real n * 2 powi ?q"
  note res = unbounded_result(1-4) [where env = env and neg = neg, OF p sig t_def sr, folded n_def R_def]
  note kept = unbounded_result(5) [OF p sig t_def sr]
  have "r = signed_real neg R" if "rounds (fp_round env) ?p UNIV (signed_real neg y) r" for r
    by (rule rounds_unique [OF _ that res(1), where q = ?q]) (use lp y0 in simp)
  moreover have "\<bar>signed_real neg R\<bar> = R" using res(2) zero_le_power_int [of "2::real" t] by (simp del: zero_le_power_int)
  ultimately have after: "(\<exists>r. rounds (fp_round env) ?p UNIV (signed_real neg y) r \<and> \<bar>r\<bar> < 2 powi emin f) \<longleftrightarrow> R < 2 powi emin f"
    using res(1) by (metis (no_types))
  have word: "drop_bit ?p (kept + of_bool (round_up env neg kept half rest)) = 0 \<longleftrightarrow> R < 2 powi (t + 1)"
    using word_up(2) [OF kept p(2), of "round_up env neg kept half rest"] res(4) unfolding n_def by (rule trans [OF _ sym])
  have mono: "(2::real) powi a \<le> 2 powi b" if "a \<le> b" for a b using that by (intro power_int_increasing) simp_all
  consider "emin f \<le> t" | "t = emin f - 1" | "t + 1 < emin f" by linarith
  then show ?thesis
  proof cases
    case 1
    then show ?thesis using mono [OF 1] y(1) res(2) by (simp add: tiny_def is_tiny_def after y0 t_def [symmetric])
  next
    case 2
    then show ?thesis using y(2) word sr by (simp add: tiny_def is_tiny_def after y0 t_def [symmetric])
  next
    case 3
    have "(2::real) powi (t + 1) < 2 powi emin f" using 3 by (intro power_int_strict_increasing) simp_all
    then show ?thesis using 3 y(2) res(3) by (simp add: tiny_def is_tiny_def after y0 t_def [symmetric])
  qed
qed

section \<open>The theorem\<close>

lemma overflow_test:
  "(k :: u128) \<noteq> 0 \<and> q + 127 - int (leading_zeros k) > m \<longleftrightarrow> \<not> real (unat k) * 2 powi q < 2 powi (m + 1)"
proof (cases "k = 0")
  case False
  let ?R = "real (unat k) * 2 powi q"
  have e: "q + 127 - int (leading_zeros k) = q + int (lead k)" using lead_eq [OF False] by simp
  have b: "2 powi (q + int (lead k)) \<le> ?R" "?R < 2 powi (q + int (lead k) + 1)"
    using represents_top [OF False, of ?R q False] by (simp_all add: represents_def)
  show ?thesis
  proof (cases "q + int (lead k) > m")
    case True
    then have "(2::real) powi (m + 1) \<le> 2 powi (q + int (lead k))" by (intro power_int_increasing) simp_all
    then show ?thesis using False True b(1) e by simp
  next
    case le: False
    then have "(2::real) powi (q + int (lead k) + 1) \<le> 2 powi (m + 1)" by (intro power_int_increasing) simp_all
    then have "?R < 2 powi (m + 1)" using b(2) by linarith
    then show ?thesis using le e by simp
  qed
qed simp

lemma tiny_result_small:
  assumes f: "fmt_ok f" and t: "t < emin f" and y: "y < 2 powi (t + 1)"
    and cut: "cut_at y (2 powi (max (t - (int (fmt_p f) - 1)) (emin f - (int (fmt_p f) - 1)))) (unat kept) half rest"
  shows "real (unat kept + of_bool (round_up env neg kept half rest)) * 2 powi (emin f - (int (fmt_p f) - 1)) < 2 powi (emax f + 1)"
proof -
  let ?u = "2 powi (emin f - (int (fmt_p f) - 1)) :: real"
  have u: "?u \<le> 2 powi emin f" using fmt_bounds(1) [OF f] by (intro power_int_increasing) simp_all
  have "max (t - (int (fmt_p f) - 1)) (emin f - (int (fmt_p f) - 1)) = emin f - (int (fmt_p f) - 1)" using t by simp
  then have k: "real (unat kept) * ?u \<le> y" using cut by (simp add: cut_at_def)
  have "real (unat kept + of_bool (round_up env neg kept half rest)) * ?u \<le> (real (unat kept) + 1) * ?u"
    by (intro mult_right_mono) simp_all
  also have "\<dots> = real (unat kept) * ?u + ?u" by (simp add: algebra_simps)
  also have "\<dots> < 2 powi (t + 1) + 2 powi emin f" using k y u by linarith
  also have "\<dots> \<le> 2 powi emin f + 2 powi emin f" using t by (intro add_right_mono power_int_increasing) simp_all
  also have "\<dots> = 2 powi (emin f + 1)" by (simp add: power_int_add)
  also have "\<dots> \<le> 2 powi (emax f + 1)" using fmt_bounds(5) [OF f] by (intro power_int_increasing) simp_all
  finally show ?thesis .
qed

theorem round_to_correct:
  assumes f: "fmt_ok f" and sig: "sig \<noteq> 0" "represents y sig ex sticky" "sticky \<Longrightarrow> 2 ^ fmt_p f \<le> unat sig"
  shows "rounded env f neg (signed_real neg y) (round_to neg sig ex sticky f env)"
proof -
  define t where "t = ex + int (lead sig)"
  let ?p = "fmt_p f"
  let ?q = "max (t - (int ?p - 1)) (emin f - (int ?p - 1))"
  let ?x = "signed_real neg y"
  note p = fmt_bounds(1,2) [OF f]
  have y: "2 powi t \<le> y" "y < 2 powi (t + 1)" using represents_top [OF sig(1,2)] by (simp_all add: t_def)
  note lp = place_format [OF f y]
  obtain kept half rest where sr: "shift_round sig (?q - ex) sticky = (kept, half, rest)" using prod_cases3 by blast
  have cut: "cut_at y (2 powi ?q) (unat kept) half rest" using cut_of_round [OF sig _ _ _ sr] p by (simp add: t_def)
  obtain k q where rk: "round_kept env neg f kept half rest ?q = (k, q)" by fastforce
  define R where "R = real (unat k) * 2 powi q"
  note kv = round_kept_value [OF rk kept_bound [OF lp cut] _ p(2)]
  have R: "R = real (unat kept + of_bool (round_up env neg kept half rest)) * 2 powi ?q" using kv(1) p by (simp add: R_def)
  have r: "rounds (fp_round env) ?p (quanta f) ?x (signed_real neg R)" unfolding R by (rule round_step [OF lp cut])
  have "0 \<le> R" unfolding R_def by (intro mult_nonneg_nonneg of_nat_0_le_iff) simp
  then have R0: "\<bar>signed_real neg R\<bar> = R" by simp
  have exact: "signed_real neg R = ?x \<longleftrightarrow> \<not> half \<and> \<not> rest"
    unfolding signed_real_eq R round_up_away by (rule step_exact [OF cut]) simp
  have tiny: "tiny env neg sig ex sticky t f = is_tiny env f ?x" unfolding t_def by (rule tiny_spec [OF f sig])
  have over: "k \<noteq> 0 \<and> q + 127 - int (leading_zeros k) > emax f \<longleftrightarrow> \<not> R < 2 powi (emax f + 1)"
    unfolding R_def by (rule overflow_test)
  define fl :: u8 where "fl = (if signed_real neg R = ?x then 0 else if is_tiny env f ?x then INEXACT OR UNDERFLOW else INEXACT)"
  have rt: "round_to neg sig ex sticky f env =
      (if R < 2 powi (emax f + 1) then (fp_pack neg k q, raise_flags fl env)
       else (overflowed env neg f, raise_flags (fl OR (OVERFLOW OR INEXACT)) env))"
    unfolding round_to_def Let_def top_bit_lead [OF sig(1)] t_def [symmetric] sr rk prod.case over tiny fl_def exact
    by auto
  show ?thesis
  proof (cases "R < 2 powi (emax f + 1)")
    case True
    have "k \<noteq> 0 \<Longrightarrow> q + int (lead k) \<le> 1023" using over True fmt_bounds(4) [OF f] lead_eq [of k] by auto
    moreover have "-1074 \<le> q" using kv(3) fmt_bounds(3) [OF f] p by linarith
    moreover have "unat k < 2 ^ 53" using kv(2) p power_increasing [OF p(2), of "2::nat"] by simp
    ultimately show ?thesis
      unfolding rounded_def rt using True r R0 fp_pack_value [of k q neg]
      by (intro exI [of _ "signed_real neg R"]) (simp add: R_def fl_def)
  next
    case False
    have "\<not> is_tiny env f ?x" unfolding tiny [symmetric]
    proof
      assume "tiny env neg sig ex sticky t f"
      then have t: "t < emin f" by (simp add: tiny_def split: if_splits)
      then show False using False tiny_result_small [OF f t y(2) cut, of env neg] by (simp add: R max_def)
    qed
    then have "raise_flags (fl OR (OVERFLOW OR INEXACT)) env = raise_flags (OVERFLOW OR INEXACT) env"
      by (simp add: fl_def)
    then show ?thesis
      unfolding rounded_def rt using False r R0 by (intro exI [of _ "signed_real neg R"]) simp
  qed
qed

end
