(* ===== verification/Fenv_Sound.thy ===== *)
theory Fenv_Sound
  imports Fenv_Round
begin

text \<open>
  The operations of the floating-point environment against real arithmetic.  Each forms an exact
  significand with a sticky bit for the real result and hands it to \<open>round_to\<close>, so the result is that real
  number correctly rounded.
\<close>

declare of_nat_unat [simp del]

section \<open>Finite operands\<close>

lemma finite_class:
  assumes "fp_class b = Class_Finite s e"
  shows "0 < unat s" "unat s < 2 ^ 53" "-1074 \<le> e" "e \<le> 971" "fval b = signed_real (negative b) (real (unat s) * 2 powi e)"
    "fp_finite b"
proof -
  have m: "mant_nat b < 2 ^ 52" and E: "exp_nat b < 2048" by (simp_all add: mant_nat_def exp_nat_def)
  have "0 < unat s \<and> unat s < 2 ^ 53 \<and> -1074 \<le> e \<and> e \<le> 971"
  proof (cases "exp_nat b = 0")
    case True
    then have s: "s = of_nat (mant_nat b)" "e = -1074" "mant_nat b \<noteq> 0"
      using assms by (auto simp: fp_class_nat split: if_splits)
    have "unat s = mant_nat b" unfolding s(1) using m by (intro unat_of_nat_small) simp
    then show ?thesis using s m by simp
  next
    case False
    then have s: "s = of_nat (2 ^ 52 + mant_nat b)" "e = int (exp_nat b) - 1075" "exp_nat b \<noteq> 2047"
      using assms by (auto simp: fp_class_nat split: if_splits)
    have "unat s = 2 ^ 52 + mant_nat b" unfolding s(1) using m by (intro unat_of_nat_small) simp
    then show ?thesis using s(2,3) m E False by simp
  qed
  then show "0 < unat s" "unat s < 2 ^ 53" "-1074 \<le> e" "e \<le> 971" by simp_all
  show "fval b = signed_real (negative b) (real (unat s) * 2 powi e)" by (simp add: fval_def assms)
  show "fp_finite b" by (simp add: class_finite assms)
qed

lemma finite_cases:
  assumes "fp_finite b"
  obtains "fp_class b = Class_Zero" "fval b = 0" | s e where "fp_class b = Class_Finite s e" "fval b \<noteq> 0"
proof (cases "fp_class b")
  case (Class_Finite s e)
  moreover have "fval b \<noteq> 0" using finite_class [OF Class_Finite] by simp
  ultimately show ?thesis using that by blast
qed (use assms that in \<open>auto simp: class_finite fval_def\<close>)

lemma wide_significand:
  assumes "fp_class b = Class_Finite s e"
  shows "unat (ucast s :: u128) = unat s" "(ucast s :: u128) \<noteq> 0"
    "represents \<bar>fval b\<bar> (ucast s) e False"
proof -
  note c = finite_class [OF assms]
  have lt: "unat s < 2 ^ LENGTH(128)" using c(2) by simp
  show u: "unat (ucast s :: u128) = unat s" by (rule unat_ucast_small [OF lt])
  show "(ucast s :: u128) \<noteq> 0" using c(1) u by (metis less_irrefl unat_eq_zero)
  have "0 \<le> real (unat s) * 2 powi e" by (intro mult_nonneg_nonneg of_nat_0_le_iff) simp
  then show "represents \<bar>fval b\<bar> (ucast s) e False" unfolding represents_def u c(5) by simp
qed

lemma fval_signed: "fp_finite b \<Longrightarrow> fval b = signed_real (negative b) \<bar>fval b\<bar>"
proof (erule finite_cases)
  fix s e assume a: "fp_class b = Class_Finite s e"
  have "0 \<le> real (unat s) * 2 powi e" by (intro mult_nonneg_nonneg of_nat_0_le_iff) simp
  then show "fval b = signed_real (negative b) \<bar>fval b\<bar>" using finite_class(5) [OF a] by (simp add: signed_real_def)
qed (simp add: signed_real_def)

lemma fval_sign: "fp_finite b \<Longrightarrow> fval b < 0 \<Longrightarrow> negative b" "fp_finite b \<Longrightarrow> 0 < fval b \<Longrightarrow> \<not> negative b"
  using fval_signed [of b] by (auto simp: signed_real_def split: if_splits)

lemma signed_real_mult: "signed_real a x * signed_real b y = signed_real (a \<noteq> b) (x * y)"
  by (simp add: signed_real_def)

lemma signed_real_divide: "signed_real a x / signed_real b y = signed_real (a \<noteq> b) (x / y)"
  by (simp add: signed_real_def)

section \<open>Conversions\<close>

theorem fp_narrow_correct:
  assumes "fp_class a = Class_Finite s e"
  shows "rounded env BINARY32 (negative a) (fval a) (fp_narrow H a env)"
proof -
  have "rounded env BINARY32 (negative a) (signed_real (negative a) \<bar>fval a\<bar>)
      (round_to (negative a) (ucast s) e False BINARY32 env)"
    using wide_significand [OF assms] by (intro round_to_correct) (simp_all add: fmt_ok_def)
  then show ?thesis using fval_signed [OF finite_class(6) [OF assms]] by (simp add: fp_narrow_def assms)
qed

theorem int_to_float_correct:
  assumes "n \<noteq> 0" "\<bar>n\<bar> < 2 ^ 127" "fmt_ok f"
  shows "rounded env f (n < 0) (of_int n) (int_to_float n f env)"
proof -
  let ?s = "word_of_int \<bar>n\<bar> :: u128"
  have u: "uint ?s = \<bar>n\<bar>" using assms(2) by (intro uint_of_int_small) simp_all
  then have "int (unat ?s) = \<bar>n\<bar>" by (metis uint_nat)
  then have r: "real (unat ?s) = \<bar>of_int n\<bar>" by (metis of_int_abs of_int_of_nat_eq)
  have "?s \<noteq> 0" using u assms(1) by (metis abs_eq_0 unsigned_0)
  then have "rounded env f (n < 0) (signed_real (n < 0) \<bar>of_int n\<bar>) (round_to (n < 0) ?s 0 False f env)"
    using r assms(3) by (intro round_to_correct) (simp_all add: represents_def)
  moreover have "signed_real (n < 0) \<bar>of_int n\<bar> = of_int n" by (simp add: signed_real_def)
  ultimately show ?thesis using assms(1) by (simp add: int_to_float_def)
qed

section \<open>Results taken from the host\<close>

text \<open>
  What the host's binary64 arithmetic does (IEC 60559, to nearest): a result is the exact real
  correctly rounded, and one that overflows is not finite.
\<close>

definition host_rounds :: "real \<Rightarrow> u64 \<Rightarrow> bool" where
  "host_rounds x r \<longleftrightarrow>
     (\<exists>R. rounds Round_Nearest 53 (quanta BINARY64) x R \<and>
        (if \<bar>R\<bar> < 2 powi 1024 then fp_finite r \<and> fval r = R else \<not> fp_finite r))"

lemma unat_magnitude: "unat ((r :: u64) AND NOT SIGN) = unat r mod 2 ^ 63"
proof -
  have "NOT 0x8000000000000000 = (push_bit 63 1 - 1 :: u64)" by code_simp
  then show ?thesis by (simp only: unat_and_low)
qed

lemma normal_range:
  assumes "2 ^ 52 < unat r mod 2 ^ 63" "unat r mod 2 ^ 63 < 2047 * 2 ^ 52"
  shows "fp_finite r" "2 powi (-1022) < \<bar>fval r\<bar>"
proof -
  have e: "exp_nat r = unat r mod 2 ^ 63 div 2 ^ 52"
  proof -
    have "unat r mod 2 ^ 63 div 2 ^ 52 = unat r div 2 ^ 52 mod 2 ^ 11"
      using div_exp_mod_exp_eq [of "unat r" 52 11] by simp
    then show ?thesis by (simp add: exp_nat_def)
  qed
  have m: "mant_nat r = unat r mod 2 ^ 63 mod 2 ^ 52" by (simp add: mant_nat_def mod_mod_cancel)
  define E M where "E = exp_nat r" and "M = mant_nat r"
  have sum: "E * 2 ^ 52 + M = unat r mod 2 ^ 63" unfolding E_def M_def e m by simp
  have M: "M < 2 ^ 52" by (simp add: M_def mant_nat_def)
  have E: "0 < E" "E < 2047" using sum assms M by (auto intro: gr0I)
  then show f: "fp_finite r" by (simp add: fp_finite_def E_def)
  have c: "fp_class r = Class_Finite (of_nat (2 ^ 52 + M)) (int E - 1075)"
    using E by (simp add: fp_class_nat E_def M_def)
  have u: "unat (of_nat (2 ^ 52 + M) :: u64) = 2 ^ 52 + M" using M by (intro unat_of_nat_small) simp
  have v: "\<bar>fval r\<bar> = (2 ^ 52 + real M) * 2 powi (int E - 1075)"
    unfolding finite_class(5) [OF c] u by (simp add: abs_mult)
  have a: "(2::real) powi (-1022) = 2 ^ 52 * 2 powi (1 - 1075)" using powi_split [of "1 - 1075" "-1022"] by simp
  show "2 powi (-1022) < \<bar>fval r\<bar>"
  proof (cases "E = 1")
    case True
    then have "0 < M" using sum assms(1) by (auto intro: gr0I)
    then show ?thesis unfolding v a True by simp
  next
    case False
    then have "(2::real) powi (1 - 1075) < 2 powi (int E - 1075)" using E by (intro power_int_strict_increasing) simp_all
    then show ?thesis unfolding v a by (intro mult_le_less_imp_less) simp_all
  qed
qed

lemma nearest_some:
  assumes "nearest f r exact env = (Some r', env')"
  shows "r' = r" "f = BINARY64" "fp_round env = Round_Nearest" "fp_finite r" "2 powi (-1022) < \<bar>fval r\<bar>"
    "env' = (if exact then env else raise_flags INEXACT env)"
proof -
  have a: "r' = r" "f = BINARY64" "fp_round env = Round_Nearest"
      "0x0010000000000000 < r AND NOT SIGN" "r AND NOT SIGN \<le> 0x7fefffffffffffff"
      "env' = (if exact then env else raise_flags INEXACT env)"
    using assms by (auto simp: nearest_def Let_def split: if_splits)
  then show "r' = r" "f = BINARY64" "fp_round env = Round_Nearest" "env' = (if exact then env else raise_flags INEXACT env)"
    by simp_all
  have "2 ^ 52 < unat r mod 2 ^ 63" "unat r mod 2 ^ 63 < 2047 * 2 ^ 52"
    using a(4,5) unfolding word_less_nat_alt word_le_nat_alt unat_magnitude by simp_all
  then show "fp_finite r" "2 powi (-1022) < \<bar>fval r\<bar>" by (rule normal_range)+
qed

lemma nearest_none: "nearest f r exact env = (None, env') \<Longrightarrow> env' = env"
  by (auto simp: nearest_def Let_def split: if_splits)

lemma nearest_dist:
  assumes "rounds Round_Nearest p Q x r" "v \<in> fp_values p Q"
  shows "\<bar>x - r\<bar> \<le> \<bar>x - v\<bar>" "\<bar>x - r\<bar> \<le> \<bar>x + v\<bar>"
proof -
  have d: "\<bar>x - r\<bar> \<le> \<bar>x - s\<bar>" if "s \<in> fp_values p Q" for s using assms(1) that by simp
  show "\<bar>x - r\<bar> \<le> \<bar>x - v\<bar>" by (rule d [OF assms(2)])
  show "\<bar>x - r\<bar> \<le> \<bar>x + v\<bar>" using d [of "- v"] assms(2) by simp
qed

lemma nearest_le: "rounds Round_Nearest p Q x r \<Longrightarrow> v \<in> fp_values p Q \<Longrightarrow> \<bar>x\<bar> \<le> v \<Longrightarrow> \<bar>r\<bar> \<le> v"
  using nearest_dist [of p Q x r v] by linarith

lemma nearest_ge:
  "rounds Round_Nearest p Q x r \<Longrightarrow> v \<in> fp_values p Q \<Longrightarrow> v \<le> x \<Longrightarrow> v \<le> r"
  "rounds Round_Nearest p Q x r \<Longrightarrow> v \<in> fp_values p Q \<Longrightarrow> x \<le> - v \<Longrightarrow> r \<le> - v"
  using nearest_dist [of p Q x r v] by linarith+

lemma power_value: "i \<in> Q \<Longrightarrow> 1 < p \<Longrightarrow> 2 powi i \<in> fp_values p Q"
  unfolding fp_values_def by (intro CollectI exI [of _ 1] exI [of _ i]) simp

lemma host_result:
  assumes n: "nearest f r exact env = (Some r', env')" and h: "host_rounds x r"
  obtains "rounds Round_Nearest 53 (quanta BINARY64) x (fval r)" "\<bar>fval r\<bar> < 2 powi 1024"
  using h nearest_some(4) [OF n] unfolding host_rounds_def by (auto split: if_splits simp del: rounds.simps)

lemma smallest_normal_value:
  "2 powi (-1022) \<in> fp_values 53 (quanta BINARY64)" "2 powi (-1022) \<in> fp_values 53 UNIV"
  by (rule power_value; simp add: quanta_def BINARY64_def)+

lemma nearest_normal:
  assumes "nearest f r exact env = (Some r', env')" "host_rounds x r"
  shows "2 powi (-1022) \<le> \<bar>x\<bar>"
proof -
  obtain R: "rounds Round_Nearest 53 (quanta BINARY64) x (fval r)" using host_result [OF assms] .
  show ?thesis
    using nearest_le [OF R smallest_normal_value(1)] nearest_some(5) [OF assms(1)] by (meson leI not_less order_less_imp_le)
qed

theorem nearest_correct:
  assumes n: "nearest f r exact env = (Some r', env')" and h: "host_rounds x r" and e: "exact \<longleftrightarrow> fval r = x"
  shows "rounded env f (x < 0) x (r', env')"
proof -
  note a = nearest_some [OF n]
  obtain R: "rounds Round_Nearest 53 (quanta BINARY64) x (fval r)" "\<bar>fval r\<bar> < 2 powi 1024" using host_result [OF n h] .
  define v where "v = (2 powi (-1022) :: real)"
  have v: "0 < v" "v \<in> fp_values 53 (quanta BINARY64)" "v \<in> fp_values 53 UNIV"
    unfolding v_def using smallest_normal_value by (simp_all only: zero_less_power_int zero_less_numeral)
  have x: "v \<le> \<bar>x\<bar>" unfolding v_def by (rule nearest_normal [OF n h])
  have neg: "negative r = (x < 0)"
  proof (cases "x < 0")
    case True
    then have "fval r < 0" using nearest_ge(2) [OF R(1) v(2)] x v(1) by linarith
    then show ?thesis using True fval_sign(1) [OF a(4)] by simp
  next
    case False
    then have "0 < fval r" using nearest_ge(1) [OF R(1) v(2)] x v(1) by linarith
    then show ?thesis using False fval_sign(2) [OF a(4)] by simp
  qed
  have "v \<le> \<bar>s\<bar>" if "rounds Round_Nearest 53 UNIV x s" for s
    using nearest_ge [OF that v(3)] x by linarith
  moreover have "emin BINARY64 = -1022" "fmt_p BINARY64 = 53" by (simp_all add: BINARY64_def)
  ultimately have tiny: "\<not> is_tiny env BINARY64 x"
    unfolding is_tiny_def a(3) using x v_def by (metis (no_types) not_less)
  show "rounded env f (x < 0) x (r', env')"
    unfolding rounded_def a(2) using R a(1,3,4,6) neg tiny e
    by (intro exI [of _ "fval r"]) (auto simp: BINARY64_def simp del: rounds.simps)
qed

lemma value_rounds_itself: "rounds d p Q x r \<Longrightarrow> x \<in> fp_values p Q \<Longrightarrow> r = x"
proof (cases d)
  case Round_Zero
  assume "rounds d p Q x r" "x \<in> fp_values p Q"
  then have "\<bar>r\<bar> = \<bar>x\<bar>" "0 \<le> r * x" using Round_Zero by (auto simp: order_antisym)
  then show ?thesis by (auto simp: abs_eq_iff zero_le_mult_iff mult_le_0_iff)
qed (auto intro: order_antisym)

text \<open>A rounding is exact when the number is a multiple of its last place.\<close>

lemma exact_iff_grid:
  assumes r: "rounds d p Q x r" and lp: "last_place p Q q \<bar>x\<bar>"
  shows "r = x \<longleftrightarrow> (\<exists>j::int. \<bar>x\<bar> = of_int j * 2 powi q)"
proof
  assume "r = x"
  then have "x \<in> fp_values p Q" using r by (cases d) auto
  then obtain m i where m: "x = of_int m * 2 powi i" "\<bar>m\<bar> < 2 ^ p" "i \<in> Q" by (auto simp: fp_values_def)
  have ax: "\<bar>x\<bar> = of_int \<bar>m\<bar> * 2 powi i" using m(1) by (simp add: abs_mult)
  have "\<not> i < q" using small_exponent [OF lp m(2,3)] ax by force
  then have "\<bar>x\<bar> = of_int (\<bar>m\<bar> * 2 ^ nat (i - q)) * 2 powi q" using ax powi_split [of q i] by simp
  then show "\<exists>j::int. \<bar>x\<bar> = of_int j * 2 powi q" ..
next
  assume "\<exists>j::int. \<bar>x\<bar> = of_int j * 2 powi q"
  then obtain j :: int where j: "\<bar>x\<bar> = of_int j * 2 powi q" ..
  have pos: "0 < of_int j * (2 powi q :: real)" and lt: "of_int j * 2 powi q < (2 ^ p * 2 powi q :: real)"
    using last_placeD(4,5) [OF lp] unfolding j by simp_all
  have "0 < (of_int j :: real)" using zero_less_mult_pos2 [OF pos] by simp
  moreover have "of_int j < (2 ^ p :: real)" using lt by simp
  ultimately have "\<bar>j\<bar> < 2 ^ p" by simp
  then have "\<bar>x\<bar> \<in> fp_values p Q" unfolding j fp_values_def using last_placeD(2) [OF lp] by blast
  then have "x \<in> fp_values p Q" by (cases "0 \<le> x") auto
  then show "r = x" using value_rounds_itself [OF r] by simp
qed

section \<open>Products and quotients\<close>

lemma product_term:
  assumes "fp_class a = Class_Finite sa ea" "fp_class b = Class_Finite sb eb"
  defines "pr \<equiv> (ucast sa * ucast sb :: u128)"
  shows "unat pr = unat sa * unat sb" "pr \<noteq> 0" "represents \<bar>fval a * fval b\<bar> pr (ea + eb) False"
    "unat pr < 2 ^ 106"
proof -
  note a = finite_class [OF assms(1)] wide_significand [OF assms(1)] and b = finite_class [OF assms(2)] wide_significand [OF assms(2)]
  have lt: "unat sa * unat sb < 2 ^ 53 * 2 ^ 53" using a b by (intro mult_strict_mono) simp_all
  then show u: "unat pr = unat sa * unat sb"
    unfolding pr_def using a(7) b(7) by (simp add: unat_word_ariths)
  show "unat pr < 2 ^ 106" using lt u by simp
  have "unat pr \<noteq> 0" using u a(1) b(1) by simp
  then show "pr \<noteq> 0" by (metis unsigned_0)
  have "\<bar>fval a * fval b\<bar> = real (unat sa) * 2 powi ea * (real (unat sb) * 2 powi eb)"
    using a(9) b(9) a(7) b(7) by (simp add: abs_mult represents_def)
  then show "represents \<bar>fval a * fval b\<bar> pr (ea + eb) False"
    unfolding represents_def u by (simp add: power_int_add mult_ac)
qed

lemma fval_mult: "fp_finite a \<Longrightarrow> fp_finite b \<Longrightarrow> fval a * fval b = signed_real (negative a \<noteq> negative b) \<bar>fval a * fval b\<bar>"
  by (metis abs_mult fval_signed signed_real_mult)

lemma fval_divide: "fp_finite a \<Longrightarrow> fp_finite b \<Longrightarrow> fval a / fval b = signed_real (negative a \<noteq> negative b) \<bar>fval a / fval b\<bar>"
  by (metis abs_divide fval_signed signed_real_divide)

lemma mul_round:
  assumes "fp_class a = Class_Finite sa ea" "fp_class b = Class_Finite sb eb" "fmt_ok f"
  shows "rounded env f (negative a \<noteq> negative b) (fval a * fval b)
    (round_to (negative a \<noteq> negative b) (ucast sa * ucast sb) (ea + eb) False f env)"
proof -
  note t = product_term [OF assms(1,2)]
  have "rounded env f n (signed_real n \<bar>fval a * fval b\<bar>) (round_to n (ucast sa * ucast sb) (ea + eb) False f env)" for n
    by (rule round_to_correct [OF assms(3) t(2,3)]) simp
  from this [of "negative a \<noteq> negative b"] show ?thesis
    by (simp only: fval_mult [OF finite_class(6) [OF assms(1)] finite_class(6) [OF assms(2)], symmetric])
qed

lemma signed_nonzero: "x = signed_real n \<bar>x\<bar> \<Longrightarrow> x \<noteq> 0 \<Longrightarrow> (x < 0) = n"
  by (auto simp: signed_real_def split: if_splits)

text \<open>The last place of a number of at least the smallest normal.\<close>

lemma normal_place:
  assumes "sig \<noteq> 0" "represents y sig ex False" "2 powi (-1022) \<le> y"
  shows "last_place 53 (quanta BINARY64) (ex + int (lead sig) - 52) y"
proof -
  note t = represents_top [OF assms(1,2)]
  have "(2::real) powi (-1022) < 2 powi (ex + int (lead sig) + 1)" using assms(3) t(2) by linarith
  then have "-1022 \<le> ex + int (lead sig)"
    by (metis add1_zle_eq linorder_not_le order_less_irrefl power_int_increasing one_le_numeral order_less_le_trans zle_add1_eq_le)
  then have m: "max (ex + int (lead sig) - (int 53 - 1)) (-1022 - (int 53 - 1)) = ex + int (lead sig) - 52" by simp
  show ?thesis using place_format [of BINARY64, OF _ t] m by (simp add: fmt_ok_def BINARY64_def)
qed

lemma multiple_of_place:
  assumes "sig \<noteq> 0" "represents y sig ex False"
  defines "below \<equiv> (128 - leading_zeros sig) - 53"
  shows "(\<exists>j::int. y = of_int j * 2 powi (ex + int (lead sig) - 52)) \<longleftrightarrow> unat sig mod 2 ^ below = 0"
proof -
  have lz: "leading_zeros sig < 128" using lead_bounds(1) [OF assms(1)] by simp
  have y: "y = of_int (int (unat sig)) * 2 powi ex" using assms(2) by (simp add: represents_def)
  show ?thesis
  proof (cases "52 \<le> lead sig")
    case True
    then have b: "ex + int (lead sig) - 52 = ex + int below" using lz by (simp add: below_def lead_def)
    have "y = of_int j * 2 powi (ex + int below) \<longleftrightarrow> int (unat sig) = j * 2 ^ below" for j :: int
    proof -
      have e: "(2::real) powi (ex + int below) = 2 ^ below * 2 powi ex" by (simp add: power_int_add mult.commute)
      have "y = of_int j * 2 powi (ex + int below) \<longleftrightarrow> of_int (int (unat sig)) = (of_int (j * 2 ^ below) :: real)"
        unfolding y e by (simp flip: mult.assoc)
      then show ?thesis by (simp only: of_int_eq_iff)
    qed
    moreover have "(\<exists>j. int (unat sig) = j * 2 ^ below) \<longleftrightarrow> 2 ^ below dvd int (unat sig)" by (auto simp: dvd_def mult.commute)
    moreover have "2 ^ below dvd int (unat sig) \<longleftrightarrow> unat sig mod 2 ^ below = 0"
      by (metis dvd_eq_mod_eq_0 int_dvd_int_iff of_nat_numeral of_nat_power)
    ultimately show ?thesis unfolding b by simp
  next
    case False
    then have b: "below = 0" using lz by (simp add: below_def lead_def)
    have "y = of_int (int (unat sig) * 2 ^ (52 - lead sig)) * 2 powi (ex + int (lead sig) - 52)"
      using powi_split [of "ex + int (lead sig) - 52" ex] False y by (simp add: nat_diff_distrib)
    then have "\<exists>j::int. y = of_int j * 2 powi (ex + int (lead sig) - 52)" by (rule exI)
    then show ?thesis by (simp only: b power_0 mod_by_1 simp_thms)
  qed
qed

lemma and_low_zero: "(x :: 'a::len word) AND (push_bit k 1 - 1) = 0 \<longleftrightarrow> unat x mod 2 ^ k = 0"
  unfolding unat_and_low [symmetric] by (rule unat_eq_zero [symmetric])

lemma mul_exact_iff:
  assumes "fp_class a = Class_Finite sa ea" "fp_class b = Class_Finite sb eb"
    and "2 powi (-1022) \<le> \<bar>fval a * fval b\<bar>" "rounds d 53 (quanta BINARY64) (fval a * fval b) R"
  shows "mul_exact a b \<longleftrightarrow> R = fval a * fval b"
proof -
  let ?p = "ucast sa * ucast sb :: u128"
  note t = product_term [OF assms(1,2)]
  have "mul_exact a b \<longleftrightarrow> unat ?p mod 2 ^ ((128 - leading_zeros ?p) - 53) = 0"
    by (simp only: mul_exact_def finite_parts_def assms(1,2) Class.case Let_def fst_conv and_low_zero)
  then show ?thesis
    using exact_iff_grid [OF assms(4) normal_place [OF t(2,3) assms(3)]] multiple_of_place [OF t(2,3)] by simp
qed

end
