(* ===== verification/Fenv_Arith.thy ===== *)
theory Fenv_Arith
  imports Fenv_Sound
begin

text \<open>
  Quotients, square roots and sums: each forms a significand that stands for the exact real result,
  with a sticky bit where the integer operation left a remainder.
\<close>

section \<open>Quotients\<close>

lemma normalized_parts:
  assumes "fp_class b = Class_Finite s e" "normalized s e = (s', e')"
  shows "2 ^ 52 \<le> unat s'" "unat s' < 2 ^ 53" "real (unat s') * 2 powi e' = \<bar>fval b\<bar>" "unat (ucast s' :: u128) = unat s'"
proof -
  note c = finite_class [OF assms(1)]
  have s0: "s \<noteq> 0" using c(1) by auto
  define n where "n = 63 - leading_zeros s"
  have n: "2 ^ n \<le> unat s" "unat s < 2 ^ Suc n" "leading_zeros s < 64" using lead_bounds [OF s0] by (simp_all add: n_def)
  have "(2::nat) ^ n < 2 ^ 53" using n(1) c(2) by linarith
  then have "n < 53" by (rule power_less_imp_less_exp [rotated]) simp
  then have n52: "n \<le> 52" by simp
  then have sh: "int (leading_zeros s) - 11 = int (52 - n)" using n(3) by (simp add: n_def)
  have s': "s' = push_bit (52 - n) s" "e' = e - int (52 - n)" using assms(2) by (auto simp: normalized_def Let_def sh)
  have pw: "(2::nat) ^ 52 = 2 ^ n * 2 ^ (52 - n)" "(2::nat) ^ 53 = 2 ^ Suc n * 2 ^ (52 - n)"
    using n52 by (simp_all only: power_add [symmetric]) simp_all
  have lo: "2 ^ 52 \<le> unat s * 2 ^ (52 - n)" unfolding pw(1) using n(1) by (rule mult_right_mono) simp
  have hi: "unat s * 2 ^ (52 - n) < 2 ^ 53" unfolding pw(2) using n(2) by (rule mult_strict_right_mono) simp
  have u: "unat s' = unat s * 2 ^ (52 - n)" unfolding s'(1) using hi by (intro unat_push_bit_small) simp
  show "2 ^ 52 \<le> unat s'" "unat s' < 2 ^ 53" using lo hi u by simp_all
  show "unat (ucast s' :: u128) = unat s'" using hi u by (intro unat_ucast_small) simp
  have "(2::real) powi e = 2 ^ (52 - n) * 2 powi e'" using powi_split [of e' e] by (simp add: s'(2))
  moreover have "\<bar>fval b\<bar> = real (unat s) * 2 powi e"
    using wide_significand [OF assms(1)] by (simp add: represents_def)
  ultimately show "real (unat s') * 2 powi e' = \<bar>fval b\<bar>" using u by simp
qed

text \<open>An integer quotient with its remainder stands for the exact quotient.\<close>

lemma quotient_represents:
  fixes num den :: u128
  assumes "den \<noteq> 0"
  shows "represents (real (unat num) / real (unat den) * 2 powi e) (num div den) e (num mod den \<noteq> 0)"
proof -
  have d: "0 < unat den" using assms by (simp add: unat_gt_0)
  have q: "unat (num div den) = unat num div unat den" "unat (num mod den) = unat num mod unat den"
    by (simp_all add: unat_div unat_mod)
  have sum: "real (unat num) = real (unat num div unat den) * real (unat den) + real (unat num mod unat den)"
    by (metis div_mult_mod_eq of_nat_add of_nat_mult)
  have r: "real (unat num mod unat den) < real (unat den)" using d by simp
  have frac: "real (unat num) / real (unat den) = real (unat num div unat den) + real (unat num mod unat den) / real (unat den)"
    unfolding sum using d by (simp add: field_simps)
  show ?thesis
  proof (cases "num mod den = 0")
    case True
    then have "unat num mod unat den = 0" using q(2) by simp
    then show ?thesis using True frac q(1) by (simp add: represents_def)
  next
    case False
    then have "0 < unat num mod unat den" using q(2) by (metis gr0I unat_eq_zero)
    then have "0 < real (unat num mod unat den) / real (unat den)" "real (unat num mod unat den) / real (unat den) < 1"
      using d r by simp_all
    then show ?thesis unfolding represents_def q(1) frac using False by simp
  qed
qed

lemma div_round:
  assumes a: "fp_class a = Class_Finite sa ea" and b: "fp_class b = Class_Finite sb eb" and f: "fmt_ok f"
    and na: "normalized sa ea = (na, ja)" and nb: "normalized sb eb = (nb, jb)"
  defines "num \<equiv> push_bit 74 (ucast na :: u128)"
  shows "rounded env f (negative a \<noteq> negative b) (fval a / fval b)
    (round_to (negative a \<noteq> negative b) (num div ucast nb) (ja - 74 - jb) (num mod ucast nb \<noteq> 0) f env)"
proof -
  note A = normalized_parts [OF a na] and B = normalized_parts [OF b nb]
  let ?d = "ucast nb :: u128"
  have num: "unat num = unat na * 2 ^ 74" unfolding num_def A(4) [symmetric]
    by (rule unat_push_bit_small) (use A(2,4) in simp)
  have d0: "?d \<noteq> 0" using B(1,4) by auto
  have "\<bar>fval a / fval b\<bar> = real (unat num) / real (unat ?d) * 2 powi (ja - 74 - jb)"
  proof -
    have "\<bar>fval a / fval b\<bar> = (real (unat na) * 2 powi ja) / (real (unat nb) * 2 powi jb)"
      using A(3) B(3) by (simp add: abs_divide)
    also have "\<dots> = real (unat na) / real (unat nb) * (2 powi ja / 2 powi jb)" by simp
    also have "(2::real) powi ja / 2 powi jb = 2 ^ 74 * 2 powi (ja - 74 - jb)" by (simp add: power_int_diff)
    finally show ?thesis unfolding num B(4) by simp
  qed
  then have st: "represents \<bar>fval a / fval b\<bar> (num div ?d) (ja - 74 - jb) (num mod ?d \<noteq> 0)"
    using quotient_represents [OF d0, of num "ja - 74 - jb"] by simp
  have "2 ^ 53 * unat ?d \<le> unat num"
  proof -
    have "2 ^ 53 * unat ?d \<le> 2 ^ 53 * 2 ^ 53" using B(2,4) by (intro mult_left_mono) simp_all
    also have "\<dots> \<le> 2 ^ 52 * 2 ^ 74" by simp
    also have "\<dots> \<le> unat num" unfolding num using A(1) by (rule mult_right_mono) simp
    finally show ?thesis .
  qed
  then have q: "2 ^ 53 \<le> unat (num div ?d)"
    using d0 by (simp add: unat_div less_eq_div_iff_mult_less_eq unat_gt_0)
  moreover have "(2::nat) ^ fmt_p f \<le> 2 ^ 53" using fmt_bounds(2) [OF f] by (rule power_increasing) simp
  ultimately have big: "2 ^ fmt_p f \<le> unat (num div ?d)" by linarith
  have q0: "num div ?d \<noteq> 0" using q by auto
  have "rounded env f n (signed_real n \<bar>fval a / fval b\<bar>) (round_to n (num div ?d) (ja - 74 - jb) (num mod ?d \<noteq> 0) f env)" for n
    by (rule round_to_correct [OF f q0 st big])
  from this [of "negative a \<noteq> negative b"] show ?thesis
    by (simp only: fval_divide [OF finite_class(6) [OF a] finite_class(6) [OF b], symmetric])
qed

section \<open>Square roots\<close>

lemma isqrt_down_square: "isqrt_down n r * isqrt_down n r \<le> n"
  by (induction n r rule: isqrt_down.induct) (subst (1 2) isqrt_down.simps, auto)

lemma isqrt_up_bounds:
  "r * r \<le> n \<Longrightarrow> isqrt_up n r * isqrt_up n r \<le> n \<and> n < Suc (isqrt_up n r) * Suc (isqrt_up n r)"
proof (induction n r rule: isqrt_up.induct)
  case (1 n r)
  show ?case
  proof (cases "(r + 1) * (r + 1) \<le> n")
    case True
    then have "isqrt_up n r = isqrt_up n (r + 1)" by (subst isqrt_up.simps) simp
    then show ?thesis using "1.IH" [OF True True] by simp
  next
    case False
    then have "isqrt_up n r = r" by (subst isqrt_up.simps) simp
    then show ?thesis using False "1.prems" by simp
  qed
qed

text \<open>Whatever the host's guess, the two loops end at the integer square root.\<close>

theorem isqrt_correct:
  assumes "isqrt H n = (r, inexact)"
  shows "unat r * unat r \<le> unat n" "unat n < Suc (unat r) * Suc (unat r)" "inexact \<longleftrightarrow> unat r * unat r \<noteq> unat n"
proof -
  obtain k where k: "r = of_nat k" "inexact \<longleftrightarrow> k * k \<noteq> unat n" "k * k \<le> unat n" "unat n < Suc k * Suc k"
    using assms isqrt_up_bounds [OF isqrt_down_square] unfolding isqrt_def Let_def by auto
  have "unat n < 2 ^ 64 * 2 ^ 64" using unsigned_less [where 'a = nat, of n] by simp
  then have "k < 2 ^ 64" using k(3) by (meson le_less_trans less_le_not_le mult_le_mono nat_le_linear not_le)
  then have "unat r = k" unfolding k(1) by (intro unat_of_nat_small) simp
  then show "unat r * unat r \<le> unat n" "unat n < Suc (unat r) * Suc (unat r)" "inexact \<longleftrightarrow> unat r * unat r \<noteq> unat n"
    using k by simp_all
qed

lemma root_represents:
  assumes "isqrt H n = (r, inexact)"
  shows "represents (sqrt (real (unat n)) * 2 powi e) r e inexact"
proof -
  note c = isqrt_correct [OF assms]
  have nn: "real (unat r) * real (unat r) \<le> real (unat n)" "real (unat n) < (real (unat r) + 1) * (real (unat r) + 1)"
    using c(1,2) by (metis of_nat_le_iff of_nat_mult, metis of_nat_Suc of_nat_less_iff of_nat_mult add.commute)
  show ?thesis
  proof (cases inexact)
    case True
    then have "real (unat r) * real (unat r) \<noteq> real (unat n)" using c(3) by (metis of_nat_eq_iff of_nat_mult)
    then have "real (unat r) < sqrt (real (unat n))" using nn(1) by (intro real_less_rsqrt) (simp add: power2_eq_square)
    moreover have "sqrt (real (unat n)) < real (unat r) + 1" using nn(2) by (intro real_less_lsqrt) (simp_all add: power2_eq_square)
    ultimately show ?thesis using True by (simp add: represents_def)
  next
    case False
    then have "real (unat n) = real (unat r) ^ 2" using c(3) by (metis of_nat_mult power2_eq_square)
    then have "sqrt (real (unat n)) = real (unat r)" by simp
    then show ?thesis using False by (simp add: represents_def)
  qed
qed

lemma even_sdiv: "even (e :: int) \<Longrightarrow> e sdiv 2 = e div 2"
proof -
  assume "even e"
  then obtain k where k: "e = 2 * k" by (elim evenE)
  have "e sdiv 2 = sgn k * \<bar>k\<bar>" unfolding k signed_divide_int_def by (simp add: sgn_mult abs_mult)
  then show ?thesis using k by (simp add: sgn_mult_abs)
qed

lemma sqrt_even:
  assumes "even (e :: int)" shows "sqrt (v * 2 powi e) = sqrt v * 2 powi (e div 2)"
proof -
  define k where "k = e div 2"
  have k: "e = k + k" using assms(1) by (simp add: k_def)
  have "(2::real) powi e = 2 powi k * 2 powi k" unfolding k by (rule power_int_add) simp
  then have "sqrt (2 powi e) = 2 powi k" by simp
  then show ?thesis by (simp add: real_sqrt_mult k_def)
qed

lemma sqrt_round:
  assumes a: "fp_class a = Class_Finite s e" "\<not> negative a" and f: "fmt_ok f"
    and na: "normalized s e = (na, ja)" and n: "(n, j) = (if odd ja then (push_bit 73 (ucast na), ja - 73) else (push_bit 72 (ucast na), ja - 72))"
    and r: "isqrt H n = (r, inexact)"
  shows "rounded env f False (sqrt (fval a)) (round_to False r (j sdiv 2) inexact f env)"
proof -
  note A = normalized_parts [OF a(1) na]
  define k where "k = (if odd ja then 73 else 72 :: nat)"
  have nj: "n = push_bit k (ucast na :: u128)" "j = ja - int k" "even j" using n by (auto simp: k_def split: if_splits)
  have k: "72 \<le> k" "k \<le> 73" by (simp_all add: k_def)
  have "unat na * 2 ^ k < 2 ^ 53 * 2 ^ 73" using A(2) k(2) by (intro mult_less_le_imp_less power_increasing) simp_all
  then have un: "unat n = unat na * 2 ^ k" unfolding nj(1) A(4) [symmetric] by (intro unat_push_bit_small) (simp add: A(4))
  have pos: "fval a = \<bar>fval a\<bar>" using fval_signed [OF finite_class(6) [OF a(1)]] a(2) by (simp add: signed_real_def)
  have "fval a = real (unat n) * 2 powi j"
    using pos A(3) powi_split [of j ja] by (simp add: nj(2) un)
  then have y: "sqrt (fval a) = sqrt (real (unat n)) * 2 powi (j sdiv 2)"
    using sqrt_even [OF nj(3), of "real (unat n)"] even_sdiv [OF nj(3)] by simp
  have rep: "represents (sqrt (fval a)) r (j sdiv 2) inexact" unfolding y by (rule root_represents [OF r])
  have "2 ^ 52 * 2 ^ 72 \<le> unat n" unfolding un using A(1) k(1) by (intro mult_le_mono power_increasing) simp_all
  then have "2 ^ 53 * 2 ^ 53 < Suc (unat r) * Suc (unat r)" using isqrt_correct(2) [OF r] by simp
  then have "2 ^ 53 < Suc (unat r)" by (meson mult_le_mono not_le)
  then have big: "2 ^ 53 \<le> unat r" by simp
  moreover have "(2::nat) ^ fmt_p f \<le> 2 ^ 53" using fmt_bounds(2) [OF f] by (rule power_increasing) simp
  moreover have "r \<noteq> 0" using big by auto
  ultimately have "rounded env f False (signed_real False (sqrt (fval a))) (round_to False r (j sdiv 2) inexact f env)"
    by (intro round_to_correct [OF f _ rep]) linarith+
  then show ?thesis by (simp add: signed_real_def)
qed

section \<open>Sums\<close>

definition term_value :: "Term \<Rightarrow> real" where
  "term_value = (\<lambda>(neg, s, e). real (unat s) * 2 powi e)"

text \<open>An aligned term: a significand of at most 126 bits over the common exponent.\<close>

lemma align_shifted:
  assumes "0 < k" "k < 128" "s AND (push_bit k 1 - 1) \<noteq> 0 \<longleftrightarrow> lost"
  shows "represents (real (unat s) * 2 powi (base - int k)) (drop_bit k s) base lost"
proof -
  define w where "w = (2 powi (base - int k) :: real)"
  have w: "0 < w" and b: "(2::real) powi base = 2 ^ k * w" using powi_split [of "base - int k" base] by (simp_all add: w_def)
  have sum: "real (unat s) = real (unat s div 2 ^ k) * 2 ^ k + real (unat s mod 2 ^ k)"
  proof -
    have "real (unat s) = real (unat s div 2 ^ k * 2 ^ k + unat s mod 2 ^ k)" by (simp only: div_mult_mod_eq)
    then show ?thesis by (simp only: of_nat_add of_nat_mult of_nat_power of_nat_numeral)
  qed
  have lt: "real (unat s mod 2 ^ k) < 2 ^ k" using of_nat_less_iff [of "unat s mod 2 ^ k" "2 ^ k", where 'a = real] by simp
  have l: "lost \<longleftrightarrow> unat s mod 2 ^ k \<noteq> 0" using assms(3) by (simp only: and_low_zero)
  have "real (unat s) * w = real (unat s div 2 ^ k) * (2 ^ k * w) + real (unat s mod 2 ^ k) * w"
    unfolding sum by (simp add: algebra_simps)
  moreover have "real (unat s mod 2 ^ k) * w < 2 ^ k * w" using lt w by simp
  moreover have "lost \<Longrightarrow> 0 < real (unat s mod 2 ^ k) * w" using l w by simp
  ultimately show ?thesis unfolding represents_def b w_def [symmetric] unat_drop_bit using l by (auto simp: algebra_simps)
qed

lemma align_correct:
  assumes "s \<noteq> 0" "lead s \<le> 105" "e + int (lead s) \<le> base + 125" "align_term base (neg, s, e) = (n, v, lost)"
  shows "n = neg" "represents (real (unat s) * 2 powi e) v base lost" "unat v < 2 ^ 126"
    "e + int (lead s) = base + 125 \<Longrightarrow> \<not> lost \<and> 2 ^ 125 \<le> unat v" "lost \<Longrightarrow> unat v < 2 ^ 105"
proof -
  have s106: "unat s < 2 ^ 106"
    using lead_range(2) [OF assms(1)] power_increasing [of "Suc (lead s)" 106 "2::nat"] assms(2) by linarith
  have "n = neg \<and> represents (real (unat s) * 2 powi e) v base lost \<and> unat v < 2 ^ 126 \<and>
    (e + int (lead s) = base + 125 \<longrightarrow> \<not> lost \<and> 2 ^ 125 \<le> unat v) \<and> (lost \<longrightarrow> unat v < 2 ^ 105)"
  proof (cases "base \<le> e")
    case True
    define k where "k = nat (e - base)"
    have v: "n = neg" "v = push_bit k s" "\<not> lost" using assms(4) True by (auto simp: align_term_def Let_def k_def)
    have k: "int k = e - base" using True by (simp add: k_def)
    have sk: "Suc (lead s) + k \<le> 126" using assms(3) k by linarith
    have "unat s * 2 ^ k < 2 ^ Suc (lead s) * 2 ^ k" using lead_range(2) [OF assms(1)] by (intro mult_strict_right_mono) simp_all
    also have "\<dots> \<le> (2::nat) ^ 126" unfolding power_add [symmetric] using sk by (intro power_increasing) simp_all
    finally have lt: "unat s * 2 ^ k < 2 ^ 126" .
    then have u: "unat v = unat s * 2 ^ k" unfolding v(2) by (intro unat_push_bit_small) simp
    have "2 ^ 125 \<le> unat v" if "e + int (lead s) = base + 125"
    proof -
      have "(2::nat) ^ 125 = 2 ^ lead s * 2 ^ k" unfolding power_add [symmetric] using that k by (intro arg_cong [of _ _ "(^) 2"]) linarith
      also have "\<dots> \<le> unat v" unfolding u using lead_range(1) [OF assms(1)] by (intro mult_right_mono) simp_all
      finally show ?thesis .
    qed
    moreover have "(2::real) powi e = 2 ^ k * 2 powi base" using powi_split [OF True] by (simp add: k_def)
    ultimately show ?thesis using v u lt by (simp add: represents_def)
  next
    case False
    define k where "k = nat (base - e)"
    have k: "int k = base - e" "0 < k" "e = base - int k" using False by (simp_all add: k_def)
    have small: "e + int (lead s) \<noteq> base + 125" using assms(2) False by linarith
    have far: "unat s div 2 ^ k < 2 ^ 105"
    proof -
      have "unat s div 2 ^ k \<le> unat s div 2 ^ 1" using k(2) by (intro div_le_mono2 power_increasing) simp_all
      also have "\<dots> < 2 ^ 105" using s106 by (intro div_less_iff_less_mult [THEN iffD2]) simp_all
      finally show ?thesis .
    qed
    show ?thesis
    proof (cases "128 \<le> k")
      case True
      then have "\<not> 0 \<le> e - base" "e - base \<le> -128" using k(1,2) by linarith+
      then have v: "n = neg" "v = 0" "lost" using assms(4) by (simp_all add: align_term_def Let_def)
      have "real (unat s) < 2 ^ k"
        using s106 power_increasing [of 106 k "2::nat"] True by (simp add: less_le_trans)
      then have "real (unat s) * 2 powi e < 2 ^ k * 2 powi e" by simp
      also have "\<dots> = 2 powi base" using powi_split [of e base] False by (simp add: k_def)
      finally have "real (unat s) * 2 powi e < 2 powi base" .
      moreover have "0 < real (unat s)" using assms(1) by (simp add: unat_gt_0)
      ultimately show ?thesis using v small by (simp add: represents_def)
    next
      case near: False
      have "\<not> 0 \<le> e - base" "\<not> e - base \<le> -128" "nat (- (e - base)) = k" using k(1,2) near by (linarith, linarith, simp)
      then have v: "n = neg" "v = drop_bit k s" "s AND (push_bit k 1 - 1) \<noteq> 0 \<longleftrightarrow> lost"
        using assms(4) unfolding align_term_def Let_def prod.case by (simp_all only: if_False prod.inject)
      have "represents (real (unat s) * 2 powi e) v base lost"
        using align_shifted [OF k(2) _ v(3), of base] near v(2) k(3) by simp
      moreover have "unat v < 2 ^ 105" using far v(2) by (simp add: unat_drop_bit)
      ultimately show ?thesis using v(1) small by simp
    qed
  qed
  then show "n = neg" "represents (real (unat s) * 2 powi e) v base lost" "unat v < 2 ^ 126"
    "e + int (lead s) = base + 125 \<Longrightarrow> \<not> lost \<and> 2 ^ 125 \<le> unat v" "lost \<Longrightarrow> unat v < 2 ^ 105" by simp_all
qed

text \<open>The difference of aligned terms: a lost part of the smaller one borrows.\<close>

lemma difference_represents:
  assumes big: "represents A big base False" and small: "represents B small base lost"
    and less: "unat small < unat big"
  shows "represents (A - B) (big - small - of_bool lost) base lost"
    "unat (big - small - of_bool lost) = unat big - unat small - of_bool lost"
proof -
  have u1: "unat (big - small) = unat big - unat small" using less by (intro unat_sub) (simp add: word_le_nat_alt)
  then have "1 \<le> unat (big - small)" using less by simp
  then show u: "unat (big - small - of_bool lost) = unat big - unat small - of_bool lost"
    using u1 unat_sub [of 1 "big - small"] by (cases lost) (simp_all add: word_le_nat_alt)
  define w where "w = (2 powi base :: real)"
  obtain d where d: "B = (real (unat small) + d) * w" "0 \<le> d" "d < 1" "d \<noteq> 0 \<longleftrightarrow> lost"
    using represents_delta [OF small] unfolding w_def .
  have w: "0 < w" by (simp add: w_def)
  have A: "A = real (unat big) * w" using big by (simp add: represents_def w_def)
  have AB: "A - B = (real (unat big) - real (unat small) - d) * w" unfolding A d(1) by (simp add: algebra_simps)
  have r: "real (unat big - unat small - of_bool lost) = real (unat big) - real (unat small) - of_bool lost"
    using less by (cases lost) (simp_all add: of_nat_diff)
  show "represents (A - B) (big - small - of_bool lost) base lost"
    unfolding represents_def u r AB w_def [symmetric] using d w by (cases lost) auto
qed

lemma sum_represents:
  assumes a: "represents A va base la" and b: "represents B vb base lb" and one: "\<not> (la \<and> lb)"
    and lt: "unat va < 2 ^ 126" "unat vb < 2 ^ 126"
  shows "represents (A + B) (va + vb) base (la \<or> lb)" "unat (va + vb) = unat va + unat vb"
proof -
  have "unat va + unat vb < 2 ^ 128" using lt by simp
  then show u: "unat (va + vb) = unat va + unat vb" by (simp add: unat_word_ariths)
  define w where "w = (2 powi base :: real)"
  have w: "0 < w" by (simp add: w_def)
  obtain d where d: "A = (real (unat va) + d) * w" "0 \<le> d" "d < 1" "d \<noteq> 0 \<longleftrightarrow> la"
    using represents_delta [OF a] unfolding w_def .
  obtain c where c: "B = (real (unat vb) + c) * w" "0 \<le> c" "c < 1" "c \<noteq> 0 \<longleftrightarrow> lb"
    using represents_delta [OF b] unfolding w_def .
  have "A + B = (real (unat va) + real (unat vb) + (d + c)) * w" unfolding d(1) c(1) by (simp add: algebra_simps)
  then show "represents (A + B) (va + vb) base (la \<or> lb)"
    unfolding represents_def u w_def [symmetric] using d c w one by (cases la; cases lb) auto
qed

lemma difference_round:
  assumes f: "fmt_ok f" and big: "represents A big base False" and small: "represents B small base lost"
    and less: "unat small < unat big" and lost: "lost \<Longrightarrow> 2 ^ 125 \<le> unat big \<and> unat small < 2 ^ 105"
  shows "rounded env f n (signed_real n (A - B)) (round_to n (big - small - of_bool lost) base lost f env)" "B < A"
proof -
  let ?d = "big - small - of_bool lost"
  note r = difference_represents [OF big small less]
  have pf: "(2::nat) ^ fmt_p f \<le> 2 ^ 53" using fmt_bounds(2) [OF f] by (rule power_increasing) simp
  have st: "2 ^ fmt_p f \<le> unat ?d" if lost using lost [OF that] pf r(2) that by (simp, linarith)
  have d0: "?d \<noteq> 0"
  proof (cases lost)
    case True
    then show ?thesis using st [OF True] by auto
  next
    case False
    then have "unat ?d \<noteq> 0" using r(2) less by simp
    then show ?thesis by (metis unat_eq_zero)
  qed
  show "rounded env f n (signed_real n (A - B)) (round_to n ?d base lost f env)"
    by (rule round_to_correct [OF f d0 r(1) st])
  have "0 < (2::real) powi (base + int (lead ?d))" by simp
  then show "B < A" using represents_top(1) [OF d0 r(1)] by linarith
qed

theorem fp_sum_correct:
  assumes f: "fmt_ok f" and s: "sa \<noteq> 0" "lead sa \<le> 105" "sb \<noteq> 0" "lead sb \<le> 105"
    and x_def: "x = signed_real na (real (unat sa) * 2 powi ea) + signed_real nb (real (unat sb) * 2 powi eb)"
  shows "if x = 0 then fp_sum (na, sa, ea) (nb, sb, eb) f env = (zero_sum env, env)
    else rounded env f (x < 0) x (fp_sum (na, sa, ea) (nb, sb, eb) f env)"
proof -
  define A B where "A = real (unat sa) * 2 powi ea" and "B = real (unat sb) * 2 powi eb"
  have pos: "0 < A" "0 < B" using s by (simp_all add: A_def B_def unat_gt_0)
  define base where "base = max (ea + int (lead sa)) (eb + int (lead sb)) - 125"
  obtain na' va la where al: "align_term base (na, sa, ea) = (na', va, la)" using prod_cases3 by blast
  obtain nb' vb lb where bl: "align_term base (nb, sb, eb) = (nb', vb, lb)" using prod_cases3 by blast
  have le: "ea + int (lead sa) \<le> base + 125" "eb + int (lead sb) \<le> base + 125" by (simp_all add: base_def)
  note a = align_correct [OF s(1,2) le(1) al, folded A_def] and b = align_correct [OF s(3,4) le(2) bl, folded B_def]
  have "ea + int (lead sa) = base + 125 \<or> eb + int (lead sb) = base + 125" by (simp add: base_def max_def)
  then have top: "(\<not> la \<and> 2 ^ 125 \<le> unat va) \<or> (\<not> lb \<and> 2 ^ 125 \<le> unat vb)" using a(4) b(4) by blast
  have pf: "(2::nat) ^ fmt_p f \<le> 2 ^ 53" using fmt_bounds(2) [OF f] by (rule power_increasing) simp
  have unf: "fp_sum (na, sa, ea) (nb, sb, eb) f env =
     (if na = nb then round_to na (va + vb) base (la \<or> lb) f env
      else if vb < va then round_to na (va - vb - of_bool lb) base lb f env
      else if va < vb then round_to nb (vb - va - of_bool la) base la f env else (zero_sum env, env))"
    unfolding fp_sum_def Let_def top_bit_lead [OF s(1)] top_bit_lead [OF s(3)] base_def [symmetric] al bl prod.case a(1) b(1)
    by auto
  show ?thesis
  proof (cases "na = nb")
    case True
    have x: "x = signed_real na (A + B)" by (simp add: x_def A_def B_def True signed_real_def)
    have one: "\<not> (la \<and> lb)" using top by blast
    note r = sum_represents [OF a(2) b(2) one a(3) b(3)]
    have big: "2 ^ 125 \<le> unat (va + vb)" using top r(2) by auto
    then have "rounded env f na (signed_real na (A + B)) (round_to na (va + vb) base (la \<or> lb) f env)"
      using pf by (intro round_to_correct [OF f _ r(1)]) (auto dest: order_trans)
    moreover have "x \<noteq> 0" "(x < 0) = na" using pos unfolding x by (auto simp: signed_real_def)
    ultimately show ?thesis using True unf x by simp
  next
    case False
    then have nb: "nb = (\<not> na)" by auto
    have x: "x = signed_real na (A - B)" "x = signed_real nb (B - A)"
      by (simp_all add: x_def A_def B_def nb signed_real_def)
    consider "vb < va" | "va < vb" | "va = vb" by fastforce
    then show ?thesis
    proof cases
      case 1
      then have lt: "unat vb < unat va" by (simp add: word_less_nat_alt)
      then have la: "\<not> la" "lb \<Longrightarrow> 2 ^ 125 \<le> unat va" using top a(5) by fastforce+
      have "represents A va base False" using a(2) la(1) by simp
      note r = difference_round [OF f this b(2) lt]
      have "x \<noteq> 0" "(x < 0) = na" using r(2) la(2) b(5) unfolding x(1) by (auto simp: signed_real_def)
      then show ?thesis using r(1) la(2) b(5) False 1 unf x(1) by simp
    next
      case 2
      then have lt: "unat va < unat vb" by (simp add: word_less_nat_alt)
      then have lb: "\<not> lb" "la \<Longrightarrow> 2 ^ 125 \<le> unat vb" using top b(5) by fastforce+
      have "represents B vb base False" using b(2) lb(1) by simp
      note r = difference_round [OF f this a(2) lt]
      have "x \<noteq> 0" "(x < 0) = nb" using r(2) lb(2) a(5) unfolding x(2) by (auto simp: signed_real_def)
      then show ?thesis using r(1) lb(2) a(5) False 2 less_not_sym [OF 2] unf x(2) by simp
    next
      case 3
      then have "\<not> la" "\<not> lb" using top a(5) b(5) by fastforce+
      then have "A = B" using a(2) b(2) 3 by (simp add: represents_def)
      then show ?thesis using False 3 unf x(1) by (simp add: signed_real_def)
    qed
  qed
qed

end
