(* ===== verification/Two_Sum.thy ===== *)
theory Two_Sum
  imports Fenv_Sound
begin

text \<open>
  The fast path of an addition decides with four more host operations whether the rounded sum was
  exact (Knuth's two-sum).  The lemmas are about any binary format with subnormals, rounding to
  nearest; \<open>two_sum_exact\<close> says that the computed error term is zero only for an exact sum.
\<close>

section \<open>Multiples of a unit\<close>

definition multiple :: "int \<Rightarrow> real \<Rightarrow> bool" where
  "multiple q x \<longleftrightarrow> (\<exists>n::int. x = of_int n * 2 powi q)"

lemma multiple_add: "multiple q x \<Longrightarrow> multiple q y \<Longrightarrow> multiple q (x + y)"
  unfolding multiple_def by (metis of_int_add distrib_right)

lemma multiple_diff: "multiple q x \<Longrightarrow> multiple q y \<Longrightarrow> multiple q (x - y)"
  unfolding multiple_def by (metis of_int_diff left_diff_distrib)

lemma multiple_mono: "multiple q x \<Longrightarrow> i \<le> q \<Longrightarrow> multiple i x"
proof -
  assume "multiple q x" "i \<le> q"
  then obtain n where "x = of_int n * 2 powi q" by (auto simp: multiple_def)
  then have "x = of_int (n * 2 ^ nat (q - i)) * 2 powi i" using powi_split [OF \<open>i \<le> q\<close>] by simp
  then show ?thesis unfolding multiple_def by blast
qed

lemma multiple_abs: "multiple q \<bar>x\<bar> \<longleftrightarrow> multiple q x"
  unfolding multiple_def by (metis abs_minus_cancel abs_if of_int_minus mult_minus_left minus_minus)

lemma value_multiple:
  assumes "v \<in> fp_values p {m..}" obtains n i where "v = of_int n * 2 powi i" "\<bar>n\<bar> < 2 ^ p" "m \<le> i" "multiple i v"
  using assms unfolding fp_values_def multiple_def by auto

lemma value_multiple_min: "v \<in> fp_values p {m..} \<Longrightarrow> multiple m v"
  by (elim value_multiple) (erule (1) multiple_mono)

text \<open>A multiple of a unit that is not longer than \<open>p\<close> bits is a value.\<close>

lemma short_multiple:
  assumes "multiple i z" "m \<le> i" "\<bar>z\<bar> < 2 ^ p * 2 powi i"
  shows "z \<in> fp_values p {m..}"
proof -
  obtain n :: int where n: "z = of_int n * 2 powi i" using assms(1) by (auto simp: multiple_def)
  have "of_int \<bar>n\<bar> * (2::real) powi i < 2 ^ p * 2 powi i" using assms(3) n by (simp add: abs_mult)
  then have "of_int \<bar>n\<bar> < (2::real) ^ p" by simp
  then have "\<bar>n\<bar> < 2 ^ p" by (simp only: of_int_less_numeral_power_cancel_iff)
  then show ?thesis using n assms(2) unfolding fp_values_def by auto
qed

lemma value_bound:
  assumes "\<bar>z\<bar> < 2 ^ p" shows "\<bar>of_int z * 2 powi e\<bar> < 2 ^ p * (2::real) powi e"
proof -
  have "of_int \<bar>z\<bar> < (2::real) ^ p" using assms by (simp only: of_int_less_numeral_power_cancel_iff)
  then have "of_int \<bar>z\<bar> * (2::real) powi e < 2 ^ p * 2 powi e" by simp
  then show ?thesis by (simp add: abs_mult)
qed

section \<open>The last place of any number\<close>

lemma power_of_two_below:
  assumes "0 < (y::real)" obtains t :: int where "2 powi t \<le> y" "y < 2 powi (t + 1)"
proof -
  define t where "t = \<lfloor>log 2 y\<rfloor>"
  have e: "2 powr of_int i = (2::real) powi i" for i :: int by (simp add: powr_real_of_int')
  have lo: "of_int t \<le> log 2 y" and hi: "log 2 y < of_int (t + 1)" unfolding t_def by linarith+
  have "2 powr of_int t \<le> 2 powr log 2 y" using lo by simp
  moreover have "2 powr log 2 y < 2 powr of_int (t + 1)" using hi by (intro powr_less_mono) simp_all
  moreover have "2 powr log 2 y = y" using assms by simp
  ultimately have "2 powi t \<le> y" "y < 2 powi (t + 1)" by (simp_all only: e)
  then show ?thesis by (rule that)
qed

lemma place_exists:
  assumes "1 < p" "0 < y"
  obtains q where "last_place p {m..} q y"
proof -
  obtain t where t: "2 powi t \<le> y" "y < 2 powi (t + 1)" using power_of_two_below [OF assms(2)] .
  let ?q = "max (t - (int p - 1)) m"
  note u = place_unbounded [OF assms(1) t]
  have "2 ^ p * (2::real) powi (t - (int p - 1)) \<le> 2 ^ p * 2 powi ?q" by (intro mult_left_mono power_int_increasing) simp_all
  then have "y < 2 ^ p * 2 powi ?q" using last_placeD(5) [OF u] by linarith
  moreover have "2 ^ (p - 1) * 2 powi ?q \<le> y" if "i \<in> {m..}" "i < ?q" for i
  proof -
    have "?q = t - (int p - 1)" using that by auto
    then show ?thesis using powi_place [OF assms(1), of t] t(1) by simp
  qed
  ultimately have "last_place p {m..} ?q y" using assms unfolding last_place_def by auto
  then show ?thesis by (rule that)
qed

lemma place_mono:
  assumes "last_place p Q q y" "last_place p Q q' y'" "y \<le> y'" shows "q \<le> q'"
proof (rule ccontr)
  assume "\<not> q \<le> q'"
  then have lt: "q' < q" by simp
  have "2 ^ p * (2::real) powi q' = 2 ^ (p - 1) * 2 powi (q' + 1)"
    using power_halves [OF last_placeD(1) [OF assms(1)], where 'a = real] by (simp add: power_int_add)
  also have "\<dots> \<le> 2 ^ (p - 1) * 2 powi q" using lt by (intro mult_left_mono power_int_increasing) simp_all
  also have "\<dots> \<le> y" by (rule last_placeD(6) [OF assms(1) last_placeD(2) [OF assms(2)] lt])
  finally show False using assms(3) last_placeD(5) [OF assms(2)] by linarith
qed

text \<open>To nearest: the result is on the grid of the last place, within half a unit.\<close>

lemma nearest_grid:
  assumes r: "rounds Round_Nearest p Q x r" and lp: "last_place p Q q \<bar>x\<bar>"
  shows "multiple q r" "\<bar>x - r\<bar> \<le> 2 powi q / 2"
proof -
  have pos: "multiple q s \<and> \<bar>y - s\<bar> \<le> 2 powi q / 2" if s: "rounds Round_Nearest p Q y s" and y: "last_place p Q q y" for y s
  proof -
    let ?u = "2 powi q :: real"
    define k where "k = nat \<lfloor>y / ?u\<rfloor>"
    have "0 < y / ?u" using last_placeD(4) [OF y] by simp
    then have k: "real k \<le> y / ?u" "y / ?u < real k + 1" unfolding k_def by linarith+
    then have b: "real k * ?u \<le> y" "y < (real k + 1) * ?u" by (simp_all add: field_simps)
    have "y / ?u < 2 ^ p" using last_placeD(5) [OF y] by (simp add: field_simps)
    then have kp: "k < 2 ^ p" using k(1) by (metis less_le_trans not_le of_nat_less_numeral_power_cancel_iff order_le_less_trans)
    have lo: "real k * ?u \<in> fp_values p Q" using grid_value(1) [OF y, of k] kp by simp
    have hi: "(real k + 1) * ?u \<in> fp_values p Q" using grid_value(1) [OF y, of "Suc k"] kp by (simp add: add.commute)
    note d = nearest_dist(1) [OF s lo] nearest_dist(1) [OF s hi]
    have sv: "s \<in> fp_values p Q" using s by simp
    have "s = real k * ?u \<or> s = (real k + 1) * ?u" using grid_neighbours [OF y b sv] b d by linarith
    moreover have "multiple q (real k * ?u)" "multiple q ((real k + 1) * ?u)"
      unfolding multiple_def by (intro exI [of _ "int k"] exI [of _ "int k + 1"]; simp)+
    moreover have "\<bar>y - s\<bar> \<le> ?u / 2" using d b by (simp add: algebra_simps)
    ultimately show ?thesis by auto
  qed
  have "multiple q r \<and> \<bar>x - r\<bar> \<le> 2 powi q / 2"
  proof (cases "0 \<le> x")
    case True
    then show ?thesis using pos [OF r] lp by simp
  next
    case False
    have nr: "rounds Round_Nearest p Q (- x) (- r)" using rounds_uminus [of Round_Nearest p Q x r] r by (simp only: mirror.simps)
    have "last_place p Q q (- x)" using lp False by simp
    from pos [OF nr this] show ?thesis using multiple_abs [of q r] multiple_abs [of q "- r"] by (simp add: abs_minus_commute)
  qed
  then show "multiple q r" "\<bar>x - r\<bar> \<le> 2 powi q / 2" by simp_all
qed

section \<open>Exact operations\<close>

lemma abs_value: "\<bar>v\<bar> \<in> fp_values p Q \<longleftrightarrow> v \<in> fp_values p Q"
  by (simp add: abs_if)

lemma nearest_exact: "rounds Round_Nearest p Q x r \<Longrightarrow> x \<in> fp_values p Q \<Longrightarrow> r = x"
  by (rule value_rounds_itself)

lemma zero_value: "0 \<in> fp_values p {m..}"
  using short_multiple [of m 0 m p] by (simp add: multiple_def)

lemma nearest_zero:
  assumes "rounds Round_Nearest p {m..} z 0" "multiple m z" "1 < p" shows "z = 0"
proof (rule ccontr)
  assume nz: "z \<noteq> 0"
  obtain n :: int where n: "z = of_int n * 2 powi m" using assms(2) by (auto simp: multiple_def)
  have "1 \<le> \<bar>n\<bar>" using nz n by auto
  then have "(1::real) * 2 powi m \<le> of_int \<bar>n\<bar> * 2 powi m" by (intro mult_right_mono) simp_all
  then have big: "2 powi m \<le> \<bar>z\<bar>" unfolding n by (simp add: abs_mult)
  have v: "2 powi m \<in> fp_values p {m..}" using assms(3) by (intro power_value) simp_all
  have "0 < (2::real) powi m" by simp
  then show False using nearest_ge [OF assms(1) v] big by linarith
qed

text \<open>Sterbenz: the difference of two values within a factor of two is a value.\<close>

lemma difference_value:
  assumes y: "y \<in> fp_values p {m..}" and t: "t \<in> fp_values p {m..}" and b: "\<bar>y - t\<bar> \<le> \<bar>y\<bar>" "\<bar>y - t\<bar> \<le> \<bar>t\<bar>"
  shows "y - t \<in> fp_values p {m..}"
proof -
  obtain n i where n: "y = of_int n * 2 powi i" "\<bar>n\<bar> < 2 ^ p" "m \<le> i" "multiple i y" using value_multiple [OF y] .
  obtain k j where k: "t = of_int k * 2 powi j" "\<bar>k\<bar> < 2 ^ p" "m \<le> j" "multiple j t" using value_multiple [OF t] .
  show ?thesis
  proof (cases "i \<le> j")
    case True
    have "multiple i (y - t)" using n(4) multiple_mono [OF k(4) True] by (rule multiple_diff)
    then show ?thesis using n(3) b(1) value_bound [OF n(2), of i] n(1) by (intro short_multiple [of i]) simp_all
  next
    case False
    then have "multiple j (y - t)" using multiple_mono [OF n(4), of j] k(4) by (intro multiple_diff) simp_all
    then show ?thesis using k(3) b(2) value_bound [OF k(2), of j] k(1) by (intro short_multiple [of j]) simp_all
  qed
qed

lemma inexact_place:
  assumes r: "rounds Round_Nearest p Q x r" "r \<noteq> x" and lp: "last_place p Q q \<bar>x\<bar>" and k: "multiple k x"
  shows "k < q"
proof (rule ccontr)
  assume "\<not> k < q"
  then have "multiple q \<bar>x\<bar>" using multiple_mono [OF k, of q] by (simp add: multiple_abs)
  then show False using exact_iff_grid [OF r(1) lp] r(2) by (simp add: multiple_def)
qed

text \<open>The error of a rounded sum is a value.\<close>

lemma error_value:
  assumes a: "a \<in> fp_values p {m..}" and b: "b \<in> fp_values p {m..}" and s: "rounds Round_Nearest p {m..} (a + b) s" and p: "1 < p"
  shows "a + b - s \<in> fp_values p {m..}"
proof (cases "s = a + b")
  case True
  then show ?thesis using zero_value by simp
next
  case False
  obtain n i where n: "a = of_int n * 2 powi i" "\<bar>n\<bar> < 2 ^ p" "m \<le> i" "multiple i a" using value_multiple [OF a] .
  obtain k j where k: "b = of_int k * 2 powi j" "\<bar>k\<bar> < 2 ^ p" "m \<le> j" "multiple j b" using value_multiple [OF b] .
  have nz: "0 < \<bar>a + b\<bar>" using False nearest_exact [OF s] zero_value [of p m] by auto
  obtain q where lp: "last_place p {m..} q \<bar>a + b\<bar>" using place_exists [OF p nz] .
  let ?k = "min i j"
  have mk: "multiple ?k (a + b)" using multiple_mono [OF n(4), of ?k] multiple_mono [OF k(4), of ?k] by (intro multiple_add) simp_all
  have "?k < q" by (rule inexact_place [OF s False lp mk])
  then have "multiple ?k s" using multiple_mono [OF nearest_grid(1) [OF s lp]] by simp
  then have me: "multiple ?k (a + b - s)" using mk by (rule multiple_diff [rotated])
  have near: "\<bar>a + b - s\<bar> \<le> \<bar>b\<bar>" "\<bar>a + b - s\<bar> \<le> \<bar>a\<bar>" using nearest_dist(1) [OF s a] nearest_dist(1) [OF s b] by simp_all
  have "\<bar>a + b - s\<bar> < 2 ^ p * 2 powi ?k"
    using near value_bound [OF n(2), of i] value_bound [OF k(2), of j] n(1) k(1) by (cases "i \<le> j") (simp_all add: min_def)
  then show ?thesis using me n(3) k(3) by (intro short_multiple [of ?k]) simp_all
qed

text \<open>Dekker: subtracting the larger operand from a rounded sum is exact.\<close>

lemma residue_value:
  assumes a: "a \<in> fp_values p {m..}" and b: "b \<in> fp_values p {m..}" and ab: "\<bar>b\<bar> \<le> \<bar>a\<bar>"
    and s: "rounds Round_Nearest p {m..} (a + b) s" and p: "1 < p"
  shows "s - a \<in> fp_values p {m..}"
proof (cases "s = a + b")
  case True
  then show ?thesis using b by simp
next
  case False
  have b0: "b \<noteq> 0" "a \<noteq> 0" "a + b \<noteq> 0" using False nearest_exact [OF s] a b ab zero_value [of p m] by auto
  obtain q where lq: "last_place p {m..} q \<bar>a + b\<bar>" using place_exists [OF p, of "\<bar>a + b\<bar>"] b0 by auto
  obtain i where li: "last_place p {m..} i \<bar>a\<bar>" using place_exists [OF p, of "\<bar>a\<bar>"] b0 by auto
  obtain j where lj: "last_place p {m..} j \<bar>b\<bar>" using place_exists [OF p, of "\<bar>b\<bar>"] b0 by auto
  have self: "rounds Round_Nearest p {m..} v v" if "v \<in> fp_values p {m..}" for v using that by auto
  have ma: "multiple i a" by (rule nearest_grid(1) [OF self [OF a] li])
  have mb: "multiple j b" by (rule nearest_grid(1) [OF self [OF b] lj])
  have ji: "j \<le> i" by (rule place_mono [OF lj li ab])
  have "j < q" by (rule inexact_place [OF s False lq]) (intro multiple_add multiple_mono [OF ma ji] mb)
  then have B: "\<bar>b\<bar> < 2 ^ p * 2 powi (q - 1)"
  proof -
    have "2 ^ p * (2::real) powi j \<le> 2 ^ p * 2 powi (q - 1)" using \<open>j < q\<close> by (intro mult_left_mono power_int_increasing) simp_all
    then show ?thesis using last_placeD(5) [OF lj] by linarith
  qed
  note g = nearest_grid [OF s lq]
  have z: "\<bar>s - a\<bar> \<le> \<bar>b\<bar> + 2 powi q / 2" using g(2) by linarith
  have im: "m \<le> i" "m \<le> q" using last_placeD(2) [OF li] last_placeD(2) [OF lq] by simp_all
  have halve: "(2::real) powi q = 2 * 2 powi (q - 1)" by (simp add: power_int_diff)
  have pp: "(4::real) \<le> 2 ^ p" using power_increasing [of 2 p "2::real"] p by simp
  show ?thesis
  proof (cases "q \<le> i")
    case True
    have "multiple q (s - a)" by (rule multiple_diff [OF g(1) multiple_mono [OF ma True]])
    moreover have "\<bar>s - a\<bar> < 2 ^ p * 2 powi q"
    proof -
      have "\<bar>s - a\<bar> < (2 ^ p + 1) * 2 powi (q - 1)" using z B unfolding halve by (simp add: algebra_simps)
      also have "\<dots> \<le> (2 ^ p * 2) * 2 powi (q - 1)" using pp by (intro mult_right_mono) simp_all
      finally show ?thesis unfolding halve by (simp add: mult_ac)
    qed
    ultimately show ?thesis using im by (intro short_multiple [of q])
  next
    case False
    have "q \<le> i + 1"
    proof (rule ccontr)
      assume "\<not> q \<le> i + 1"
      then have "2 ^ (p - 1) * 2 powi q \<le> \<bar>a + b\<bar>" using last_placeD(6) [OF lq, of "i + 1"] im by simp
      moreover have "2 ^ (p - 1) * (2::real) powi (i + 2) \<le> 2 ^ (p - 1) * 2 powi q"
        using \<open>\<not> q \<le> i + 1\<close> by (intro mult_left_mono power_int_increasing) simp_all
      moreover have "2 ^ (p - 1) * (2::real) powi (i + 2) = 2 * (2 ^ p * 2 powi i)"
        using power_halves [OF p, where 'a = real] by (simp add: power_int_add)
      ultimately show False using last_placeD(5) [OF li] ab by linarith
    qed
    then have q: "q = i + 1" "q - 1 = i" using False by linarith+
    have "multiple i (s - a)" using multiple_mono [OF g(1), of i] ma q by (intro multiple_diff) simp_all
    then obtain n :: int where n: "s - a = of_int n * 2 powi i" by (auto simp: multiple_def)
    have "\<bar>s - a\<bar> < 2 ^ p * 2 powi i + 2 powi i"
      using z last_placeD(5) [OF li] ab unfolding halve q(2) by linarith
    then have "of_int \<bar>n\<bar> * (2::real) powi i < (2 ^ p + 1) * 2 powi i" unfolding n by (simp add: abs_mult algebra_simps)
    then have "of_int \<bar>n\<bar> < (of_int (2 ^ p + 1) :: real)" by simp
    then have "\<bar>n\<bar> < 2 ^ p + 1" by (simp only: of_int_less_iff)
    then have "nat \<bar>n\<bar> \<le> 2 ^ p" by (simp add: nat_le_iff)
    then have "real (nat \<bar>n\<bar>) * 2 powi i \<in> fp_values p {m..}" by (rule grid_value(1) [OF li])
    then have "\<bar>s - a\<bar> \<in> fp_values p {m..}" unfolding n by (simp add: abs_mult)
    then show ?thesis by (simp only: abs_value)
  qed
qed

section \<open>The two-sum\<close>

text \<open>
  The second operand is larger and the sum is inexact.  Then the rounded sum is at least the first
  operand, and subtracting that gives the second up to a small part of it.
\<close>

lemma larger_second:
  assumes x: "x \<in> fp_values p {m..}" and y: "y \<in> fp_values p {m..}" and xy: "\<bar>x\<bar> < \<bar>y\<bar>"
    and s: "rounds Round_Nearest p {m..} (x + y) s" "s \<noteq> x + y" and p: "2 < p"
  shows "\<bar>x\<bar> \<le> \<bar>s\<bar>" "\<bar>x + y - s\<bar> \<le> \<bar>y\<bar> / 4"
proof -
  have p1: "1 < p" using p by simp
  have "x + y \<notin> fp_values p {m..}" using s nearest_exact by blast
  then have "\<not> (\<bar>y - - x\<bar> \<le> \<bar>y\<bar> \<and> \<bar>y - - x\<bar> \<le> \<bar>- x\<bar>)"
    using difference_value [OF y, of "- x"] x by (auto simp: add.commute)
  then have "\<bar>x\<bar> \<le> \<bar>x + y\<bar>" using xy by linarith
  moreover have "\<bar>x\<bar> \<in> fp_values p {m..}" using x by (simp only: abs_value)
  ultimately show "\<bar>x\<bar> \<le> \<bar>s\<bar>" using nearest_ge [OF s(1), of "\<bar>x\<bar>"] by linarith
  have nz: "0 < \<bar>x + y\<bar>" using \<open>x + y \<notin> _\<close> zero_value [of p m] by auto
  obtain q where lq: "last_place p {m..} q \<bar>x + y\<bar>" using place_exists [OF p1 nz] .
  have "m < q" by (rule inexact_place [OF s lq]) (intro multiple_add value_multiple_min [OF x] value_multiple_min [OF y])
  then have "2 ^ (p - 1) * 2 powi q \<le> \<bar>x + y\<bar>" using last_placeD(6) [OF lq, of m] by simp
  moreover have "(4::real) * 2 powi q \<le> 2 ^ (p - 1) * 2 powi q"
    using power_increasing [of 2 "p - 1" "2::real"] p by (intro mult_right_mono) simp_all
  ultimately have "4 * 2 powi q \<le> \<bar>x + y\<bar>" by linarith
  then show "\<bar>x + y - s\<bar> \<le> \<bar>y\<bar> / 4" using nearest_grid(2) [OF s(1) lq] xy by linarith
qed

theorem two_sum_exact:
  assumes x: "x \<in> fp_values p {m..}" and y: "y \<in> fp_values p {m..}" and p: "2 < p"
    and s: "rounds Round_Nearest p {m..} (x + y) s"
    and t: "rounds Round_Nearest p {m..} (s - x) t"
    and x': "rounds Round_Nearest p {m..} (s - t) x'"
    and dx: "rounds Round_Nearest p {m..} (x - x') dx"
    and dy: "rounds Round_Nearest p {m..} (y - t) dy"
    and e: "rounds Round_Nearest p {m..} (dx + dy) 0"
  shows "s = x + y"
proof (rule ccontr)
  assume ne: "s \<noteq> x + y"
  have p1: "1 < p" using p by simp
  have vals: "s \<in> fp_values p {m..}" "t \<in> fp_values p {m..}" "dx \<in> fp_values p {m..}" "dy \<in> fp_values p {m..}" "- x \<in> fp_values p {m..}"
    using s t dx dy x by (simp_all only: rounds.simps fp_values_uminus)
  note mult = value_multiple_min [OF vals(3)] value_multiple_min [OF vals(4)]
  have sum0: "dx + dy = 0" by (rule nearest_zero [OF e multiple_add [OF mult] p1])
  show False
  proof (cases "\<bar>y\<bar> \<le> \<bar>x\<bar>")
    case True
    have "t = s - x" by (rule nearest_exact [OF t residue_value [OF x y True s p1]])
    then have "x' = x" using nearest_exact [OF x'] x by simp
    then have "dx = 0" using nearest_exact [OF dx] zero_value by simp
    then have dy0: "dy = 0" using sum0 by simp
    have "y - t = 0"
      by (rule nearest_zero [OF dy [unfolded dy0] multiple_diff [OF value_multiple_min [OF y] value_multiple_min [OF vals(2)]] p1])
    then show False using \<open>t = s - x\<close> ne by simp
  next
    case False
    then have xy: "\<bar>x\<bar> < \<bar>y\<bar>" by simp
    note L = larger_second [OF x y xy s ne p]
    have t': "rounds Round_Nearest p {m..} (s + - x) t" using t by (simp only: diff_conv_add_uminus)
    have "t - s \<in> fp_values p {m..}" by (rule residue_value [OF vals(1,5) _ t' p1]) (use L(1) in simp)
    then have "s - t \<in> fp_values p {m..}" using fp_values_uminus [of "t - s" p "{m..}"] by simp
    then have x'e: "x' = s - t" by (rule nearest_exact [OF x'])
    have "s + - x - t \<in> fp_values p {m..}" by (rule error_value [OF vals(1,5) t' p1])
    moreover have "x - x' = - (s + - x - t)" using x'e by simp
    ultimately have "x - x' \<in> fp_values p {m..}" by (simp only: fp_values_uminus)
    then have dxe: "dx = x - x'" by (rule nearest_exact [OF dx])
    have "\<bar>s - x - t\<bar> \<le> \<bar>s - x - y\<bar>" by (rule nearest_dist(1) [OF t y])
    then have "\<bar>y - t\<bar> \<le> \<bar>y\<bar> / 2" using L(2) by linarith
    then have "y - t \<in> fp_values p {m..}" by (intro difference_value [OF y vals(2)]) linarith+
    then have "dy = y - t" by (rule nearest_exact [OF dy])
    then show False using sum0 dxe x'e ne by simp
  qed
qed

end
