(* ===== verification/Fenv_Host.thy ===== *)
theory Fenv_Host
  imports Fenv_Arith Two_Sum
begin

text \<open>
  The operations as the interpreter runs them, with the fast path that takes the host's result.
  The locale \<open>ieee_host\<close> is what the code relies on: the host's binary64 arithmetic and the square
  root of \<open>libm\<close> round to nearest.  Under it every operation rounds correctly in every direction and
  raises exactly the flags of the rounding, whether or not the fast path was taken.
\<close>

section \<open>Values of patterns\<close>

lemma quanta_64: "quanta BINARY64 = {-1074..}" by (simp add: quanta_def BINARY64_def)

lemma fmt_ok_64 [simp]: "fmt_ok BINARY64" by (simp add: fmt_ok_def)

lemma finite_value:
  assumes "fp_finite b" shows "fval b \<in> fp_values 53 {-1074..}" "\<bar>fval b\<bar> < 2 powi 1024"
proof -
  have "fval b \<in> fp_values 53 {-1074..} \<and> \<bar>fval b\<bar> < 2 powi 1024"
  proof (rule finite_cases [OF assms])
    assume "fval b = 0"
    then show ?thesis using zero_value [of 53 "-1074"] zero_less_power_int [of "2::real" 1024] by (simp del: zero_less_power_int)
  next
    fix s e assume c: "fp_class b = Class_Finite s e"
    note f = finite_class [OF c]
    have a: "\<bar>fval b\<bar> = of_int (int (unat s)) * 2 powi e" using wide_significand [OF c] by (simp add: represents_def)
    have lt: "\<bar>int (unat s)\<bar> < 2 ^ 53" using f(2) by (metis abs_of_nat of_nat_less_iff of_nat_numeral of_nat_power)
    have "\<bar>fval b\<bar> \<in> fp_values 53 {-1074..}"
      unfolding a fp_values_def using lt f(3) by (intro CollectI exI conjI) (rule refl, assumption, simp)
    then have "fval b \<in> fp_values 53 {-1074..}" by (simp only: abs_value)
    moreover have "\<bar>fval b\<bar> < 2 ^ 53 * 2 powi e" using value_bound [OF lt, of e] a by simp
    moreover have "2 ^ 53 * (2::real) powi e \<le> 2 ^ 53 * 2 powi 971" using f(4) by (intro mult_left_mono power_int_increasing) simp_all
    moreover have "2 ^ 53 * (2::real) powi 971 = 2 powi 1024" using powi_split [of 971 1024] by (simp only:) simp
    ultimately show ?thesis by linarith
  qed
  then show "fval b \<in> fp_values 53 {-1074..}" "\<bar>fval b\<bar> < 2 powi 1024" by simp_all
qed

lemma host_finite: "host_rounds x r \<Longrightarrow> fp_finite r \<Longrightarrow> rounds Round_Nearest 53 {-1074..} x (fval r)"
  unfolding host_rounds_def quanta_64 by (auto split: if_splits simp del: rounds.simps)

lemma host_exact:
  assumes "host_rounds (fval c) r" "fp_finite c" shows "fp_finite r" "fval r = fval c"
proof -
  obtain R where R: "rounds Round_Nearest 53 {-1074..} (fval c) R"
      "if \<bar>R\<bar> < 2 powi 1024 then fp_finite r \<and> fval r = R else \<not> fp_finite r"
    using assms(1) by (auto simp: host_rounds_def quanta_64 simp del: rounds.simps)
  have "R = fval c" by (rule value_rounds_itself [OF R(1) finite_value(1) [OF assms(2)]])
  then show "fp_finite r" "fval r = fval c" using R(2) finite_value(2) [OF assms(2)] by (simp_all split: if_splits)
qed

lemma fval_nonzero: "fp_class b = Class_Finite s e \<Longrightarrow> fval b \<noteq> 0"
  using finite_class(1,5) [of b s e] by simp

lemma class_zero: "fp_class b = Class_Zero \<longleftrightarrow> fp_finite b \<and> fval b = 0"
proof (cases "fp_class b")
  case (Class_Finite s e)
  then show ?thesis using fval_nonzero [OF Class_Finite] by simp
qed (simp_all add: class_finite fval_def)

lemma zero_pattern: "b AND NOT SIGN = 0 \<longleftrightarrow> fp_finite b \<and> fval b = 0"
proof -
  have e: "exp_nat b = unat b mod 2 ^ 63 div 2 ^ 52"
    using div_exp_mod_exp_eq [of "unat b" 52 11] by (simp add: exp_nat_def)
  have m: "mant_nat b = unat b mod 2 ^ 63 mod 2 ^ 52" by (simp add: mant_nat_def mod_mod_cancel)
  have "b AND NOT 0x8000000000000000 = 0 \<longleftrightarrow> unat b mod 2 ^ 63 = 0" by (metis unat_magnitude unat_eq_zero)
  also have "\<dots> \<longleftrightarrow> exp_nat b = 0 \<and> mant_nat b = 0"
    unfolding e m by (metis add_0 div_0 div_mult_mod_eq mod_0 mult_0)
  also have "\<dots> \<longleftrightarrow> fp_class b = Class_Zero" by (simp add: fp_class_nat)
  finally show ?thesis by (simp only: class_zero)
qed

section \<open>The exactness tests\<close>

lemma scaled_equal:
  assumes "(m :: u128) \<noteq> 0"
  shows "sh < 128 \<and> sh \<le> leading_zeros m \<and> push_bit sh m = n \<longleftrightarrow> unat m * 2 ^ sh = unat n"
proof
  assume a: "sh < 128 \<and> sh \<le> leading_zeros m \<and> push_bit sh m = n"
  have "lead m + 1 + sh \<le> 128" using a lead_bounds(1) [OF assms] unfolding lead_def by simp linarith
  then have "(2::nat) ^ (Suc (lead m) + sh) \<le> 2 ^ 128" by (intro power_increasing) simp_all
  moreover have "unat m * 2 ^ sh < 2 ^ Suc (lead m) * 2 ^ sh" using lead_range(2) [OF assms] by (intro mult_strict_right_mono) simp_all
  ultimately have "unat m * 2 ^ sh < 2 ^ 128" unfolding power_add by (rule less_le_trans [rotated])
  then show "unat m * 2 ^ sh = unat n" using unat_push_bit_small [of m sh] a by simp
next
  assume e: "unat m * 2 ^ sh = unat n"
  then have lt: "unat m * 2 ^ sh < 2 ^ 128" using unsigned_less [where 'a = nat, of n] by simp
  have "2 ^ lead m * 2 ^ sh \<le> unat m * 2 ^ sh" using lead_range(1) [OF assms] by (intro mult_right_mono) simp_all
  then have "(2::nat) ^ (lead m + sh) < 2 ^ 128" using lt by (simp only: power_add)
  then have "lead m + sh < 128" by (rule power_less_imp_less_exp [rotated]) simp
  moreover have "leading_zeros m < 128" using lead_bounds(1) [OF assms] by simp
  ultimately have "sh < 128" "sh \<le> leading_zeros m" unfolding lead_def by linarith+
  moreover have "unat (push_bit sh m) = unat n" using unat_push_bit_small [of m sh] lt e by simp
  ultimately show "sh < 128 \<and> sh \<le> leading_zeros m \<and> push_bit sh m = n" by (simp only: word_unat_eq_iff)
qed

lemma equal_scaled_iff:
  assumes "m \<noteq> 0" "n \<noteq> 0"
  shows "equal_scaled m e (n, d) \<longleftrightarrow> real (unat m) * 2 powi e = real (unat n) * 2 powi d"
proof -
  have scale: "real (unat a) * 2 powi i = real (unat b) * 2 powi j \<longleftrightarrow> unat a * 2 ^ nat (i - j) = unat b"
    if "j \<le> i" for a b :: u128 and i j :: int
  proof -
    have "real (unat a) * 2 powi i = real (unat b) * 2 powi j \<longleftrightarrow> real (unat a * 2 ^ nat (i - j)) = real (unat b)"
      unfolding powi_split [OF that] by (simp flip: mult.assoc)
    then show ?thesis by (simp only: of_nat_eq_iff)
  qed
  show ?thesis
  proof (cases "d \<le> e")
    case True
    define k where "k = nat (e - d)"
    have k: "e - d = int k" using True by (simp add: k_def)
    have "equal_scaled m e (n, d) \<longleftrightarrow> k < 128 \<and> k \<le> leading_zeros m \<and> push_bit k m = n"
      using True by (simp add: equal_scaled_def k)
    then show ?thesis using scaled_equal [OF assms(1)] scale [OF True, of m n] by (simp add: k_def)
  next
    case False
    define k where "k = nat (d - e)"
    have k: "d - e = int k" using False by (simp add: k_def)
    have "equal_scaled m e (n, d) \<longleftrightarrow> k < 128 \<and> k \<le> leading_zeros n \<and> push_bit k n = m"
      using False by (simp add: equal_scaled_def k)
    then show ?thesis using scaled_equal [OF assms(2)] scale [of e d n m] False by (auto simp add: k_def)
  qed
qed

lemma div_exact_iff:
  assumes a: "fp_class a = Class_Finite sa ea" and b: "fp_class b = Class_Finite sb eb" and r: "fp_class r = Class_Finite sr er"
    and sg: "negative r \<longleftrightarrow> negative a \<noteq> negative b"
  shows "div_exact r a b \<longleftrightarrow> fval r = fval a / fval b"
proof -
  note t = product_term [OF r b] and wa = wide_significand [OF a]
  have "div_exact r a b \<longleftrightarrow> \<bar>fval r * fval b\<bar> = \<bar>fval a\<bar>"
    using equal_scaled_iff [OF t(2) wa(2), of "er + eb" ea] t(3) wa(3)
    by (simp add: div_exact_def finite_parts_def a b r represents_def)
  also have "\<dots> \<longleftrightarrow> fval r * fval b = fval a"
  proof -
    have "(negative r \<noteq> negative b) = negative a" using sg by auto
    then have "fval r * fval b = signed_real (negative a) \<bar>fval r * fval b\<bar>"
      using fval_mult [OF finite_class(6) [OF r] finite_class(6) [OF b]] by (simp only:)
    moreover note fval_signed [OF finite_class(6) [OF a]]
    ultimately show ?thesis by (metis (no_types))
  qed
  also have "\<dots> \<longleftrightarrow> fval r = fval a / fval b"
    using fval_nonzero [OF b] by (rule nonzero_eq_divide_eq [symmetric])
  finally show ?thesis .
qed

lemma sqrt_exact_iff:
  assumes a: "fp_class a = Class_Finite sa ea" "\<not> negative a" and r: "fp_class r = Class_Finite sr er" "\<not> negative r"
  shows "sqrt_exact r a \<longleftrightarrow> fval r = sqrt (fval a)"
proof -
  note t = product_term [OF r(1) r(1)] and wa = wide_significand [OF a(1)]
  have pos: "0 < fval r" "0 < fval a"
    using finite_class(1,5) [OF r(1)] finite_class(1,5) [OF a(1)] r(2) a(2) by (simp_all add: signed_real_def)
  have "sqrt_exact r a \<longleftrightarrow> \<bar>fval r * fval r\<bar> = \<bar>fval a\<bar>"
    using equal_scaled_iff [OF t(2) wa(2), of "er + er" ea] t(3) wa(3)
    by (simp add: sqrt_exact_def finite_parts_def a r represents_def)
  also have "\<dots> \<longleftrightarrow> (fval r)\<^sup>2 = fval a" using pos by (simp add: power2_eq_square)
  also have "\<dots> \<longleftrightarrow> fval r = sqrt (fval a)" using pos by (metis less_imp_le real_sqrt_unique real_sqrt_pow2)
  finally show ?thesis .
qed

section \<open>Operands of a format\<close>

text \<open>A \<open>float\<close> is kept as the binary64 pattern of its value.\<close>

definition in_format :: "Format \<Rightarrow> u64 \<Rightarrow> bool" where
  "in_format f b \<longleftrightarrow> fp_finite b \<and> fval b \<in> fp_values (fmt_p f) (quanta f) \<and> \<bar>fval b\<bar> < 2 powi (emax f + 1)"

lemma in_format_64: "fp_finite b \<Longrightarrow> in_format BINARY64 b"
  using finite_value [of b] unfolding in_format_def quanta_64 by (simp add: BINARY64_def)

lemma rounds_self: "x \<in> fp_values p Q \<Longrightarrow> rounds d p Q x x"
  by (cases d) auto

lemma negative_iff: "fp_finite b \<Longrightarrow> fval b \<noteq> 0 \<Longrightarrow> negative b \<longleftrightarrow> fval b < 0"
  using fval_sign [of b] by (cases "fval b < 0") auto

lemma rounded_value:
  assumes "in_format f b" "fval b \<noteq> 0" shows "rounded env f (fval b < 0) (fval b) (b, env)"
  unfolding rounded_def using assms negative_iff [of b] rounds_self
  by (intro exI [of _ "fval b"]) (auto simp: in_format_def simp del: rounds.simps)

lemma zero_bits:
  assumes "fp_class b = Class_Zero" shows "b = with_sign (negative b) 0"
proof -
  have "b AND NOT SIGN = 0" using assms by (simp only: zero_pattern class_zero)
  then have z: "unat b mod 2 ^ 63 = 0" by (metis unat_magnitude unsigned_0)
  have "unat b div 2 ^ 63 < 2" using unat_lt_64 [of b] by (intro div_less_iff_less_mult [THEN iffD2]) simp_all
  then consider "unat b div 2 ^ 63 = 0" | "unat b div 2 ^ 63 = 1" by linarith
  then have "unat b = 0 \<or> unat b = 2 ^ 63" by cases (use div_mult_mod_eq [of "unat b" "2 ^ 63"] z in simp_all)
  moreover have "negative b \<longleftrightarrow> 2 ^ 63 \<le> unat b" by (simp only: negative_def and_sign_iff bit_63)
  moreover have "unat (with_sign (negative b) 0) = (if negative b then 2 ^ 63 else 0)" using unat_with_sign [of 0 "negative b"] by simp
  ultimately have "unat b = unat (with_sign (negative b) 0)" by auto
  then show ?thesis by (simp only: word_unat_eq_iff)
qed

lemma term_of_class:
  assumes "fp_class b = Class_Finite s e" shows "lead (ucast s :: u128) \<le> 105"
proof -
  note w = wide_significand [OF assms] and f = finite_class [OF assms]
  have "lead (ucast s :: u128) < 53" using lead_lt [OF w(2), of 53] w(1) f(2) by simp
  then show ?thesis by simp
qed

text \<open>The sign of a zero sum (IEC 60559, 6.3).\<close>

definition zero_sign :: "FpEnv \<Rightarrow> bool \<Rightarrow> bool \<Rightarrow> bool" where
  "zero_sign env na nb = (if na = nb then na else fp_round env = Round_Down)"

lemma fp_sum_finite:
  assumes f: "fmt_ok f" and a: "fp_class a = Class_Finite sa ea" and b: "fp_class b = Class_Finite sb eb"
    and x: "x = fval a + fval b"
  shows "if x = 0 then fp_sum (negative a, ucast sa, ea) (negative b, ucast sb, eb) f env = (zero_sum env, env)
    else rounded env f (x < 0) x (fp_sum (negative a, ucast sa, ea) (negative b, ucast sb, eb) f env)"
  using wide_significand [OF a] wide_significand [OF b] finite_class(5) [OF a] finite_class(5) [OF b]
  by (intro fp_sum_correct [OF f _ term_of_class [OF a] _ term_of_class [OF b]]) (simp_all add: x)

lemma add_slow:
  assumes f: "fmt_ok f" and a: "in_format f a" and b: "in_format f b"
    and n: "nearest f (f64_add H a b) ex env = (None, env')"
    and exdef: "ex \<longleftrightarrow> f64_add H (f64_sub H a (f64_sub H (f64_add H a b) (f64_sub H (f64_add H a b) a)))
      (f64_sub H b (f64_sub H (f64_add H a b) a)) AND NOT SIGN = 0"
  shows "if fval a + fval b = 0 then fp_add H a b f env = (with_sign (zero_sign env (negative a) (negative b)) 0, env)
    else rounded env f (fval a + fval b < 0) (fval a + fval b) (fp_add H a b f env)"
proof -
  have fin: "fp_finite a" "fp_finite b" using a b by (simp_all add: in_format_def)
  have slow: "fp_add H a b f env =
     (case (fp_class a, fp_class b) of
        (Class_Nan, _) \<Rightarrow> propagate H a b f env
      | (_, Class_Nan) \<Rightarrow> propagate H a b f env
      | (Class_Inf, Class_Inf) \<Rightarrow> if negative a \<noteq> negative b then invalid env else (a, env)
      | (Class_Inf, _) \<Rightarrow> (a, env)
      | (_, Class_Inf) \<Rightarrow> (b, env)
      | (Class_Zero, Class_Zero) \<Rightarrow> if negative a \<noteq> negative b then (zero_sum env, env) else (b, env)
      | (Class_Zero, _) \<Rightarrow> (b, env)
      | (_, Class_Zero) \<Rightarrow> (a, env)
      | (Class_Finite sa ea, Class_Finite sb eb) \<Rightarrow>
          fp_sum (negative a, ucast sa, ea) (negative b, ucast sb, eb) f env)"
    using n unfolding fp_add_def Let_def exdef by simp
  show ?thesis
  proof (rule finite_cases [OF fin(1)]; rule finite_cases [OF fin(2)])
    assume c: "fp_class a = Class_Zero" "fval a = 0" "fp_class b = Class_Zero" "fval b = 0"
    then show ?thesis using zero_bits [OF c(3)] by (auto simp: slow zero_sign_def zero_sum_def)
  next
    fix s e assume c: "fp_class a = Class_Zero" "fval a = 0" "fp_class b = Class_Finite s e" "fval b \<noteq> 0"
    then show ?thesis using rounded_value [OF b c(4)] by (simp add: slow)
  next
    fix s e assume c: "fp_class a = Class_Finite s e" "fval a \<noteq> 0" "fp_class b = Class_Zero" "fval b = 0"
    then show ?thesis using rounded_value [OF a c(2)] by (simp add: slow)
  next
    fix s e s' e' assume c: "fp_class a = Class_Finite s e" "fval a \<noteq> 0" "fp_class b = Class_Finite s' e'" "fval b \<noteq> 0"
    have "negative a \<noteq> negative b" if "fval a + fval b = 0"
      using that negative_iff [OF fin(1) c(2)] negative_iff [OF fin(2) c(4)] c by linarith
    then show ?thesis using fp_sum_finite [OF f c(1,3) refl, of env] by (auto simp: slow c zero_sign_def zero_sum_def)
  qed
qed

lemma nearest_special:
  assumes "\<not> fp_finite r \<or> fval r = 0" shows "nearest f r ex env = (None, env)"
proof (cases "nearest f r ex env")
  case (Pair o' env')
  have "0 < (2::real) powi (-1022)" by (rule zero_less_power_int) simp
  then have "o' = None" using nearest_some(4,5) [of f r ex env _ env'] assms Pair by (cases o') auto
  then show ?thesis using Pair nearest_none [of f r ex env env'] by simp
qed

lemma fast_nonzero: "nearest f r ex env = (Some r', env') \<Longrightarrow> host_rounds x r \<Longrightarrow> x \<noteq> 0"
  using nearest_normal [of f r ex env r' env' x] zero_less_power_int [of "2::real" "-1022"] by (auto simp del: zero_less_power_int)

lemma fast_sign:
  assumes n: "nearest f r ex env = (Some r', env')" and h: "host_rounds x r"
  shows "fval r \<noteq> 0" "fval r < 0 \<longleftrightarrow> x < 0"
proof -
  define v where "v = (2 powi (-1022) :: real)"
  have v: "0 < v" unfolding v_def by (rule zero_less_power_int) simp
  obtain R: "rounds Round_Nearest 53 (quanta BINARY64) x (fval r)" using host_result [OF n h] .
  note g = nearest_ge [OF R smallest_normal_value(1), folded v_def] nearest_normal [OF n h, folded v_def]
    nearest_some(5) [OF n, folded v_def]
  show "fval r \<noteq> 0" using g(4) v by auto
  show "fval r < 0 \<longleftrightarrow> x < 0"
  proof (cases "x < 0")
    case True
    then show ?thesis using g v by linarith
  next
    case False
    then show ?thesis using g v by linarith
  qed
qed

section \<open>The host\<close>

text \<open>
  The documented behaviour of the host's arithmetic: correctly rounded to nearest on finite
  operands, and no finite nonzero result where an operand is not finite or the operation is not
  defined.
\<close>

locale ieee_host =
  fixes H :: host_fpu
  assumes host_add: "fp_finite a \<Longrightarrow> fp_finite b \<Longrightarrow> host_rounds (fval a + fval b) (f64_add H a b)"
    and host_add_special: "\<not> fp_finite a \<or> \<not> fp_finite b \<Longrightarrow> \<not> fp_finite (f64_add H a b)"
    and host_sub: "fp_finite a \<Longrightarrow> fp_finite b \<Longrightarrow> host_rounds (fval a - fval b) (f64_sub H a b)"
    and host_sub_special: "\<not> fp_finite a \<or> \<not> fp_finite b \<Longrightarrow> \<not> fp_finite (f64_sub H a b)"
    and host_mul: "fp_finite a \<Longrightarrow> fp_finite b \<Longrightarrow> host_rounds (fval a * fval b) (f64_mul H a b)"
    and host_mul_special: "\<not> fp_finite a \<or> \<not> fp_finite b \<Longrightarrow> \<not> fp_finite (f64_mul H a b)"
    and host_div: "fp_finite a \<Longrightarrow> fp_finite b \<Longrightarrow> fval b \<noteq> 0 \<Longrightarrow> host_rounds (fval a / fval b) (f64_div H a b)"
    and host_div_special: "\<not> fp_finite a \<or> \<not> fp_finite b \<or> fval b = 0 \<Longrightarrow>
      \<not> fp_finite (f64_div H a b) \<or> fval (f64_div H a b) = 0"
    and host_sqrt: "fp_finite a \<Longrightarrow> 0 \<le> fval a \<Longrightarrow> host_rounds (sqrt (fval a)) (libm_sqrt H a)"
    and host_sqrt_special: "\<not> fp_finite a \<or> fval a < 0 \<Longrightarrow> \<not> fp_finite (libm_sqrt H a)"
begin

text \<open>The error term of an addition is zero exactly for an exact sum.\<close>

lemma sum_error_iff:
  assumes a: "fp_finite a" and b: "fp_finite b"
  defines "s \<equiv> f64_add H a b"
  defines "t \<equiv> f64_sub H s a"
  defines "err \<equiv> f64_add H (f64_sub H a (f64_sub H s t)) (f64_sub H b t)"
  assumes s: "fp_finite s"
  shows "err AND NOT SIGN = 0 \<longleftrightarrow> fval s = fval a + fval b"
proof
  assume "err AND NOT SIGN = 0"
  then have e: "fp_finite err" "fval err = 0" by (simp_all only: zero_pattern)
  have d: "fp_finite (f64_sub H a (f64_sub H s t))" "fp_finite (f64_sub H b t)" using e(1) host_add_special unfolding err_def by blast+
  have x: "fp_finite (f64_sub H s t)" "fp_finite t" using d host_sub_special by blast+
  show "fval s = fval a + fval b"
  proof (rule two_sum_exact [OF finite_value(1) [OF a] finite_value(1) [OF b]])
    show "rounds Round_Nearest 53 {-1074..} (fval a + fval b) (fval s)"
      using host_finite [OF host_add [OF a b]] s by (simp only: s_def)
    show "rounds Round_Nearest 53 {-1074..} (fval s - fval a) (fval t)"
      using host_finite [OF host_sub [OF s a]] x(2) by (simp only: t_def)
    show "rounds Round_Nearest 53 {-1074..} (fval s - fval t) (fval (f64_sub H s t))" by (rule host_finite [OF host_sub [OF s x(2)] x(1)])
    show "rounds Round_Nearest 53 {-1074..} (fval a - fval (f64_sub H s t)) (fval (f64_sub H a (f64_sub H s t)))"
      by (rule host_finite [OF host_sub [OF a x(1)] d(1)])
    show "rounds Round_Nearest 53 {-1074..} (fval b - fval t) (fval (f64_sub H b t))" by (rule host_finite [OF host_sub [OF b x(2)] d(2)])
    show "rounds Round_Nearest 53 {-1074..} (fval (f64_sub H a (f64_sub H s t)) + fval (f64_sub H b t)) 0"
      using host_finite [OF host_add [OF d], folded err_def, OF e(1)] e(2) by (simp only:)
  qed simp
next
  assume e: "fval s = fval a + fval b"
  have zero: "fp_finite r \<and> fval r = 0" if "host_rounds 0 r" for r
    using host_exact [of 0 r] that fval_fields(1,3) [of 0 0 0 False] by (simp add: with_sign_def signed_real_def)
  have "host_rounds (fval b) t" using host_sub [OF s a] e by (simp add: t_def)
  note t = host_exact [OF this b]
  have "host_rounds (fval a) (f64_sub H s t)" using host_sub [OF s t(1)] e t(2) by simp
  note u = host_exact [OF this a]
  have dx: "fp_finite (f64_sub H a (f64_sub H s t)) \<and> fval (f64_sub H a (f64_sub H s t)) = 0"
    using host_sub [OF a u(1)] u(2) by (intro zero) simp
  have dy: "fp_finite (f64_sub H b t) \<and> fval (f64_sub H b t) = 0" using host_sub [OF b t(1)] t(2) by (intro zero) simp
  have "fp_finite err \<and> fval err = 0" unfolding err_def using host_add dx dy by (intro zero) fastforce
  then show "err AND NOT SIGN = 0" by (simp only: zero_pattern)
qed

theorem add_correct:
  assumes f: "fmt_ok f" and a: "in_format f a" and b: "in_format f b" and x: "x = fval a + fval b"
  shows "if x = 0 then fp_add H a b f env = (with_sign (zero_sign env (negative a) (negative b)) 0, env)
    else rounded env f (x < 0) x (fp_add H a b f env)"
proof -
  define s t where "s = f64_add H a b" and "t = f64_sub H s a"
  define ex where "ex \<longleftrightarrow> f64_add H (f64_sub H a (f64_sub H s t)) (f64_sub H b t) AND NOT SIGN = 0"
  have fin: "fp_finite a" "fp_finite b" using a b by (simp_all add: in_format_def)
  have h: "host_rounds x s" unfolding x s_def by (rule host_add [OF fin])
  obtain o' env' where n: "nearest f s ex env = (o', env')" by fastforce
  show ?thesis
  proof (cases o')
    case None
    have n': "nearest f (f64_add H a b) ex env = (None, env')" using n None by (simp only: s_def)
    show ?thesis unfolding x by (rule add_slow [OF f a b n']) (simp only: ex_def t_def s_def)
  next
    case (Some r)
    note n' = n [unfolded Some]
    have "ex \<longleftrightarrow> fval s = x"
      using sum_error_iff [OF fin] nearest_some(4) [OF n'] unfolding ex_def t_def s_def x by blast
    then have "rounded env f (x < 0) x (r, env')" by (rule nearest_correct [OF n' h])
    moreover have "x \<noteq> 0" using nearest_normal [OF n' h] zero_less_power_int [of "2::real" "-1022"] by (auto simp del: zero_less_power_int)
    moreover have "fp_add H a b f env = (r, env')" using n' unfolding fp_add_def Let_def ex_def t_def s_def by simp
    ultimately show ?thesis by simp
  qed
qed

theorem mul_correct:
  assumes f: "fmt_ok f" and a: "fp_finite a" and b: "fp_finite b" and x: "x = fval a * fval b"
  shows "if x = 0 then fp_mul H a b f env = (with_sign (negative a \<noteq> negative b) 0, env)
    else rounded env f (x < 0) x (fp_mul H a b f env)"
proof -
  have h: "host_rounds x (f64_mul H a b)" unfolding x by (rule host_mul [OF a b])
  obtain o' env' where n: "nearest f (f64_mul H a b) (mul_exact a b) env = (o', env')" by fastforce
  show ?thesis
  proof (cases "x = 0")
    case True
    then have "o' = None" using n fast_nonzero [OF _ h] by (cases o') auto
    moreover have "fp_class a = Class_Zero \<or> fp_class b = Class_Zero" using True a b by (auto simp: class_zero x)
    moreover have "fp_class a = Class_Zero \<or> (\<exists>s e. fp_class a = Class_Finite s e)" "fp_class b = Class_Zero \<or> (\<exists>s e. fp_class b = Class_Finite s e)"
      using a b by (cases "fp_class a"; cases "fp_class b"; simp add: class_finite)+
    ultimately show ?thesis using True n by (auto simp: fp_mul_def Let_def)
  next
    case False
    then have "fval a \<noteq> 0" "fval b \<noteq> 0" by (auto simp: x)
    then obtain sa ea sb eb where c: "fp_class a = Class_Finite sa ea" "fp_class b = Class_Finite sb eb"
      using finite_cases [OF a] finite_cases [OF b] by metis
    have sg: "x < 0 \<longleftrightarrow> negative a \<noteq> negative b" using signed_nonzero [OF fval_mult [OF a b]] False by (simp add: x)
    show ?thesis
    proof (cases o')
      case None
      then show ?thesis using mul_round [OF c f, of env] False n sg by (simp add: fp_mul_def c x Let_def)
    next
      case (Some r)
      note n' = n [unfolded Some]
      obtain R: "rounds Round_Nearest 53 (quanta BINARY64) x (fval (f64_mul H a b))" using host_result [OF n' h] .
      have "mul_exact a b \<longleftrightarrow> fval (f64_mul H a b) = x"
        using mul_exact_iff [OF c] nearest_normal [OF n' h] R by (simp only: x)
      then have "rounded env f (x < 0) x (r, env')" by (rule nearest_correct [OF n' h])
      then show ?thesis using False n' by (simp add: fp_mul_def)
    qed
  qed
qed

theorem div_correct:
  assumes f: "fmt_ok f" and a: "fp_finite a" and b: "fp_finite b" "fval b \<noteq> 0" and x: "x = fval a / fval b"
  shows "if x = 0 then fp_div H a b f env = (with_sign (negative a \<noteq> negative b) 0, env)
    else rounded env f (x < 0) x (fp_div H a b f env)"
proof -
  let ?q = "f64_div H a b"
  have h: "host_rounds x ?q" unfolding x by (rule host_div [OF a b])
  obtain o' env' where n: "nearest f ?q (div_exact ?q a b) env = (o', env')" by fastforce
  obtain sb eb where cb: "fp_class b = Class_Finite sb eb" using finite_cases [OF b(1)] b(2) by metis
  show ?thesis
  proof (cases "x = 0")
    case True
    then have "o' = None" using n fast_nonzero [OF _ h] by (cases o') auto
    moreover have "fp_class a = Class_Zero" using True a b by (simp add: class_zero x)
    ultimately show ?thesis using True n cb by (simp add: fp_div_def Let_def)
  next
    case False
    then obtain sa ea where ca: "fp_class a = Class_Finite sa ea" using finite_cases [OF a] by (auto simp: x)
    have sg: "x < 0 \<longleftrightarrow> negative a \<noteq> negative b" using signed_nonzero [OF fval_divide [OF a b(1)]] False by (simp add: x)
    show ?thesis
    proof (cases o')
      case None
      obtain na ja nb jb where nn: "normalized sa ea = (na, ja)" "normalized sb eb = (nb, jb)" by fastforce
      show ?thesis using div_round [OF ca cb f nn, of env] None False n sg nn by (simp add: fp_div_def ca cb x Let_def)
    next
      case (Some r)
      note n' = n [unfolded Some]
      note q = nearest_some [OF n']
      note r0 = fast_sign [OF n' h]
      then obtain sr er where cr: "fp_class ?q = Class_Finite sr er" using finite_cases [OF q(4)] by metis
      have "negative ?q \<longleftrightarrow> negative a \<noteq> negative b" using negative_iff [OF q(4) r0(1)] r0(2) sg by simp
      then have "div_exact ?q a b \<longleftrightarrow> fval ?q = x" using div_exact_iff [OF ca cb cr] by (simp only: x)
      then have "rounded env f (x < 0) x (r, env')" by (rule nearest_correct [OF n' h])
      then show ?thesis using False n' by (simp add: fp_div_def Let_def)
    qed
  qed
qed

theorem sqrt_correct:
  assumes f: "fmt_ok f" and a: "fp_finite a" "0 < fval a"
  shows "rounded env f False (sqrt (fval a)) (fp_sqrt H a f env)"
proof -
  let ?r = "libm_sqrt H a"
  have h: "host_rounds (sqrt (fval a)) ?r" using host_sqrt [OF a(1)] a(2) by simp
  obtain o' env' where n: "nearest f ?r (sqrt_exact ?r a) env = (o', env')" by fastforce
  obtain s e where c: "fp_class a = Class_Finite s e" using finite_cases [OF a(1)] a(2) by (metis less_irrefl)
  have pos: "\<not> negative a" by (rule fval_sign(2) [OF a])
  have x: "0 < sqrt (fval a)" using a(2) by simp
  show ?thesis
  proof (cases o')
    case None
    obtain na ja where nn: "normalized s e = (na, ja)" by fastforce
    obtain m j where m: "(m :: u128, j) = (if odd ja then (push_bit 73 (ucast na), ja - 73) else (push_bit 72 (ucast na), ja - 72))" by (metis surj_pair)
    obtain r ex where r: "isqrt H m = (r, ex)" by fastforce
    have "fp_sqrt H a f env = round_to False r (j sdiv 2) ex f env"
      unfolding fp_sqrt_def Let_def n None c nn prod.case option.case Class.case m [symmetric] r using pos by simp
    then show ?thesis using sqrt_round [OF c pos f nn m r, of env] by simp
  next
    case (Some r)
    note n' = n [unfolded Some]
    note q = nearest_some [OF n']
    note r0 = fast_sign [OF n' h]
    then obtain sr er where cr: "fp_class ?r = Class_Finite sr er" using finite_cases [OF q(4)] by metis
    have "\<not> negative ?r" using negative_iff [OF q(4) r0(1)] r0(2) x by simp
    then have "sqrt_exact ?r a \<longleftrightarrow> fval ?r = sqrt (fval a)" by (rule sqrt_exact_iff [OF c pos cr])
    then have "rounded env f (sqrt (fval a) < 0) (sqrt (fval a)) (r, env')" by (rule nearest_correct [OF n' h])
    then show ?thesis using n' x by (simp add: fp_sqrt_def Let_def)
  qed
qed

end

end
