(* ===== verification/Fenv_Soft.thy ===== *)
theory Fenv_Soft
  imports Fenv_Host
begin

text \<open>
  A host for which the assumptions of \<open>ieee_host\<close> hold: the environment's own integer paths, rounding
  to nearest.  The interpretation shows at once that the assumptions can be met, and that an
  interpreter without a floating-point unit would compute the same results.
\<close>

section \<open>Special patterns\<close>

lemma exp_nat_all_ones: "exp_nat b = 2047 \<longleftrightarrow> (\<forall>i < 11. bit b (52 + i))"
proof -
  have u: "exp_nat b = unat (take_bit 11 (drop_bit 52 b))"
    by (simp add: exp_nat_def unsigned_take_bit_eq unat_drop_bit take_bit_nat_def)
  have "exp_nat b = 2047 \<longleftrightarrow> take_bit 11 (drop_bit 52 b) = mask 11"
  proof -
    have "unat (mask 11 :: u64) = 2047" by (simp add: mask_eq_exp_minus_1)
    then show ?thesis unfolding u by (metis word_unat_eq_iff)
  qed
  also have "\<dots> \<longleftrightarrow> (\<forall>i < 11. bit b (52 + i))"
  proof
    assume e: "take_bit 11 (drop_bit 52 b) = mask 11"
    show "\<forall>i < 11. bit b (52 + i)"
    proof (intro allI impI)
      fix i :: nat assume "i < 11"
      then show "bit b (52 + i)" using arg_cong [OF e, of "\<lambda>w. bit w i"] by (simp add: bit_simps)
    qed
  next
    assume "\<forall>i < 11. bit b (52 + i)"
    then show "take_bit 11 (drop_bit 52 b) = mask 11" by (intro bit_word_eqI) (auto simp: bit_simps)
  qed
  finally show ?thesis .
qed

lemma or_not_finite: "\<not> fp_finite b \<Longrightarrow> \<not> fp_finite (b OR w)"
  by (simp add: fp_finite_def exp_nat_all_ones bit_simps)

lemma infinity_not_finite: "\<not> fp_finite (with_sign neg EXP_MASK)"
  by (cases neg) (simp_all add: with_sign_def fp_finite_def exp_nat_def)

lemma default_nan_not_finite: "\<not> fp_finite (default_nan (fpenv_new t))"
  by (simp add: fpenv_new_def Let_def fp_finite_def exp_nat_def)

lemma is_nan_class: "is_nan b \<longleftrightarrow> fp_class b = Class_Nan"
proof -
  have e: "b AND 0x7ff0000000000000 = 0x7ff0000000000000 \<longleftrightarrow> exp_nat b = 2047"
  proof -
    have m: "(0x7ff0000000000000 :: u64) = push_bit 52 (mask 11)" by (simp add: mask_eq_exp_minus_1)
    have "b AND push_bit 52 (mask 11) = push_bit 52 (mask 11) \<longleftrightarrow> (\<forall>i < 11. bit b (52 + i))"
    proof
      assume a: "b AND push_bit 52 (mask 11) = push_bit 52 (mask 11)"
      show "\<forall>i < 11. bit b (52 + i)"
      proof (intro allI impI)
        fix i :: nat assume "i < 11"
        then show "bit b (52 + i)" using arg_cong [OF a, of "\<lambda>w. bit w (52 + i)"] by (simp add: bit_simps)
      qed
    next
      assume a: "\<forall>i < 11. bit b (52 + i)"
      show "b AND push_bit 52 (mask 11) = push_bit 52 (mask 11)"
      proof (rule bit_word_eqI)
        fix n assume "n < LENGTH(64)"
        then show "bit (b AND push_bit 52 (mask 11)) n = bit (push_bit 52 (mask 11) :: u64) n"
          using a [rule_format, of "n - 52"] by (auto simp: bit_simps)
      qed
    qed
    then show ?thesis unfolding m exp_nat_all_ones .
  qed
  have n: "NOT (0x8000000000000000 OR 0x7ff0000000000000) = (push_bit 52 1 - 1 :: u64)" by code_simp
  have "b AND NOT (SIGN OR EXP_MASK) \<noteq> 0 \<longleftrightarrow> mant_nat b \<noteq> 0"
    unfolding n and_low_zero mant_nat_def ..
  then show ?thesis unfolding is_nan_def e by (simp add: fp_class_nat)
qed

lemma propagate_not_finite:
  assumes "fp_class a = Class_Nan \<or> fp_class b = Class_Nan"
  shows "\<not> fp_finite (fst (propagate H a b BINARY64 env))"
proof -
  have "BINARY64 \<noteq> BINARY32" by (simp add: BINARY64_def BINARY32_def)
  moreover have "\<not> fp_finite (if is_nan a then a else b)" using assms by (auto simp: is_nan_class class_finite)
  ultimately show ?thesis by (simp add: propagate_def Let_def or_not_finite)
qed

section \<open>A host in software\<close>

definition zero_host :: host_fpu where
  "zero_host = \<lparr>f64_add = \<lambda>_ _. 0, f64_sub = \<lambda>_ _. 0, f64_mul = \<lambda>_ _. 0, f64_div = \<lambda>_ _. 0,
     f64_as_f32_as_f64 = id, libm_sqrt = \<lambda>_. 0\<rparr>"

definition soft_env :: FpEnv where "soft_env = fpenv_new LinuxX64"

definition soft_host :: host_fpu where
  "soft_host = \<lparr>f64_add = \<lambda>a b. fst (fp_add zero_host a b BINARY64 soft_env),
     f64_sub = \<lambda>a b. fst (fp_sub zero_host a b BINARY64 soft_env),
     f64_mul = \<lambda>a b. fst (fp_mul zero_host a b BINARY64 soft_env),
     f64_div = \<lambda>a b. fst (fp_div zero_host a b BINARY64 soft_env),
     f64_as_f32_as_f64 = \<lambda>a. fst (fp_narrow zero_host a soft_env),
     libm_sqrt = \<lambda>a. fst (fp_sqrt zero_host a BINARY64 soft_env)\<rparr>"

lemma soft_env_nearest: "fp_round soft_env = Round_Nearest" by (simp add: soft_env_def fpenv_new_def Let_def)

lemma zero_pattern_value: "fp_finite (with_sign n 0)" "fval (with_sign n 0) = 0"
  using fval_fields [of 0 0 0 n] by (simp_all add: signed_real_def)

lemma no_fast: "nearest f 0 ex env = (None, env)"
  by (rule nearest_special) (use zero_pattern_value [of False] in \<open>simp add: with_sign_def\<close>)

lemma zero_never_fast:
  "nearest f (f64_add zero_host a b) ex env = (None, env)" "nearest f (f64_mul zero_host a b) ex env = (None, env)"
  "nearest f (f64_div zero_host a b) ex env = (None, env)" "nearest f (libm_sqrt zero_host a) ex env = (None, env)"
  by (simp_all add: zero_host_def no_fast)

lemma soft_nan: "\<not> fp_finite (default_nan soft_env)"
  unfolding soft_env_def by (rule default_nan_not_finite)

lemma rounded_host: "rounded soft_env BINARY64 n x res \<Longrightarrow> host_rounds x (fst res)"
  unfolding rounded_def host_rounds_def soft_env_nearest overflowed_def
  using infinity_not_finite by (auto simp: BINARY64_def soft_env_nearest Let_def simp del: rounds.simps)

lemma zero_host_rounds: "host_rounds 0 (with_sign n 0)"
  using zero_pattern_value [of n] rounds_self [OF zero_value, of Round_Nearest 53 "-1074"] zero_less_power_int [of "2::real" 1024]
  unfolding host_rounds_def quanta_64 by (intro exI [of _ 0]) (simp del: zero_less_power_int rounds.simps)

lemma flip_sign_bits:
  shows "exp_nat (b XOR SIGN) = exp_nat b" "mant_nat (b XOR SIGN) = mant_nat b" "negative (b XOR SIGN) \<longleftrightarrow> \<not> negative b"
proof -
  have sg: "(0x8000000000000000 :: u64) = push_bit 63 1" by simp
  have "take_bit 11 (drop_bit 52 (b XOR push_bit 63 1)) = take_bit 11 (drop_bit 52 b)"
    by (rule bit_word_eqI) (auto simp: bit_simps simp del: push_bit_of_1)
  then have "unat (take_bit 11 (drop_bit 52 (b XOR SIGN))) = unat (take_bit 11 (drop_bit 52 b))" by (simp only: sg)
  then show "exp_nat (b XOR SIGN) = exp_nat b"
    by (simp only: unsigned_take_bit_eq unat_drop_bit take_bit_nat_def exp_nat_def)
  have "take_bit 52 (b XOR push_bit 63 1) = take_bit 52 b"
    by (rule bit_word_eqI) (auto simp: bit_simps simp del: push_bit_of_1)
  then have "unat (take_bit 52 (b XOR SIGN)) = unat (take_bit 52 b)" by (simp only: sg)
  then show "mant_nat (b XOR SIGN) = mant_nat b" by (simp only: unsigned_take_bit_eq take_bit_nat_def mant_nat_def)
  show "negative (b XOR SIGN) \<longleftrightarrow> \<not> negative b"
    unfolding negative_def and_sign_iff unfolding sg by (simp add: bit_simps del: push_bit_of_1)
qed

lemma flip_sign_class: "fp_class (b XOR SIGN) = fp_class b"
  by (simp only: fp_class_nat flip_sign_bits)

lemma flip_sign_value: "fval (b XOR SIGN) = - fval b" "fp_finite (b XOR SIGN) \<longleftrightarrow> fp_finite b"
  unfolding fval_def fp_finite_def flip_sign_class flip_sign_bits signed_real_def by simp_all

lemma soft_add:
  assumes "fp_finite a" "fp_finite b" shows "host_rounds (fval a + fval b) (fst (fp_add zero_host a b BINARY64 soft_env))"
proof -
  note r = add_slow [OF fmt_ok_64 in_format_64 [OF assms(1)] in_format_64 [OF assms(2)] zero_never_fast(1) refl]
  show ?thesis
  proof (cases "fval a + fval b = 0")
    case True
    then show ?thesis using r zero_host_rounds by simp
  next
    case False
    then have "rounded soft_env BINARY64 (fval a + fval b < 0) (fval a + fval b) (fp_add zero_host a b BINARY64 soft_env)"
      using r by simp
    then show ?thesis by (rule rounded_host)
  qed
qed

lemma soft_add_special:
  assumes "\<not> fp_finite a \<or> \<not> fp_finite b" shows "\<not> fp_finite (fst (fp_add zero_host a b BINARY64 soft_env))"
proof -
  show ?thesis
    unfolding fp_add_def Let_def zero_never_fast
    using assms propagate_not_finite [of a b] soft_nan by (cases "fp_class a"; cases "fp_class b") (simp_all add: class_finite invalid_def)
qed

lemma soft_mul:
  assumes "fp_finite a" "fp_finite b" shows "host_rounds (fval a * fval b) (fst (fp_mul zero_host a b BINARY64 soft_env))"
proof -
  show ?thesis
    using zero_host_rounds rounded_host [OF mul_round [OF _ _ fmt_ok_64]]
    by (cases rule: finite_cases [OF assms(1)]; cases rule: finite_cases [OF assms(2)]) (simp_all add: fp_mul_def zero_never_fast Let_def)
qed

lemma soft_mul_special:
  assumes "\<not> fp_finite a \<or> \<not> fp_finite b" shows "\<not> fp_finite (fst (fp_mul zero_host a b BINARY64 soft_env))"
proof -
  show ?thesis
    unfolding fp_mul_def Let_def zero_never_fast using assms propagate_not_finite [of a b] soft_nan infinity_not_finite
    by (cases "fp_class a"; cases "fp_class b") (simp_all add: class_finite invalid_def)
qed

lemma soft_div:
  assumes "fp_finite a" "fp_finite b" "fval b \<noteq> 0" shows "host_rounds (fval a / fval b) (fst (fp_div zero_host a b BINARY64 soft_env))"
proof -
  obtain sb eb where cb: "fp_class b = Class_Finite sb eb" using finite_cases [OF assms(2)] assms(3) by metis
  show ?thesis
  proof (rule finite_cases [OF assms(1)])
    assume "fp_class a = Class_Zero" "fval a = 0"
    then show ?thesis using zero_host_rounds cb by (simp add: fp_div_def zero_never_fast Let_def)
  next
    fix sa ea assume ca: "fp_class a = Class_Finite sa ea"
    obtain na ja nb jb where nn: "normalized sa ea = (na, ja)" "normalized sb eb = (nb, jb)" by fastforce
    show ?thesis using rounded_host [OF div_round [OF ca cb fmt_ok_64 nn]] by (simp add: fp_div_def zero_never_fast ca cb nn Let_def)
  qed
qed

lemma soft_div_special:
  assumes "\<not> fp_finite a \<or> \<not> fp_finite b \<or> fval b = 0"
  shows "\<not> fp_finite (fst (fp_div zero_host a b BINARY64 soft_env)) \<or> fval (fst (fp_div zero_host a b BINARY64 soft_env)) = 0"
proof -
  have "(\<exists>s e. fp_class b = Class_Finite s e) \<longrightarrow> fp_class a = Class_Inf \<or> fp_class a = Class_Nan"
    using assms fval_nonzero [of b] by (auto simp: class_finite)
  then show ?thesis
    unfolding fp_div_def Let_def zero_never_fast using propagate_not_finite [of a b] soft_nan infinity_not_finite zero_pattern_value
    by (cases "fp_class a"; cases "fp_class b") (simp_all add: invalid_def)
qed

lemma soft_sqrt:
  assumes "fp_finite a" "0 \<le> fval a" shows "host_rounds (sqrt (fval a)) (fst (fp_sqrt zero_host a BINARY64 soft_env))"
proof (rule finite_cases [OF assms(1)])
  assume c: "fp_class a = Class_Zero" "fval a = 0"
  then show ?thesis using zero_bits [OF c(1)] zero_host_rounds [of "negative a"] by (simp add: fp_sqrt_def zero_never_fast Let_def)
next
  fix s e assume c: "fp_class a = Class_Finite s e" "fval a \<noteq> 0"
  have pos: "\<not> negative a" using fval_sign(2) [OF assms(1)] assms(2) c(2) by simp
  obtain na ja where nn: "normalized s e = (na, ja)" by fastforce
  obtain m j where m: "(m :: u128, j) = (if odd ja then (push_bit 73 (ucast na), ja - 73) else (push_bit 72 (ucast na), ja - 72))" by (metis surj_pair)
  obtain r ex where r: "isqrt zero_host m = (r, ex)" by fastforce
  have "fp_sqrt zero_host a BINARY64 soft_env = round_to False r (j sdiv 2) ex BINARY64 soft_env"
    unfolding fp_sqrt_def Let_def zero_never_fast c nn prod.case option.case Class.case m [symmetric] r using pos by simp
  then show ?thesis using rounded_host [OF sqrt_round [OF c(1) pos fmt_ok_64 nn m r]] by simp
qed

lemma soft_sqrt_special:
  assumes "\<not> fp_finite a \<or> fval a < 0" shows "\<not> fp_finite (fst (fp_sqrt zero_host a BINARY64 soft_env))"
proof -
  have "fp_class a = Class_Finite s e \<Longrightarrow> negative a" for s e
    using assms fval_sign(1) [of a] by (auto simp: class_finite)
  moreover have "fp_class a \<noteq> Class_Zero" using assms by (auto simp: class_zero)
  ultimately show ?thesis
    unfolding fp_sqrt_def Let_def zero_never_fast using propagate_not_finite [of a a] soft_nan
    by (cases "fp_class a") (simp_all add: class_finite invalid_def)
qed

lemma soft_sub:
  "fp_finite a \<Longrightarrow> fp_finite b \<Longrightarrow> host_rounds (fval a - fval b) (fst (fp_sub zero_host a b BINARY64 soft_env))"
  "\<not> fp_finite a \<or> \<not> fp_finite b \<Longrightarrow> \<not> fp_finite (fst (fp_sub zero_host a b BINARY64 soft_env))"
proof -
  show "host_rounds (fval a - fval b) (fst (fp_sub zero_host a b BINARY64 soft_env))" if f: "fp_finite a" "fp_finite b"
  proof -
    have "\<not> is_nan b" using f(2) by (simp add: is_nan_class class_finite)
    then show ?thesis using soft_add [of a "b XOR SIGN"] f flip_sign_value [of b] by (simp add: fp_sub_def)
  qed
  show "\<not> fp_finite (fst (fp_sub zero_host a b BINARY64 soft_env))" if "\<not> fp_finite a \<or> \<not> fp_finite b"
    using soft_add_special [of a b] soft_add_special [of a "b XOR SIGN"] that flip_sign_value [of b] by (simp add: fp_sub_def)
qed

interpretation soft: ieee_host soft_host
  by unfold_locales
    (simp_all add: soft_host_def soft_add soft_add_special soft_sub soft_mul soft_mul_special soft_div soft_sqrt soft_sqrt_special,
     use soft_div_special in blast)

end
