(* ===== verification/Fenv_Ops.thy ===== *)
theory Fenv_Ops
  imports Fenv_Soft
begin

text \<open>
  The remaining arithmetic of the environment: subtraction and the fused multiply-add over the host,
  and rounding to an integral value.
\<close>

section \<open>Subtraction and the fused multiply-add\<close>

lemma in_format_flip: "in_format f (b XOR SIGN) \<longleftrightarrow> in_format f b"
  by (simp add: in_format_def flip_sign_value)

lemma in_format_zero:
  assumes "fmt_ok f" shows "in_format f (with_sign n 0)"
proof -
  have "0 \<in> fp_values (fmt_p f) (quanta f)" using zero_value [of "fmt_p f" "emin f - (int (fmt_p f) - 1)"] by (simp add: quanta_def)
  moreover have "0 < (2::real) powi (emax f + 1)" by simp
  ultimately show ?thesis using zero_pattern_value [of n] unfolding in_format_def by simp
qed

lemma product_sum:
  assumes f: "fmt_ok f" and a: "fp_class a = Class_Finite sa ea" and b: "fp_class b = Class_Finite sb eb"
    and c: "fp_class c = Class_Finite sc ec" and x: "x = fval a * fval b + fval c"
  shows "if x = 0 then fp_sum (negative a \<noteq> negative b, ucast sa * ucast sb, ea + eb) (negative c, ucast sc, ec) f env = (zero_sum env, env)
    else rounded env f (x < 0) x (fp_sum (negative a \<noteq> negative b, ucast sa * ucast sb, ea + eb) (negative c, ucast sc, ec) f env)"
proof -
  note t = product_term [OF a b] and wc = wide_significand [OF c]
  have "lead (ucast sa * ucast sb :: u128) < 106" by (rule lead_lt [OF t(2,4)])
  then have l: "lead (ucast sa * ucast sb :: u128) \<le> 105" by simp
  have p: "fval a * fval b = signed_real (negative a \<noteq> negative b) (real (unat (ucast sa * ucast sb :: u128)) * 2 powi (ea + eb))"
    using fval_mult [OF finite_class(6) [OF a] finite_class(6) [OF b]] t(3) by (simp only: represents_def if_False)
  have q: "fval c = signed_real (negative c) (real (unat (ucast sc :: u128)) * 2 powi ec)"
    using finite_class(5) [OF c] wc(1) by (simp only:)
  show ?thesis by (rule fp_sum_correct [OF f t(2) l wc(2) term_of_class [OF c]]) (simp only: x p q)
qed

context ieee_host
begin

theorem sub_correct:
  assumes f: "fmt_ok f" and a: "in_format f a" and b: "in_format f b" and x: "x = fval a - fval b"
  shows "if x = 0 then fp_sub H a b f env = (with_sign (zero_sign env (negative a) (\<not> negative b)) 0, env)
    else rounded env f (x < 0) x (fp_sub H a b f env)"
proof -
  have "\<not> is_nan b" using b by (simp add: in_format_def is_nan_class class_finite)
  then have s: "fp_sub H a b f env = fp_add H a (b XOR SIGN) f env" by (simp add: fp_sub_def)
  have "x = fval a + fval (b XOR SIGN)" unfolding x flip_sign_value by simp
  from add_correct [OF f a _ this, of env] show ?thesis using b unfolding s in_format_flip flip_sign_bits by simp
qed

theorem fma_correct:
  assumes f: "fmt_ok f" and a: "fp_finite a" and b: "fp_finite b" and c: "in_format f c" and x: "x = fval a * fval b + fval c"
  shows "if x = 0 then fp_fma H a b c f env = (with_sign (zero_sign env (negative a \<noteq> negative b) (negative c)) 0, env)
    else rounded env f (x < 0) x (fp_fma H a b c f env)"
proof -
  have fc: "fp_finite c" using c by (simp add: in_format_def)
  define np where "np \<longleftrightarrow> negative a \<noteq> negative b"
  show ?thesis
  proof (cases "fval a * fval b = 0")
    case True
    then have z: "fp_class a = Class_Zero \<or> fp_class b = Class_Zero" using a b by (auto simp: class_zero)
    then have fma: "fp_fma H a b c f env = fp_add H (with_sign np 0) c f env"
      using a b fc unfolding class_finite
      by (cases "fp_class a"; cases "fp_class b"; cases "fp_class c") (auto simp: fp_fma_def Let_def np_def)
    have x': "x = fval (with_sign np 0) + fval c" using True by (simp add: x zero_pattern_value)
    have ng: "negative (with_sign np 0) = np" by (rule negative_with_sign) simp
    show ?thesis unfolding fma np_def [symmetric] using add_correct [OF f in_format_zero [OF f] c x', of env] unfolding ng .
  next
    case False
    then obtain sa ea sb eb where ca: "fp_class a = Class_Finite sa ea" and cb: "fp_class b = Class_Finite sb eb"
      using finite_cases [OF a] finite_cases [OF b] by (metis mult_eq_0_iff)
    show ?thesis
    proof (rule finite_cases [OF fc])
      assume cc: "fp_class c = Class_Zero" "fval c = 0"
      have "fp_fma H a b c f env = round_to np (ucast sa * ucast sb) (ea + eb) False f env" by (simp add: fp_fma_def ca cb cc Let_def np_def)
      moreover have "(x < 0) = np" using signed_nonzero [OF fval_mult [OF a b] False] cc by (simp add: x np_def)
      ultimately show ?thesis using mul_round [OF ca cb f, of env] False cc by (simp add: x np_def)
    next
      fix sc ec assume cc: "fp_class c = Class_Finite sc ec" "fval c \<noteq> 0"
      have m: "fp_fma H a b c f env = fp_sum (np, ucast sa * ucast sb, ea + eb) (negative c, ucast sc, ec) f env"
        by (simp add: fp_fma_def ca cb cc Let_def np_def)
      have "np \<noteq> negative c" if "x = 0"
        using that signed_nonzero [OF fval_mult [OF a b] False] negative_iff [OF fc cc(2)] cc(2) unfolding x np_def by linarith
      then have "zero_sum env = with_sign (zero_sign env np (negative c)) 0" if "x = 0" using that by (simp add: zero_sum_def zero_sign_def)
      then show ?thesis using product_sum [OF f ca cb cc(1) x, of env, folded np_def] unfolding np_def [symmetric] m
        by (cases "x = 0") simp_all
    qed
  qed
qed

end

section \<open>Integral values\<close>

text \<open>Rounding to an integral value is rounding over the exponents from zero up.\<close>

lemma integral_cut:
  assumes c: "fp_class a = Class_Finite s e" "e < 0" and sr: "shift_round (ucast s) (- e) False = (kept, half, rest)"
  shows "last_place 53 {0..} 0 \<bar>fval a\<bar>" "cut_at \<bar>fval a\<bar> (2 powi 0) (unat kept) half rest" "unat kept < 2 ^ 52"
proof -
  note f = finite_class [OF c(1)] and w = wide_significand [OF c(1)]
  have "\<bar>fval a\<bar> = real (unat s) * 2 powi e" using w by (simp add: represents_def)
  moreover have "real (unat s) * 2 powi e \<le> real (unat s) * 2 powi (-1)" using c(2) by (intro mult_left_mono power_int_increasing) simp_all
  moreover have "real (unat s) < 2 ^ 53" using f(2) by simp
  ultimately have lt: "\<bar>fval a\<bar> < 2 ^ 52" by (simp add: power_int_minus)
  show "last_place 53 {0..} 0 \<bar>fval a\<bar>" using lt fval_nonzero [OF c(1)] by (simp add: last_place_def)
  show cut: "cut_at \<bar>fval a\<bar> (2 powi 0) (unat kept) half rest"
    using shift_round_cut [OF sr w(3)] c(2) by simp
  then have "real (unat kept) < 2 ^ 52" using lt by (simp add: cut_at_def)
  then show "unat kept < 2 ^ 52" by simp
qed

theorem round_integral_correct:
  assumes a: "fp_finite a" and r: "round_integral H a raise env = (b, env')"
  shows "rounds (fp_round env) 53 {0..} (fval a) (fval b)" "fp_finite b" "negative b = negative a"
    "env' = (if raise \<and> fval b \<noteq> fval a then raise_flags INEXACT env else env)"
proof -
  have self: "rounds (fp_round env) 53 {0..} (fval a) (fval a)" if "fp_class a = Class_Finite s e" "0 \<le> e" for s e
  proof (rule rounds_self)
    have e: "\<bar>fval a\<bar> = of_int (int (unat s)) * 2 powi e" using wide_significand [OF that(1)] by (simp add: represents_def)
    then have "multiple e \<bar>fval a\<bar>" unfolding multiple_def by (rule exI)
    then have "\<bar>fval a\<bar> \<in> fp_values 53 {0..}"
      using value_bound [of "int (unat s)" 53 e] finite_class(2) [OF that(1)] e by (intro short_multiple [OF _ that(2)]) simp_all
    then show "fval a \<in> fp_values 53 {0..}" by (simp only: abs_value)
  qed
  have "rounds (fp_round env) 53 {0..} (fval a) (fval b) \<and> fp_finite b \<and> negative b = negative a \<and>
    env' = (if raise \<and> fval b \<noteq> fval a then raise_flags INEXACT env else env)"
  proof (cases "\<exists>s e. fp_class a = Class_Finite s e \<and> e < 0")
    case False
    then have "b = a" "env' = env" using r a by (auto simp: round_integral_def class_finite split: Class.splits)
    moreover have "rounds (fp_round env) 53 {0..} (fval a) (fval a)"
      using self False rounds_self [OF zero_value] a by (metis class_zero finite_cases not_le)
    ultimately show ?thesis using a by simp
  next
    case True
    then obtain s e where c: "fp_class a = Class_Finite s e" "e < 0" by blast
    obtain kept half rest where sr: "shift_round (ucast s) (- e) False = (kept, half, rest)" using prod_cases3 by blast
    note i = integral_cut [OF c sr]
    let ?up = "round_up env (negative a) kept half rest"
    have be: "b = fp_pack (negative a) (kept + of_bool ?up) 0" "env' = (if raise \<and> (half \<or> rest) then raise_flags INEXACT env else env)"
      using r by (auto simp: round_integral_def c sr)
    have k: "unat kept < 2 ^ 53" using i(3) by simp
    have u: "unat (kept + of_bool ?up) = unat kept + of_bool ?up" by (rule word_up(1) [OF k order_refl])
    define K where "K = kept + of_bool ?up"
    have K: "unat K < 2 ^ 53" unfolding K_def u using i(3) by simp
    have "K \<noteq> 0 \<Longrightarrow> 0 + int (lead K) \<le> 1023" using lead_lt [OF _ K] by force
    note p = fp_pack_value [OF K _ this, of "negative a"]
    have v: "fval b = signed_real (negative a) (real (unat kept + of_bool ?up) * 2 powi 0)"
      using p(3) be(1) by (simp add: K_def u)
    have "rounds (fp_round env) 53 {0..} (signed_real (negative a) \<bar>fval a\<bar>) (fval b)"
      unfolding v by (rule round_step [OF i(1,2)])
    moreover have "fval b = signed_real (negative a) \<bar>fval a\<bar> \<longleftrightarrow> \<not> half \<and> \<not> rest"
      unfolding v signed_real_eq round_up_away by (rule step_exact [OF i(2)]) simp
    ultimately show ?thesis using p(1,2) be fval_signed [OF a] by (simp add: K_def del: rounds.simps)
  qed
  then show "rounds (fp_round env) 53 {0..} (fval a) (fval b)" "fp_finite b" "negative b = negative a"
    "env' = (if raise \<and> fval b \<noteq> fval a then raise_flags INEXACT env else env)" by simp_all
qed

end
