(* ===== verification/Fenv_Convert.thy ===== *)
theory Fenv_Convert
  imports Fenv_Ops Vm_Access
begin

text \<open>
  Conversions to integers, and the encodings of \<^verbatim>\<open>fenv.h\<close>: the masks of flags, the rounding
  directions and the images of \<open>fenv_t\<close> on each target.
\<close>

declare of_nat_unat [simp del]

section \<open>Conversions to integers\<close>

text \<open>\<open>toward_zero x\<close> is the integral part of \<open>x\<close>.\<close>

definition toward_zero :: "real \<Rightarrow> int" where
  "toward_zero x = (if x < 0 then \<lceil>x\<rceil> else \<lfloor>x\<rfloor>)"

definition flag_unless_exact :: "bool \<Rightarrow> FpEnv \<Rightarrow> FpEnv" where
  "flag_unless_exact exact env = (if exact then env else raise_flags INEXACT env)"

lemma toward_zero_signed: "0 \<le> y \<Longrightarrow> toward_zero (signed_real n y) = (if n then - \<lfloor>y\<rfloor> else \<lfloor>y\<rfloor>)"
  by (auto simp: toward_zero_def signed_real_def ceiling_minus)

lemma toward_zero_of_int [simp]: "toward_zero (of_int k) = k"
  by (simp add: toward_zero_def)

lemma cut_floor:
  assumes "cut_at y 1 k half rest"
  shows "\<lfloor>y\<rfloor> = int k" "half \<or> rest \<longleftrightarrow> y \<noteq> real k"
proof -
  have "real k \<le> y" "y < real k + 1" using assms by (simp_all add: cut_at_def)
  then show "\<lfloor>y\<rfloor> = int k" by linarith
  show "half \<or> rest \<longleftrightarrow> y \<noteq> real k" using assms by (auto simp: cut_at_def)
qed

lemma integral_value:
  assumes "fp_class a = Class_Finite s e" "0 \<le> e"
  shows "fval a = of_int (if negative a then - (uint s * 2 ^ nat e) else uint s * 2 ^ nat e)"
proof -
  have "real (unat s) = of_int (uint s)" by (simp add: uint_nat)
  then show ?thesis using finite_class(5) [OF assms(1)] assms(2) by (simp add: signed_real_def power_int_def)
qed

lemma fit_beyond:
  assumes "2 ^ 64 \<le> \<bar>t\<bar>" "- (2 ^ 63) \<le> lo" "hi < 2 ^ 64"
  shows "fit a (Some t) lo hi oor env = fit a None lo hi oor env"
  using assms by (auto simp: fit_def)

lemma large_significand:
  assumes "fp_class a = Class_Finite s e" "64 \<le> e"
  shows "2 ^ 64 \<le> uint s * 2 ^ nat e"
proof -
  have "(2::int) ^ 64 \<le> 2 ^ nat e" using assms(2) by (intro power_increasing) simp_all
  moreover have "1 \<le> uint s" using finite_class(1) [OF assms(1)] by (simp add: uint_nat)
  ultimately show ?thesis using mult_mono [of 1 "uint s" "2 ^ 64" "2 ^ nat e"] by simp
qed

theorem float_to_int_correct:
  assumes a: "fp_finite a" and t: "t = toward_zero (fval a)"
    and b: "(lo, hi) = (if is_signed then (- (2 ^ 63), 2 ^ 63 - 1) else (0, 2 ^ 64 - 1))"
  shows "float_to_int a is_signed env =
    fit a (Some t) lo hi (convert_out_of_range env) (flag_unless_exact (of_int t = fval a) env)"
proof (rule finite_cases [OF a])
  assume "fp_class a = Class_Zero" "fval a = 0"
  then show ?thesis using b [symmetric] by (simp add: float_to_int_def t toward_zero_def flag_unless_exact_def)
next
  fix s e assume c: "fp_class a = Class_Finite s e" "fval a \<noteq> 0"
  show ?thesis
  proof (cases "0 \<le> e")
    case True
    note v = integral_value [OF c(1) True]
    define k where "k = (if negative a then - (uint s * 2 ^ nat e) else uint s * 2 ^ nat e)"
    have k: "t = k" "of_int t = fval a" using v by (simp_all only: t k_def toward_zero_of_int)
    have far: "fit a (Some k) lo hi oor env' = fit a None lo hi oor env'" if "\<not> e < 64" for oor env'
      using large_significand [OF c(1)] that b by (intro fit_beyond) (auto simp: k_def split: if_splits)
    have "float_to_int a is_signed env = fit a (if e < 64 then Some k else None) lo hi (convert_out_of_range env) env"
      using c(1) True b [symmetric] by (simp add: float_to_int_def k_def)
    then show ?thesis using k far by (simp add: flag_unless_exact_def)
  next
    case False
    obtain kept half rest where sr: "shift_round (ucast s) (- e) False = (kept, half, rest)" using prod_cases3 by blast
    have "cut_at \<bar>fval a\<bar> 1 (unat kept) half rest" using integral_cut(2) [OF c(1) _ sr] False by simp
    note w = cut_floor [OF this]
    have tk: "t = (if negative a then - uint kept else uint kept)"
      unfolding t using toward_zero_signed [of "\<bar>fval a\<bar>" "negative a"] fval_signed [OF a] w(1) by (simp add: uint_nat)
    have "fval a = of_int t \<longleftrightarrow> \<bar>fval a\<bar> = real (unat kept)"
    proof -
      have "of_int t = signed_real (negative a) (real (unat kept))" by (simp add: tk signed_real_def uint_nat)
      then show ?thesis using fval_signed [OF a] by (metis signed_real_eq(1))
    qed
    then have x: "(of_int t = fval a) \<longleftrightarrow> \<not> (half \<or> rest)" using w(2) by auto
    have "float_to_int a is_signed env = fit a (Some t) lo hi (convert_out_of_range env) (if half \<or> rest then raise_flags INEXACT env else env)"
      using c(1) False sr b [symmetric] by (simp add: float_to_int_def tk)
    then show ?thesis using x by (simp add: flag_unless_exact_def)
  qed
qed


text \<open>\<open>lrint\<close> rounds in the current direction and then converts.\<close>

lemma rounds_integral: "rounds d p {0..} x r \<Longrightarrow> \<exists>k. r = of_int k"
proof -
  assume "rounds d p {0..} x r"
  then have "r \<in> fp_values p {0..}" by (cases d) simp_all
  then obtain m q where "r = of_int m * 2 powi q" "0 \<le> q" by (auto simp: fp_values_def)
  then have "r = of_int (m * 2 ^ nat q)" by (simp add: power_int_def)
  then show ?thesis by (rule exI)
qed

lemma integral_magnitude:
  assumes c: "fp_class r = Class_Finite s e" and t: "fval r = of_int t"
  defines "m \<equiv> uint (if e < 0 then drop_bit (nat (- e)) s else s) * 2 ^ nat (max e 0)"
  shows "t = (if negative r then - m else m)"
proof (cases "0 \<le> e")
  case True
  then show ?thesis using integral_value [OF c True] t by (simp add: m_def)
next
  case False
  note f = finite_class [OF c]
  define k where "k = nat (- e)"
  have "real (unat s) * 2 powi e = \<bar>of_int t\<bar>" using arg_cong [OF f(5), of abs] t by simp
  moreover have "(2::real) powi e * 2 ^ k = 1" using False by (simp add: k_def power_int_def power_mult_distrib [symmetric])
  then have "real (unat s) = real (unat s) * 2 powi e * 2 ^ k" by (simp only: mult.assoc mult_1_right)
  ultimately have "real (unat s) = real (nat \<bar>t\<bar> * 2 ^ k)" by simp
  then have "unat s = nat \<bar>t\<bar> * 2 ^ k" by (simp only: of_nat_eq_iff)
  then have "unat (drop_bit k s) = nat \<bar>t\<bar>" by (simp add: unat_drop_bit drop_bit_nat_def)
  then have m: "m = \<bar>t\<bar>" using False by (simp add: m_def k_def uint_nat)
  have "of_int t \<noteq> (0 :: real) \<Longrightarrow> (t < 0) = negative r" using negative_iff [OF f(6)] t by simp
  then show ?thesis using m by (cases "t = 0") auto
qed

theorem lrint_correct:
  assumes a: "fp_finite a" and n: "0 < n" "n \<le> 64"
  obtains t where "rounds (fp_round env) 53 {0..} (fval a) (of_int t)"
    "fval (fst (round_integral H a True env)) = of_int t"
    "lrint H a n env = fit a (Some t) (- (2 ^ (n - 1))) (2 ^ (n - 1) - 1) (lrint_out_of_range env)
      (flag_unless_exact (of_int t = fval a) env)"
proof -
  obtain r env1 where ri: "round_integral H a True env = (r, env1)" by (cases "round_integral H a True env")
  note i = round_integral_correct [OF a ri]
  obtain t where t: "fval r = of_int t" using rounds_integral [OF i(1)] by blast
  have env1: "env1 = flag_unless_exact (of_int t = fval a) env" using i(4) t by (simp add: flag_unless_exact_def)
  let ?hi = "2 ^ (n - 1) - 1 :: int"
  have hi: "(2::int) ^ (n - 1) \<le> 2 ^ 63" using n by (intro power_increasing) simp_all
  have "lrint H a n env = fit a (Some t) (- ?hi - 1) ?hi (lrint_out_of_range env) env1"
  proof (rule finite_cases [OF i(2)])
    assume "fp_class r = Class_Zero" "fval r = 0"
    then show ?thesis using t by (simp add: lrint_def ri Let_def)
  next
    fix s e assume c: "fp_class r = Class_Finite s e" "fval r \<noteq> 0"
    note m = integral_magnitude [OF c(1) t]
    show ?thesis
    proof (cases "e < 64")
      case True
      then show ?thesis using c(1) m by (simp add: lrint_def ri Let_def)
    next
      case False
      then have "2 ^ 64 \<le> \<bar>t\<bar>" using m large_significand [OF c(1)] by auto
      then have "fit a (Some t) (- ?hi - 1) ?hi oor env1 = fit a None (- ?hi - 1) ?hi oor env1" for oor
        by (rule fit_beyond) (use hi in simp_all)
      then show ?thesis using False c(1) by (simp add: lrint_def ri Let_def)
    qed
  qed
  with i(1) t env1 ri show ?thesis by (intro that) simp_all
qed

section \<open>Images of the environment\<close>

definition env_fields :: "Target \<Rightarrow> Round \<Rightarrow> u8 \<Rightarrow> FpEnv" where
  "env_fields t r k = (fpenv_new t)\<lparr>fp_round := r, fp_flags := k\<rparr>"

lemma env_fields_sel [simp]:
  "fp_target (env_fields t r k) = t" "fp_round (env_fields t r k) = r" "fp_flags (env_fields t r k) = k"
  by (simp_all add: env_fields_def fpenv_new_def Let_def)

lemma image_fields: "env_image env = env_image (env_fields (fp_target env) (fp_round env) (fp_flags env))"
  by (simp add: env_image_def get_round_def fe_test_def flag_macros_def round_macros_def Let_def)

lemma byte_cases:
  assumes "(k :: u8) < 32"
  obtains j where "k = of_nat j" "j \<in> set [0..<32]"
proof -
  have "unat k < 32" using assms by (simp add: word_less_nat_alt)
  then show ?thesis by (intro that [OF word_of_unat [OF refl]]) simp
qed

lemma take_to_le_bytes: "n \<le> m \<Longrightarrow> take n (to_le_bytes m x) = to_le_bytes n x"
  by (simp add: to_le_bytes_def take_map)

lemma to_le_bytes_ucast: "8 * n \<le> LENGTH('b) \<Longrightarrow> to_le_bytes n (ucast (x :: 'a::len word) :: 'b::len word) = to_le_bytes n x"
  by (auto simp: to_le_bytes_def bit_simps intro!: bit_word_eqI)

lemma from_le_bytes_padded: "from_le_bytes (bs @ replicate m 0) = from_le_bytes bs"
proof (induction bs)
  case Nil
  show ?case by (induction m) (simp_all add: from_le_bytes_def)
qed (simp add: from_le_bytes_Cons)

lemma image_word_skip: "length xs \<le> i \<Longrightarrow> image_word (xs @ ys) i n = image_word ys (i - length xs) n"
  by (simp add: image_word_def)

lemma image_word_here: "n \<le> m \<Longrightarrow> image_word (to_le_bytes m x @ ys) 0 n = from_le_bytes (to_le_bytes n x)"
  by (simp add: image_word_def take_to_le_bytes from_le_bytes_padded)

lemma image_word_last: "n \<le> m \<Longrightarrow> image_word (to_le_bytes m x) 0 n = from_le_bytes (to_le_bytes n x)"
  using image_word_here [of n m x "[]"] by simp

lemma whole_word: "take_bit 32 (x :: i32) = x"
  by (rule take_bit_word_eq_self) simp

lemmas image_words = whole_word image_word_skip image_word_here image_word_last to_le_bytes_ucast from_to_le_bytes

text \<open>The two words an image gives back: the direction in its target's bits, and the flags.\<close>

lemma control_word: "(0x37f OR ucast (r :: i32) :: u16) = ucast (0x37f OR r)"
  by (rule bit_word_eqI) (auto simp: bit_simps)

lemma or_take_bit: "take_bit n x OR ((c OR d) OR x) = x OR (c OR d :: 'a::len word)"
  by (rule bit_word_eqI) (auto simp: bit_simps)

lemma image_x64:
  fixes r k :: i32
  defines "img \<equiv> to_le_bytes 2 (0x037f OR ucast r :: u16) @ replicate 2 0 @ to_le_bytes 2 (ucast k :: u16) @ replicate 2 0 @
    to_le_bytes 2 (0xffff :: u16) @ replicate 18 0 @ to_le_bytes 4 (0x1f80 OR push_bit 3 r OR k)"
  shows "image_word img 0 2 = take_bit 16 (0x37f OR r)" "image_word img 4 2 OR image_word img 28 4 = k OR (0x1f80 OR push_bit 3 r)"
  unfolding img_def control_word by (simp_all add: image_words or_take_bit [simplified or.assoc] or.assoc del: take_bit_or)

definition image_round :: "FpEnv \<Rightarrow> i32" where
  "image_round env =
     (case fp_target env of
        LinuxX64 \<Rightarrow> take_bit 16 (0x37f OR get_round env) AND 0xc00
      | WindowsX64 \<Rightarrow> 0x3f00003f OR get_round env
      | WindowsAarch64 \<Rightarrow> 0x3f OR get_round env
      | _ \<Rightarrow> get_round env)"

definition image_flags :: "FpEnv \<Rightarrow> i32" where
  "image_flags env =
     fe_test env (- 1) OR (if fp_target env = LinuxX64 then 0x1f80 OR push_bit 3 (get_round env) else 0)"

lemma image_parts:
  assumes "fp_target env' = fp_target env"
  shows "set_env_image (env_image env) env' =
    (let dirs = round_macros env';
         pick = (case position (\<lambda>m. m = image_round env AND (dirs ! 3)) dirs of Some i \<Rightarrow> i | None \<Rightarrow> 0)
     in (snd (set_round (dirs ! pick) env'))\<lparr>fp_flags := flags_of env' (image_flags env)\<rparr>)"
proof (cases "fp_target env")
  case LinuxX64
  then show ?thesis using assms
    by (simp only: env_image_def set_env_image_def image_round_def image_flags_def Target.case prod.case Let_def image_x64 simp_thms if_True)
qed (use assms in \<open>simp_all add: env_image_def set_env_image_def image_words image_round_def image_flags_def\<close>)

lemma flags_of_or:
  assumes "\<forall>i < 5. c AND flag_macros env ! i = 0"
  shows "flags_of env (x OR c) = flags_of env x"
proof -
  have "(x OR c) AND flag_macros env ! i = x AND flag_macros env ! i" if "i < 5" for i
    using assms that by (simp add: bit.conj_disj_distrib2)
  then have "filter (\<lambda>i. (x OR c) AND flag_macros env ! i \<noteq> 0) [0..<5] = filter (\<lambda>i. x AND flag_macros env ! i \<noteq> 0) [0..<5]"
    by (intro filter_cong) simp_all
  then show ?thesis by (simp only: flags_of_def)
qed

lemma flags_back_all:
  "\<forall>k \<in> set [0..<32]. flags_of (env_fields t r 0) (fe_test (env_fields t r (of_nat k)) (- 1)) = of_nat k"
  by (cases t) (simp_all add: flags_of_def fe_test_def flag_macros_def upt_rec)


lemma flags_back:
  assumes "k < 32"
  shows "flags_of (env_fields t d' k') (image_flags (env_fields t d k)) = k"
proof -
  have m: "flag_macros (env_fields t d' k') = flag_macros (env_fields t d 0)" by (simp add: flag_macros_def)
  have "flags_of (env_fields t d' k') (image_flags (env_fields t d k)) = flags_of (env_fields t d' k') (fe_test (env_fields t d k) (- 1))"
    unfolding image_flags_def
    by (rule flags_of_or) (cases t; cases d; simp add: flag_macros_def get_round_def round_macros_def All_less_Suc numeral_nat)
  also have "\<dots> = flags_of (env_fields t d 0) (fe_test (env_fields t d k) (- 1))" unfolding flags_of_def m ..
  also have "\<dots> = k" by (rule byte_cases [OF assms]) (use flags_back_all [of t d] in blast)
  finally show ?thesis .
qed

lemma round_back:
  "(let dirs = round_macros (env_fields t d' k');
        pick = (case position (\<lambda>m. m = image_round (env_fields t d k) AND (dirs ! 3)) dirs of Some i \<Rightarrow> i | None \<Rightarrow> 0)
    in position (\<lambda>m. m = dirs ! pick) dirs) = Some (round_index d)"
  by (cases t; cases d) (simp_all add: image_round_def get_round_def round_macros_def)

lemma same_macros:
  assumes "fp_target env' = t"
  shows "round_macros env' = round_macros (env_fields t d k)" "flags_of env' = flags_of (env_fields t d k)"
  using assms by (auto simp: round_macros_def flags_of_def flag_macros_def fun_eq_iff)

lemma round_of_index: "[Round_Nearest, Round_Up, Round_Down, Round_Zero] ! round_index d = d"
  by (cases d) simp_all

theorem env_image_back:
  assumes k: "fp_flags env < 32" and t: "fp_target env' = fp_target env"
  shows "set_env_image (env_image env) env' = env'\<lparr>fp_round := fp_round env, fp_flags := fp_flags env\<rparr>"
proof -
  define e where "e = env_fields (fp_target env) (fp_round env) (fp_flags env)"
  have i: "env_image env = env_image e" using image_fields by (simp add: e_def)
  have te: "fp_target env' = fp_target e" using t by (simp add: e_def)
  note r = round_back [of "fp_target env" Round_Nearest 0 "fp_round env" "fp_flags env", folded same_macros [OF t] e_def]
  have f: "flags_of env' (image_flags e) = fp_flags env"
    unfolding e_def same_macros(2) [OF t, of Round_Nearest 0] by (rule flags_back [OF k])
  show ?thesis using r unfolding i image_parts [OF te] f by (simp add: Let_def set_round_def round_of_index)
qed

theorem round_macro_back: "set_round (get_round env) env = (True, env)"
proof -
  have "position (\<lambda>m. m = round_macros env ! round_index (fp_round env)) (round_macros env) = Some (round_index (fp_round env))"
    by (cases "fp_target env"; cases "fp_round env") (simp_all add: round_macros_def)
  then show ?thesis by (simp add: set_round_def get_round_def round_of_index)
qed

end
