(* ===== verification/Fenv_Flags.thy ===== *)
theory Fenv_Flags
  imports Fenv_Convert
begin

text \<open>
  The flags of the environment are sticky: an operation only raises flags, keeps the rounding
  direction, and never leaves the five flag bits.
\<close>

definition raises :: "FpEnv \<Rightarrow> FpEnv \<Rightarrow> bool" where
  "raises env env' \<longleftrightarrow> (\<exists>k < 32. env' = raise_flags k env)"

lemma raises_refl [simp]: "raises env env"
  unfolding raises_def by (intro exI [of _ 0]) simp

lemma five_bits_or: "(j :: u8) < 32 \<Longrightarrow> k < 32 \<Longrightarrow> j OR k < 32"
  using OR_upper [of "uint j" 5 "uint k"] by (simp add: word_less_def uint_or)

lemma raises_flags [simp]: "raises env env' \<Longrightarrow> k < 32 \<Longrightarrow> raises env (raise_flags k env')"
  unfolding raises_def by (metis five_bits_or raise_flags_twice)

lemma raises_if: "raises env (if b then e else e') \<longleftrightarrow> (if b then raises env e else raises env e')"
  by simp

lemma raises_sticky:
  assumes "raises env env'"
  shows "fp_round env' = fp_round env" "fp_target env' = fp_target env" "fp_flags env' AND fp_flags env = fp_flags env"
    "fp_flags env < 32 \<Longrightarrow> fp_flags env' < 32"
proof -
  have "(x OR k) AND x = x" for x k :: u8 by (rule bit_word_eqI) (auto simp: bit_simps)
  then show "fp_round env' = fp_round env" "fp_target env' = fp_target env" "fp_flags env' AND fp_flags env = fp_flags env"
    "fp_flags env < 32 \<Longrightarrow> fp_flags env' < 32"
    using assms by (auto simp: raises_def raise_flags_def five_bits_or)
qed

lemma round_to_raises [simp]: "raises env (snd (round_to neg sig ex st f env))"
proof -
  have "raises env (if b then if c then raise_flags UNDERFLOW (raise_flags INEXACT env) else raise_flags INEXACT env else env)" for b c
    by simp
  then show ?thesis unfolding round_to_def Let_def case_prod_beta if_distrib [of snd] snd_conv by (auto intro!: raises_flags)
qed

lemma special_raises [simp]: "raises env (snd (invalid env))" "raises env (snd (propagate H a b f env))"
  by (simp_all add: invalid_def propagate_def Let_def)

lemma nearest_raises: "nearest f r ex env = (o', env') \<Longrightarrow> raises env env'"
  by (auto simp: nearest_def Let_def)

lemma sum_raises [simp]: "raises env (snd (fp_sum a b f env))"
  by (simp add: fp_sum_def Let_def split: prod.splits)

lemma add_raises [simp]: "raises env (snd (fp_add H a b f env))"
  by (cases "fp_class a"; cases "fp_class b") (auto simp: fp_add_def Let_def dest: nearest_raises split: prod.splits option.splits)

lemma sub_raises [simp]: "raises env (snd (fp_sub H a b f env))"
  by (simp add: fp_sub_def)

lemma mul_raises [simp]: "raises env (snd (fp_mul H a b f env))"
  by (cases "fp_class a"; cases "fp_class b") (auto simp: fp_mul_def Let_def dest: nearest_raises split: prod.splits option.splits)

lemma div_raises [simp]: "raises env (snd (fp_div H a b f env))"
  by (cases "fp_class a"; cases "fp_class b") (auto simp: fp_div_def Let_def dest: nearest_raises split: prod.splits option.splits)

lemma sqrt_raises [simp]: "raises env (snd (fp_sqrt H a f env))"
  by (cases "fp_class a") (auto simp: fp_sqrt_def Let_def dest: nearest_raises split: prod.splits option.splits)

lemma fma_raises [simp]: "raises env (snd (fp_fma H a b c f env))"
  by (cases "fp_class a"; cases "fp_class b"; cases "fp_class c") (simp_all add: fp_fma_def Let_def)

lemma narrow_raises [simp]: "raises env (snd (fp_narrow H a env))"
  by (cases "fp_class a") (simp_all add: fp_narrow_def)

lemma int_to_float_raises [simp]: "raises env (snd (int_to_float n f env))"
  by (simp add: int_to_float_def)

lemma fit_raises [simp]: "raises env env1 \<Longrightarrow> raises env (snd (fit a v lo hi oor env1))"
  by (simp add: fit_def fit_outside_def split: option.splits)

lemma float_to_int_raises [simp]: "raises env (snd (float_to_int a sg env))"
  by (cases "fp_class a") (auto simp: float_to_int_def Let_def split: prod.splits)

lemma integral_raises [simp]: "raises env (snd (round_integral H a ri env))"
  by (cases "fp_class a") (auto simp: round_integral_def split: prod.splits)

lemma lrint_raises [simp]: "raises env (snd (lrint H a n env))"
proof -
  obtain r e where ri: "round_integral H a True env = (r, e)" by fastforce
  have "raises env e" using integral_raises [of env H a True] ri by simp
  then show ?thesis by (simp add: lrint_def ri Let_def)
qed

lemma compare_raises [simp]: "raises env (snd (compare_operands a b env))"
  by (simp add: compare_operands_def)


section \<open>The flag functions\<close>

lemma flags_of_bound: "flags_of env x < 32"
proof -
  have *: "fold (\<lambda>i acc. acc OR push_bit i 1) is a < (32 :: u8)" if "set is \<subseteq> {..<5}" "a < 32" for "is" and a :: u8
    using that
  proof (induction "is" arbitrary: a)
    case (Cons i "is")
    have "i \<in> {0, 1, 2, 3, 4}" using Cons.prems(1) by auto
    then have "push_bit i 1 < (32 :: u8)" by auto
    then have "a OR push_bit i 1 < 32" by (rule five_bits_or [OF Cons.prems(2)])
    then show ?case using Cons.IH Cons.prems(1) by simp
  qed simp
  show ?thesis unfolding flags_of_def by (rule *) auto
qed

lemma five_bits_and: "(j :: u8) < 32 \<Longrightarrow> j AND k < 32"
  by (meson word_and_le2 le_less_trans)

text \<open>Every operation of the environment keeps the flags within the five bits.\<close>

lemma flag_functions_bound:
  assumes "fp_flags env < 32"
  shows "fp_flags (fe_clear m env) < 32" "fp_flags (fe_raise m env) < 32" "fp_flags (snd (set_round v env)) < 32"
    "fp_flags (set_env_image img env) < 32" "fp_flags (set_default_env env) < 32"
proof -
  show "fp_flags (set_env_image img env) < 32" unfolding set_env_image_def Let_def case_prod_beta by (simp add: flags_of_bound)
qed (use assms in \<open>simp_all add: fe_clear_def fe_raise_def Let_def raise_flags_def five_bits_and five_bits_or flags_of_bound
      set_round_def set_default_env_def split: option.splits\<close>)

end
