(* ===== verification/Vm_Fenv.thy ===== *)
theory Vm_Fenv
  imports Vm_Program Fenv_Flags
begin

text \<open>
  The interpreter over the floating-point environment of \<^verbatim>\<open>fenv.rs\<close>: the operations its
  instructions use, and \<open>fenv_call\<close> of \<^verbatim>\<open>src/src/c5/vm/ssa.rs\<close>, the functions of \<^verbatim>\<open>fenv.h\<close> and the
  functions of \<^verbatim>\<open>math.h\<close> that round in the current direction.
\<close>

section \<open>The library calls\<close>

fun long_double :: "Target \<Rightarrow> LongDoubleKind" where
  "long_double LinuxX64 = LongDoubleKind_X87"
| "long_double LinuxAarch64 = LongDoubleKind_Binary128"
| "long_double _ = LongDoubleKind_F64"

definition fe_arg :: "string \<Rightarrow> i64 list \<Rightarrow> nat \<Rightarrow> ('s, i64) exec" where
  "fe_arg name args i = (case arg_get args i of None \<Rightarrow> throw (VE_Library name) | Some x \<Rightarrow> ret x)"

definition fe_state :: "((FpEnv, 'h) Machine, FpEnv) exec" where
  "fe_state = with_fp (\<lambda>e. (e, e))"

definition load_bytes :: "nat \<Rightarrow> nat \<Rightarrow> (('fp, 'h) Machine, u8 list) exec" where
  "load_bytes a n = andThen (in_usize a n) (\<lambda>_. read_mem (\<lambda>m. read_bytes m a n))"

definition store_bytes :: "nat \<Rightarrow> u8 list \<Rightarrow> (('fp, 'h) Machine, unit) exec" where
  "store_bytes a bs = andThen (in_usize a (length bs)) (\<lambda>_. write_mem (\<lambda>m. write_bytes m a bs))"

definition fe_getexceptflag :: "i64 list \<Rightarrow> ((FpEnv, 'h) Machine, i64) exec" where
  "fe_getexceptflag args =
     andThen fe_state (\<lambda>e.
     andThen (fe_arg ''fegetexceptflag'' args 1) (\<lambda>excepts.
     andThen (fe_arg ''fegetexceptflag'' args 0) (\<lambda>a.
     andThen (store_bytes (unat a) (take (except_size e) (to_le_bytes 4 (fe_test e (ucast excepts))))) (\<lambda>_. ret 0))))"

definition fe_setexceptflag :: "i64 list \<Rightarrow> ((FpEnv, 'h) Machine, i64) exec" where
  "fe_setexceptflag args =
     andThen fe_state (\<lambda>e.
     andThen (fe_arg ''fesetexceptflag'' args 0) (\<lambda>a.
     andThen (load_bytes (unat a) (except_size e)) (\<lambda>b.
     andThen (fe_arg ''fesetexceptflag'' args 1) (\<lambda>m.
     andThen (with_fp (\<lambda>e. let excepts = flags_of e (ucast m);
                  given = from_le_bytes (b @ replicate (4 - except_size e) 0)
              in ((), e\<lparr>fp_flags := (fp_flags e AND NOT excepts) OR (flags_of e given AND excepts)\<rparr>))) (\<lambda>_. ret 0)))))"

definition fe_getenv :: "bool \<Rightarrow> i64 list \<Rightarrow> ((FpEnv, 'h) Machine, i64) exec" where
  "fe_getenv hold args =
     andThen (with_fp (\<lambda>e. (env_image e, if hold then e\<lparr>fp_flags := 0\<rparr> else e))) (\<lambda>img.
     andThen (fe_arg (if hold then ''feholdexcept'' else ''fegetenv'') args 0) (\<lambda>a.
     andThen (store_bytes (unat a) img) (\<lambda>_. ret 0)))"

definition fe_setenv :: "bool \<Rightarrow> i64 list \<Rightarrow> ((FpEnv, 'h) Machine, i64) exec" where
  "fe_setenv upd args =
     andThen fe_state (\<lambda>e.
     let raised = (if upd then fp_flags e else 0) in
     andThen (fe_arg (if upd then ''feupdateenv'' else ''fesetenv'') args 0) (\<lambda>a.
     andThen (if a = - 1 then with_fp (\<lambda>e. ((), set_default_env e))
              else andThen (load_bytes (unat a) (env_size e)) (\<lambda>img. with_fp (\<lambda>e. ((), set_env_image img e)))) (\<lambda>_.
     andThen (with_fp (\<lambda>e. ((), raise_flags raised e))) (\<lambda>_. ret 0))))"

definition fe_lrint :: "host_fpu \<Rightarrow> string \<Rightarrow> i64 list \<Rightarrow> (Target \<Rightarrow> nat) \<Rightarrow> ((FpEnv, 'h) Machine, i64) exec" where
  "fe_lrint H name args nbits =
     andThen (fe_arg name args 0) (\<lambda>x. (\<lambda>s. with_fp (lrint H x (nbits (target (vm_mem s)))) s))"

definition fenv_body :: "host_fpu \<Rightarrow> string \<Rightarrow> i64 list \<Rightarrow> ((FpEnv, 'h) Machine, i64) exec" where
  "fenv_body H name args =
     (if name = ''fegetround'' then with_fp (\<lambda>e. (scast (get_round e), e))
      else if name = ''fesetround'' then
        andThen (fe_arg name args 0) (\<lambda>x. andThen (with_fp (set_round (ucast x))) (\<lambda>ok. ret (of_bool (\<not> ok))))
      else if name = ''feclearexcept'' then
        andThen (fe_arg name args 0) (\<lambda>x. with_fp (\<lambda>e. (0, fe_clear (ucast x) e)))
      else if name = ''feraiseexcept'' then
        andThen (fe_arg name args 0) (\<lambda>x. with_fp (\<lambda>e. (0, fe_raise (ucast x) e)))
      else if name = ''fetestexcept'' then
        andThen (fe_arg name args 0) (\<lambda>x. with_fp (\<lambda>e. (scast (fe_test e (ucast x)), e)))
      else if name = ''fegetexceptflag'' then fe_getexceptflag args
      else if name = ''fesetexceptflag'' then fe_setexceptflag args
      else if name \<in> {''fegetenv'', ''feholdexcept''} then fe_getenv (name = ''feholdexcept'') args
      else if name \<in> {''fesetenv'', ''feupdateenv''} then fe_setenv (name = ''feupdateenv'') args
      else if name \<in> {''rint'', ''rintf'', ''rintl''} then
        andThen (fe_arg name args 0) (\<lambda>x. with_fp (round_integral H x True))
      else if name \<in> {''nearbyint'', ''nearbyintf'', ''nearbyintl''} then
        andThen (fe_arg name args 0) (\<lambda>x. with_fp (round_integral H x False))
      else if name \<in> {''lrint'', ''lrintf'', ''lrintl''} then fe_lrint H name args (\<lambda>t. long_width_bytes t * 8)
      else if name \<in> {''llrint'', ''llrintf'', ''llrintl''} then fe_lrint H name args (\<lambda>_. 64)
      else stop_with Stop_Panic)"

definition fenv_known :: "LongDoubleKind \<Rightarrow> string \<Rightarrow> bool" where
  "fenv_known kind name \<longleftrightarrow>
     name \<in> {''fegetround'', ''fesetround'', ''feclearexcept'', ''feraiseexcept'', ''fetestexcept'', ''fegetexceptflag'',
       ''fesetexceptflag'', ''fegetenv'', ''feholdexcept'', ''fesetenv'', ''feupdateenv'', ''rint'', ''rintf'',
       ''nearbyint'', ''nearbyintf'', ''lrint'', ''lrintf'', ''llrint'', ''llrintf''} \<or>
     kind = LongDoubleKind_F64 \<and> name \<in> {''rintl'', ''nearbyintl'', ''lrintl'', ''llrintl''}"

definition fenv_call ::
  "host_fpu \<Rightarrow> string \<Rightarrow> i64 list \<Rightarrow> (FpEnv, 'h) Machine \<Rightarrow> ((stop + i64) \<times> (FpEnv, 'h) Machine) option" where
  "fenv_call H name args s =
     (if fenv_known (long_double (target (vm_mem s))) name then Some (fenv_body H name args s) else None)"

section \<open>The interpreter's environment\<close>

definition format_of :: "bool \<Rightarrow> Format" where
  "format_of f32 = (if f32 then BINARY32 else BINARY64)"

definition fenv_ops :: "host_fpu \<Rightarrow> FpEnv fp_env" where
  "fenv_ops H =
     \<lparr>fe_add = \<lambda>a b f32. fp_add H a b (format_of f32), fe_sub = \<lambda>a b f32. fp_sub H a b (format_of f32),
      fe_mul = \<lambda>a b f32. fp_mul H a b (format_of f32), fe_div = \<lambda>a b f32. fp_div H a b (format_of f32),
      fe_compare_operands = compare_operands, fe_fma = \<lambda>a b c f32. fp_fma H a b c (format_of f32),
      fe_float_to_int = float_to_int, fe_int_to_float = \<lambda>n f32. int_to_float n (format_of f32),
      fe_narrow = fp_narrow H, fe_sqrt = \<lambda>a f32. fp_sqrt H a (format_of f32)\<rparr>"

definition vm_fenv :: "host_fpu \<Rightarrow> (FpEnv, 'h) vm_env \<Rightarrow> (FpEnv, 'h) vm_env" where
  "vm_fenv H E =
     E\<lparr>vm_fpu := fpu.truncate H, vm_fp := fenv_ops H,
       nt_library := \<lambda>name args s. case fenv_call H name args s of Some r \<Rightarrow> r | None \<Rightarrow> nt_library E name args s\<rparr>"

text \<open>The calls are tried before every other name, as \<open>dispatch_callext\<close> does: the names are apart.\<close>

lemma dispatch_other:
  assumes "name \<notin> {''exit'', ''memcpy'', ''memmove'', ''memset'', ''memcmp'', ''write'', ''read'', ''close'', ''malloc'',
    ''calloc'', ''realloc'', ''free'', ''__iob_func'', ''errno_location'', ''fputs'', ''puts'', ''fputc'', ''putc'', ''fwrite'',
    ''fflush'', ''fileno'', ''putchar''}"
  shows "dispatch_callext E name args = nt_library E name args"
  using assms by (simp add: dispatch_callext_def)

theorem dispatch_fenv:
  "dispatch_callext (vm_fenv H E) name args s =
     (case fenv_call H name args s of Some r \<Rightarrow> r | None \<Rightarrow> dispatch_callext E name args s)"
proof (cases "fenv_known (long_double (target (vm_mem s))) name")
  case True
  then have "dispatch_callext (vm_fenv H E) name args = nt_library (vm_fenv H E) name args"
    unfolding fenv_known_def by (intro dispatch_other) (elim disjE conjE insertE emptyE; simp)
  then show ?thesis using True by (simp add: fenv_call_def vm_fenv_def)
next
  case False
  then show ?thesis
    by (simp add: fenv_call_def dispatch_callext_def vm_fenv_def libc_write_def libc_read_def libc_fputs_def libc_puts_def
        libc_fputc_def libc_fwrite_def libc_putchar_def put_bytes_def)
qed


section \<open>The calls keep the interpreter's disciplines\<close>

locale fenv_discipline = vm_discipline I G bad restores
  for I :: "FpEnv Memory \<Rightarrow> bool" and G and bad and restores
begin

lemma fe_arg_rule: "kept (fe_arg name args i)"
  unfolding fe_arg_def by (intro keeps_splits mach.throw_rule mach.ret_rule)

lemma load_bytes_rule: "kept (load_bytes a n)"
  unfolding load_bytes_def by (intro mach.andThen_rule mach.usize_rule mach.read_rule)

lemma store_bytes_rule: "kept (store_bytes a bs)"
  unfolding store_bytes_def by (intro mach.andThen_rule mach.usize_rule mach.write_rule) (rule write_bytes_step)

lemma lrint_rule: "kept (fe_lrint H name args nbits)"
proof -
  have "kept (\<lambda>s. with_fp (lrint H x (nbits (target (vm_mem s)))) s)" for x
  proof (rule keepsI)
    fix s :: "(FpEnv, 'h) Machine" assume "I (vm_mem s)"
    then show "I (vm_mem (snd (with_fp (lrint H x (nbits (target (vm_mem s)))) s))) \<and>
        G (vm_mem s) (vm_mem (snd (with_fp (lrint H x (nbits (target (vm_mem s)))) s))) \<and>
        (\<forall>e. fst (with_fp (lrint H x (nbits (target (vm_mem s)))) s) = Inl e \<longrightarrow> e \<notin> bad)"
      using keepsD [OF mach.fp_rule] by blast
  qed
  then show ?thesis unfolding fe_lrint_def by (intro mach.andThen_rule fe_arg_rule)
qed

lemma image_rules:
  "kept (fe_getexceptflag args)" "kept (fe_setexceptflag args)" "kept (fe_getenv hold args)" "kept (fe_setenv upd args)"
  unfolding fe_getexceptflag_def fe_setexceptflag_def fe_getenv_def fe_setenv_def fe_state_def
  by (intro mach.andThen_rule mach.ret_rule mach.fp_rule fe_arg_rule load_bytes_rule store_bytes_rule keeps_splits)+

lemma fenv_body_rule:
  assumes "fenv_known kind name"
  shows "kept (fenv_body H name args)"
  unfolding fenv_body_def
  by (intro mach.andThen_rule mach.ret_rule mach.fp_rule fe_arg_rule lrint_rule image_rules keeps_if)
    (use assms in \<open>unfold fenv_known_def, elim disjE conjE insertE emptyE; simp\<close>)

lemma fenv_library_rule:
  fixes E :: "(FpEnv, 'h) vm_env"
  assumes "\<And>name args. kept (nt_library E name args)"
  shows "kept (nt_library (vm_fenv H E) name args)"
proof (rule keepsI)
  fix s :: "(FpEnv, 'h) Machine" assume s: "I (vm_mem s)"
  show "I (vm_mem (snd (nt_library (vm_fenv H E) name args s))) \<and> G (vm_mem s) (vm_mem (snd (nt_library (vm_fenv H E) name args s))) \<and>
    (\<forall>e. fst (nt_library (vm_fenv H E) name args s) = Inl e \<longrightarrow> e \<notin> bad)"
  proof (cases "fenv_known (long_double (target (vm_mem s))) name")
    case True
    then show ?thesis using keepsD [OF fenv_body_rule [OF True] s, of H args] by (simp add: vm_fenv_def fenv_call_def)
  next
    case False
    then show ?thesis using keepsD [OF assms s, of name args] by (simp add: vm_fenv_def fenv_call_def)
  qed
qed

end

interpretation fe_tidy: fenv_discipline mem_ok grows "{}" False ..

interpretation fe_total: fenv_discipline "\<lambda>_. True" "\<lambda>_ _. True" "{Stop_Panic}" True ..

lemma vm_fenv_parameters [simp]: "nt_simd (vm_fenv H E) = nt_simd E" "nt_asm (vm_fenv H E) = nt_asm E"
  by (simp_all add: vm_fenv_def)

lemma vm_fenv_tidy:
  assumes "env_tidy E" shows "env_tidy (vm_fenv H E)"
proof -
  have "keeps (\<lambda>k. mem_ok (vm_mem k)) (\<lambda>k k'. grows (vm_mem k) (vm_mem k')) {} (nt_library E name args)" for name args
    using assms by (simp add: env_tidy_def keeps_def)
  from fe_tidy.fenv_library_rule [OF this, of H] show ?thesis using assms by (simp add: env_tidy_def keeps_def)
qed

lemma vm_fenv_total:
  assumes "env_total E" shows "env_total (vm_fenv H E)"
proof -
  have "keeps (\<lambda>_. True) (\<lambda>_ _. True) {Stop_Panic} (nt_library E name args)" for name args
    using assms by (auto simp: env_total_def keeps_def)
  then have "keeps (\<lambda>_. True) (\<lambda>_ _. True) {Stop_Panic} (nt_library (vm_fenv H E) name args)" for name args
    by (rule fe_total.fenv_library_rule)
  then have "fst (nt_library (vm_fenv H E) name args k) \<noteq> Inl Stop_Panic" for name args k by (force simp: keeps_def)
  then show ?thesis using assms unfolding env_total_def vm_fenv_parameters by blast
qed


section \<open>Arithmetic of the interpreter\<close>

text \<open>The result an operation asks for, and the sign of an exact zero.\<close>

fun exact_result :: "BinOp \<Rightarrow> real \<Rightarrow> real \<Rightarrow> real" where
  "exact_result BinOp_Fadd x y = x + y"
| "exact_result BinOp_Fsub x y = x - y"
| "exact_result BinOp_Fdiv x y = x / y"
| "exact_result _ x y = x * y"

fun exact_sign :: "BinOp \<Rightarrow> FpEnv \<Rightarrow> bool \<Rightarrow> bool \<Rightarrow> bool" where
  "exact_sign BinOp_Fadd env na nb = zero_sign env na nb"
| "exact_sign BinOp_Fsub env na nb = zero_sign env na (\<not> nb)"
| "exact_sign _ env na nb = (na \<noteq> nb)"

definition fp_delivers :: "FpEnv \<Rightarrow> Format \<Rightarrow> bool \<Rightarrow> real \<Rightarrow> u64 \<times> FpEnv \<Rightarrow> bool" where
  "fp_delivers env f n x res \<longleftrightarrow> (if x = 0 then res = (with_sign n 0, env) else rounded env f (x < 0) x res)"

lemma format_of_ok [simp]: "fmt_ok (format_of f32)"
  by (simp add: format_of_def fmt_ok_def)

text \<open>The operation behind an arithmetic instruction.\<close>

fun fenv_binop :: "host_fpu \<Rightarrow> BinOp \<Rightarrow> u64 \<Rightarrow> u64 \<Rightarrow> Format \<Rightarrow> FpEnv \<Rightarrow> u64 \<times> FpEnv" where
  "fenv_binop H BinOp_Fadd a b = fp_add H a b"
| "fenv_binop H BinOp_Fsub a b = fp_sub H a b"
| "fenv_binop H BinOp_Fdiv a b = fp_div H a b"
| "fenv_binop H _ a b = fp_mul H a b"

abbreviation arith_ops :: "BinOp set" where
  "arith_ops \<equiv> {BinOp_Fadd, BinOp_Fsub, BinOp_Fmul, BinOp_FmulContractible, BinOp_Fdiv}"

lemma vm_binop_fenv: "op \<in> arith_ops \<Longrightarrow> vm_binop (vm_fenv H E) op a b f32 = with_fp (fenv_binop H op a b (format_of f32))"
  by (auto simp: vm_binop_def vm_fenv_def fenv_ops_def)

context ieee_host
begin

theorem binop_delivers:
  assumes op: "op \<in> arith_ops" and f: "fmt_ok f" and a: "in_format f a" and b: "in_format f b" "op = BinOp_Fdiv \<Longrightarrow> fval b \<noteq> 0"
  shows "fp_delivers env f (exact_sign op env (negative a) (negative b)) (exact_result op (fval a) (fval b)) (fenv_binop H op a b f env)"
proof -
  note fin = a [unfolded in_format_def, THEN conjunct1] b(1) [unfolded in_format_def, THEN conjunct1]
  note ops = add_correct [OF f a b(1) refl, of env] sub_correct [OF f a b(1) refl, of env] mul_correct [OF f fin refl, of env]
    div_correct [OF f fin _ refl, of env]
  from op consider "op = BinOp_Fadd" | "op = BinOp_Fsub" | "op \<in> {BinOp_Fmul, BinOp_FmulContractible}" | "op = BinOp_Fdiv" by auto
  then show ?thesis
  proof cases
    case 1
    then show ?thesis using ops(1) by (simp only: exact_sign.simps exact_result.simps fenv_binop.simps fp_delivers_def)
  next
    case 2
    then show ?thesis using ops(2) by (simp only: exact_sign.simps exact_result.simps fenv_binop.simps fp_delivers_def)
  next
    case 3
    then show ?thesis using ops(3)
      by (elim insertE emptyE) (simp_all only: exact_sign.simps exact_result.simps fenv_binop.simps fp_delivers_def)
  next
    case 4
    then show ?thesis using ops(4) [OF b(2) [OF 4]] by (simp only: exact_sign.simps exact_result.simps fenv_binop.simps fp_delivers_def)
  qed
qed

end

section \<open>Saving and restoring the environment\<close>

lemma fe_known_env: "fenv_known k ''fegetenv''" "fenv_known k ''feholdexcept''" "fenv_known k ''fesetenv''" "fenv_known k ''feupdateenv''"
  by (simp_all add: fenv_known_def)

lemma body_env:
  "fenv_body H ''fegetenv'' args = fe_getenv False args" "fenv_body H ''feholdexcept'' args = fe_getenv True args"
  "fenv_body H ''fesetenv'' args = fe_setenv False args" "fenv_body H ''feupdateenv'' args = fe_setenv True args"
  by (simp_all add: fenv_body_def)

lemma env_size_target: "fp_target e = fp_target e' \<Longrightarrow> env_size e = env_size e'"
  by (cases "fp_target e'") (simp_all add: env_size_def env_image_def Let_def)

lemma getenv_saves:
  assumes "fe_getenv hold [a] s = (Inr r, s1)"
  shows "unat a + env_size (fp (vm_mem s)) < 2 ^ 64" "read_bytes (vm_mem s1) (unat a) (env_size (fp (vm_mem s))) = Inr (env_image (fp (vm_mem s)))"
  using assms
  by (auto simp: fe_getenv_def fe_arg_def arg_get_def store_bytes_def with_fp_def run_Inr write_mem_def env_size_def write_bytes_Inr
      read_bytes_Inr splice_window split: sum.splits)

lemma setenv_restores:
  assumes "a \<noteq> - 1" "unat a + env_size (fp (vm_mem s)) < 2 ^ 64"
    "read_bytes (vm_mem s) (unat a) (env_size (fp (vm_mem s))) = Inr img"
  shows "fe_setenv upd [a] s = (Inr 0, s\<lparr>vm_mem := (vm_mem s)\<lparr>fp :=
    raise_flags (if upd then fp_flags (fp (vm_mem s)) else 0) (set_env_image img (fp (vm_mem s)))\<rparr>\<rparr>)"
  using assms
  by (simp add: fe_setenv_def fe_arg_def arg_get_def load_bytes_def with_fp_def andThen_def ret_def in_usize_def read_mem_def fe_state_def)


text \<open>
  An environment saved by one call is restored by the other, whatever ran between, as long as the
  saved image is untouched.
\<close>

lemma env_restored:
  assumes g: "fe_getenv hold [a] s = (Inr r, s1)" and a: "a \<noteq> - 1" and k: "fp_flags (fp (vm_mem s)) < 32"
    and t: "fp_target (fp (vm_mem s2)) = fp_target (fp (vm_mem s))"
    and same: "read_bytes (vm_mem s2) (unat a) (env_size (fp (vm_mem s))) = read_bytes (vm_mem s1) (unat a) (env_size (fp (vm_mem s)))"
  shows "fe_setenv upd [a] s2 = (Inr 0, s2\<lparr>vm_mem := (vm_mem s2)\<lparr>fp := (fp (vm_mem s2))\<lparr>fp_round := fp_round (fp (vm_mem s)),
    fp_flags := fp_flags (fp (vm_mem s)) OR (if upd then fp_flags (fp (vm_mem s2)) else 0)\<rparr>\<rparr>\<rparr>)"
proof -
  note n = env_size_target [OF t]
  have img: "read_bytes (vm_mem s2) (unat a) (env_size (fp (vm_mem s2))) = Inr (env_image (fp (vm_mem s)))"
    using same getenv_saves(2) [OF g] unfolding n by simp
  have "unat a + env_size (fp (vm_mem s2)) < 2 ^ 64" using getenv_saves(1) [OF g] unfolding n .
  from setenv_restores [OF a this img, of upd] show ?thesis
    unfolding env_image_back [OF k t] by (simp add: raise_flags_def)
qed

end
