(* ===== verification/Fp_Properties.thy ===== *)
theory Fp_Properties
  imports Vm_Fenv
begin

text \<open>
  What the floating-point environment promises, over the operations of the interpreter: correctly
  rounded results with exact flags in every direction, conversions, sticky flags, and the saved
  and restored environments of \<^verbatim>\<open>fenv.h\<close>.
\<close>

declare of_nat_unat [simp del]

section \<open>A sample machine\<close>

definition fp_machine :: "(FpEnv, unit) Machine" where
  "fp_machine =
     \<lparr>vm_mem = \<lparr>bytes = replicate 64 0, data_end = 64, stack_top = 64, heap_base = 64, heap_top = 64, stack_base = 64,
        allocations = [], next_alloc_id = 1, track_pointers = False, stdio = 0, target = LinuxX64, fp = fpenv_new LinuxX64\<rparr>,
      vm_host = ()\<rparr>"

definition fp_sample :: "(FpEnv, unit) vm_env" where
  "fp_sample =
     \<lparr>vm_cast = \<lparr>f32_as_f64 = ucast, f64_as_f32 = ucast\<rparr>, vm_fpu = fpu.truncate soft_host, vm_fp = fenv_ops soft_host,
      vm_libm = \<lparr>libm_floor = \<lambda>x. x, libm_ceil = \<lambda>x. x, libm_trunc = \<lambda>x. x\<rparr>,
      vm_calls = null_host, vm_reserve = \<lambda>_. True,
      nt_library = \<lambda>name _. throw (VE_Library name), nt_simd = \<lambda>_ _ _ _. throw (VE_Unimplemented ''simd''),
      nt_asm = \<lambda>_ _ _ _ _. throw (VE_Unimplemented ''asm'')\<rparr>"

text \<open>The patterns of 1, 3 and 5/2.\<close>

lemma sample_values:
  "fp_finite 0x3ff0000000000000" "fval 0x3ff0000000000000 = 1" "\<not> negative 0x3ff0000000000000"
  "fp_finite 0x4008000000000000" "fval 0x4008000000000000 = 3" "\<not> negative 0x4008000000000000"
  "fp_finite 0x4004000000000000" "fval 0x4004000000000000 = 5 / 2" "\<not> negative 0x4004000000000000"
  using fval_fields [of "0x3ff0000000000000" 1023 0 False] fval_fields [of "0x4008000000000000" 1024 "2 ^ 51" False]
    fval_fields [of "0x4004000000000000" 1024 "2 ^ 50" False]
  by (simp_all add: with_sign_def signed_real_def power_int_def power_divide)

section \<open>Rounding\<close>



text \<open>
  C4: the interpreter's addition, subtraction, multiplication and division instructions deliver the exact
  result correctly rounded to the instruction's format in the current direction, with exact flags and the sign of an exact
  zero, and change nothing else; to nearest, where the result comes from the host, this includes that the inexact flag found
  with Knuth's two-sum or from the significands is raised exactly for inexact results.  The host's arithmetic is assumed
  correctly rounded to nearest.
\<close>

theorem arithmetic_correct:
  assumes "ieee_host H" "op \<in> arith_ops" "in_format (format_of f32) a" "in_format (format_of f32) b"
    and "op = BinOp_Fdiv \<Longrightarrow> fval b \<noteq> 0"
  shows "\<exists>res. vm_binop (vm_fenv H E) op a b f32 s = (Inr (fst res), s\<lparr>vm_mem := (vm_mem s)\<lparr>fp := snd res\<rparr>\<rparr>) \<and>
    fp_delivers (fp (vm_mem s)) (format_of f32) (exact_sign op (fp (vm_mem s)) (negative a) (negative b))
      (exact_result op (fval a) (fval b)) res"
proof (intro exI conjI)
  show "vm_binop (vm_fenv H E) op a b f32 s = (Inr (fst (fenv_binop H op a b (format_of f32) (fp (vm_mem s)))),
      s\<lparr>vm_mem := (vm_mem s)\<lparr>fp := snd (fenv_binop H op a b (format_of f32) (fp (vm_mem s)))\<rparr>\<rparr>)"
    by (simp add: vm_binop_fenv [OF assms(2)] with_fp_def split: prod.splits)
qed (rule ieee_host.binop_delivers [OF assms(1,2) format_of_ok assms(3-5)])

theorem arithmetic_correct_witness:
  "\<exists>res. vm_binop (vm_fenv soft_host fp_sample) BinOp_Fdiv 0x3ff0000000000000 0x4008000000000000 False fp_machine =
     (Inr (fst res), fp_machine\<lparr>vm_mem := (vm_mem fp_machine)\<lparr>fp := snd res\<rparr>\<rparr>) \<and>
     rounded (fpenv_new LinuxX64) BINARY64 False (1 / 3) res"
proof -
  have "fp (vm_mem fp_machine) = fpenv_new LinuxX64" by (simp add: fp_machine_def)
  then show ?thesis
    using arithmetic_correct [OF soft.ieee_host_axioms, of BinOp_Fdiv False "0x3ff0000000000000" "0x4008000000000000" fp_sample fp_machine]
    by (simp add: format_of_def in_format_64 sample_values fp_delivers_def)
qed

text \<open>
  C16: the fused multiply-add rounds the exact \<open>a * b + c\<close> once, with the flags of that rounding and the
  sign rules of an exact zero.
\<close>

theorem fused_rounds_once:
  assumes "ieee_host H" "fmt_ok f" "fp_finite a" "fp_finite b" "in_format f c" "x = fval a * fval b + fval c"
  shows "fp_delivers env f (zero_sign env (negative a \<noteq> negative b) (negative c)) x (fp_fma H a b c f env)"
  using ieee_host.fma_correct [OF assms, of env] by (simp only: fp_delivers_def)

theorem fused_rounds_once_witness:
  "fp_delivers (fpenv_new LinuxX64) BINARY64 False (1 * 3 + 5 / 2)
     (fp_fma soft_host 0x3ff0000000000000 0x4008000000000000 0x4004000000000000 BINARY64 (fpenv_new LinuxX64))"
  using fused_rounds_once [OF soft.ieee_host_axioms fmt_ok_64, of "0x3ff0000000000000" "0x4008000000000000" "0x4004000000000000" _
    "fpenv_new LinuxX64"]
  by (simp add: sample_values in_format_64 zero_sign_def)

text \<open>
  C15: the square root is correctly rounded in every direction with exact flags: to nearest from the
  library's root with an exactness test on its square, otherwise from the integer square root.
\<close>

theorem square_root_correct:
  assumes "ieee_host H" "fmt_ok f" "fp_finite a" "0 < fval a"
  shows "rounded env f False (sqrt (fval a)) (fp_sqrt H a f env)"
  using assms by (rule ieee_host.sqrt_correct)

theorem square_root_correct_witness:
  "rounded (fpenv_new MacOSAarch64) BINARY32 False (sqrt 3) (fp_sqrt soft_host 0x4008000000000000 BINARY32 (fpenv_new MacOSAarch64))"
  using square_root_correct [OF soft.ieee_host_axioms _ sample_values(4), of BINARY32 "fpenv_new MacOSAarch64"]
  by (simp add: sample_values fmt_ok_def)

section \<open>Conversions\<close>

text \<open>
  C18: a conversion to a 64-bit integer truncates toward zero, raises inexact exactly for a dropped
  fraction, and answers an integral part outside the type with invalid and the target's value.
\<close>

theorem float_to_int_truncates:
  assumes "fp_finite a" "t = toward_zero (fval a)"
    and "(lo, hi) = (if is_signed then (- (2 ^ 63), 2 ^ 63 - 1) else (0, 2 ^ 64 - 1))"
    and "env1 = (if of_int t = fval a then env else raise_flags INEXACT env)"
  shows "float_to_int a is_signed env =
    (if lo \<le> t \<and> t \<le> hi then (word_of_int t, env1)
     else (case convert_out_of_range env of
             OutOfRange_Minimum \<Rightarrow> 2 ^ 63 | OutOfRange_Zero \<Rightarrow> 0
           | OutOfRange_Saturate \<Rightarrow> if negative a then word_of_int lo else word_of_int hi, raise_flags INVALID env1))"
proof -
  have n: "\<not> is_nan a" using assms(1) by (simp add: is_nan_class class_finite)
  have "min lo (- (2 ^ 63)) = - (2 ^ 63)" using assms(3) by (auto split: if_splits)
  then have m: "(word_of_int (min lo (- (2 ^ 63))) :: i64) = 2 ^ 63" by (simp only:) simp
  show ?thesis using float_to_int_correct [OF assms(1-3), of env, unfolded flag_unless_exact_def, folded assms(4)] n m
    by (simp add: fit_def fit_outside_def split: OutOfRange.splits)
qed

theorem float_to_int_truncates_witness:
  "float_to_int 0x4004000000000000 True (fpenv_new LinuxX64) = (2, raise_flags INEXACT (fpenv_new LinuxX64))"
  using float_to_int_truncates [OF sample_values(7), of 2 "- (2 ^ 63)" "2 ^ 63 - 1" True "raise_flags INEXACT (fpenv_new LinuxX64)"
    "fpenv_new LinuxX64"]
  by (simp add: sample_values toward_zero_def)

text \<open>
  C19: \<open>rint\<close>, \<open>nearbyint\<close> and \<open>lrint\<close> round to the same integer, the one the current direction asks for;
  \<open>rint\<close> and \<open>lrint\<close> raise inexact exactly when it differs from the operand, \<open>nearbyint\<close> never does, and \<open>lrint\<close> answers an
  integer outside \<open>long\<close> with invalid.
\<close>

theorem integral_rounding_agrees:
  assumes "fp_finite a" "0 < n" "n \<le> 64"
  shows "\<exists>t. rounds (fp_round env) 53 {0..} (fval a) (of_int t) \<and>
    (\<exists>b. fval b = of_int t \<and> negative b = negative a \<and>
       round_integral H a True env = (b, flag_unless_exact (of_int t = fval a) env) \<and> round_integral H a False env = (b, env)) \<and>
    lrint H a n env =
      (if - (2 ^ (n - 1)) \<le> t \<and> t < 2 ^ (n - 1) then (word_of_int t, flag_unless_exact (of_int t = fval a) env)
       else fit_outside a (- (2 ^ (n - 1))) (2 ^ (n - 1) - 1) (lrint_out_of_range env) (flag_unless_exact (of_int t = fval a) env))"
proof -
  obtain t where t: "rounds (fp_round env) 53 {0..} (fval a) (of_int t)" "fval (fst (round_integral H a True env)) = of_int t"
    "lrint H a n env = fit a (Some t) (- (2 ^ (n - 1))) (2 ^ (n - 1) - 1) (lrint_out_of_range env)
      (flag_unless_exact (of_int t = fval a) env)"
    using lrint_correct [OF assms] .
  obtain b e where i: "round_integral H a True env = (b, e)" by fastforce
  obtain b' e' where j: "round_integral H a False env = (b', e')" by fastforce
  note I = round_integral_correct [OF assms(1) i] and J = round_integral_correct [OF assms(1) j]
  have "b' = b" using i j assms(1) by (auto simp: round_integral_def class_finite split: Class.splits prod.splits if_splits)
  then show ?thesis using t i j I J
    by (intro exI [of _ t] conjI exI [of _ b]) (auto simp: flag_unless_exact_def fit_def simp del: rounds.simps)
qed

theorem integral_rounding_agrees_witness:
  "\<exists>t. rounds Round_Up 53 {0..} (5 / 2) (of_int t) \<and>
     fst (round_integral soft_host 0x4004000000000000 False ((fpenv_new LinuxX64)\<lparr>fp_round := Round_Up\<rparr>)) \<in> {b. fval b = of_int t}"
  using integral_rounding_agrees [OF sample_values(7), of 64 "(fpenv_new LinuxX64)\<lparr>fp_round := Round_Up\<rparr>" soft_host]
  by (auto simp: sample_values simp del: rounds.simps)

section \<open>Flags and saved environments\<close>

text \<open>
  C20: no arithmetic operation, conversion or comparison clears a flag or changes the rounding direction: each
  only raises flags among the five.
\<close>

theorem flags_sticky:
  "raises env (snd (fenv_binop H op a b f env)) \<and> raises env (snd (fp_fma H a b c f env)) \<and> raises env (snd (fp_sqrt H a f env)) \<and>
   raises env (snd (fp_narrow H a env)) \<and> raises env (snd (int_to_float i f env)) \<and> raises env (snd (float_to_int a sg env)) \<and>
   raises env (snd (round_integral H a inexact env)) \<and> raises env (snd (lrint H a n env)) \<and> raises env (snd (compare_operands a b env))"
  by (cases op) simp_all

text \<open>
  C17: an environment saved by \<open>fegetenv\<close> or \<open>feholdexcept\<close> in the byte image of its target is restored from
  it by \<open>fesetenv\<close>, and by \<open>feupdateenv\<close> together with the flags raised since, whatever the program did between, as long as
  the image's bytes are untouched.
\<close>

theorem environment_restored:
  assumes "save \<in> {''fegetenv'', ''feholdexcept''}" "fenv_call H save [a] s = Some (Inr r, s1)" "a \<noteq> - 1"
    and "fp_flags (fp (vm_mem s)) < 32" "fp_target (fp (vm_mem s2)) = fp_target (fp (vm_mem s))"
    and "read_bytes (vm_mem s2) (unat a) (env_size (fp (vm_mem s))) = read_bytes (vm_mem s1) (unat a) (env_size (fp (vm_mem s)))"
  shows "fenv_call H ''fesetenv'' [a] s2 = Some (Inr 0, s2\<lparr>vm_mem := (vm_mem s2)\<lparr>fp := (fp (vm_mem s2))\<lparr>
      fp_round := fp_round (fp (vm_mem s)), fp_flags := fp_flags (fp (vm_mem s))\<rparr>\<rparr>\<rparr>) \<and>
    fenv_call H ''feupdateenv'' [a] s2 = Some (Inr 0, s2\<lparr>vm_mem := (vm_mem s2)\<lparr>fp := (fp (vm_mem s2))\<lparr>
      fp_round := fp_round (fp (vm_mem s)), fp_flags := fp_flags (fp (vm_mem s)) OR fp_flags (fp (vm_mem s2))\<rparr>\<rparr>\<rparr>)"
proof -
  have g: "\<exists>hold. fe_getenv hold [a] s = (Inr r, s1)"
    using assms(1,2) by (elim insertE emptyE) (auto simp: fenv_call_def fe_known_env body_env)
  then obtain hold where "fe_getenv hold [a] s = (Inr r, s1)" by blast
  from env_restored [OF this assms(3-6), of False] env_restored [OF this assms(3-6), of True] show ?thesis
    by (simp add: fenv_call_def fe_known_env body_env)
qed

lemma sample_saved:
  "\<exists>s1. fenv_call soft_host ''feholdexcept'' [8] fp_machine = Some (Inr 0, s1) \<and> fp_target (fp (vm_mem s1)) = LinuxX64"
  by (simp add: fenv_call_def fe_known_env body_env fe_getenv_def with_fp_def andThen_def fe_arg_def arg_get_def ret_def
      store_bytes_def in_usize_def write_mem_def write_bytes_def fp_machine_def env_image_def Let_def fpenv_new_def)

theorem environment_restored_witness:
  "\<exists>s1 s2. fenv_call soft_host ''feholdexcept'' [8] fp_machine = Some (Inr 0, s1) \<and>
     fenv_call soft_host ''feupdateenv'' [8] s1 = Some (Inr 0, s2) \<and> fp_round (fp (vm_mem s2)) = Round_Nearest"
proof -
  obtain s1 where s: "fenv_call soft_host ''feholdexcept'' [8] fp_machine = Some (Inr 0, s1)" "fp_target (fp (vm_mem s1)) = LinuxX64"
    using sample_saved by blast
  have e: "fp_flags (fp (vm_mem fp_machine)) < 32" "fp_target (fp (vm_mem s1)) = fp_target (fp (vm_mem fp_machine))"
    "fp_round (fp (vm_mem fp_machine)) = Round_Nearest"
    using s(2) by (simp_all add: fp_machine_def fpenv_new_def Let_def)
  show ?thesis using environment_restored [OF _ s(1) _ e(1,2) refl] s(1) e(3) by simp
qed

end
