(* ===== verification/Abi_Classify.thy ===== *)
theory Abi_Classify
  imports Target_Abi
begin

text \<open>
  Classification of an aggregate passed or returned by value,
  \<^verbatim>\<open>src/src/c5/codegen/abi_classify.rs\<close>: System V AMD64, Win64 and AAPCS64.  The
  result of a function that contains \<open>unreachable!\<close> is an option whose \<open>None\<close> is the panic.
  Byte offsets and sizes are \<open>u32\<close> values in the source and \<open>nat\<close> here.
\<close>

section \<open>Register classes\<close>

fun is_fp_scalar :: "ScalarKind \<Rightarrow> bool" where
  "is_fp_scalar ScalarKind_F32 = True"
| "is_fp_scalar ScalarKind_F64 = True"
| "is_fp_scalar ScalarKind_F80 = True"
| "is_fp_scalar ScalarKind_F128 = True"
| "is_fp_scalar _ = False"

definition is_base :: "ScalarKind \<Rightarrow> nat \<Rightarrow> bool" where
  "is_base kind width \<longleftrightarrow>
     (kind, width) \<in> {(ScalarKind_F32, 4), (ScalarKind_F64, 8), (ScalarKind_F128, 16),
                       (ScalarKind_Vector, 8), (ScalarKind_Vector, 16)}"

definition ha_new :: "ScalarKind \<Rightarrow> nat \<Rightarrow> nat \<Rightarrow> HomogeneousAggregate option" where
  "ha_new kind width count =
     (if \<not> is_base kind width then None
      else if 1 \<le> count \<and> count \<le> 4
      then Some \<lparr>ha_kind = kind, ha_width = width, ha_count = count\<rparr>
      else None)"

definition ha_members :: "HomogeneousAggregate \<Rightarrow> (nat \<times> nat) list" where
  "ha_members self = map (\<lambda>k. (k * ha_width self, ha_width self)) [0..<ha_count self]"

datatype RegClass = RegClass_Integer | RegClass_Sse | RegClass_Vector | RegClass_X87 | RegClass_NoClass

definition ha_reg_class :: "HomogeneousAggregate \<Rightarrow> RegClass" where
  "ha_reg_class self = (if ha_width self = 16 then RegClass_Vector else RegClass_Sse)"

fun class_width :: "RegClass \<Rightarrow> nat" where
  "class_width RegClass_Vector = 16"
| "class_width RegClass_X87 = 16"
| "class_width _ = 8"

text \<open>The slots with their offsets (the \<open>scan\<close> of \<open>register_slots\<close>), from offset \<open>off\<close>.\<close>

fun slots_from :: "nat \<Rightarrow> RegClass list \<Rightarrow> (RegClass \<times> nat) list" where
  "slots_from off [] = []"
| "slots_from off (c # cs) = (c, off) # slots_from (off + class_width c) cs"

definition register_slots :: "RegClass list \<Rightarrow> (RegClass \<times> nat) list" where
  "register_slots classes = filter (\<lambda>(c, _). c \<noteq> RegClass_NoClass) (slots_from 0 classes)"

datatype AggClass =
    AggClass_Regs "RegClass list"
  | AggClass_ByRef
  | AggClass_ByStack
  | AggClass_ReturnIndirect

fun sole_vector_width :: "nat \<Rightarrow> FlatField list \<Rightarrow> nat option" where
  "sole_vector_width sz [f] =
     (if ff_kind f = ScalarKind_Vector \<and> ff_offset f = 0 \<and> ff_size f = sz then Some sz else None)"
| "sole_vector_width sz _ = None"

definition vector_reg_class :: "nat \<Rightarrow> RegClass option" where
  "vector_reg_class width =
     (if width = 16 then Some RegClass_Vector else if width = 8 then Some RegClass_Sse else None)"

definition is_abi_vector_width :: "nat \<Rightarrow> bool" where
  "is_abi_vector_width width \<longleftrightarrow> vector_reg_class width \<noteq> None"

definition is_narrow_vector :: "AggDesc \<Rightarrow> bool" where
  "is_narrow_vector desc \<longleftrightarrow> agg_vector desc \<and> agg_size desc < 8"

definition narrow_vector_lanes :: "AggDesc \<Rightarrow> (nat \<times> nat) option" where
  "narrow_vector_lanes desc =
     (case agg_fields desc of
        [] \<Rightarrow> None
      | elem # _ \<Rightarrow>
          let count = length (agg_fields desc)
          in if is_narrow_vector desc \<and> ff_kind elem = ScalarKind_Int \<and> count > 1
             then Some (ff_size elem, 8 div count) else None)"

definition arg_align :: "nat \<Rightarrow> nat \<Rightarrow> Abi \<Rightarrow> nat" where
  "arg_align al mal abi = (if natural_composite_align abi then mal else al)"

section \<open>Win64\<close>

definition classify_win64 :: "nat \<Rightarrow> bool \<Rightarrow> AggClass" where
  "classify_win64 sz is_return =
     (if sz \<in> {1, 2, 4, 8} then AggClass_Regs [RegClass_Integer]
      else if is_return then AggClass_ReturnIndirect
      else AggClass_ByRef)"

section \<open>System V AMD64\<close>

datatype Eightbyte = EB_NoClass | EB_Integer | EB_Sse | EB_SseUp | EB_X87 | EB_X87Up | EB_Memory

definition eb_merge :: "Eightbyte \<Rightarrow> Eightbyte \<Rightarrow> Eightbyte" where
  "eb_merge a b =
     (if a = b then a
      else if a = EB_NoClass then b
      else if b = EB_NoClass then a
      else if a = EB_Memory \<or> b = EB_Memory then EB_Memory
      else if a = EB_Integer \<or> b = EB_Integer then EB_Integer
      else if a \<in> {EB_X87, EB_X87Up} \<or> b \<in> {EB_X87, EB_X87Up} then EB_Memory
      else EB_Sse)"

text \<open>The class field \<open>f\<close> brings to eightbyte \<open>k\<close>, when it overlaps it.\<close>

definition overlaps :: "FlatField \<Rightarrow> nat \<Rightarrow> bool" where
  "overlaps f k \<longleftrightarrow> \<not> (ff_offset f \<ge> 8 * k + 8 \<or> ff_offset f + ff_size f \<le> 8 * k)"

definition field_class :: "FlatField \<Rightarrow> nat \<Rightarrow> Eightbyte" where
  "field_class f k =
     (let high = 8 * k > ff_offset f
      in case ff_kind f of
           ScalarKind_Int \<Rightarrow> EB_Integer
         | ScalarKind_F80 \<Rightarrow> if high then EB_X87Up else EB_X87
         | ScalarKind_Vector \<Rightarrow> if high then EB_SseUp else EB_Sse
         | ScalarKind_F128 \<Rightarrow> if high then EB_SseUp else EB_Sse
         | _ \<Rightarrow> EB_Sse)"

definition merge_field :: "nat \<Rightarrow> FlatField \<Rightarrow> Eightbyte list \<Rightarrow> Eightbyte list" where
  "merge_field n f ebs =
     map (\<lambda>(k, eb). if k < n \<and> overlaps f k then eb_merge eb (field_class f k) else eb)
       (List.enumerate 0 ebs)"

text \<open>The loop that turns eightbytes into register classes; \<open>None\<close> is its \<open>unreachable!\<close>.\<close>

fun eb_classes :: "Eightbyte list \<Rightarrow> RegClass list option" where
  "eb_classes [] = Some []"
| "eb_classes (EB_Integer # es) = map_option ((#) RegClass_Integer) (eb_classes es)"
| "eb_classes (EB_NoClass # es) = map_option ((#) RegClass_NoClass) (eb_classes es)"
| "eb_classes (EB_Sse # EB_SseUp # es) = map_option ((#) RegClass_Vector) (eb_classes es)"
| "eb_classes (EB_Sse # es) = map_option ((#) RegClass_Sse) (eb_classes es)"
| "eb_classes (EB_SseUp # es) = map_option ((#) RegClass_Sse) (eb_classes es)"
| "eb_classes [EB_X87] = Some [RegClass_X87]"
| "eb_classes (EB_X87 # _ # es) = map_option ((#) RegClass_X87) (eb_classes es)"
| "eb_classes (EB_X87Up # es) = None"
| "eb_classes (EB_Memory # es) = None"

definition pop_noclass :: "RegClass list \<Rightarrow> RegClass list" where
  "pop_noclass cs = rev (dropWhile (\<lambda>c. c = RegClass_NoClass) (rev cs))"

definition x87_pair :: "Eightbyte list \<Rightarrow> nat \<Rightarrow> bool" where
  "x87_pair ebs k \<longleftrightarrow> ebs ! k = EB_X87 \<and> k + 1 < length ebs \<and> ebs ! (k + 1) = EB_X87Up"

definition stray_x87 :: "Eightbyte list \<Rightarrow> bool" where
  "stray_x87 ebs \<longleftrightarrow>
     (\<exists>k \<in> set [0..<length ebs].
        (case ebs ! k of
           EB_X87 \<Rightarrow> \<not> x87_pair ebs k
         | EB_X87Up \<Rightarrow> k = 0 \<or> \<not> x87_pair ebs (k - 1)
         | _ \<Rightarrow> False))"

definition sysv_eightbytes :: "nat \<Rightarrow> FlatField list \<Rightarrow> Eightbyte list" where
  "sysv_eightbytes sz fs =
     (let n = (sz + 7) div 8
      in take n (fold (merge_field n) fs [EB_NoClass, EB_NoClass]))"

definition classify_sysv :: "nat \<Rightarrow> FlatField list \<Rightarrow> bool \<Rightarrow> AggClass option" where
  "classify_sysv sz fs is_return =
     (let memory = (if is_return then AggClass_ReturnIndirect else AggClass_ByStack)
      in if sz = 0 then Some (AggClass_Regs [])
         else if sz > 16 \<or>
           (\<exists>f \<in> set fs. single_fp_vector f \<or> ff_offset f mod max (ff_align f) 1 \<noteq> 0)
         then Some memory
         else
           let ebs = sysv_eightbytes sz fs
           in if EB_Memory \<in> set ebs \<or> stray_x87 ebs \<or> (\<not> is_return \<and> EB_X87 \<in> set ebs)
              then Some memory
              else map_option (\<lambda>cs. AggClass_Regs (pop_noclass cs)) (eb_classes ebs))"

section \<open>AAPCS64\<close>

definition classify_aapcs64 :: "AggDesc \<Rightarrow> bool \<Rightarrow> AggClass" where
  "classify_aapcs64 desc is_return =
     (case homogeneous desc of
        Some hfa \<Rightarrow> AggClass_Regs (replicate (ha_count hfa) (ha_reg_class hfa))
      | None \<Rightarrow>
          let sz = agg_size desc
          in if sz = 0 then AggClass_Regs []
             else case Option.bind (sole_vector_width sz (agg_fields desc)) vector_reg_class of
               Some c \<Rightarrow> AggClass_Regs [c]
             | None \<Rightarrow>
                 if is_return \<and> is_narrow_vector desc then AggClass_Regs [RegClass_Sse]
                 else if sz \<le> 16 then AggClass_Regs (replicate ((sz + 7) div 8) RegClass_Integer)
                 else if is_return then AggClass_ReturnIndirect
                 else AggClass_ByRef)"

definition classify_aggregate :: "AggDesc \<Rightarrow> Abi \<Rightarrow> bool \<Rightarrow> AggClass option" where
  "classify_aggregate desc abi is_return =
     (if arch abi = X86_64 then
        (if position_indexed_args abi then Some (classify_win64 (agg_size desc) is_return)
         else classify_sysv (agg_size desc) (agg_fields desc) is_return)
      else Some (classify_aapcs64 desc is_return))"

section \<open>Layouts\<close>

definition fp_member_layout :: "AggDesc \<Rightarrow> bool \<Rightarrow> (nat \<times> nat) list option" where
  "fp_member_layout desc is_return =
     (case homogeneous desc of
        Some hfa \<Rightarrow> Some (ha_members hfa)
      | None \<Rightarrow>
          if is_return \<and> is_narrow_vector desc then Some [(0, agg_size desc)]
          else case sole_vector_width (agg_size desc) (agg_fields desc) of
            None \<Rightarrow> None
          | Some width \<Rightarrow>
              (case vector_reg_class width of None \<Rightarrow> None | Some _ \<Rightarrow> Some [(0, width)]))"

record RegPart =
  rp_class :: RegClass
  rp_offset :: nat
  rp_width :: nat
  rp_fields :: "FlatField list"

text \<open>The outer option is the panic of the classification.\<close>

definition part_layout :: "AggDesc \<Rightarrow> Abi \<Rightarrow> RegClass list \<Rightarrow> (nat \<times> nat \<times> RegClass) list" where
  "part_layout desc abi classes =
     (case (homogeneous desc, arch abi) of
        (Some hfa, Aarch64) \<Rightarrow> map (\<lambda>(off, msize). (off, msize, RegClass_Sse)) (ha_members hfa)
      | _ \<Rightarrow> map (\<lambda>(class, off). (off, min (agg_size desc - off) 8, class)) (register_slots classes))"

definition make_part :: "FlatField list \<Rightarrow> nat \<times> nat \<times> RegClass \<Rightarrow> RegPart" where
  "make_part fs = (\<lambda>(off, width, class).
     \<lparr>rp_class = class, rp_offset = off, rp_width = width,
      rp_fields = filter (\<lambda>f. ff_offset f \<ge> off \<and> ff_offset f + ff_size f \<le> off + width) fs\<rparr>)"

definition register_parts :: "AggDesc \<Rightarrow> Abi \<Rightarrow> bool \<Rightarrow> RegPart list option option" where
  "register_parts desc abi is_return =
     (case classify_aggregate desc abi is_return of
        None \<Rightarrow> None
      | Some (AggClass_Regs classes) \<Rightarrow>
          if classes = [] \<or> RegClass_Vector \<in> set classes \<or> RegClass_X87 \<in> set classes
          then Some None
          else Some (Some (map (make_part (agg_fields desc)) (part_layout desc abi classes)))
      | Some _ \<Rightarrow> Some None)"

section \<open>The System V eightbytes\<close>

lemma eb_merge_commute: "eb_merge a b = eb_merge b a"
  by (auto simp: eb_merge_def)

lemma eb_merge_NoClass [simp]: "eb_merge a EB_NoClass = a" "eb_merge EB_NoClass a = a"
  by (auto simp: eb_merge_def)

lemma eb_merge_eq_NoClass [simp]: "eb_merge a b = EB_NoClass \<longleftrightarrow> a = EB_NoClass \<and> b = EB_NoClass"
  by (auto simp: eb_merge_def)

lemma field_class_not_NoClass [simp]: "field_class f k \<noteq> EB_NoClass"
  by (simp add: field_class_def Let_def split: ScalarKind.split)

lemma length_merge_field [simp]: "length (merge_field n f ebs) = length ebs"
  by (simp add: merge_field_def)

lemma nth_merge_field:
  "k < length ebs \<Longrightarrow> merge_field n f ebs ! k =
     (if k < n \<and> overlaps f k then eb_merge (ebs ! k) (field_class f k) else ebs ! k)"
  by (simp add: merge_field_def nth_enumerate_eq)

lemma length_fold_merge [simp]: "length (fold (merge_field n) fs ebs) = length ebs"
  by (induction fs arbitrary: ebs) simp_all

lemma nth_fold_merge:
  "k < length ebs \<Longrightarrow> k < n \<Longrightarrow> fold (merge_field n) fs ebs ! k =
     fold (\<lambda>f eb. eb_merge eb (field_class f k)) (filter (\<lambda>f. overlaps f k) fs) (ebs ! k)"
  by (induction fs arbitrary: ebs) (auto simp: nth_merge_field)

lemma fold_merge_NoClass:
  "fold (\<lambda>f eb. eb_merge eb (field_class f k)) fs eb = EB_NoClass \<longleftrightarrow> eb = EB_NoClass \<and> fs = []"
  by (induction fs arbitrary: eb) auto

lemma length_sysv_eightbytes: "sz \<le> 16 \<Longrightarrow> length (sysv_eightbytes sz fs) = (sz + 7) div 8"
  by (simp add: sysv_eightbytes_def Let_def)

text \<open>Eightbyte \<open>k\<close> merges, in order, the classes of the fields that overlap it.\<close>

lemma nth_sysv_eightbytes:
  assumes "sz \<le> 16" and "8 * k < sz"
  shows "sysv_eightbytes sz fs ! k =
    fold (\<lambda>f eb. eb_merge eb (field_class f k)) (filter (\<lambda>f. overlaps f k) fs) EB_NoClass"
proof -
  have k: "k < (sz + 7) div 8" "k < 2" using assms by linarith+
  then have "[EB_NoClass, EB_NoClass] ! k = EB_NoClass" by (cases k) simp_all
  then show ?thesis
    using k nth_fold_merge [of k "[EB_NoClass, EB_NoClass]" "(sz + 7) div 8" fs]
    by (simp add: sysv_eightbytes_def Let_def)
qed

lemma sysv_eightbyte_NoClass:
  assumes "sz \<le> 16" and "8 * k < sz"
  shows "sysv_eightbytes sz fs ! k = EB_NoClass \<longleftrightarrow> (\<forall>f \<in> set fs. \<not> overlaps f k)"
  using assms by (simp add: nth_sysv_eightbytes fold_merge_NoClass filter_empty_conv)

lemma sysv_eightbytes_shape:
  assumes "sz \<noteq> 0" and "sz \<le> 16"
  obtains a where "sysv_eightbytes sz fs = [a]" | a b where "sysv_eightbytes sz fs = [a, b]"
proof -
  have "length (sysv_eightbytes sz fs) = 1 \<or> length (sysv_eightbytes sz fs) = 2"
    using assms by (simp add: length_sysv_eightbytes) linarith
  then show ?thesis
    by (metis One_nat_def Suc_1 length_0_conv length_Suc_conv that)
qed

lemma stray_x87_one: "stray_x87 [a] \<longleftrightarrow> a \<in> {EB_X87, EB_X87Up}"
  by (cases a) (simp_all add: stray_x87_def x87_pair_def)

lemma stray_x87_two:
  "stray_x87 [a, b] \<longleftrightarrow> a = EB_X87Up \<or> (a = EB_X87) \<noteq> (b = EB_X87Up) \<or> b = EB_X87"
  by (cases a; cases b) (simp_all add: stray_x87_def x87_pair_def upt_rec)

text \<open>The panic of \<open>eb_classes\<close> is out of reach once rule 5 has sent its inputs to memory.\<close>

lemma eb_classes_total:
  assumes "sz \<noteq> 0" "sz \<le> 16" "EB_Memory \<notin> set (sysv_eightbytes sz fs)"
    and "\<not> stray_x87 (sysv_eightbytes sz fs)"
  shows "\<exists>cs. eb_classes (sysv_eightbytes sz fs) = Some cs"
  using assms(1,2)
proof (cases rule: sysv_eightbytes_shape [where fs = fs])
  case (1 a)
  then show ?thesis using assms(3,4) by (cases a) (simp_all add: stray_x87_one)
next
  case (2 a b)
  then show ?thesis using assms(3,4) by (cases a; cases b) (simp_all add: stray_x87_two)
qed

lemma classify_sysv_total: "\<exists>c. classify_sysv sz fs is_return = Some c"
  using eb_classes_total [of sz fs] by (auto simp: classify_sysv_def Let_def)

lemma classify_aggregate_total: "\<exists>c. classify_aggregate desc abi is_return = Some c"
  using classify_sysv_total by (simp add: classify_aggregate_def)

subsection \<open>Trailing empty slots\<close>

lemma pop_noclass_split: "\<exists>j. cs = pop_noclass cs @ replicate j RegClass_NoClass"
proof -
  let ?P = "\<lambda>c. c = RegClass_NoClass"
  have "takeWhile ?P (rev cs) = replicate (length (takeWhile ?P (rev cs))) RegClass_NoClass"
    by (intro replicate_eqI) (auto dest: set_takeWhileD)
  then have "rev (takeWhile ?P (rev cs)) = replicate (length (takeWhile ?P (rev cs))) RegClass_NoClass"
    by (metis rev_replicate)
  moreover have "cs = rev (dropWhile ?P (rev cs)) @ rev (takeWhile ?P (rev cs))"
    by (metis rev_append rev_rev_ident takeWhile_dropWhile_id)
  ultimately show ?thesis unfolding pop_noclass_def by metis
qed

lemma set_pop_noclass: "set (pop_noclass cs) \<subseteq> set cs"
  by (auto simp: pop_noclass_def dest: set_dropWhileD)

lemma pop_noclass_keeps:
  assumes "k < length cs" and "cs ! k \<noteq> RegClass_NoClass"
  shows "k < length (pop_noclass cs)" and "pop_noclass cs ! k = cs ! k"
proof -
  obtain j where j: "cs = pop_noclass cs @ replicate j RegClass_NoClass" using pop_noclass_split by blast
  show lt: "k < length (pop_noclass cs)"
  proof (rule ccontr)
    assume "\<not> k < length (pop_noclass cs)"
    then have "cs ! k = RegClass_NoClass"
      using assms(1) j by (metis le_add_diff_inverse length_append length_replicate linorder_not_le
          nat_add_left_cancel_less nth_append_length_plus nth_replicate)
    then show False using assms(2) by simp
  qed
  then show "pop_noclass cs ! k = cs ! k" using j by (metis nth_append)
qed

lemma length_pop_noclass: "length (pop_noclass cs) \<le> length cs"
  by (metis length_dropWhile_le length_rev pop_noclass_def)

lemma register_parts_total: "\<exists>parts. register_parts desc abi is_return = Some parts"
  using classify_aggregate_total [of desc abi is_return]
  by (auto simp: register_parts_def split: AggClass.split)

section \<open>The register slots of a classification\<close>

definition carries :: "(nat \<times> nat) list \<Rightarrow> nat \<Rightarrow> bool" where
  "carries ps b \<longleftrightarrow> (\<exists>(off, w) \<in> set ps. off \<le> b \<and> b < off + w)"

lemma parts_between_stride:
  assumes "sorted_wrt (<) ks" and "0 < w" and "\<forall>k \<in> set ks. lo \<le> w * k \<and> w * k < hi"
  shows "parts_between lo (map (\<lambda>k. (w * k, min (hi - w * k) w)) ks) hi"
  using assms
proof (induction ks arbitrary: lo)
  case (Cons k ks)
  have "w * k + min (hi - w * k) w \<le> w * k'" if "k' \<in> set ks" for k'
  proof -
    have "Suc k \<le> k'" using that Cons.prems(1) by auto
    then have "w * Suc k \<le> w * k'" by (rule mult_le_mono2)
    then show ?thesis by simp
  qed
  then have "parts_between (w * k + min (hi - w * k) w) (map (\<lambda>k. (w * k, min (hi - w * k) w)) ks) hi"
    using Cons.prems by (intro Cons.IH) simp_all
  moreover have "w * k + min (hi - w * k) w \<le> hi"
    using Cons.prems(3) min.cobounded1 [of "hi - w * k" w]
    by (metis add_diff_inverse_nat list.set_intros(1) nat_add_left_cancel_le not_less_iff_gr_or_eq)
  ultimately show ?case using Cons.prems by simp
qed simp

lemma carries_stride:
  assumes "k \<in> set ks" and "w * k \<le> b" and "b < w * k + w" and "b < hi"
  shows "carries (map (\<lambda>k. (w * k, min (hi - w * k) w)) ks) b"
  using assms unfolding carries_def by (auto intro!: bexI [of _ k])

lemma slots_from_eight:
  assumes "RegClass_Vector \<notin> set cs" and "RegClass_X87 \<notin> set cs"
  shows "slots_from off cs = map (\<lambda>k. (cs ! k, off + 8 * k)) [0..<length cs]"
  using assms
proof (induction cs arbitrary: off)
  case (Cons c cs)
  have "class_width c = 8" using Cons.prems by (cases c) simp_all
  then show ?case using Cons by (simp add: upt_conv_Cons map_Suc_upt [symmetric] comp_def del: upt_Suc)
qed simp

lemma register_slots_eight:
  assumes "RegClass_Vector \<notin> set cs" and "RegClass_X87 \<notin> set cs"
  shows "register_slots cs =
    map (\<lambda>k. (cs ! k, 8 * k)) (filter (\<lambda>k. cs ! k \<noteq> RegClass_NoClass) [0..<length cs])"
  unfolding register_slots_def slots_from_eight [OF assms]
  by (simp add: filter_map comp_def)

lemma eb_classes_eight:
  assumes "eb_classes ebs = Some cs" and "RegClass_Vector \<notin> set cs" and "RegClass_X87 \<notin> set cs"
  shows "length cs = length ebs \<and> (\<forall>k < length ebs. cs ! k = RegClass_NoClass \<longleftrightarrow> ebs ! k = EB_NoClass)"
  using assms
  by (induction ebs arbitrary: cs rule: eb_classes.induct)
    (fastforce simp: less_Suc_eq_0_disj)+

text \<open>
  The descriptor the front end hands over: every leaf inside the aggregate, and an AAPCS64
  homogeneous aggregate without padding.
\<close>

definition agg_wf :: "AggDesc \<Rightarrow> bool" where
  "agg_wf desc \<longleftrightarrow>
     (\<forall>f \<in> set (agg_fields desc). ff_offset f + ff_size f \<le> agg_size desc) \<and>
     (case homogeneous desc of
        None \<Rightarrow> True
      | Some h \<Rightarrow> is_base (ha_kind h) (ha_width h) \<and> 1 \<le> ha_count h \<and> ha_count h \<le> 4 \<and>
          ha_count h * ha_width h = agg_size desc)"

lemma agg_wf_field: "agg_wf desc \<Longrightarrow> f \<in> set (agg_fields desc) \<Longrightarrow> ff_offset f + ff_size f \<le> agg_size desc"
  by (simp add: agg_wf_def)

lemma agg_wf_homogeneous:
  assumes "agg_wf desc" and "homogeneous desc = Some h"
  shows "ha_width h \<in> {4, 8, 16}" "1 \<le> ha_count h" "ha_count h \<le> 4"
    "ha_count h * ha_width h = agg_size desc"
  using assms by (auto simp: agg_wf_def is_base_def)

text \<open>
  The slots of a classification that is not by homogeneous elements are eightbytes of the
  aggregate, and the eightbyte of every byte of a field has a register.
\<close>

definition eight_slots :: "AggDesc \<Rightarrow> RegClass list \<Rightarrow> bool" where
  "eight_slots desc cs \<longleftrightarrow>
     length cs \<le> (agg_size desc + 7) div 8 \<and>
     (\<forall>f \<in> set (agg_fields desc). \<forall>b. ff_offset f \<le> b \<and> b < ff_offset f + ff_size f \<and> b < agg_size desc \<longrightarrow>
        b div 8 < length cs \<and> cs ! (b div 8) \<noteq> RegClass_NoClass)"

lemma overlaps_byte: "ff_offset f \<le> b \<Longrightarrow> b < ff_offset f + ff_size f \<Longrightarrow> overlaps f (b div 8)"
  by (simp add: overlaps_def) linarith

lemma eight_slots_sysv:
  assumes "classify_sysv (agg_size desc) (agg_fields desc) is_return = Some (AggClass_Regs cs)"
    and v: "RegClass_Vector \<notin> set cs" "RegClass_X87 \<notin> set cs"
  shows "eight_slots desc cs"
proof (cases "agg_size desc = 0")
  case True
  then show ?thesis using assms by (simp add: eight_slots_def classify_sysv_def)
next
  case False
  let ?ebs = "sysv_eightbytes (agg_size desc) (agg_fields desc)"
  have sz: "agg_size desc \<le> 16"
    using assms(1) False by (auto simp: classify_sysv_def Let_def split: if_splits)
  obtain all where all: "eb_classes ?ebs = Some all" "cs = pop_noclass all"
    using assms(1) False by (auto simp: classify_sysv_def Let_def split: if_splits)
  have "set all \<subseteq> insert RegClass_NoClass (set cs)"
    using pop_noclass_split [of all] all(2) by (metis Un_insert_right insert_is_Un set_append
        set_replicate_conv_if sup_bot.right_neutral sup_commute Un_subset_iff subset_insertI order_refl)
  then have nv: "RegClass_Vector \<notin> set all" "RegClass_X87 \<notin> set all" using v by auto
  note eight = eb_classes_eight [OF all(1) nv]
  have len: "length all = (agg_size desc + 7) div 8"
    using eight length_sysv_eightbytes [OF sz] by simp
  have "b div 8 < length cs \<and> cs ! (b div 8) \<noteq> RegClass_NoClass"
    if f: "f \<in> set (agg_fields desc)" "ff_offset f \<le> b" "b < ff_offset f + ff_size f" "b < agg_size desc" for f b
  proof -
    have k: "8 * (b div 8) < agg_size desc" "b div 8 < length all" using f(4) len by linarith+
    have "?ebs ! (b div 8) \<noteq> EB_NoClass"
      using f(1) overlaps_byte [OF f(2,3)] by (auto simp: sysv_eightbyte_NoClass [OF sz k(1)])
    then have "all ! (b div 8) \<noteq> RegClass_NoClass" using eight k(2) by simp
    then show ?thesis using pop_noclass_keeps [OF k(2)] all(2) by simp
  qed
  moreover have "length cs \<le> (agg_size desc + 7) div 8" using length_pop_noclass [of all] all(2) len by simp
  ultimately show ?thesis by (auto simp: eight_slots_def)
qed

lemma eight_slots_one:
  "0 < agg_size desc \<Longrightarrow> agg_size desc \<le> 8 \<Longrightarrow> c \<noteq> RegClass_NoClass \<Longrightarrow> eight_slots desc [c]"
  by (auto simp: eight_slots_def)

lemma sole_vector_class:
  "Option.bind (sole_vector_width sz fs) vector_reg_class = Some c \<Longrightarrow>
     sz = 8 \<and> c = RegClass_Sse \<or> sz = 16 \<and> c = RegClass_Vector"
  by (cases "(sz, fs)" rule: sole_vector_width.cases)
    (auto simp: vector_reg_class_def split: if_splits)

lemma eight_slots_aapcs64:
  assumes cl: "classify_aapcs64 desc is_return = AggClass_Regs cs" and h: "homogeneous desc = None"
    and v: "RegClass_Vector \<notin> set cs"
  shows "eight_slots desc cs"
proof (cases "agg_size desc = 0")
  case True
  then show ?thesis using cl h by (simp add: classify_aapcs64_def eight_slots_def)
next
  case nz: False
  show ?thesis
  proof (cases "Option.bind (sole_vector_width (agg_size desc) (agg_fields desc)) vector_reg_class")
    case None
    moreover have "eight_slots desc (replicate ((agg_size desc + 7) div 8) RegClass_Integer)"
      by (auto simp: eight_slots_def)
    ultimately show ?thesis
      using cl h nz eight_slots_one [of desc RegClass_Sse]
      by (auto simp: classify_aapcs64_def Let_def is_narrow_vector_def split: if_splits)
  next
    case (Some c)
    then have "cs = [c]" using cl h nz by (simp add: classify_aapcs64_def Let_def)
    then show ?thesis using sole_vector_class [OF Some] v eight_slots_one [of desc RegClass_Sse] by auto
  qed
qed

lemma eight_slots_classify:
  assumes "classify_aggregate desc abi is_return = Some (AggClass_Regs cs)"
    and "arch abi = Aarch64 \<Longrightarrow> homogeneous desc = None"
    and "RegClass_Vector \<notin> set cs" "RegClass_X87 \<notin> set cs"
  shows "eight_slots desc cs"
proof (cases "arch abi")
  case Aarch64
  then show ?thesis using assms eight_slots_aapcs64 by (auto simp: classify_aggregate_def)
next
  case X86_64
  then show ?thesis
    using assms eight_slots_sysv eight_slots_one [of desc RegClass_Integer]
    by (auto simp: classify_aggregate_def classify_win64_def split: if_splits)
qed

lemma parts_layout: "map (\<lambda>p. (rp_offset p, rp_width p)) (map (make_part fs) l) = map (\<lambda>(off, w, c). (off, w)) l"
  by (simp add: make_part_def split_def)

lemma ha_members_stride:
  assumes "ha_count h * ha_width h = hi"
  shows "ha_members h = map (\<lambda>k. (ha_width h * k, min (hi - ha_width h * k) (ha_width h))) [0..<ha_count h]"
proof -
  have "min (hi - ha_width h * k) (ha_width h) = ha_width h" if "k < ha_count h" for k
  proof -
    have "ha_width h * Suc k \<le> ha_width h * ha_count h" using that by (intro mult_le_mono2) simp
    then show ?thesis using assms by (simp add: mult.commute)
  qed
  then show ?thesis by (simp add: ha_members_def mult.commute)
qed

lemma part_layout_stride:
  assumes wf: "agg_wf desc" and cl: "classify_aggregate desc abi is_return = Some (AggClass_Regs cs)"
    and nv: "RegClass_Vector \<notin> set cs" "RegClass_X87 \<notin> set cs"
  obtains w ks where "0 < w" "sorted_wrt (<) ks" "\<forall>k \<in> set ks. w * k < agg_size desc"
    "map (\<lambda>(off, w, c). (off, w)) (part_layout desc abi cs) =
       map (\<lambda>k. (w * k, min (agg_size desc - w * k) w)) ks"
    "\<forall>f \<in> set (agg_fields desc). \<forall>b. ff_offset f \<le> b \<and> b < ff_offset f + ff_size f \<longrightarrow> b div w \<in> set ks"
proof (cases "arch abi = Aarch64 \<and> homogeneous desc \<noteq> None")
  case True
  then obtain h where h: "homogeneous desc = Some h" and arch: "arch abi = Aarch64" by blast
  note hw = agg_wf_homogeneous [OF wf h]
  have w: "0 < ha_width h" using hw(1) by auto
  show ?thesis
  proof (rule that [of "ha_width h" "[0..<ha_count h]"])
    show "\<forall>k \<in> set [0..<ha_count h]. ha_width h * k < agg_size desc"
      using w by (auto simp flip: hw(4))
    show "map (\<lambda>(off, w, c). (off, w)) (part_layout desc abi cs) =
        map (\<lambda>k. (ha_width h * k, min (agg_size desc - ha_width h * k) (ha_width h))) [0..<ha_count h]"
      using ha_members_stride [OF hw(4)] by (simp add: part_layout_def h arch comp_def split_def)
    have "b div ha_width h < ha_count h" if "f \<in> set (agg_fields desc)" "b < ff_offset f + ff_size f" for f b
      using that agg_wf_field [OF wf that(1)] w by (simp add: div_less_iff_less_mult hw(4))
    then show "\<forall>f \<in> set (agg_fields desc). \<forall>b. ff_offset f \<le> b \<and> b < ff_offset f + ff_size f \<longrightarrow>
        b div ha_width h \<in> set [0..<ha_count h]" by simp
  qed (use w in \<open>simp_all add: sorted_wrt_upt\<close>)
next
  case False
  let ?ks = "filter (\<lambda>k. cs ! k \<noteq> RegClass_NoClass) [0..<length cs]"
  have es: "eight_slots desc cs" using False by (intro eight_slots_classify [OF cl _ nv]) simp
  have lay: "part_layout desc abi cs = map (\<lambda>(c, off). (off, min (agg_size desc - off) 8, c)) (register_slots cs)"
    using False by (auto simp: part_layout_def split: option.split Arch.split)
  show ?thesis
  proof (rule that [of 8 ?ks])
    show "\<forall>k \<in> set ?ks. 8 * k < agg_size desc" using es by (auto simp: eight_slots_def)
    show "sorted_wrt (<) ?ks" by (intro sorted_wrt_filter sorted_wrt_upt)
    show "map (\<lambda>(off, w, c). (off, w)) (part_layout desc abi cs) =
        map (\<lambda>k. (8 * k, min (agg_size desc - 8 * k) 8)) ?ks"
      by (simp add: lay register_slots_eight [OF nv] comp_def)
    show "\<forall>f \<in> set (agg_fields desc). \<forall>b. ff_offset f \<le> b \<and> b < ff_offset f + ff_size f \<longrightarrow> b div 8 \<in> set ?ks"
      using es agg_wf_field [OF wf] by (fastforce simp: eight_slots_def)
  qed simp
qed

text \<open>
  The register parts of an aggregate are in order, apart and inside it, and together they carry
  every byte of every field.
\<close>

lemma register_parts_spec:
  assumes "agg_wf desc" and "register_parts desc abi is_return = Some (Some ps)"
  shows "parts_between 0 (map (\<lambda>p. (rp_offset p, rp_width p)) ps) (agg_size desc)"
    and "p \<in> set ps \<Longrightarrow> 0 < rp_width p"
    and "f \<in> set (agg_fields desc) \<Longrightarrow> ff_offset f \<le> b \<Longrightarrow> b < ff_offset f + ff_size f \<Longrightarrow>
      carries (map (\<lambda>p. (rp_offset p, rp_width p)) ps) b"
proof -
  obtain cs where cs: "classify_aggregate desc abi is_return = Some (AggClass_Regs cs)"
    and nv: "RegClass_Vector \<notin> set cs" "RegClass_X87 \<notin> set cs"
    and ps: "ps = map (make_part (agg_fields desc)) (part_layout desc abi cs)"
    using assms(2) by (auto simp: register_parts_def split: option.splits AggClass.splits if_splits)
  obtain w ks where w: "0 < w" "sorted_wrt (<) ks" "\<forall>k \<in> set ks. w * k < agg_size desc"
    and lay: "map (\<lambda>(off, w, c). (off, w)) (part_layout desc abi cs) =
       map (\<lambda>k. (w * k, min (agg_size desc - w * k) w)) ks"
    and cov: "\<forall>f \<in> set (agg_fields desc). \<forall>b. ff_offset f \<le> b \<and> b < ff_offset f + ff_size f \<longrightarrow> b div w \<in> set ks"
    by (rule part_layout_stride [OF assms(1) cs nv])
  have eq: "map (\<lambda>p. (rp_offset p, rp_width p)) ps = map (\<lambda>k. (w * k, min (agg_size desc - w * k) w)) ks"
    unfolding ps parts_layout lay ..
  show "parts_between 0 (map (\<lambda>p. (rp_offset p, rp_width p)) ps) (agg_size desc)"
    unfolding eq using w by (intro parts_between_stride) simp_all
  show "0 < rp_width p" if "p \<in> set ps"
  proof -
    have "(rp_offset p, rp_width p) \<in> set (map (\<lambda>p. (rp_offset p, rp_width p)) ps)" using that by simp
    then show ?thesis using w(1,3) unfolding eq by auto
  qed
  show "carries (map (\<lambda>p. (rp_offset p, rp_width p)) ps) b"
    if "f \<in> set (agg_fields desc)" "ff_offset f \<le> b" "b < ff_offset f + ff_size f"
    unfolding eq
  proof (rule carries_stride)
    show "b div w \<in> set ks" using cov that by blast
    show "w * (b div w) \<le> b" by (rule times_div_less_eq_dividend)
    show "b < w * (b div w) + w" using dividend_less_times_div [OF w(1), of b] by simp
    show "b < agg_size desc" using that agg_wf_field [OF assms(1) that(1)] by simp
  qed
qed

end
