(* ===== verification/Call_Plan.thy ===== *)
theory Call_Plan
  imports Abi_Classify Ir_Masks
begin

text \<open>
  The argument planner, \<^verbatim>\<open>plan_call_args_aggs\<close> of
  \<^verbatim>\<open>src/src/c5/codegen/mod.rs\<close>: where each argument of a call lands under a target's
  calling convention.  The loop over the arguments threads the two register cursors, the stack
  cursor and the widths of the stack slots.  \<open>None\<close> is a panic of the source: its
  \<open>unreachable!\<close> or an index past the four register slots of a placement.  Byte counts are
  \<open>u32\<close> values in the source and \<open>nat\<close> here.  The lemmas are in \<^verbatim>\<open>Call_Plan_Sound\<close>.
\<close>

section \<open>Placements\<close>

record ClassReg =
  reg :: nat
  is_fp :: bool

datatype ArgPlacement =
    AP_IntReg nat
  | AP_FpReg nat
  | AP_Stack nat
  | AP_StructRegs "ClassReg list" nat nat
  | AP_StructStack nat nat nat
  | AP_StructSplit nat nat nat nat

abbreviation (input) zero_reg :: ClassReg where
  "zero_reg \<equiv> \<lparr>reg = 0, is_fp = False\<rparr>"

text \<open>The array of four slots that begins with \<open>rs\<close>.\<close>

definition slots4 :: "ClassReg list \<Rightarrow> ClassReg list" where
  "slots4 rs = rs @ replicate (4 - length rs) zero_reg"

fun register_part :: "ArgPlacement \<Rightarrow> ArgPlacement" where
  "register_part (AP_StructSplit r off sz al) = AP_StructRegs (slots4 [\<lparr>reg = r, is_fp = False\<rparr>]) 1 al"
| "register_part p = p"

record CallPlan =
  placements :: "ArgPlacement list"
  scratch_bytes :: nat
  next_gpr :: nat
  next_fpr :: nat
  stack_bytes :: nat
  cp_stack_widths :: ArgWidths
  fp_mirrors :: "(nat \<times> nat) list"

fun placement_int_regs :: "ArgPlacement \<Rightarrow> nat list" where
  "placement_int_regs (AP_IntReg r) = [r]"
| "placement_int_regs (AP_StructSplit r off sz al) = [r]"
| "placement_int_regs (AP_StructRegs regs n al) = map reg (filter (\<lambda>c. \<not> is_fp c) (take n regs))"
| "placement_int_regs _ = []"

definition int_regs :: "CallPlan \<Rightarrow> nat list" where
  "int_regs self = concat (map placement_int_regs (placements self)) @ map snd (fp_mirrors self)"

definition int_regs_besides :: "CallPlan \<Rightarrow> ValueId list \<Rightarrow> ValueId \<Rightarrow> nat list" where
  "int_regs_besides self args value =
     filter (\<lambda>r. \<not> (\<exists>(p, a) \<in> set (zip (placements self) args). a = value \<and> p = AP_IntReg r))
       (int_regs self)"

section \<open>Aggregate arguments\<close>

record ArgAgg =
  aa_class :: AggClass
  aa_size :: nat
  aa_align :: nat
  aa_arg_align :: nat
  int32 :: bool

definition arg_agg_new :: "AggDesc \<Rightarrow> Abi \<Rightarrow> ArgAgg option" where
  "arg_agg_new desc abi =
     map_option (\<lambda>class.
       \<lparr>aa_class = class, aa_size = agg_size desc, aa_align = agg_align desc,
        aa_arg_align = arg_align (agg_align desc) (member_align desc) abi,
        int32 = (arch abi = Aarch64 \<and> is_narrow_vector desc)\<rparr>)
       (classify_aggregate desc abi False)"

definition agg_stack_off :: "nat \<Rightarrow> nat \<Rightarrow> nat" where
  "agg_stack_off used al = next_multiple_of used (next_power_of_two (min (max al 8) 16))"

definition pair_align16 :: "nat \<Rightarrow> nat \<Rightarrow> ArgAgg \<Rightarrow> Abi \<Rightarrow> nat" where
  "pair_align16 idx mx agg abi =
     (if pair_align16_gprs abi \<and> aa_arg_align agg \<ge> 16 then min (next_multiple_of idx 2) mx else idx)"

definition named_args :: "Abi \<Rightarrow> bool \<Rightarrow> nat \<Rightarrow> nat \<Rightarrow> nat" where
  "named_args abi callee_variadic fixed_args args =
     (if \<not> callee_variadic then args
      else if win_arm64_variadic abi then 0
      else fixed_args)"

section \<open>The loop over the arguments\<close>

record PlanState =
  int_idx :: nat
  fp_idx :: nat
  stack_used :: nat
  stack_widths :: ArgWidths

text \<open>What the loop reads and does not change.\<close>

record PlanInput =
  pi_fixed :: nat
  pi_mask :: FpMask
  pi_abi :: Abi
  pi_aggs :: "ArgAgg option list"
  pi_widths :: ArgWidths

abbreviation int_max :: "Abi \<Rightarrow> nat" where
  "int_max abi \<equiv> length (int_arg_regs abi)"

definition scalar_slot :: "PlanInput \<Rightarrow> nat \<Rightarrow> PlanState \<Rightarrow> ArgPlacement \<times> PlanState" where
  "scalar_slot inp i st =
     (let b = (if packed_stack_args (pi_abi inp) \<and> i < pi_fixed inp then aw_bytes (pi_widths inp) i else 8);
          off = next_multiple_of (stack_used st) b
      in (AP_Stack off,
          st\<lparr>stack_used := off + b, stack_widths := aw_set (stack_widths st) i b\<rparr>))"

definition aligned8 :: "ArgAgg \<Rightarrow> nat" where
  "aligned8 agg = (aa_size agg + 7) div 8 * 8"

definition struct_stack :: "ArgAgg \<Rightarrow> PlanState \<Rightarrow> ArgPlacement \<times> PlanState" where
  "struct_stack agg st =
     (let off = agg_stack_off (stack_used st) (aa_arg_align agg)
      in (AP_StructStack off (aa_size agg) (aa_align agg), st\<lparr>stack_used := off + aligned8 agg\<rparr>))"

definition struct_regs :: "ClassReg list \<Rightarrow> ArgAgg \<Rightarrow> ArgPlacement" where
  "struct_regs rs agg = AP_StructRegs (slots4 rs) (length rs) (aa_align agg)"

text \<open>The address of the caller's copy: an integer register, else an eight-byte stack slot.\<close>

definition by_reference :: "Abi \<Rightarrow> PlanState \<Rightarrow> ArgPlacement \<times> PlanState" where
  "by_reference abi st =
     (if int_idx st < int_max abi
      then (AP_IntReg (int_arg_regs abi ! int_idx st), st\<lparr>int_idx := int_idx st + 1\<rparr>)
      else let off = next_multiple_of (stack_used st) 8
           in (AP_Stack off, st\<lparr>stack_used := off + 8\<rparr>))"

text \<open>A Windows arm64 variadic composite: the integer bank, then the stack.\<close>

definition win_arm64_composite :: "Abi \<Rightarrow> ArgAgg \<Rightarrow> PlanState \<Rightarrow> ArgPlacement \<times> PlanState" where
  "win_arm64_composite abi agg st =
     (if aa_size agg > 16 then by_reference abi st
      else
        let need = max (aligned8 agg div 8) 1;
            idx = pair_align16 (int_idx st) (int_max abi) agg abi
        in if idx + need \<le> int_max abi then
             (struct_regs (map (\<lambda>k. \<lparr>reg = int_arg_regs abi ! (idx + k), is_fp = False\<rparr>) [0..<need]) agg,
              st\<lparr>int_idx := idx + need\<rparr>)
           else if idx < int_max abi then
             (AP_StructSplit (int_arg_regs abi ! idx) (stack_used st) (aa_size agg) (aa_align agg),
              st\<lparr>int_idx := int_max abi, stack_used := stack_used st + aligned8 agg - 8\<rparr>)
           else struct_stack agg (st\<lparr>int_idx := idx\<rparr>))"

text \<open>One register for each slot; an integer slot reads \<open>int_arg_regs\<close> at its cursor.\<close>

fun assign_regs :: "Abi \<Rightarrow> RegClass list \<Rightarrow> nat \<Rightarrow> nat \<Rightarrow> (ClassReg list \<times> nat \<times> nat) option" where
  "assign_regs abi [] ii fi = Some ([], ii, fi)"
| "assign_regs abi (RegClass_Integer # cs) ii fi =
     (if ii < int_max abi
      then map_option (\<lambda>(rs, r). (\<lparr>reg = int_arg_regs abi ! ii, is_fp = False\<rparr> # rs, r))
             (assign_regs abi cs (ii + 1) fi)
      else None)"
| "assign_regs abi (RegClass_Sse # cs) ii fi =
     map_option (\<lambda>(rs, r). (\<lparr>reg = fi, is_fp = True\<rparr> # rs, r)) (assign_regs abi cs ii (fi + 1))"
| "assign_regs abi (RegClass_Vector # cs) ii fi =
     map_option (\<lambda>(rs, r). (\<lparr>reg = fi, is_fp = True\<rparr> # rs, r)) (assign_regs abi cs ii (fi + 1))"
| "assign_regs abi (RegClass_X87 # cs) ii fi = None"
| "assign_regs abi (RegClass_NoClass # cs) ii fi = None"

definition need_int :: "RegClass list \<Rightarrow> nat" where
  "need_int cs = length (filter (\<lambda>c. c = RegClass_Integer) cs)"

definition need_fp :: "RegClass list \<Rightarrow> nat" where
  "need_fp cs = length (filter (\<lambda>c. c = RegClass_Sse \<or> c = RegClass_Vector) cs)"

text \<open>
  The aggregate finds too few registers: AAPCS64 exhausts the bank it wanted, and Apple packs a
  named argument at its own size and alignment.
\<close>

definition packed_slot :: "ArgAgg \<Rightarrow> RegClass list \<Rightarrow> (nat \<times> nat) option" where
  "packed_slot agg cs =
     (if int32 agg then Some (4, 4)
      else if need_int cs = 0 then Some (max (aa_arg_align agg) 1, aa_size agg)
      else None)"

definition spill_agg :: "PlanInput \<Rightarrow> nat \<Rightarrow> ArgAgg \<Rightarrow> RegClass list \<Rightarrow> PlanState \<Rightarrow> ArgPlacement \<times> PlanState" where
  "spill_agg inp i agg cs st0 =
     (let abi = pi_abi inp;
          st = (if arch abi = Aarch64
                then if need_fp cs > 0 \<and> need_int cs = 0 then st0\<lparr>fp_idx := 8\<rparr>
                     else st0\<lparr>int_idx := int_max abi\<rparr>
                else st0)
      in case (if packed_stack_args abi \<and> i < pi_fixed inp then packed_slot agg cs else None) of
           Some (al, b) \<Rightarrow>
             let off = next_multiple_of (stack_used st) al
             in (AP_StructStack off (aa_size agg) (aa_align agg), st\<lparr>stack_used := off + b\<rparr>)
         | None \<Rightarrow> struct_stack agg st)"

definition place_classes ::
  "PlanInput \<Rightarrow> nat \<Rightarrow> ArgAgg \<Rightarrow> RegClass list \<Rightarrow> PlanState \<Rightarrow> (ArgPlacement \<times> PlanState) option" where
  "place_classes inp i agg cs st0 =
     (let abi = pi_abi inp;
          st = (if need_int cs > 0 \<and> need_fp cs = 0
                then st0\<lparr>int_idx := pair_align16 (int_idx st0) (int_max abi) agg abi\<rparr> else st0)
      in if int_idx st + need_int cs \<le> int_max abi \<and> fp_idx st + need_fp cs \<le> 8 then
           (case assign_regs abi (map fst (register_slots cs)) (int_idx st) (fp_idx st) of
              None \<Rightarrow> None
            | Some (rs, ii, fi) \<Rightarrow>
                if length rs \<le> 4 then Some (struct_regs rs agg, st\<lparr>int_idx := ii, fp_idx := fi\<rparr>)
                else None)
         else Some (spill_agg inp i agg cs st))"

definition plan_agg :: "PlanInput \<Rightarrow> nat \<Rightarrow> ArgAgg \<Rightarrow> PlanState \<Rightarrow> (ArgPlacement \<times> PlanState) option" where
  "plan_agg inp i agg st =
     (let abi = pi_abi inp
      in if aa_class agg = AggClass_Regs [] then Some (struct_regs [] agg, st)
         else if i \<ge> pi_fixed inp \<and> variadic_on_stack abi then Some (struct_stack agg st)
         else if position_indexed_args abi then
           Some (if i < int_max abi
                 then (struct_regs [\<lparr>reg = int_arg_regs abi ! i, is_fp = False\<rparr>] agg, st)
                 else struct_stack agg st)
         else if i \<ge> pi_fixed inp \<and> win_arm64_variadic abi then Some (win_arm64_composite abi agg st)
         else case aa_class agg of
           AggClass_Regs cs \<Rightarrow> place_classes inp i agg cs st
         | AggClass_ByRef \<Rightarrow> Some (by_reference abi st)
         | AggClass_ByStack \<Rightarrow> Some (struct_stack agg st)
         | AggClass_ReturnIndirect \<Rightarrow> Some (struct_stack agg st))"

definition plan_scalar :: "PlanInput \<Rightarrow> nat \<Rightarrow> PlanState \<Rightarrow> ArgPlacement \<times> PlanState" where
  "plan_scalar inp i st =
     (let abi = pi_abi inp;
          is_fp = fm_has (pi_mask inp) i;
          is_variadic = (i \<ge> pi_fixed inp);
          force_stack = (is_variadic \<and> variadic_on_stack abi);
          allow_fp_reg = (\<not> is_variadic \<or> \<not> variadic_int_only abi)
      in if force_stack then scalar_slot inp i st
         else if position_indexed_args abi then
           (if i < int_max abi
            then (if is_fp then AP_FpReg i else AP_IntReg (int_arg_regs abi ! i), st)
            else scalar_slot inp i st)
         else if is_fp \<and> allow_fp_reg \<and> fp_idx st < 8 then
           (AP_FpReg (fp_idx st), st\<lparr>fp_idx := fp_idx st + 1\<rparr>)
         else if is_fp \<and> allow_fp_reg then scalar_slot inp i st
         else if int_idx st < int_max abi then
           (AP_IntReg (int_arg_regs abi ! int_idx st), st\<lparr>int_idx := int_idx st + 1\<rparr>)
         else scalar_slot inp i st)"

definition agg_at :: "ArgAgg option list \<Rightarrow> nat \<Rightarrow> ArgAgg option" where
  "agg_at aggs i = (if i < length aggs then aggs ! i else None)"

definition plan_arg :: "PlanInput \<Rightarrow> nat \<Rightarrow> PlanState \<Rightarrow> (ArgPlacement \<times> PlanState) option" where
  "plan_arg inp i st =
     (case agg_at (pi_aggs inp) i of
        Some agg \<Rightarrow> plan_agg inp i agg st
      | None \<Rightarrow> Some (plan_scalar inp i st))"

text \<open>The arguments from position \<open>i\<close> on, \<open>n\<close> of them.\<close>

fun plan_loop :: "PlanInput \<Rightarrow> nat \<Rightarrow> nat \<Rightarrow> PlanState \<Rightarrow> (ArgPlacement list \<times> PlanState) option" where
  "plan_loop inp i 0 st = Some ([], st)"
| "plan_loop inp i (Suc n) st =
     (case plan_arg inp i st of
        None \<Rightarrow> None
      | Some (p, st1) \<Rightarrow> map_option (\<lambda>(ps, st2). (p # ps, st2)) (plan_loop inp (i + 1) n st1))"

fun rebase :: "nat \<Rightarrow> ArgPlacement \<Rightarrow> ArgPlacement" where
  "rebase sh (AP_Stack off) = AP_Stack (off + sh)"
| "rebase sh (AP_StructStack off sz al) = AP_StructStack (off + sh) sz al"
| "rebase sh (AP_StructSplit r off sz al) = AP_StructSplit r (off + sh) sz al"
| "rebase sh p = p"

definition plan_start :: "bool \<Rightarrow> PlanState" where
  "plan_start ret_via_first_int =
     \<lparr>int_idx = (if ret_via_first_int then 1 else 0), fp_idx = 0, stack_used = 0, stack_widths = 0\<rparr>"

definition plan_call_args_aggs ::
  "nat \<Rightarrow> nat \<Rightarrow> FpMask \<Rightarrow> Abi \<Rightarrow> ArgAgg option list \<Rightarrow> bool \<Rightarrow> ArgWidths \<Rightarrow> CallPlan option" where
  "plan_call_args_aggs arg_count fixed_args fpm abi aggs ret_via_first_int widths =
     map_option (\<lambda>(ps, st).
       let raw = stack_used st + shadow_space abi
       in \<lparr>placements = (if shadow_space abi > 0 then map (rebase (shadow_space abi)) ps else ps),
           scratch_bytes = (raw + 15) div 16 * 16,
           next_gpr = int_idx st, next_fpr = fp_idx st, stack_bytes = stack_used st,
           cp_stack_widths = stack_widths st, fp_mirrors = []\<rparr>)
       (plan_loop \<lparr>pi_fixed = fixed_args, pi_mask = fpm, pi_abi = abi, pi_aggs = aggs, pi_widths = widths\<rparr>
          0 arg_count (plan_start ret_via_first_int))"

definition plan_call_args :: "nat \<Rightarrow> nat \<Rightarrow> FpMask \<Rightarrow> Abi \<Rightarrow> CallPlan option" where
  "plan_call_args arg_count fixed_args fpm abi =
     plan_call_args_aggs arg_count fixed_args fpm abi [] False 0"

definition plan_param_regs_aggs ::
  "nat \<Rightarrow> FpMask \<Rightarrow> Abi \<Rightarrow> ArgAgg option list \<Rightarrow> ArgWidths \<Rightarrow> CallPlan option" where
  "plan_param_regs_aggs params fpm abi aggs widths =
     plan_call_args_aggs params params fpm abi aggs False widths"

definition plan_mirrored_call :: "nat \<Rightarrow> FpMask \<Rightarrow> Abi \<Rightarrow> ArgAgg option list \<Rightarrow> CallPlan option" where
  "plan_mirrored_call arg_count fpm abi aggs =
     map_option (\<lambda>plan. plan\<lparr>fp_mirrors :=
         concat (map (\<lambda>(i, p). case p of
                     AP_FpReg x \<Rightarrow> if i < int_max abi then [(x, int_arg_regs abi ! i)] else []
                   | _ \<Rightarrow> []) (List.enumerate 0 (placements plan)))\<rparr>)
       (plan_call_args_aggs arg_count arg_count fpm abi aggs False 0)"

end
