(* ===== verification/Call_Plan_Sound.thy ===== *)
theory Call_Plan_Sound
  imports Call_Plan
begin

text \<open>
  Why a call plan is safe.  Each step of the planner's loop is described on the two register
  cursors and on the stack cursor; the loop composes the steps: the stack placements follow one
  another inside the reserved area, no register is given out twice, no aggregate the classifier
  produces makes the planner panic, and the plan of a prefix is the prefix of the plan, which is
  what makes caller and callee agree.
\<close>

section \<open>What one argument does to the cursors\<close>

fun placement_fp_regs :: "ArgPlacement \<Rightarrow> nat list" where
  "placement_fp_regs (AP_FpReg r) = [r]"
| "placement_fp_regs (AP_StructRegs regs n al) = map reg (filter is_fp (take n regs))"
| "placement_fp_regs _ = []"

text \<open>The bytes of the outgoing area a placement fills; \<open>w\<close> is the width of a scalar slot.\<close>

fun stack_extent :: "nat \<Rightarrow> ArgPlacement \<Rightarrow> (nat \<times> nat) list" where
  "stack_extent w (AP_Stack off) = [(off, w)]"
| "stack_extent w (AP_StructStack off sz al) = [(off, sz)]"
| "stack_extent w (AP_StructSplit r off sz al) = [(off, sz - 8)]"
| "stack_extent w _ = []"

text \<open>The classification an argument reaches the planner with.\<close>

definition agg_ok :: "ArgAgg \<Rightarrow> bool" where
  "agg_ok agg \<longleftrightarrow>
     (case aa_class agg of
        AggClass_Regs cs \<Rightarrow> RegClass_X87 \<notin> set cs \<and> length (filter (\<lambda>c. c \<noteq> RegClass_NoClass) cs) \<le> 4
      | _ \<Rightarrow> True) \<and>
     (int32 agg \<longrightarrow> aa_size agg \<le> 4)"

definition aggs_ok :: "ArgAgg option list \<Rightarrow> bool" where
  "aggs_ok aggs \<longleftrightarrow> (\<forall>agg. Some agg \<in> set aggs \<longrightarrow> agg_ok agg)"

lemma aggs_ok_at: "aggs_ok aggs \<Longrightarrow> agg_at aggs i = Some agg \<Longrightarrow> agg_ok agg"
  by (auto simp: aggs_ok_def agg_at_def split: if_splits) (metis nth_mem)

subsection \<open>The stack cursor\<close>

lemma next_power_of_two_8_16:
  assumes "8 \<le> n" and "n \<le> 16"
  shows "next_power_of_two n \<in> {8, 16}"
proof -
  have "n \<in> {8, 9, 10, 11, 12, 13, 14, 15, 16}" using assms by (simp only: insert_iff empty_iff) linarith
  then show ?thesis by (elim insertE emptyE) (simp_all add: next_power_of_two.simps)
qed

lemma next_power_of_two_slot: "next_power_of_two (min (max al 8) 16) \<in> {8, 16}"
  by (rule next_power_of_two_8_16) simp_all

lemma agg_stack_off_ge: "used \<le> agg_stack_off used al"
  using next_power_of_two_slot [of al] by (auto simp: agg_stack_off_def intro: next_multiple_of_bounds)

lemma aligned8_ge: "aa_size agg \<le> aligned8 agg"
  using next_multiple_of_bounds(1) [of 8 "aa_size agg"] by (simp add: aligned8_def next_multiple_of_def)

text \<open>One step keeps to the bytes above the cursor and moves the cursor past them.\<close>

definition stack_step :: "nat \<Rightarrow> PlanState \<Rightarrow> ArgPlacement \<times> PlanState \<Rightarrow> bool" where
  "stack_step i st r \<longleftrightarrow>
     (case r of (p, st') \<Rightarrow>
        stack_used st \<le> stack_used st' \<and>
        parts_between (stack_used st) (stack_extent (aw_bytes (stack_widths st') i) p) (stack_used st') \<and>
        (\<forall>j. j \<noteq> i \<longrightarrow> aw_bytes (stack_widths st') j = aw_bytes (stack_widths st) j))"

named_theorems stack_steps \<open>the planner's steps on the stack cursor\<close>

lemma aw_bytes_range: "aw_bytes w i \<in> {1, 2, 4, 8}"
  by (simp add: aw_bytes_def Let_def)

lemma stack_step_scalar_slot [stack_steps]:
  assumes "aw_bytes (stack_widths st) i = 8"
  shows "stack_step i st (scalar_slot inp i st)"
proof -
  let ?b = "if packed_stack_args (pi_abi inp) \<and> i < pi_fixed inp then aw_bytes (pi_widths inp) i else 8"
  have b: "?b \<in> {1, 2, 4, 8}" using aw_bytes_range by simp
  then have pos: "0 < ?b" by auto
  have w: "aw_bytes (aw_set (stack_widths st) i ?b) i \<le> ?b"
  proof (cases "i < 64")
    case False
    then have "aw_bytes (pi_widths inp) i = 8" by (simp add: aw_bytes_def)
    then show ?thesis using assms aw_bytes_set [OF b, of "stack_widths st" i i] False by simp
  qed (use aw_bytes_set [OF b, of "stack_widths st" i i] in simp)
  show ?thesis
    using next_multiple_of_bounds(1) [OF pos, of "stack_used st"] w aw_bytes_set [OF b, of "stack_widths st" i]
    by (simp add: stack_step_def scalar_slot_def Let_def)
qed

lemma stack_step_struct_stack [stack_steps]: "stack_step i st (struct_stack agg st)"
  using agg_stack_off_ge [of "stack_used st" "aa_arg_align agg"] aligned8_ge [of agg]
  by (simp add: stack_step_def struct_stack_def Let_def)

lemma stack_step_registers [stack_steps]:
  "stack_step i st (AP_IntReg r, st\<lparr>int_idx := n\<rparr>)"
  "stack_step i st (AP_IntReg r, st)"
  "stack_step i st (AP_FpReg r, st)"
  "stack_step i st (AP_FpReg r, st\<lparr>fp_idx := n\<rparr>)"
  "stack_step i st (struct_regs rs agg, st)"
  "stack_step i st (struct_regs rs agg, st\<lparr>int_idx := n\<rparr>)"
  "stack_step i st (struct_regs rs agg, st\<lparr>int_idx := n, fp_idx := m\<rparr>)"
  by (simp_all add: stack_step_def struct_regs_def)

lemma stack_step_by_reference [stack_steps]:
  "aw_bytes (stack_widths st) i = 8 \<Longrightarrow> stack_step i st (by_reference abi st)"
  using next_multiple_of_bounds(1) [of 8 "stack_used st"]
  by (auto simp: by_reference_def stack_step_def Let_def)

lemma stack_step_split:
  assumes "8 \<le> aligned8 agg"
  shows "stack_step i st
      (AP_StructSplit r (stack_used st) (aa_size agg) al,
       st\<lparr>int_idx := m, stack_used := stack_used st + aligned8 agg - 8\<rparr>)"
proof -
  have "stack_used st \<le> stack_used st + aligned8 agg - 8"
    "stack_used st + (aa_size agg - 8) \<le> stack_used st + aligned8 agg - 8"
    using assms aligned8_ge [of agg] by linarith+
  then show ?thesis by (simp add: stack_step_def)
qed

lemma stack_step_win_arm64 [stack_steps]:
  assumes "aw_bytes (stack_widths st) i = 8"
  shows "stack_step i st (win_arm64_composite abi agg st)"
proof -
  let ?idx = "pair_align16 (int_idx st) (int_max abi) agg abi"
  have wide: "8 \<le> aligned8 agg"
    if "\<not> ?idx + max (aligned8 agg div 8) 1 \<le> int_max abi" "?idx < int_max abi"
    using that by (simp add: aligned8_def max_def split: if_splits)
  have "stack_step i st (struct_stack agg (st\<lparr>int_idx := k\<rparr>))" for k
    using stack_step_struct_stack [of i "st\<lparr>int_idx := k\<rparr>" agg] by (simp add: stack_step_def)
  then show ?thesis
    using stack_step_by_reference [OF assms, of abi]
      stack_step_split [OF wide, of i st "int_arg_regs abi ! ?idx" "aa_align agg" "int_max abi"]
      stack_step_registers(6) [of i st _ agg]
    unfolding win_arm64_composite_def Let_def by presburger
qed

lemma stack_step_spill_agg [stack_steps]:
  assumes "agg_ok agg"
  shows "stack_step i st (spill_agg inp i agg cs st)"
proof -
  have ge: "stack_used st \<le> next_multiple_of (stack_used st) a" if "0 < a" for a
    using next_multiple_of_bounds(1) [OF that] .
  show ?thesis
    using assms ge [of 4] trans_le_add1 [OF ge [of "max (aa_arg_align agg) (Suc 0)"]]
      ge [of "max (aa_arg_align agg) (Suc 0)"] agg_stack_off_ge [of "stack_used st" "aa_arg_align agg"]
      aligned8_ge [of agg]
    by (auto simp: spill_agg_def packed_slot_def Let_def stack_step_def struct_stack_def agg_ok_def)
qed

lemma stack_step_place_classes:
  assumes "agg_ok agg" and "place_classes inp i agg cs st = Some r"
  shows "stack_step i st r"
proof -
  have "stack_step i st (spill_agg inp i agg cs (st\<lparr>int_idx := k\<rparr>))" for k
    using stack_step_spill_agg [OF assms(1), of i "st\<lparr>int_idx := k\<rparr>" inp cs] by (simp add: stack_step_def)
  then show ?thesis
    using assms stack_step_spill_agg
    by (auto simp: place_classes_def Let_def stack_step_registers split: option.splits if_splits)
qed

lemma stack_step_plan_arg:
  assumes "aggs_ok (pi_aggs inp)" and "aw_bytes (stack_widths st) i = 8" and "plan_arg inp i st = Some r"
  shows "stack_step i st r"
proof (cases "agg_at (pi_aggs inp) i")
  case None
  then show ?thesis
    using assms by (auto simp: plan_arg_def plan_scalar_def Let_def intro: stack_steps)
next
  case (Some agg)
  have ok: "agg_ok agg" by (rule aggs_ok_at [OF assms(1) Some])
  show ?thesis
    using assms(2,3) Some stack_step_place_classes [OF ok]
    by (auto simp: plan_arg_def plan_agg_def Let_def intro: stack_steps split: if_splits AggClass.splits)
qed

subsection \<open>The register cursors\<close>

text \<open>
  A convention that places by position takes the register of the position; the others advance
  a cursor in each bank.
\<close>

definition int_cursor :: "Abi \<Rightarrow> nat \<Rightarrow> PlanState \<Rightarrow> nat" where
  "int_cursor abi i st = (if position_indexed_args abi then i else int_idx st)"

definition fp_cursor :: "Abi \<Rightarrow> nat \<Rightarrow> PlanState \<Rightarrow> nat" where
  "fp_cursor abi i st = (if position_indexed_args abi then i else fp_idx st)"

text \<open>Strictly increasing indices from \<open>lo\<close> up to, not including, \<open>hi\<close>, below \<open>m\<close>.\<close>

definition ascending :: "nat list \<Rightarrow> nat \<Rightarrow> nat \<Rightarrow> nat \<Rightarrow> bool" where
  "ascending ks lo hi m \<longleftrightarrow> lo \<le> hi \<and> sorted_wrt (<) ks \<and> set ks \<subseteq> {lo..<hi} \<inter> {..<m}"

lemma ascending_append:
  "ascending ks lo mid m \<Longrightarrow> ascending ls mid hi m \<Longrightarrow> ascending (ks @ ls) lo hi m"
  by (fastforce simp: ascending_def sorted_wrt_append)

lemma ascending_distinct: "ascending ks lo hi m \<Longrightarrow> distinct ks"
  unfolding ascending_def using strict_sorted_iff by blast

lemma ascending_Nil [simp]: "ascending [] lo hi m \<longleftrightarrow> lo \<le> hi"
  by (simp add: ascending_def)

lemma ascending_one [simp]: "ascending [k] lo hi m \<longleftrightarrow> lo \<le> k \<and> k < hi \<and> k < m"
  by (auto simp: ascending_def)

lemma ascending_upt: "lo \<le> k \<Longrightarrow> k \<le> h \<Longrightarrow> h \<le> m \<Longrightarrow> ascending [k..<h] lo h m"
  by (auto simp: ascending_def sorted_wrt_upt)

definition reg_step :: "Abi \<Rightarrow> nat \<Rightarrow> PlanState \<Rightarrow> ArgPlacement \<times> PlanState \<Rightarrow> bool" where
  "reg_step abi i st r \<longleftrightarrow>
     (case r of (p, st') \<Rightarrow>
        (\<exists>ks. placement_int_regs p = map ((!) (int_arg_regs abi)) ks \<and>
              ascending ks (int_cursor abi i st) (int_cursor abi (i + 1) st') (int_max abi)) \<and>
        ascending (placement_fp_regs p) (fp_cursor abi i st) (fp_cursor abi (i + 1) st') 8 \<and>
        (int_idx st \<le> int_max abi \<longrightarrow> int_idx st' \<le> int_max abi) \<and>
        (fp_idx st \<le> 8 \<longrightarrow> fp_idx st' \<le> 8))"

named_theorems reg_steps \<open>the planner's steps on the register cursors\<close>

lemma take_slots4: "n = length rs \<Longrightarrow> take n (slots4 rs) = rs"
  by (simp add: slots4_def)

lemma reg_step_memory:
  assumes "placement_int_regs p = []" and "placement_fp_regs p = []"
    and "int_idx st \<le> int_idx st'" "fp_idx st \<le> fp_idx st'"
    and "int_idx st \<le> int_max abi \<Longrightarrow> int_idx st' \<le> int_max abi" "fp_idx st \<le> 8 \<Longrightarrow> fp_idx st' \<le> 8"
  shows "reg_step abi i st (p, st')"
  using assms by (auto simp: reg_step_def int_cursor_def fp_cursor_def)

lemma reg_step_scalar_slot [reg_steps]: "reg_step abi i st (scalar_slot inp i st)"
  unfolding scalar_slot_def Let_def by (rule reg_step_memory) simp_all

lemma reg_step_struct_stack [reg_steps]: "reg_step abi i st (struct_stack agg st)"
  unfolding struct_stack_def Let_def by (rule reg_step_memory) simp_all

lemma reg_step_int [reg_steps]:
  assumes "\<not> position_indexed_args abi" and "int_idx st \<le> k" and "k < int_max abi"
  shows "reg_step abi i st (AP_IntReg (int_arg_regs abi ! k), st\<lparr>int_idx := k + 1\<rparr>)"
  using assms by (simp add: reg_step_def int_cursor_def fp_cursor_def) (rule exI [of _ "[k]"], simp)

lemma reg_step_by_reference [reg_steps]:
  assumes "\<not> position_indexed_args abi"
  shows "reg_step abi i st (by_reference abi st)"
proof (cases "int_idx st < int_max abi")
  case True
  then show ?thesis using reg_step_int [OF assms order_refl True, of i] by (simp add: by_reference_def)
qed (simp add: by_reference_def Let_def reg_step_memory)

lemma reg_step_positional [reg_steps]:
  assumes "position_indexed_args abi" and "i < int_max abi" and "int_max abi \<le> 8"
  shows "reg_step abi i st (AP_IntReg (int_arg_regs abi ! i), st)"
    and "reg_step abi i st (AP_FpReg i, st)"
    and "reg_step abi i st (struct_regs [\<lparr>reg = int_arg_regs abi ! i, is_fp = False\<rparr>] agg, st)"
  using assms
  by (auto simp: reg_step_def int_cursor_def fp_cursor_def struct_regs_def slots4_def
      intro: exI [of _ "[i]"] exI [of _ "[]"])

lemma pair_align16_bounds:
  "idx \<le> mx \<Longrightarrow> idx \<le> pair_align16 idx mx agg abi \<and> pair_align16 idx mx agg abi \<le> mx"
  using next_multiple_of_bounds(1) [of 2 idx] by (simp add: pair_align16_def)

lemma reg_step_int_block [reg_steps]:
  assumes "\<not> position_indexed_args abi" and "int_idx st \<le> k" and "k + n \<le> int_max abi"
  shows "reg_step abi i st
    (struct_regs (map (\<lambda>j. \<lparr>reg = int_arg_regs abi ! (k + j), is_fp = False\<rparr>) [0..<n]) agg, st\<lparr>int_idx := k + n\<rparr>)"
proof -
  have "map (\<lambda>j. int_arg_regs abi ! (k + j)) [0..<n] = map ((!) (int_arg_regs abi)) [k..<k + n]"
    by (rule nth_equalityI) simp_all
  moreover have "ascending [k..<k + n] (int_idx st) (k + n) (int_max abi)"
    using assms by (intro ascending_upt) simp_all
  ultimately show ?thesis
    using assms
    by (auto simp: reg_step_def int_cursor_def fp_cursor_def struct_regs_def comp_def take_slots4 filter_map)
qed

lemma reg_step_win_arm64 [reg_steps]:
  assumes "\<not> position_indexed_args abi" and le: "int_idx st \<le> int_max abi"
  shows "reg_step abi i st (win_arm64_composite abi agg st)"
proof -
  let ?idx = "pair_align16 (int_idx st) (int_max abi) agg abi"
  have idx: "int_idx st \<le> ?idx" "?idx \<le> int_max abi" using pair_align16_bounds [OF le] by blast+
  have "reg_step abi i st (AP_StructSplit (int_arg_regs abi ! ?idx) off sz al, st\<lparr>int_idx := int_max abi, stack_used := u\<rparr>)"
    if "?idx < int_max abi" for off sz al u
    using assms idx that by (simp add: reg_step_def int_cursor_def fp_cursor_def) (rule exI [of _ "[?idx]"], simp)
  moreover have "reg_step abi i st (struct_stack agg (st\<lparr>int_idx := ?idx\<rparr>))"
    unfolding struct_stack_def Let_def using idx by (intro reg_step_memory) simp_all
  ultimately show ?thesis
    using assms(1) idx(1) unfolding win_arm64_composite_def Let_def by (auto intro: reg_steps)
qed

lemma assign_regs_spec:
  "assign_regs abi cs ii fi = Some (rs, ii', fi') \<Longrightarrow>
     map reg (filter (\<lambda>c. \<not> is_fp c) rs) = map ((!) (int_arg_regs abi)) [ii..<ii'] \<and>
     map reg (filter is_fp rs) = [fi..<fi'] \<and>
     ii' = ii + need_int cs \<and> fi' = fi + need_fp cs \<and> length rs = length cs"
  by (induction abi cs ii fi arbitrary: rs rule: assign_regs.induct)
    (auto simp: need_int_def need_fp_def upt_conv_Cons simp del: upt_Suc split: if_splits)

lemma assign_regs_total:
  "RegClass_X87 \<notin> set cs \<Longrightarrow> RegClass_NoClass \<notin> set cs \<Longrightarrow> ii + need_int cs \<le> int_max abi \<Longrightarrow>
     assign_regs abi cs ii fi \<noteq> None"
  by (induction abi cs ii fi rule: assign_regs.induct) (auto simp: need_int_def)

lemma map_fst_slots_from: "map fst (slots_from off cs) = cs"
  by (induction off cs rule: slots_from.induct) simp_all

lemma register_slots_classes: "map fst (register_slots cs) = filter (\<lambda>c. c \<noteq> RegClass_NoClass) cs"
proof -
  have "map fst (filter (\<lambda>(c, _). c \<noteq> RegClass_NoClass) xs) = filter (\<lambda>c. c \<noteq> RegClass_NoClass) (map fst xs)"
    for xs :: "(RegClass \<times> nat) list" by (induction xs) auto
  then show ?thesis by (simp add: register_slots_def map_fst_slots_from)
qed

lemma need_register_slots [simp]:
  "need_int (filter (\<lambda>c. c \<noteq> RegClass_NoClass) cs) = need_int cs"
  "need_fp (filter (\<lambda>c. c \<noteq> RegClass_NoClass) cs) = need_fp cs"
  by (auto simp: need_int_def need_fp_def intro!: arg_cong [where f = length] filter_cong)

lemma reg_step_spill_agg [reg_steps]:
  assumes "int_idx st \<le> int_max (pi_abi inp)" and "fp_idx st \<le> 8"
  shows "reg_step (pi_abi inp) i st (spill_agg inp i agg cs st)"
proof -
  obtain p st' where r: "spill_agg inp i agg cs st = (p, st')" by (cases "spill_agg inp i agg cs st")
  then have "placement_int_regs p = []" "placement_fp_regs p = []" "int_idx st \<le> int_idx st'"
    "fp_idx st \<le> fp_idx st'" "int_idx st' \<le> int_max (pi_abi inp)" "fp_idx st' \<le> 8"
    using assms by (auto simp: spill_agg_def struct_stack_def Let_def split: option.splits if_splits)
  then show ?thesis unfolding r by (intro reg_step_memory)
qed

lemma reg_step_after:
  assumes "reg_step abi i (st\<lparr>int_idx := k\<rparr>) r" and "int_idx st \<le> k" and "k \<le> int_max abi"
  shows "reg_step abi i st r"
proof -
  obtain p st' where r: "r = (p, st')" by (cases r)
  have "ascending ks (int_cursor abi i st) h m"
    if "ascending ks (int_cursor abi i (st\<lparr>int_idx := k\<rparr>)) h m" for ks h m
    using that assms(2) by (auto simp: ascending_def int_cursor_def split: if_splits)
  then show ?thesis using assms unfolding r reg_step_def by (auto simp: fp_cursor_def)
qed

lemma reg_step_place_classes:
  assumes "\<not> position_indexed_args (pi_abi inp)" and "int_idx st \<le> int_max (pi_abi inp)" and "fp_idx st \<le> 8"
    and "place_classes inp i agg cs st = Some r"
  shows "reg_step (pi_abi inp) i st r"
proof -
  let ?abi = "pi_abi inp"
  obtain k where k: "int_idx st \<le> k" "k \<le> int_max ?abi"
    and st1: "(if need_int cs > 0 \<and> need_fp cs = 0
         then st\<lparr>int_idx := pair_align16 (int_idx st) (int_max ?abi) agg ?abi\<rparr> else st) = st\<lparr>int_idx := k\<rparr>"
    using pair_align16_bounds [OF assms(2), of agg ?abi] assms(2)
    by (metis PlanState.surjective PlanState.update_convs(1) PlanState.select_convs(1) le_refl)
  let ?st = "st\<lparr>int_idx := k\<rparr>"
  have "reg_step ?abi i ?st r"
  proof (cases "k + need_int cs \<le> int_max ?abi \<and> fp_idx st + need_fp cs \<le> 8")
    case True
    then obtain rs ii fi where a: "assign_regs ?abi (map fst (register_slots cs)) k (fp_idx st) = Some (rs, ii, fi)"
      and r: "r = (struct_regs rs agg, ?st\<lparr>int_idx := ii, fp_idx := fi\<rparr>)"
      using assms(4) by (auto simp: place_classes_def Let_def st1 split: option.splits if_splits)
    note spec = assign_regs_spec [OF a, unfolded register_slots_classes need_register_slots]
    have "ascending [k..<ii] k ii (int_max ?abi)" "ascending [fp_idx st..<fi] (fp_idx st) fi 8"
      using True spec by (auto intro: ascending_upt)
    then show ?thesis using spec True assms(1)
      by (auto simp: r reg_step_def int_cursor_def fp_cursor_def struct_regs_def take_slots4)
  next
    case False
    then have "r = spill_agg inp i agg cs ?st"
      using assms(4) by (auto simp: place_classes_def Let_def st1)
    then show ?thesis using k(2) assms(3) by (simp add: reg_step_spill_agg)
  qed
  then show ?thesis by (rule reg_step_after [OF _ k])
qed

text \<open>What the conventions of the targets have in common.\<close>

definition abi_wf :: "Abi \<Rightarrow> bool" where
  "abi_wf abi \<longleftrightarrow> distinct (int_arg_regs abi) \<and> int_arg_regs abi \<noteq> [] \<and> int_max abi \<le> 8"

lemma abi_wf_target: "abi_wf (target_abi t)"
  by (cases t) (simp_all add: abi_wf_def base_abi_def)

lemma reg_step_plan_arg:
  assumes "abi_wf (pi_abi inp)" and "int_idx st \<le> int_max (pi_abi inp)" and "fp_idx st \<le> 8"
    and "plan_arg inp i st = Some r"
  shows "reg_step (pi_abi inp) i st r"
proof -
  have le8: "int_max (pi_abi inp) \<le> 8" using assms(1) by (simp add: abi_wf_def)
  have fp: "reg_step (pi_abi inp) i st (AP_FpReg (fp_idx st), st\<lparr>fp_idx := fp_idx st + 1\<rparr>)"
    if "\<not> position_indexed_args (pi_abi inp)" "fp_idx st < 8"
    using that by (simp add: reg_step_def int_cursor_def fp_cursor_def)
  have empty: "reg_step (pi_abi inp) i st (struct_regs [] agg, st)" for agg
    by (rule reg_step_memory) (simp_all add: struct_regs_def)
  show ?thesis
  proof (cases "agg_at (pi_aggs inp) i")
    case None
    then have r: "r = plan_scalar inp i st" using assms(4) by (simp add: plan_arg_def)
    show ?thesis
      using fp le8 reg_step_int [of "pi_abi inp" st "int_idx st" i] reg_step_positional(1,2) reg_step_scalar_slot
      unfolding r plan_scalar_def Let_def by (auto simp: not_le)
  next
    case (Some agg)
    then have r: "plan_agg inp i agg st = Some r" using assms(4) by (simp add: plan_arg_def)
    show ?thesis
      using r empty le8 assms(2,3) reg_step_struct_stack reg_step_positional(3) reg_step_win_arm64
        reg_step_by_reference reg_step_place_classes [OF _ assms(2,3)]
      unfolding plan_agg_def Let_def
      by (auto split: if_splits AggClass.splits)
  qed
qed

subsection \<open>No panic\<close>

lemma place_classes_total:
  assumes "agg_ok agg" and "aa_class agg = AggClass_Regs cs"
  shows "\<exists>r. place_classes inp i agg cs st = Some r"
proof -
  let ?cs = "filter (\<lambda>c. c \<noteq> RegClass_NoClass) cs"
  have ok: "RegClass_X87 \<notin> set ?cs" "length ?cs \<le> 4" using assms by (simp_all add: agg_ok_def)
  have fits: "\<exists>rs ii fi. assign_regs (pi_abi inp) ?cs k l = Some (rs, ii, fi) \<and> length rs \<le> 4"
    if "k + need_int cs \<le> int_max (pi_abi inp)" for k l
  proof -
    have "assign_regs (pi_abi inp) ?cs k l \<noteq> None" using ok(1) that by (intro assign_regs_total) simp_all
    then obtain rs ii fi where a: "assign_regs (pi_abi inp) ?cs k l = Some (rs, ii, fi)" by auto
    then show ?thesis using assign_regs_spec [OF a] ok(2) by auto
  qed
  let ?st = "if need_int cs > 0 \<and> need_fp cs = 0
    then st\<lparr>int_idx := pair_align16 (int_idx st) (int_max (pi_abi inp)) agg (pi_abi inp)\<rparr> else st"
  show ?thesis
  proof (cases "int_idx ?st + need_int cs \<le> int_max (pi_abi inp) \<and> fp_idx ?st + need_fp cs \<le> 8")
    case True
    then obtain rs ii fi where "assign_regs (pi_abi inp) ?cs (int_idx ?st) (fp_idx ?st) = Some (rs, ii, fi)" "length rs \<le> 4"
      using fits by blast
    then show ?thesis using True unfolding place_classes_def Let_def register_slots_classes by simp
  next
    case False
    then show ?thesis unfolding place_classes_def Let_def by (simp only: if_False) blast
  qed
qed

lemma plan_arg_total:
  assumes "aggs_ok (pi_aggs inp)"
  shows "\<exists>r. plan_arg inp i st = Some r"
proof (cases "agg_at (pi_aggs inp) i")
  case (Some agg)
  then show ?thesis
    using place_classes_total [OF aggs_ok_at [OF assms Some], where inp = inp and i = i and st = st]
    by (auto simp: plan_arg_def plan_agg_def Let_def split: AggClass.split)
qed (simp add: plan_arg_def)

lemma plan_loop_total: "aggs_ok (pi_aggs inp) \<Longrightarrow> \<exists>ps st'. plan_loop inp i n st = Some (ps, st')"
proof (induction n arbitrary: i st)
  case (Suc n)
  obtain p st1 where "plan_arg inp i st = Some (p, st1)" using plan_arg_total [OF Suc.prems] by fastforce
  then show ?case using Suc.IH [OF Suc.prems, of "i + 1" st1] by auto
qed simp

section \<open>The whole plan\<close>

lemma plan_loop_Suc_elim:
  assumes "plan_loop inp i (Suc n) st = Some (ps, st')"
  obtains p st1 qs where "plan_arg inp i st = Some (p, st1)" "plan_loop inp (i + 1) n st1 = Some (qs, st')" "ps = p # qs"
  using assms by (auto split: option.splits)

lemma length_plan_loop: "plan_loop inp i n st = Some (ps, st') \<Longrightarrow> length ps = n"
  by (induction n arbitrary: i st ps) (auto split: option.splits)

definition extents_from :: "nat \<Rightarrow> ArgWidths \<Rightarrow> ArgPlacement list \<Rightarrow> (nat \<times> nat) list" where
  "extents_from i w ps = concat (map (\<lambda>(j, p). stack_extent (aw_bytes w j) p) (List.enumerate i ps))"

lemma extents_from_simps [simp]:
  "extents_from i w [] = []"
  "extents_from i w (p # ps) = stack_extent (aw_bytes w i) p @ extents_from (Suc i) w ps"
  by (simp_all add: extents_from_def)

lemma plan_loop_stack:
  assumes "aggs_ok (pi_aggs inp)" and "\<forall>j \<ge> i. aw_bytes (stack_widths st) j = 8"
    and "plan_loop inp i n st = Some (ps, st')"
  shows "stack_used st \<le> stack_used st' \<and>
    parts_between (stack_used st) (extents_from i (stack_widths st') ps) (stack_used st') \<and>
    (\<forall>j < i. aw_bytes (stack_widths st') j = aw_bytes (stack_widths st) j)"
  using assms(2,3)
proof (induction n arbitrary: i st ps)
  case (Suc n)
  obtain p st1 qs where step: "plan_arg inp i st = Some (p, st1)"
    and rest: "plan_loop inp (i + 1) n st1 = Some (qs, st')" and ps: "ps = p # qs"
    using Suc.prems(2) by (rule plan_loop_Suc_elim)
  have s: "stack_step i st (p, st1)" by (rule stack_step_plan_arg [OF assms(1) _ step]) (use Suc.prems(1) in simp)
  have "\<forall>j \<ge> i + 1. aw_bytes (stack_widths st1) j = 8" using s Suc.prems(1) by (simp add: stack_step_def)
  note IH = Suc.IH [OF this rest]
  have w: "aw_bytes (stack_widths st') i = aw_bytes (stack_widths st1) i" using IH by simp
  have "parts_between (stack_used st) (stack_extent (aw_bytes (stack_widths st') i) p @ extents_from (i + 1) (stack_widths st') qs) (stack_used st')"
    using s IH w by (intro parts_between_append [where mid = "stack_used st1"]) (simp_all add: stack_step_def)
  then show ?case using s IH by (simp add: ps stack_step_def)
qed simp

lemma plan_loop_regs:
  assumes "abi_wf (pi_abi inp)" and "int_idx st \<le> int_max (pi_abi inp)" "fp_idx st \<le> 8"
    and "plan_loop inp i n st = Some (ps, st')"
  shows "(\<exists>ks. concat (map placement_int_regs ps) = map ((!) (int_arg_regs (pi_abi inp))) ks \<and>
      ascending ks (int_cursor (pi_abi inp) i st) (int_cursor (pi_abi inp) (i + n) st') (int_max (pi_abi inp))) \<and>
    ascending (concat (map placement_fp_regs ps)) (fp_cursor (pi_abi inp) i st) (fp_cursor (pi_abi inp) (i + n) st') 8 \<and>
    int_idx st' \<le> int_max (pi_abi inp) \<and> fp_idx st' \<le> 8"
  using assms(2-4)
proof (induction n arbitrary: i st ps)
  case 0
  then show ?case by auto
next
  case (Suc n)
  let ?abi = "pi_abi inp"
  obtain p st1 qs where step: "plan_arg inp i st = Some (p, st1)"
    and rest: "plan_loop inp (i + 1) n st1 = Some (qs, st')" and ps: "ps = p # qs"
    using Suc.prems(3) by (rule plan_loop_Suc_elim)
  have s: "reg_step ?abi i st (p, st1)" by (rule reg_step_plan_arg [OF assms(1) Suc.prems(1,2) step])
  then obtain ks where ks: "placement_int_regs p = map ((!) (int_arg_regs ?abi)) ks"
      "ascending ks (int_cursor ?abi i st) (int_cursor ?abi (i + 1) st1) (int_max ?abi)"
    by (auto simp: reg_step_def)
  have st1: "int_idx st1 \<le> int_max ?abi" "fp_idx st1 \<le> 8" using s Suc.prems(1,2) by (auto simp: reg_step_def)
  note IH = Suc.IH [OF st1 rest]
  then obtain ls where ls: "concat (map placement_int_regs qs) = map ((!) (int_arg_regs ?abi)) ls"
      "ascending ls (int_cursor ?abi (i + 1) st1) (int_cursor ?abi (i + 1 + n) st') (int_max ?abi)" by blast
  have "concat (map placement_int_regs ps) = map ((!) (int_arg_regs ?abi)) (ks @ ls)"
    using ks(1) ls(1) by (simp add: ps)
  moreover have "ascending (ks @ ls) (int_cursor ?abi i st) (int_cursor ?abi (i + Suc n) st') (int_max ?abi)"
    using ascending_append [OF ks(2) ls(2)] by simp
  moreover have "ascending (concat (map placement_fp_regs ps)) (fp_cursor ?abi i st) (fp_cursor ?abi (i + Suc n) st') 8"
    using s IH ascending_append by (auto simp: ps reg_step_def)
  ultimately show ?case using IH by blast
qed

lemma rebase_regs [simp]:
  "placement_int_regs (rebase sh p) = placement_int_regs p"
  "placement_fp_regs (rebase sh p) = placement_fp_regs p"
  by (cases p; simp)+

lemma extents_from_rebase:
  "extents_from i w (map (rebase sh) ps) = map (\<lambda>(off, n). (off + sh, n)) (extents_from i w ps)"
proof (induction ps arbitrary: i)
  case (Cons p ps)
  have "stack_extent n (rebase sh p) = map (\<lambda>(off, n). (off + sh, n)) (stack_extent n p)" for n by (cases p) simp_all
  then show ?case using Cons by simp
qed simp

lemma parts_between_shift:
  "parts_between lo ps hi \<Longrightarrow> parts_between (lo + sh) (map (\<lambda>(off, n). (off + sh, n)) ps) (hi + sh)"
  by (induction ps arbitrary: lo) (auto simp: algebra_simps, metis add.assoc add.commute)

definition plan_extents :: "CallPlan \<Rightarrow> (nat \<times> nat) list" where
  "plan_extents plan = extents_from 0 (cp_stack_widths plan) (placements plan)"

lemma plan_elim:
  assumes "plan_call_args_aggs n fixed fpm abi aggs via widths = Some plan"
  obtains ps st where
    "plan_loop \<lparr>pi_fixed = fixed, pi_mask = fpm, pi_abi = abi, pi_aggs = aggs, pi_widths = widths\<rparr> 0 n (plan_start via) = Some (ps, st)"
    "placements plan = map (rebase (shadow_space abi)) ps"
    "scratch_bytes plan = next_multiple_of (stack_used st + shadow_space abi) 16"
    "cp_stack_widths plan = stack_widths st" "fp_mirrors plan = []"
    "next_gpr plan = int_idx st" "next_fpr plan = fp_idx st" "stack_bytes plan = stack_used st"
proof -
  have "rebase 0 p = p" for p by (cases p) simp_all
  then have "map (rebase 0) ps = ps" for ps by (simp add: map_idI)
  then show ?thesis using assms that
    by (auto simp: plan_call_args_aggs_def Let_def next_multiple_of_def)
qed

lemma plan_total:
  assumes "aggs_ok aggs"
  shows "\<exists>plan. plan_call_args_aggs n fixed fpm abi aggs via widths = Some plan \<and> length (placements plan) = n"
proof -
  let ?inp = "\<lparr>pi_fixed = fixed, pi_mask = fpm, pi_abi = abi, pi_aggs = aggs, pi_widths = widths\<rparr>"
  obtain ps st where r: "plan_loop ?inp 0 n (plan_start via) = Some (ps, st)"
    using plan_loop_total [of ?inp 0 n "plan_start via"] assms by auto
  then show ?thesis using length_plan_loop [OF r] by (simp add: plan_call_args_aggs_def Let_def)
qed

lemma plan_stack:
  assumes "aggs_ok aggs" and "plan_call_args_aggs n fixed fpm abi aggs via widths = Some plan"
  shows "parts_between (shadow_space abi) (plan_extents plan) (scratch_bytes plan)" and "16 dvd scratch_bytes plan"
proof -
  obtain ps st where r: "plan_loop \<lparr>pi_fixed = fixed, pi_mask = fpm, pi_abi = abi, pi_aggs = aggs, pi_widths = widths\<rparr> 0 n (plan_start via) = Some (ps, st)"
    and plan: "placements plan = map (rebase (shadow_space abi)) ps"
    "scratch_bytes plan = next_multiple_of (stack_used st + shadow_space abi) 16" "cp_stack_widths plan = stack_widths st"
    using assms(2) by (rule plan_elim)
  have w: "\<forall>j \<ge> 0. aw_bytes (stack_widths (plan_start via)) j = 8" by (simp add: plan_start_def aw_bytes_def)
  have "parts_between 0 (extents_from 0 (stack_widths st) ps) (stack_used st)"
    using plan_loop_stack [OF _ w r] assms(1) by (simp add: plan_start_def)
  then show "parts_between (shadow_space abi) (plan_extents plan) (scratch_bytes plan)"
    using parts_between_shift [of 0 _ _ "shadow_space abi"] next_multiple_of_bounds(1) [of 16 "stack_used st + shadow_space abi"]
    by (auto simp: plan_extents_def plan extents_from_rebase intro: parts_between_le)
  show "16 dvd scratch_bytes plan" unfolding plan by (rule next_multiple_of_bounds) simp
qed

lemma plan_regs:
  assumes "abi_wf abi" and "plan_call_args_aggs n fixed fpm abi aggs via widths = Some plan"
  obtains ks where "int_regs plan = map ((!) (int_arg_regs abi)) ks" "distinct ks"
    "\<forall>k \<in> set ks. (if via \<and> \<not> position_indexed_args abi then 1 else 0) \<le> k \<and> k < int_max abi"
    "distinct (concat (map placement_fp_regs (placements plan)))"
    "\<forall>r \<in> set (concat (map placement_fp_regs (placements plan))). r < 8"
proof -
  let ?inp = "\<lparr>pi_fixed = fixed, pi_mask = fpm, pi_abi = abi, pi_aggs = aggs, pi_widths = widths\<rparr>"
  obtain ps st where r: "plan_loop ?inp 0 n (plan_start via) = Some (ps, st)"
    and plan: "placements plan = map (rebase (shadow_space abi)) ps" "fp_mirrors plan = []"
    using assms(2) by (rule plan_elim)
  have start: "int_idx (plan_start via) \<le> int_max abi" "fp_idx (plan_start via) \<le> 8"
    using assms(1) by (cases "int_arg_regs abi"; simp add: plan_start_def abi_wf_def)+
  have regs: "concat (map placement_int_regs (placements plan)) = concat (map placement_int_regs ps)"
    "concat (map placement_fp_regs (placements plan)) = concat (map placement_fp_regs ps)"
    by (simp_all add: plan comp_def)
  obtain ks where ks: "concat (map placement_int_regs ps) = map ((!) (int_arg_regs abi)) ks"
      "ascending ks (int_cursor abi 0 (plan_start via)) (int_cursor abi n st) (int_max abi)"
    and fp: "ascending (concat (map placement_fp_regs ps)) (fp_cursor abi 0 (plan_start via)) (fp_cursor abi n st) 8"
    using plan_loop_regs [of ?inp, OF _ _ start(2) r] assms(1) start(1) by auto
  show ?thesis
  proof (rule that [of ks])
    show "int_regs plan = map ((!) (int_arg_regs abi)) ks" by (simp add: int_regs_def regs plan(2) ks(1))
    show "distinct ks" by (rule ascending_distinct [OF ks(2)])
    show "\<forall>k \<in> set ks. (if via \<and> \<not> position_indexed_args abi then 1 else 0) \<le> k \<and> k < int_max abi"
      using ks(2) by (auto simp: ascending_def int_cursor_def plan_start_def split: if_splits)
    show "distinct (concat (map placement_fp_regs (placements plan)))"
      unfolding regs by (rule ascending_distinct [OF fp])
    show "\<forall>r \<in> set (concat (map placement_fp_regs (placements plan))). r < 8"
      unfolding regs using fp by (auto simp: ascending_def)
  qed
qed

subsection \<open>The classified arguments\<close>

lemma eb_classes_args:
  "eb_classes ebs = Some cs \<Longrightarrow> EB_X87 \<notin> set ebs \<Longrightarrow> RegClass_X87 \<notin> set cs \<and> length cs \<le> length ebs"
  by (induction ebs arbitrary: cs rule: eb_classes.induct) fastforce+

lemma classify_sysv_args:
  assumes "classify_sysv sz fs False = Some (AggClass_Regs cs)"
  shows "RegClass_X87 \<notin> set cs \<and> length cs \<le> 2"
proof (cases "sz = 0")
  case False
  then have sz: "sz \<le> 16" and x: "EB_X87 \<notin> set (sysv_eightbytes sz fs)"
    using assms by (auto simp: classify_sysv_def Let_def split: if_splits)
  obtain all where all: "eb_classes (sysv_eightbytes sz fs) = Some all" "cs = pop_noclass all"
    using assms False by (auto simp: classify_sysv_def Let_def split: if_splits)
  have "length all \<le> 2" "RegClass_X87 \<notin> set all"
    using eb_classes_args [OF all(1) x] length_sysv_eightbytes [OF sz, of fs] sz by auto
  then show ?thesis using length_pop_noclass [of all] set_pop_noclass [of all] all(2) by auto
qed (use assms in \<open>simp add: classify_sysv_def\<close>)

lemma classify_aapcs64_args:
  assumes "agg_wf desc" and "classify_aapcs64 desc False = AggClass_Regs cs"
  shows "RegClass_X87 \<notin> set cs \<and> length cs \<le> 4"
proof (cases "homogeneous desc")
  case (Some h)
  then show ?thesis
    using assms agg_wf_homogeneous [OF assms(1) Some] by (auto simp: classify_aapcs64_def ha_reg_class_def)
next
  case None
  then show ?thesis
    using assms(2) sole_vector_class [of "agg_size desc" "agg_fields desc"]
    by (fastforce simp: classify_aapcs64_def Let_def split: if_splits option.splits)
qed

lemma arg_agg_new_ok:
  assumes "agg_wf desc" and "is_narrow_vector desc \<Longrightarrow> agg_size desc \<le> 4" and "arg_agg_new desc abi = Some agg"
  shows "agg_ok agg"
proof -
  have len: "length (filter P cs) \<le> 4" if "length cs \<le> 4" for P and cs :: "RegClass list"
    using that length_filter_le order_trans by blast
  have "RegClass_X87 \<notin> set cs \<and> length cs \<le> 4" if "aa_class agg = AggClass_Regs cs" for cs
    using assms(1,3) that classify_sysv_args classify_aapcs64_args
    by (fastforce simp: arg_agg_new_def classify_aggregate_def classify_win64_def split: if_splits)
  then show ?thesis using assms(2,3) len by (auto simp: agg_ok_def arg_agg_new_def split: AggClass.split)
qed

subsection \<open>Both ends of a call\<close>

lemma plan_arg_cong:
  assumes "pi_abi x = pi_abi y" and "i < pi_fixed x" "i < pi_fixed y"
    and "fm_has (pi_mask x) i = fm_has (pi_mask y) i" and "agg_at (pi_aggs x) i = agg_at (pi_aggs y) i"
    and "aw_bytes (pi_widths x) i = aw_bytes (pi_widths y) i"
  shows "plan_arg x i st = plan_arg y i st"
  using assms
  by (simp add: plan_arg_def plan_scalar_def scalar_slot_def plan_agg_def place_classes_def spill_agg_def
      cong: option.case_cong AggClass.case_cong if_cong)

lemma plan_loop_cong:
  "(\<And>j st. i \<le> j \<Longrightarrow> j < i + n \<Longrightarrow> plan_arg x j st = plan_arg y j st) \<Longrightarrow> plan_loop x i n st = plan_loop y i n st"
proof (induction n arbitrary: i st)
  case (Suc n)
  have "plan_loop x (i + 1) n st1 = plan_loop y (i + 1) n st1" for st1
    using Suc.prems by (intro Suc.IH) simp
  then show ?case using Suc.prems [of i st] by (simp split: option.split)
qed simp

lemma plan_loop_prefix:
  "plan_loop inp i n st = Some (ps, st') \<Longrightarrow> m \<le> n \<Longrightarrow> \<exists>st1. plan_loop inp i m st = Some (take m ps, st1)"
proof (induction m arbitrary: i n st ps)
  case (Suc m)
  then obtain n' where n: "n = Suc n'" by (cases n) simp_all
  obtain p st1 qs where step: "plan_arg inp i st = Some (p, st1)"
    and rest: "plan_loop inp (i + 1) n' st1 = Some (qs, st')" and ps: "ps = p # qs"
    using Suc.prems(1) unfolding n by (rule plan_loop_Suc_elim)
  show ?case using Suc.IH [OF rest] Suc.prems(2) step n by (auto simp: ps)
qed simp

lemma plan_prefix:
  assumes caller: "plan_call_args_aggs n fixed m1 abi a1 via w1 = Some plan"
    and callee: "plan_call_args_aggs k k m2 abi a2 via w2 = Some entry"
    and "k \<le> n" "k \<le> fixed"
    and same: "\<And>i. i < k \<Longrightarrow> fm_has m1 i = fm_has m2 i \<and> agg_at a1 i = agg_at a2 i \<and> aw_bytes w1 i = aw_bytes w2 i"
  shows "placements entry = take k (placements plan)"
proof -
  let ?x = "\<lparr>pi_fixed = fixed, pi_mask = m1, pi_abi = abi, pi_aggs = a1, pi_widths = w1\<rparr>"
  let ?y = "\<lparr>pi_fixed = k, pi_mask = m2, pi_abi = abi, pi_aggs = a2, pi_widths = w2\<rparr>"
  obtain ps st where x: "plan_loop ?x 0 n (plan_start via) = Some (ps, st)"
    and ps: "placements plan = map (rebase (shadow_space abi)) ps" using caller by (rule plan_elim)
  obtain qs st2 where y: "plan_loop ?y 0 k (plan_start via) = Some (qs, st2)"
    and qs: "placements entry = map (rebase (shadow_space abi)) qs" using callee by (rule plan_elim)
  have "plan_loop ?x 0 k (plan_start via) = plan_loop ?y 0 k (plan_start via)"
    using same assms(4) by (intro plan_loop_cong plan_arg_cong) simp_all
  then have "qs = take k ps" using plan_loop_prefix [OF x \<open>k \<le> n\<close>] y by auto
  then show ?thesis by (simp add: ps qs take_map)
qed

subsection \<open>The mirrored call\<close>

lemma plan_loop_positional:
  assumes "abi_wf (pi_abi inp)" "position_indexed_args (pi_abi inp)"
    and "int_idx st \<le> int_max (pi_abi inp)" "fp_idx st \<le> 8"
    and "plan_loop inp i n st = Some (ps, st')" and "j < n"
  shows "set (placement_int_regs (ps ! j)) \<subseteq> {int_arg_regs (pi_abi inp) ! (i + j)} \<inter> set (int_arg_regs (pi_abi inp))
    \<and> (i + j < int_max (pi_abi inp) \<or> placement_int_regs (ps ! j) = [])"
  using assms(3-6)
proof (induction n arbitrary: i st ps j)
  case (Suc n)
  obtain p st1 qs where step: "plan_arg inp i st = Some (p, st1)"
    and rest: "plan_loop inp (i + 1) n st1 = Some (qs, st')" and ps: "ps = p # qs"
    using Suc.prems(3) by (rule plan_loop_Suc_elim)
  have s: "reg_step (pi_abi inp) i st (p, st1)" by (rule reg_step_plan_arg [OF assms(1) Suc.prems(1,2) step])
  then obtain ks where ks: "placement_int_regs p = map ((!) (int_arg_regs (pi_abi inp))) ks" "set ks \<subseteq> {i}"
      "set ks \<subseteq> {..<int_max (pi_abi inp)}"
    using assms(2) by (auto simp: reg_step_def int_cursor_def ascending_def)
  show ?case
  proof (cases j)
    case 0
    then show ?thesis using ks by (cases ks) (auto simp: ps)
  next
    case (Suc j')
    have "int_idx st1 \<le> int_max (pi_abi inp)" "fp_idx st1 \<le> 8" using s Suc.prems(1,2) by (auto simp: reg_step_def)
    then show ?thesis using Suc.IH [OF _ _ rest, of j'] Suc.prems(4) Suc by (simp add: ps)
  qed
qed simp

definition mirrors_from :: "Abi \<Rightarrow> nat \<Rightarrow> ArgPlacement list \<Rightarrow> (nat \<times> nat) list" where
  "mirrors_from abi i ps =
     concat (map (\<lambda>(i, p). case p of
                     AP_FpReg x \<Rightarrow> if i < int_max abi then [(x, int_arg_regs abi ! i)] else []
                   | _ \<Rightarrow> []) (List.enumerate i ps))"

lemma mirrors_from_index:
  assumes "(x, r) \<in> set (mirrors_from abi i ps)"
  shows "\<exists>j < length ps. ps ! j = AP_FpReg x \<and> i + j < int_max abi \<and> r = int_arg_regs abi ! (i + j)"
  using assms
proof (induction ps arbitrary: i)
  case (Cons p ps)
  then show ?case
    by (auto simp: mirrors_from_def less_Suc_eq_0_disj split: ArgPlacement.splits if_splits)
      (metis add_Suc_right add_Suc nth_Cons_Suc)+
qed (simp add: mirrors_from_def)

lemma distinct_mirrors:
  "distinct (int_arg_regs abi) \<Longrightarrow> distinct (map snd (mirrors_from abi i ps))"
proof (induction ps arbitrary: i)
  case (Cons p ps)
  have "r \<noteq> int_arg_regs abi ! i" if "(x, r) \<in> set (mirrors_from abi (Suc i) ps)" "i < int_max abi" for x r
    using mirrors_from_index [OF that(1)] that(2) Cons.prems by (auto simp: nth_eq_iff_index_eq)
  then show ?case
    using Cons.IH [OF Cons.prems, of "Suc i"]
    by (cases p) (force simp: mirrors_from_def)+
qed (simp add: mirrors_from_def)

lemma mirrored_regs:
  assumes abi: "abi_wf abi" "position_indexed_args abi"
    and "plan_mirrored_call n fpm abi aggs = Some plan"
  shows "distinct (int_regs plan)"
proof -
  obtain base where b: "plan_call_args_aggs n n fpm abi aggs False 0 = Some base"
    and plan: "plan = base\<lparr>fp_mirrors := mirrors_from abi 0 (placements base)\<rparr>"
    using assms(3) by (auto simp: plan_mirrored_call_def mirrors_from_def)
  let ?inp = "\<lparr>pi_fixed = n, pi_mask = fpm, pi_abi = abi, pi_aggs = aggs, pi_widths = 0\<rparr>"
  obtain ps st where r: "plan_loop ?inp 0 n (plan_start False) = Some (ps, st)"
    and ps: "placements base = map (rebase (shadow_space abi)) ps" "fp_mirrors base = []" using b by (rule plan_elim)
  have len: "length ps = n" by (rule length_plan_loop [OF r])
  have pos: "r = int_arg_regs abi ! j \<and> j < int_max abi" if "r \<in> set (placement_int_regs (ps ! j))" "j < n" for r j
    using plan_loop_positional [of ?inp "plan_start False" 0 n ps st j, OF _ _ _ _ r that(2)] abi that(1)
    by (auto simp: plan_start_def)
  obtain ks where ks: "int_regs base = map ((!) (int_arg_regs abi)) ks" "distinct ks" "\<forall>k \<in> set ks. k < int_max abi"
    using plan_regs [OF abi(1) b] by metis
  have d1: "distinct (int_regs base)"
    using ks abi(1) by (simp add: distinct_map inj_on_def abi_wf_def nth_eq_iff_index_eq)
  have "r \<notin> set (map snd (mirrors_from abi 0 (placements base)))" if r: "r \<in> set (int_regs base)" for r
  proof
    assume "r \<in> set (map snd (mirrors_from abi 0 (placements base)))"
    then obtain x where "(x, r) \<in> set (mirrors_from abi 0 (placements base))" by auto
    from mirrors_from_index [OF this] obtain j where j: "j < n" "rebase (shadow_space abi) (ps ! j) = AP_FpReg x"
        "j < int_max abi" "r = int_arg_regs abi ! j" by (auto simp: ps len)
    obtain l where l: "l < n" "r \<in> set (placement_int_regs (ps ! l))"
      using r by (auto simp: int_regs_def ps in_set_conv_nth [of _ ps] simp flip: len)
    have "l = j" using pos [OF l(2,1)] j(3,4) abi(1) nth_eq_iff_index_eq by (metis abi_wf_def)
    moreover have "placement_int_regs (ps ! j) = []" using j(2) by (cases "ps ! j") simp_all
    ultimately show False using l(2) by simp
  qed
  moreover have "distinct (map snd (mirrors_from abi 0 (placements base)))"
    using abi(1) by (intro distinct_mirrors) (simp add: abi_wf_def)
  ultimately show ?thesis using d1 by (auto simp: plan int_regs_def ps(2))
qed

end
