(* ===== verification/Access_Units.thy ===== *)
theory Access_Units
  imports Target_Abi
begin

text \<open>
  The accesses a byte transfer decomposes into, \<^verbatim>\<open>access_pieces\<close> of
  \<^verbatim>\<open>src/src/c5/codegen/mod.rs\<close>, and what makes them right: the pieces tile the
  transfer, each is a power of two wide, and under strict alignment each is naturally aligned at
  every address the storage can have.
\<close>

section \<open>Bit counts and divisibility\<close>

lemma leading_zeros_top_bit:
  assumes "(x :: 'a::len word) \<noteq> 0"
  shows "leading_zeros x < LENGTH('a)" and "bit x (LENGTH('a) - 1 - leading_zeros x)"
proof -
  let ?P = "\<lambda>i. \<not> bit x i" and ?xs = "rev [0..<LENGTH('a)]"
  obtain i where "bit x i" using assms by (metis bit_eqI bit_0_eq bot_apply bot_bool_def)
  then have "i < LENGTH('a)" by (rule bit_imp_le_length)
  then have "\<exists>i\<in>set ?xs. \<not> ?P i" using \<open>bit x i\<close> by auto
  then have lt: "length (takeWhile ?P ?xs) < length ?xs"
    by (metis length_takeWhile_le le_neq_implies_less takeWhile_eq_all_conv takeWhile_eq_take take_all_iff)
  then show "leading_zeros x < LENGTH('a)" by (simp add: leading_zeros_def)
  have "\<not> ?P (?xs ! length (takeWhile ?P ?xs))" by (rule nth_length_takeWhile [OF lt])
  then show "bit x (LENGTH('a) - 1 - leading_zeros x)"
    using lt by (simp add: leading_zeros_def rev_nth)
qed

lemma bit_le_unat:
  assumes "bit (x :: 'a::len word) k"
  shows "2 ^ k \<le> unat x"
proof -
  have "bit (unat x) k" using assms by (simp add: bit_unsigned_iff)
  then have "odd (unat x div 2 ^ k)" unfolding bit_iff_odd by blast
  then have "0 < unat x div 2 ^ k" by (rule odd_pos)
  then show ?thesis by (simp add: div_greater_zero_iff)
qed

lemma trailing_zeros_dvd: "2 ^ trailing_zeros (x :: 'a::len word) dvd unat x"
proof -
  let ?k = "trailing_zeros x"
  have "\<not> bit x i" if "i < ?k" for i
  proof -
    have "?k \<le> LENGTH('a)" by (rule trailing_zeros_le)
    then have "i = [0..<LENGTH('a)] ! i" using that by simp
    moreover have "[0..<LENGTH('a)] ! i = takeWhile (\<lambda>i. \<not> bit x i) [0..<LENGTH('a)] ! i"
      using that by (simp add: trailing_zeros_def takeWhile_nth)
    ultimately have "i \<in> set (takeWhile (\<lambda>i. \<not> bit x i) [0..<LENGTH('a)])"
      using that by (metis nth_mem trailing_zeros_def)
    then show ?thesis using set_takeWhileD by fastforce
  qed
  then have "take_bit ?k (unat x) = 0"
    by (intro bit_eqI) (auto simp: bit_take_bit_iff bit_unsigned_iff)
  then show ?thesis by (simp add: take_bit_eq_0_iff)
qed

lemma power_two_min_dvd: "(2 :: nat) ^ i dvd n \<Longrightarrow> 2 ^ min i j dvd n"
  by (metis dvd_trans le_imp_power_dvd min.cobounded1)

lemma unat_min_word: "unat (min x (y :: 'a::len word)) = min (unat x) (unat y)"
  by (simp add: min_def word_le_nat_alt)

lemma min_power_two: "min ((2 :: nat) ^ i) (2 ^ j) = 2 ^ min i j"
  by (simp add: min_def)

section \<open>The proven alignment\<close>

lemma pow2_align_spec: "\<exists>k. unat (pow2_align a) = 2 ^ k \<and> k < 32 \<and> 2 ^ k dvd unat a"
proof (cases "a = 0")
  case False
  have "unat (push_bit (min (trailing_zeros a) 31) 1 :: u32) = 2 ^ min (trailing_zeros a) 31"
    by (rule unat_push_bit_1) simp
  then show ?thesis
    using False power_two_min_dvd [OF trailing_zeros_dvd [of a], of 31]
    by (intro exI [of _ "min (trailing_zeros a) 31"]) (simp add: pow2_align_def)
qed (auto simp: pow2_align_def intro: exI [of _ 0])

lemma offset_align_spec:
  "\<exists>k. unat (offset_align base (ucast (off :: u32))) = 2 ^ k \<and> k < 32 \<and>
       2 ^ k dvd unat base \<and> 2 ^ k dvd unat off"
proof -
  obtain k where k: "unat (pow2_align base) = 2 ^ k" "k < 32" "2 ^ k dvd unat base"
    using pow2_align_spec by blast
  show ?thesis
  proof (cases "off = 0")
    case True
    then show ?thesis using k by (auto simp: offset_align_def intro!: exI [of _ k])
  next
    case False
    let ?o = "ucast off :: i64" and ?t = "min (trailing_zeros (unsigned_abs (ucast off))) 31"
    have u: "unat ?o = unat off" by (simp add: unsigned_ucast_eq take_bit_nat_eq_self less_le_trans [OF unsigned_less])
    have off: "0 \<le> uint off" "uint off < 2 ^ 32" using unsigned_less [where 'a = int, of off] by simp_all
    have "signed_take_bit 63 (uint off) = uint off" using off(2) order_trans [OF _ off(1)] by (intro signed_take_bit_int_eq_self) simp_all
    moreover have "take_bit 64 (uint off) = uint off" using off by (intro take_bit_int_eq_self) simp_all
    ultimately have s: "0 \<le> sint ?o" using off(1) by (simp add: sint_uint unsigned_ucast_eq)
    have abs: "unsigned_abs ?o = ?o" using s by (simp add: unsigned_abs_def)
    have nz: "?o \<noteq> 0" using False u by (metis unat_eq_zero unsigned_0)
    have t: "2 ^ ?t dvd unat off"
      using power_two_min_dvd [OF trailing_zeros_dvd [of "unsigned_abs ?o"], of 31]
      by (simp only: abs u)
    have p: "unat (push_bit ?t 1 :: u32) = 2 ^ ?t" by (rule unat_push_bit_1) simp
    have "unat (offset_align base ?o) = 2 ^ min k ?t"
      using nz by (simp only: offset_align_def Let_def unat_min_word k(1) p min_power_two if_False)
    moreover have "2 ^ min k ?t dvd unat off"
      using power_two_min_dvd [OF t, of k] by (simp only: min.commute)
    ultimately show ?thesis using k(2) power_two_min_dvd [OF k(3), of ?t]
      by (intro exI [of _ "min k ?t"]) simp
  qed
qed

section \<open>Pieces\<close>

text \<open>The piece taken at \<open>at\<close> of a transfer that ends at \<open>e\<close>.\<close>

definition piece_width :: "u32 \<Rightarrow> u32 \<Rightarrow> u32 \<Rightarrow> bool \<Rightarrow> u32" where
  "piece_width at e a strict =
     (let fits = push_bit (31 - leading_zeros (e - at)) 1
      in access_chunk (offset_align a (ucast at)) strict fits)"

lemma piece_width_spec:
  assumes "at < e"
  obtains k where "unat (piece_width at e a strict) = 2 ^ k" "2 ^ k \<le> unat e - unat at"
    "strict \<Longrightarrow> 2 ^ k dvd unat a \<and> 2 ^ k dvd unat at"
proof -
  let ?d = "e - at" and ?f = "31 - leading_zeros (e - at)"
  have nz: "?d \<noteq> 0" using assms by auto
  have d: "unat ?d = unat e - unat at" using assms by (simp add: unat_sub_if' word_less_nat_alt)
  have f: "unat (push_bit ?f 1 :: u32) = 2 ^ ?f" by (rule unat_push_bit_1) simp
  have le: "2 ^ ?f \<le> unat e - unat at"
    using bit_le_unat [OF leading_zeros_top_bit(2) [OF nz]] d by simp
  show ?thesis
  proof (cases strict)
    case False
    then show ?thesis using that [of ?f] f le by (simp add: piece_width_def access_chunk_def)
  next
    case True
    obtain j where j: "unat (offset_align a (ucast at)) = 2 ^ j" "j < 32" "2 ^ j dvd unat a" "2 ^ j dvd unat at"
      using offset_align_spec by blast
    obtain i where i: "unat (pow2_align (offset_align a (ucast at))) = 2 ^ i" "2 ^ i dvd unat (offset_align a (ucast at))"
      using pow2_align_spec by blast
    then have "i \<le> j" using j(1) by (metis power_dvd_imp_le one_less_numeral_iff semiring_norm(76))
    then have dv: "2 ^ min i ?f dvd (2 :: nat) ^ j" by (simp add: le_imp_power_dvd min.coboundedI1)
    have "unat (piece_width at e a strict) = 2 ^ min i ?f"
      using True by (simp only: piece_width_def access_chunk_def Let_def unat_min_word i(1) f
        min_power_two simp_thms if_False)
    moreover have "(2 :: nat) ^ min i ?f \<le> unat e - unat at"
      using le by (meson le_trans min.cobounded2 one_le_numeral power_increasing)
    ultimately show ?thesis using that dvd_trans [OF dv j(3)] dvd_trans [OF dv j(4)] by blast
  qed
qed

lemma piece_width_advance:
  assumes "at < e"
  shows "unat (at + piece_width at e a strict) = unat at + unat (piece_width at e a strict)"
    and "unat at + unat (piece_width at e a strict) \<le> unat e"
    and "0 < unat (piece_width at e a strict)"
proof -
  obtain k where k: "unat (piece_width at e a strict) = 2 ^ k" "2 ^ k \<le> unat e - unat at"
    using piece_width_spec [OF assms] by metis
  have "unat at < unat e" using assms by (simp add: word_less_nat_alt)
  then show le: "unat at + unat (piece_width at e a strict) \<le> unat e" using k by simp
  show "unat (at + piece_width at e a strict) = unat at + unat (piece_width at e a strict)"
    using le unsigned_less [where 'a = nat, of e] by (intro unat_add_lem [THEN iffD1]) linarith
  show "0 < unat (piece_width at e a strict)" using k by simp
qed

function pieces_from :: "u32 \<Rightarrow> u32 \<Rightarrow> u32 \<Rightarrow> bool \<Rightarrow> (u32 \<times> u32) list" where
  "pieces_from at e a strict =
     (if at < e then
        let w = piece_width at e a strict
        in (at, w) # pieces_from (at + w) e a strict
      else [])"
  by pat_completeness auto

termination
proof (relation "measure (\<lambda>(at, e, a, strict). unat e - unat at)", goal_cases)
  case (2 at e a strict x)
  then show ?case using piece_width_advance [of at e a strict] by (simp add: word_less_nat_alt)
qed simp

declare pieces_from.simps [simp del]

definition access_pieces :: "u32 \<Rightarrow> u32 \<Rightarrow> u32 \<Rightarrow> bool \<Rightarrow> (u32 \<times> u32) list" where
  "access_pieces off width a strict = pieces_from off (off + width) a strict"

text \<open>A list of pieces that follow one another without a gap from \<open>lo\<close> to \<open>hi\<close>.\<close>

fun tiles :: "nat \<Rightarrow> (u32 \<times> u32) list \<Rightarrow> nat \<Rightarrow> bool" where
  "tiles lo [] hi \<longleftrightarrow> lo = hi"
| "tiles lo ((off, w) # ps) hi \<longleftrightarrow> unat off = lo \<and> 0 < unat w \<and> tiles (lo + unat w) ps hi"

definition natural_piece :: "u32 \<Rightarrow> bool \<Rightarrow> u32 \<times> u32 \<Rightarrow> bool" where
  "natural_piece a strict p \<longleftrightarrow>
     (\<exists>k. unat (snd p) = 2 ^ k) \<and>
     (strict \<longrightarrow> (\<forall>addr. unat a dvd addr \<longrightarrow> unat (snd p) dvd addr + unat (fst p)))"

lemma natural_piece_width:
  assumes "at < e"
  shows "natural_piece a strict (at, piece_width at e a strict)"
proof -
  obtain k where k: "unat (piece_width at e a strict) = 2 ^ k"
    and s: "strict \<Longrightarrow> 2 ^ k dvd unat a \<and> 2 ^ k dvd unat at"
    using piece_width_spec [OF assms] by metis
  have "2 ^ k dvd addr + unat at" if "strict" "unat a dvd addr" for addr
    using s [OF that(1)] that(2) by (meson dvd_add dvd_trans)
  then show ?thesis using k by (auto simp: natural_piece_def)
qed

lemma pieces_from_spec:
  "at \<le> e \<Longrightarrow> tiles (unat at) (pieces_from at e a strict) (unat e) \<and>
     (\<forall>p \<in> set (pieces_from at e a strict). natural_piece a strict p)"
proof (induction at e a strict rule: pieces_from.induct)
  case (1 at e a strict)
  show ?case
  proof (cases "at < e")
    case True
    let ?w = "piece_width at e a strict"
    have adv: "unat (at + ?w) = unat at + unat ?w" "at + ?w \<le> e" "0 < unat ?w"
      using piece_width_advance [OF True, of a strict] by (simp_all add: word_le_nat_alt)
    have eq: "pieces_from at e a strict = (at, ?w) # pieces_from (at + ?w) e a strict"
      using True by (subst pieces_from.simps) (simp add: Let_def)
    show ?thesis
      using "1.IH" [OF True refl adv(2)] adv(1, 3) natural_piece_width [OF True, of a strict]
      by (simp add: eq)
  next
    case False
    then have "pieces_from at e a strict = []" by (subst pieces_from.simps) simp
    moreover have "at = e" using False "1.prems" by simp
    ultimately show ?thesis by simp
  qed
qed

end
