(* ===== verification/Spec2Isabelle.thy ===== *)
theory Spec2Isabelle
  imports Divmod_Sound Fp_Properties Call_Plan_Sound Access_Units
begin

text \<open>
A verification library for badc, a C compiler with an SSA intermediate representation, an optimizer, two native
  back ends and an interpreter.  The source is under \<^verbatim>\<open>src/src/c5\<close>.

  \<^bold>\<open>The program and how its parts interact.\<close>  The front end turns C into functions of the SSA IR
  (\<^verbatim>\<open>ir.rs\<close>).  The optimizer passes (\<^verbatim>\<open>codegen/passes\<close>) rewrite the IR; they share the scalar evaluator
  (\<^verbatim>\<open>vm/eval.rs\<close>), the value-range analysis (\<^verbatim>\<open>passes/value_range.rs\<close>) and the reciprocal-division
  arithmetic (\<^verbatim>\<open>codegen/magic.rs\<close>).  The interpreter (\<^verbatim>\<open>vm/ssa.rs\<close>) runs the same IR over a
  byte-addressed memory; a pass is right when the code it emits computes, under the evaluator, what the code it
  replaces computes.

  \<^bold>\<open>Theories.\<close>
  \<^item> \<open>Badc_Prelude\<close>: machine types, word bounds, bit counting.
  \<^item> \<open>Ir\<close>, \<open>Ir_Asm\<close>, \<open>Ir_Masks\<close>, \<open>Ir_Inst\<close>, \<open>Ir_Function\<close>: the IR of \<^verbatim>\<open>ir.rs\<close>.  Operators, kinds and the
    integer evaluator; inline-assembly records and template scans; the masks of a call's arguments; the instruction set
    with its operand walkers; blocks, terminators and the function record with the queries over it.
  \<^item> \<open>Eval\<close>: \<^verbatim>\<open>vm/eval.rs\<close>.  Host floating-point arithmetic is the parameter \<open>fpu\<close>.
  \<^item> \<open>Magic_Arith\<close>, \<open>Magic\<close>, \<open>Magic_Correct\<close>, \<open>Magic_Signed\<close>: \<^verbatim>\<open>codegen/magic.rs\<close>.  The search for reciprocal
    multipliers and the lowering of a division by a constant over a sink.  The sink trait is the locale \<open>div_sink_laws\<close>;
    a simulation proved in it reduces every lawful sink to the reference sink that evaluates each step at once.
  \<^item> \<open>Divmod_Const\<close>, \<open>Divmod_Sound\<close>: \<^verbatim>\<open>passes/divmod_const.rs\<close>.  The step sink interprets the locale; the
    theorems cover one site and the loop over the sites.
  \<^item> \<open>Value_Range\<close>, \<open>Range_Sound\<close>, \<open>Range_Transfer\<close>: the range domain of \<^verbatim>\<open>passes/value_range.rs\<close> and its soundness
    against the evaluator.
  \<^item> \<open>Softfp\<close>: \<^verbatim>\<open>softfp.rs\<close>, the x87 and binary128 images of a double.
  \<^item> \<open>Fenv\<close>: \<^verbatim>\<open>vm/fenv.rs\<close>, the interpreter's floating-point environment, an integer implementation of IEEE 754 arithmetic
    in four rounding directions with flags.  The host's binary64 arithmetic and libm's square root are the parameter \<open>host_fpu\<close>.
  \<^item> \<open>Fp_Spec\<close>, \<open>Fenv_Bits\<close>, \<open>Fenv_Round\<close>, \<open>Fenv_Sound\<close>, \<open>Fenv_Arith\<close>: rounding specified over the reals, the value of a bit
    pattern, and the correctness of the rounding step and of the integer paths of the operations.
  \<^item> \<open>Two_Sum\<close>, \<open>Fenv_Host\<close>, \<open>Fenv_Soft\<close>, \<open>Fenv_Ops\<close>, \<open>Fenv_Convert\<close>, \<open>Fenv_Flags\<close>: Knuth's two-sum, and the operations over a
    host that rounds correctly to nearest, the locale \<open>ieee_host\<close>; it is interpreted on the environment's own integer paths.
    Conversions, the images of \<^verbatim>\<open>fenv_t\<close> on each target, sticky flags.
  \<^item> \<open>Target_Abi\<close>, \<open>Access_Units\<close>, \<open>Abi_Classify\<close>, \<open>Call_Plan\<close>, \<open>Call_Plan_Sound\<close>: the calling conventions of
    \<^verbatim>\<open>codegen/mod.rs\<close> and \<^verbatim>\<open>codegen/abi_classify.rs\<close>.  The targets with their ABI rows, the aligned accesses of a
    byte transfer, the register classes of an aggregate, and the planner that places the arguments of a call.
  \<^item> \<open>Vm_Memory\<close>, \<open>Vm_Access\<close>, \<open>Vm_Heap\<close>: the memory of \<^verbatim>\<open>vm/ssa.rs\<close>.  Byte and typed access, frames, the bump heap
    with its registry, the allocation functions of the guest.  The locales \<open>byte_store\<close> and \<open>allocator\<close> are the
    interfaces of the bytes and of the heap.
  \<^item> \<open>Intrinsics\<close>: the intrinsic numbers of \<^verbatim>\<open>op.rs\<close> and the packed descriptor of a variadic argument.
  \<^item> \<open>Vm_Exec\<close>, \<open>Vm_Library\<close>, \<open>Vm_Intrinsic\<close>, \<open>Vm_Run\<close>: the execution half of \<^verbatim>\<open>vm/ssa.rs\<close>.  Frames, code
    positions and the effect of each instruction; the C library functions the interpreter supplies; the intrinsics; blocks,
    terminators, calls, and the program boundary (constructors, the entry, \<^verbatim>\<open>exit\<close>, destructors, the argument vector).
  \<^item> \<open>Vm_Wf\<close>, \<open>Vm_Rules\<close>, \<open>Vm_Run_Sound\<close>, \<open>Vm_Program\<close>: well-formed functions, and what holds of every run.  A
    property of runs is a pair of a relation between the machine before and after and a condition on the way of stopping;
    the locales \<open>discipline\<close>, \<open>machine_discipline\<close>, \<open>vm_discipline\<close> and \<open>run_discipline\<close> carry such a pair from the
    memory operations through instructions to calls, and are interpreted twice, for the state of the memory and for the
    absence of panics.
  \<^item> \<open>Vm_Fenv\<close>, \<open>Fp_Properties\<close>: the interpreter over the floating-point environment, with the functions of \<^verbatim>\<open>fenv.h\<close> and the
    rounding functions of \<^verbatim>\<open>math.h\<close> (\<open>fenv_call\<close>); they keep both disciplines.  The properties of the environment.

  \<^bold>\<open>Conventions.\<close>  A 64-bit register is a \<open>64 word\<close>, read signed with \<open>sint\<close>; \<open>usize\<close> and \<open>u32\<close> indices are \<open>nat\<close>, and
  \<open>i128\<close> bounds of a range are \<open>int\<close>.  A \<open>Result\<close> is a sum with the error left; \<open>Panic\<close> is a separate error value, so that the
  absence of panics is provable.  A run of the interpreter stops early with \<open>Stop_Err\<close> (an error the code returns, the exit of the guest included),
  \<open>Stop_Panic\<close>, \<open>Stop_Overflow\<close> (an address past \<^verbatim>\<open>usize\<close>, where a build with overflow checks panics) or \<open>Stop_Fuel\<close>.  Fuel is two
  numbers, the depth of calls and the blocks of one call; a run that does not end with \<open>Stop_Fuel\<close> has the same result with any larger
  amounts, so fuel decides nothing but whether an answer is there.  The one loop without fuel that can grow without bound, the list of steps of the division pass, is
  bounded by thirteen per site, and the theorem about it assumes that the 31-bit step tag can name that many.

  \<^bold>\<open>What the theorems show.\<close>  Division by a constant is exact at both widths, on every range the pass exploits, and through
  the whole loop over a function's sites; ranges contain what the evaluator computes, and widening terminates; the memory
  invariant holds initially and under every operation, blocks never overlap, freed blocks are reported, typed accesses
  round-trip and do not interfere; conversions to the extended formats round-trip; planning a call never panics, gives the stack arguments disjoint
  ranges and no register twice, and caller and callee agree on it; the register parts of an aggregate carry every byte of every
  field; region layout, call-graph closure, operand
  walkers and argument masks meet their specifications.  A well-formed program never makes the interpreter panic, whatever its
  memory holds; every run keeps the memory invariant and returns the stack where it found it; an entry that leaves through
  \<^verbatim>\<open>exit\<close> still runs the destructors; a computed goto reaches the block of its label; the argument vector and the variadic
  descriptors are laid out so that the guest reads back what was staged.  Floating-point instructions deliver the correctly
  rounded result in every direction with exact flags, to nearest also on the path that takes the host's result and finds the
  inexact flag from it; conversions truncate or round as specified; flags are sticky, and saved environments are restored.

  \<^bold>\<open>Not modelled.\<close>  The lexer, preprocessor, parser and IR generation, register allocation, the machine-code emitters, the
  assembler, the linker, the object writers and the command line: each is large, and none is needed by the parts above.  Of the interpreter, the vector instructions,
  inline assembly, formatted output, environment variables and dynamic loading are parameters of the machine (the fields
  of \<open>vm_env\<close>), as are the host's file descriptors and the host's libm.
\<close>

section \<open>Concrete instances for the witnesses\<close>

text \<open>A host arithmetic unit whose floating-point results are all zero, and its conversions.\<close>

definition null_fpu :: fpu where
  "null_fpu = \<lparr>f64_add = (\<lambda>_ _. 0), f64_sub = (\<lambda>_ _. 0), f64_mul = (\<lambda>_ _. 0), f64_div = (\<lambda>_ _. 0),
              f64_as_f32_as_f64 = (\<lambda>_. 0)\<rparr>"

definition null_cast :: fp_cast where
  "null_cast = \<lparr>f32_as_f64 = (\<lambda>_. 0), f64_as_f32 = (\<lambda>_. 0)\<rparr>"

section \<open>Division by a constant\<close>

text \<open>
  C1: for a 32- or 64-bit width and operands that fit it, the instruction sequence
  \<open>lower_divmod\<close> emits computes what the evaluator computes for the division or remainder itself, and
  the lowering declines exactly where the division traps.
\<close>

theorem lower_divmod_correct:
  assumes "w = 32 \<or> w = 64" and "is_divmod_op op" and "fits_width op w n"
    and "op \<in> {BinOp_Div, BinOp_Mod} \<longrightarrow> fits_signed w d"
  shows "value_of (lower_divmod (vm_sink F) op n d w) =
           (case apply_binop F op n (divisor_at op w d) of Inl _ \<Rightarrow> Inl (Err ()) | Inr v \<Rightarrow> Inr v)"
  using assms by (intro lower_divmod_value) blast+

theorem lower_divmod_correct_witness:
  "value_of (lower_divmod (vm_sink null_fpu) BinOp_Div (- 100) 7 64) = Inr (- 14)"
  using lower_divmod_correct [of 64 BinOp_Div "- 100" 7 null_fpu]
  by (simp add: is_divmod_op_def fits_width_def divisor_at_def apply_binop_def eval_int_binop_def
      wrapping_div_def signed_divide_int_def)

text \<open>
  C2: the pass lowers one site, whatever sequence it picks from the range of the dividend:
  over a step list that is in order and a dividend inside its range, the operand it returns denotes the
  site's quotient or remainder, every value handed out earlier keeps its meaning, and it gives up
  only on a zero divisor in register form.
\<close>

theorem lower_site_sound:
  assumes "is_divmod_op (site_op site)" "steps_ok s" "steps_den F env s (site_n site) = Some x"
    "in_range n x" "r_hi n < 2 ^ 127" "run_state (lower site n) s = (r, s')" "steps_cap s'"
  shows "steps_ok s' \<and> extends (steps_den F env) s s' \<and>
    (case r of
       Inr v \<Rightarrow> steps_den F env s' v = trap_free (apply_binop F (site_op site) x (site_d site))
     | Inl (Err _) \<Rightarrow> site_d site = 0 \<and> \<not> imm_form site
     | Inl Panic \<Rightarrow> False)"
  using lower_delivers [OF assms] by (auto simp: delivers_def site_value_def split: sum.splits fault.splits)

text \<open>The concrete site of the witness: \<open>v0 / 8\<close> for a dividend between 0 and 1000.\<close>

definition demo_site :: Site where
  "demo_site = \<lparr>site_block = 0, site_at = 1, site_op = BinOp_Divu, site_n = 0, site_d = 8, imm_form = True\<rparr>"

definition no_steps :: Steps where
  "no_steps = \<lparr>step_insts = [], in_block = (\<lambda>_. None)\<rparr>"

theorem lower_site_sound_witness:
  "case run_state (lower demo_site (rng 0 1000)) no_steps of
     (r, s') \<Rightarrow> r = Inr STEP \<and> steps_den null_fpu (\<lambda>_. Some 100) s' STEP = Some 12"
proof -
  have run: "run_state (lower demo_site (rng 0 1000)) no_steps =
      (Inr STEP, \<lparr>step_insts = [BinopI BinOp_Shru 0 3], in_block = (\<lambda>_. None)(Key_BinopI BinOp_Shru 0 3 \<mapsto> STEP)\<rparr>)"
    (is "_ = (_, ?s')")
  proof -
    have "leading_zeros (1000 :: 128 word) = 118" "pow2_log 8 = Some 3" "drop_bit 10 (8 :: u64) = 0"
      by code_simp+
    then show ?thesis
      by (simp add: lower_def demo_site_def no_steps_def below_divisor_def is_signed_def wants_remainder_def clamp_def
          lower_udivmod_def steps_push_def Let_def)
  qed
  have "steps_cap ?s'" by (simp add: steps_cap_def)
  moreover have "steps_ok no_steps" "steps_den null_fpu (\<lambda>_. Some 100) no_steps (site_n demo_site) = Some 100"
    "is_divmod_op (site_op demo_site)" "in_range (rng 0 1000) 100"
    by (simp_all add: steps_ok_def no_steps_def steps_den_def step_look_def demo_site_def is_divmod_op_def in_range_def)
  ultimately have "steps_den null_fpu (\<lambda>_. Some 100) ?s' STEP = trap_free (apply_binop null_fpu BinOp_Divu 100 8)"
    using lower_site_sound [OF _ _ _ _ _ run, of null_fpu "\<lambda>_. Some 100" 100] by (simp add: demo_site_def)
  then show ?thesis unfolding run by (simp add: trap_free_def apply_binop_def eval_int_binop_def)
qed

text \<open>
  C3: the loop over the sites of a function never panics; each expansion it records
  stands for its site (the result operand denotes the division of the site's dividend, re-extended where
  the division is 32-bit), and every site with a non-zero divisor or an immediate form is expanded.
\<close>

theorem expand_sites_sound:
  assumes "list_all (site_in_range env ranges) ss" and "13 * length ss \<le> 2 ^ 31"
  shows "\<exists>st' exps b'. expand_sites fn ranges ss (no_steps, [], None) = Inr (st', exps, b') \<and>
           (\<forall>e \<in> set exps. \<exists>site \<in> set ss. stands_for F fn env st' e site) \<and>
           (\<forall>site \<in> set ss. site_d site \<noteq> 0 \<or> imm_form site \<longrightarrow> (\<exists>e \<in> set exps. stands_for F fn env st' e site))"
  using expand_sites_spec [of no_steps env ranges ss fn "[]" None F] assms
  by (auto simp: steps_ok_def no_steps_def)

theorem expand_sites_sound_witness:
  "\<exists>fn st' exps b'. expand_sites fn (\<lambda>_. rng 0 1000) [demo_site] (no_steps, [], None) = Inr (st', exps, b') \<and>
     (\<exists>e \<in> set exps. stands_for null_fpu fn (\<lambda>_. Some 100) st' e demo_site)"
proof -
  have h: "list_all (site_in_range (\<lambda>_. Some 100) (\<lambda>_. rng 0 1000)) [demo_site]"
    by (simp add: site_in_range_def demo_site_def is_divmod_op_def in_range_def)
  have "site_d demo_site \<noteq> 0" by (simp add: demo_site_def)
  then show ?thesis using expand_sites_sound [OF h, of fn null_fpu for fn] by fastforce
qed

text \<open>
  C36: for a divisor that is no power of two, at least 3 and below the top bit of the
  width, the search for an unsigned reciprocal succeeds and its multiplier and shift give the exact
  quotient of every numerator of the given bit length, with the extra addend where the multiplier needs one bit
  more than the width.
\<close>

theorem unsigned_reciprocal_exact:
  assumes "3 \<le> unat d" "\<forall>k. unat d \<noteq> 2 ^ k" "unat d < 2 ^ (w - 1)" "unat d < 2 ^ b" "b \<le> w" "w \<le> 64"
  shows "\<exists>mag. magic_unsigned d w b = Some mag \<and> unat (um_m mag) < 2 ^ w \<and> um_shift mag < w \<and>
           (\<forall>n < 2 ^ b. n div unat d =
              (if um_add mag then n * (unat (um_m mag) + 2 ^ w) div 2 ^ (w + um_shift mag + 1)
               else n * unat (um_m mag) div 2 ^ (w + um_shift mag)))"
  using magic_unsigned_exact [of d w b] assms by metis

lemma not_power_of_two_7: "(7 :: nat) \<noteq> 2 ^ k"
proof -
  have "(2 :: nat) ^ 3 \<le> 2 ^ k" if "3 \<le> k" using that by (intro power_increasing) simp_all
  then show ?thesis by (cases "k = 0 \<or> k = 1 \<or> k = 2") fastforce+
qed

theorem unsigned_reciprocal_exact_witness:
  "\<exists>mag. magic_unsigned 7 32 32 = Some mag \<and> um_shift mag < 32"
  using unsigned_reciprocal_exact [of 7 32 32] not_power_of_two_7 by auto

text \<open>
  C37: the signed search succeeds for the same divisors, and its multiplier, shift and the
  carry of the sign give the quotient truncated toward zero of every numerator of the width.
\<close>

theorem signed_reciprocal_exact:
  assumes "3 \<le> unat d" "\<forall>k. unat d \<noteq> 2 ^ k" "unat d < 2 ^ (w - 1)" "w \<le> 64"
  shows "\<exists>mag. magic_signed d w = Some mag \<and> unat (sm_m mag) < 2 ^ w \<and> sm_shift mag < w \<and>
           (\<forall>n. - (2 ^ (w - 1)) \<le> n \<and> n < 2 ^ (w - 1) \<longrightarrow>
              n * uint (sm_m mag) div 2 ^ (w + sm_shift mag) + of_bool (n < 0) = n sdiv uint d)"
  using magic_signed_exact [of d w] assms by metis

theorem signed_reciprocal_exact_witness:
  "\<exists>mag. magic_signed 7 64 = Some mag \<and> sm_shift mag < 64"
  using signed_reciprocal_exact [of 7 64] not_power_of_two_7 by auto

text \<open>
  Whatever the divisor and the range, lowering one site appends at most twelve instructions to the
  step list and changes none of those before.
\<close>

theorem lower_cost:
  "\<exists>js. step_insts (snd (run_state (lower site n) s)) = step_insts s @ js \<and> length js \<le> 12"
  using adds_lower [of site n] by (simp add: adds_def)

section \<open>Value ranges\<close>

text \<open>
  C14: the range the analysis gives a binary operation contains every result the evaluator
  can produce from operands in the operand ranges.
\<close>

theorem range_binop_sound:
  assumes "in_range a x" "in_range b y" "apply_binop F op x y = Inr v"
  shows "in_range (binop op a b) v"
  using assms by (rule binop_sound)

theorem range_binop_sound_witness: "in_range (binop BinOp_Mod (rng (- 20) 20) (rng 3 7)) (- 2)"
proof -
  have "apply_binop null_fpu BinOp_Mod (- 17) 5 = Inr (- 2)"
    by (simp add: apply_binop_def eval_int_binop_def wrapping_rem_def signed_modulo_int_def)
  then show ?thesis by (intro range_binop_sound [of _ "- 17" _ 5]) (simp_all add: in_range_def)
qed

text \<open>
  The same for the immediate form, whose shifts and masks have rules of their own.
\<close>

theorem range_binop_imm_sound:
  assumes "in_range a x" "apply_binop F op x k = Inr v"
  shows "in_range (binop_imm op a k) v"
  using assms by (rule binop_imm_sound)

theorem range_binop_imm_sound_witness: "in_range (binop_imm BinOp_And (rng (- 5) 300) 255) 44"
proof -
  have "apply_binop null_fpu BinOp_And 300 255 = Inr 44" by (simp add: apply_binop_def eval_int_binop_def)
  then show ?thesis by (intro range_binop_imm_sound [of _ 300]) (simp_all add: in_range_def)
qed

text \<open>
  A comparison the analysis decides from two ranges has that outcome for all values in
  them, signed or unsigned.
\<close>

theorem range_decide_sound:
  assumes "decide op a b = Some t" "in_range a x" "in_range b y"
  shows "eval_int_binop op x y = Inr (bool_i64 t)"
proof -
  have "comparison op \<noteq> None" using assms(1) by (auto simp: decide_def split: option.splits)
  then show ?thesis using decide_sound [OF assms] by (simp add: eval_comparison)
qed

theorem range_decide_sound_witness: "eval_int_binop BinOp_Ult 3 9 = Inr (bool_i64 True)"
proof -
  have "decide BinOp_Ult (rng 0 5) (rng 8 9) = Some True" by code_simp
  then show ?thesis by (rule range_decide_sound) (simp_all add: in_range_def)
qed

text \<open>
  The range a branch condition implies for its operand keeps every value that satisfies
  (or, on the other edge, fails) the condition.
\<close>

theorem range_implied_sound:
  assumes "implied op k holds r = Some r'" "in_range k y" "in_range r x"
    and "eval_int_binop op x y = Inr (bool_i64 holds)"
  shows "in_range r' x"
proof -
  have "comparison op \<noteq> None" using assms(1) by (auto simp: implied_def split: option.splits)
  then have "Inr (bool_i64 (cmp_holds op x y)) = (Inr (bool_i64 holds) :: DivByZero fault + i64)"
    using eval_comparison [of op x y] assms(4) by simp
  then have "cmp_holds op x y = holds"
    by (cases "cmp_holds op x y"; cases holds) (simp_all add: bool_i64_def)
  then show ?thesis by (rule implied_sound [OF assms(1-3)])
qed

theorem range_implied_sound_witness: "in_range (rng 0 9) 4"
proof -
  have i: "implied BinOp_Ult (rng 10 10) True UNIVERSE = Some (rng 0 9)" by code_simp
  show ?thesis by (rule range_implied_sound [OF i, of 10]) (simp_all add: in_range_def eval_int_binop_def UNIVERSE_def)
qed

text \<open>
  C38: widening contains the hull of its arguments, and every widening that changes a range
  lowers its rank, so a value is widened only finitely often.
\<close>

theorem range_widen_terminates:
  assumes "contains UNIVERSE (Value_Range.hull a b)"
  shows "contains (widen a b) (Value_Range.hull a b) \<and> (widen a b = a \<or> widen_rank (widen a b) < widen_rank a)"
  using widen_contains widen_rank_decreases [OF assms] by blast

theorem range_widen_terminates_witness:
  "contains (widen (rng 0 5) (rng 3 100)) (Value_Range.hull (rng 0 5) (rng 3 100))"
  using range_widen_terminates [of "rng 0 5" "rng 3 100"] by (simp add: contains_def Value_Range.hull_def UNIVERSE_def)

section \<open>Memory of the interpreter\<close>


definition small_memory :: "unit Memory" where
  "small_memory = memory_new (\<lambda>_. True) (\<lambda>_. ()) [] LinuxX64"


text \<open>
  C24: a load at the kind of a store returns the stored value, truncated and extended for
  a narrow integer, rounded for a single and quieted for an extended format.
\<close>

theorem store_load_round_trip:
  assumes "store_to_memory C mem addr v sk = Inr mem'" "loaded_back C sk lk v = Some w"
  shows "load_from_memory C mem' addr lk = Inr w"
  using assms by (rule store_load)

theorem store_load_round_trip_witness:
  "\<exists>mem'. store_to_memory null_cast small_memory 16 300 StoreKind_I8 = Inr mem' \<and>
     load_from_memory null_cast mem' 16 LoadKind_U8 = Inr 44"
proof -
  have "16 + 1 \<le> length (bytes small_memory)"
    using memory_new_ok(1) [of "[]" "\<lambda>_. True" "\<lambda>_. ()" LinuxX64] memory_new_ok(2) [of "[]" "\<lambda>_. True" "\<lambda>_. ()" LinuxX64]
    by (simp add: small_memory_def mem_ok_defs)
  then obtain mem' where m: "store_to_memory null_cast small_memory 16 300 StoreKind_I8 = Inr mem'"
    using store_ok_iff [of null_cast small_memory 16 300 StoreKind_I8] by auto
  have "loaded_back null_cast StoreKind_I8 LoadKind_U8 300 = Some 44" by (simp add: loaded_back_def)
  then show ?thesis using store_load_round_trip [OF m] m by blast
qed

text \<open>A store changes no load from a window apart from its own.\<close>

theorem store_frame:
  assumes "store_to_memory C mem addr v sk = Inr mem'"
    and "addr + store_width sk \<le> b \<or> b + load_width lk \<le> addr"
  shows "load_from_memory C mem' b lk = load_from_memory C mem b lk"
  using assms by (rule store_load_elsewhere)

theorem store_frame_witness:
  "\<exists>mem'. store_to_memory null_cast small_memory 16 300 StoreKind_I8 = Inr mem' \<and>
     load_from_memory null_cast mem' 17 LoadKind_I64 = load_from_memory null_cast small_memory 17 LoadKind_I64"
proof -
  have "16 + 1 \<le> length (bytes small_memory)"
    using memory_new_ok(1) [of "[]" "\<lambda>_. True" "\<lambda>_. ()" LinuxX64] memory_new_ok(2) [of "[]" "\<lambda>_. True" "\<lambda>_. ()" LinuxX64]
    by (simp add: small_memory_def mem_ok_defs)
  then obtain mem' where m: "store_to_memory null_cast small_memory 16 300 StoreKind_I8 = Inr mem'"
    using store_ok_iff [of null_cast small_memory 16 300 StoreKind_I8] by auto
  then show ?thesis using store_frame [OF m, of 17 LoadKind_I64] by auto
qed

text \<open>
  A typed access fails exactly when it is a vector access or its window runs past the end of the
  memory.
\<close>

theorem access_errors:
  "((\<exists>v. load_from_memory C mem addr lk = Inr v) \<longleftrightarrow>
      lk \<noteq> LoadKind_V128 \<and> addr + load_width lk \<le> length (bytes mem)) \<and>
   ((\<exists>mem'. store_to_memory C mem addr v sk = Inr mem') \<longleftrightarrow>
      sk \<noteq> StoreKind_V128 \<and> addr + store_width sk \<le> length (bytes mem))"
  by (intro conjI load_ok_iff store_ok_iff)

text \<open>
  C9: the blocks a run of allocations returns are pairwise disjoint and lie above everything in use
  when the run began, the stack and the data segment included.
\<close>

theorem blocks_apart:
  assumes "mem_ok mem" "alloc_all (heap_alloc reserve) mem ns = (bs, mem')"
  shows "sorted_wrt (\<lambda>x y. block x \<inter> block y = {}) bs \<and> (\<forall>x \<in> set bs. block x \<inter> {..< heap_top mem} = {})"
  using assms by (rule heap.run_apart)

theorem blocks_apart_witness:
  "case alloc_all (heap_alloc (\<lambda>_. True)) small_memory [1, 2] of
     (bs, _) \<Rightarrow> sorted_wrt (\<lambda>x y. block x \<inter> block y = {}) bs"
proof -
  have "mem_ok small_memory" unfolding small_memory_def by (rule memory_new_ok) simp
  then show ?thesis using blocks_apart [of small_memory "\<lambda>_. True" "[1, 2]"] by (auto split: prod.splits)
qed

text \<open>
  C35: a served request returns the old top of the heap: the block is zeroed, recorded as live, ends
  inside the heap and leaves every byte below unchanged; a request that is not served changes nothing.
\<close>

theorem allocation_fresh:
  assumes "mem_ok mem" "heap_alloc reserve mem n = (base, mem')"
  shows "if base = 0 then mem' = mem
         else base = heap_top mem \<and> base + max n 1 \<le> heap_top mem' \<and>
           allocations mem' = allocations mem @ [\<lparr>al_start = base, al_len = n, freed = False, al_id = next_alloc_id mem\<rparr>] \<and>
           (\<forall>i < heap_top mem. bytes mem' ! i = bytes mem ! i) \<and>
           (\<forall>i. base \<le> i \<and> i < heap_top mem' \<longrightarrow> bytes mem' ! i = 0)"
  using heap_alloc_fresh [OF assms] heap_alloc_failed [OF assms(1)] assms(2) by auto

theorem allocation_fresh_witness:
  "fst (heap_alloc (\<lambda>_. False) small_memory 5000000000) = 0 \<and>
     snd (heap_alloc (\<lambda>_. False) small_memory 5000000000) = small_memory"
proof -
  have "mem_ok small_memory" unfolding small_memory_def by (rule memory_new_ok) simp
  moreover have "fst (heap_alloc (\<lambda>_. False) small_memory 5000000000) = 0"
    by (simp add: heap_alloc_def Let_def next_multiple_of_16_def)
  ultimately show ?thesis
    using allocation_fresh [of small_memory "\<lambda>_. False" 5000000000 0 "snd (heap_alloc (\<lambda>_. False) small_memory 5000000000)"]
    by (metis prod.collapse)
qed

text \<open>C39: a request within the address limit that the host grants is served.\<close>

theorem allocation_served:
  assumes "mem_ok mem" "heap_top mem + next_multiple_of_16 (max n 1) \<le> LIMIT" "\<forall>k. reserve k"
  shows "fst (heap_alloc reserve mem n) = heap_top mem \<and> fst (heap_alloc reserve mem n) \<noteq> 0"
proof -
  have "0 < heap_top mem" using assms(1) by (auto simp: mem_ok_defs)
  then show ?thesis using heap_alloc_served [OF assms(1,2)] assms(3) by simp
qed

theorem allocation_served_witness: "fst (heap_alloc (\<lambda>_. True) small_memory 24) \<noteq> 0"
proof -
  have m: "mem_ok small_memory" unfolding small_memory_def by (rule memory_new_ok) simp
  have "heap_top small_memory = 262320"
    by (simp add: small_memory_def memory_new_def heap_alloc_def Let_def next_multiple_of_16_def record_allocation_def)
  then show ?thesis using allocation_served [OF m, of 24 "\<lambda>_. True"] by (simp add: next_multiple_of_16_def)
qed


definition tracked_memory :: "unit Memory" where
  "tracked_memory = small_memory\<lparr>track_pointers := True\<rparr>"

lemma tracked_memory_facts:
  "mem_ok tracked_memory" "track_pointers tracked_memory" "heap_base tracked_memory = 262144"
  "allocations tracked_memory = [\<lparr>al_start = 262144, al_len = 176, freed = False, al_id = 1\<rparr>]"
proof -
  have "mem_ok small_memory" unfolding small_memory_def by (rule memory_new_ok) simp
  then show "mem_ok tracked_memory" by (simp add: tracked_memory_def mem_ok_defs)
  show "track_pointers tracked_memory" by (simp add: tracked_memory_def)
  show "heap_base tracked_memory = 262144"
    by (simp add: tracked_memory_def small_memory_def memory_new_def heap_alloc_def Let_def next_multiple_of_16_def
        record_allocation_def)
  show "allocations tracked_memory = [\<lparr>al_start = 262144, al_len = 176, freed = False, al_id = 1\<rparr>]"
    by (simp add: tracked_memory_def small_memory_def memory_new_def heap_alloc_def Let_def next_multiple_of_16_def
        record_allocation_def)
qed


text \<open>
  C10: once a block is freed with tracking on, every access inside it is reported as a use
  after free of that allocation.
\<close>

theorem use_after_free_reported:
  assumes "mem_ok mem" "track_pointers mem" "libc_free mem [ptr] = Inr (r, mem')" "ptr \<noteq> 0"
    and "a \<in> set (allocations mem)" "al_start a = unat ptr"
    and "unat ptr \<le> addr" "addr < unat ptr + al_len a" "0 < len"
  shows "check_data_access mem' addr len kind = Inl (UseAfterFree addr (al_id a))"
  using freed_access_reported [OF assms(1,3,4,2,5-9)] .

theorem use_after_free_reported_witness:
  "\<exists>mem'. libc_free tracked_memory [262144] = Inr (0, mem') \<and>
     check_data_access mem' 262150 4 AccessKind_Write = Inl (UseAfterFree 262150 1)"
proof -
  have f: "libc_free tracked_memory [262144] = Inr (0, set_freed tracked_memory 0)"
    using tracked_memory_facts by (simp add: libc_free_def Let_def)
  show ?thesis
    using use_after_free_reported [OF tracked_memory_facts(1,2) f, of "allocations tracked_memory ! 0" 262150 4 AccessKind_Write]
      tracked_memory_facts(4) f by simp
qed

text \<open>
  C33: a \<open>realloc\<close> that succeeds returns a fresh block holding the old bytes up to the lesser size,
  retires the old block and changes no other byte in use; one that fails changes nothing but \<open>errno\<close>.
\<close>

theorem realloc_moves:
  assumes "mem_ok mem" "libc_realloc reserve mem [ptr, sz] = Inr (r, mem')" "ptr \<noteq> 0"
  shows "if r = 0 then mem' = set_enomem mem
         else (\<exists>i < length (allocations mem). al_start (allocations mem ! i) = unat ptr \<and>
           freed (allocations mem' ! i) \<and> unat r = heap_top mem \<and>
           (\<forall>k < min (al_len (allocations mem ! i)) (unat sz). bytes mem' ! (unat r + k) = bytes mem ! (unat ptr + k)) \<and>
           (\<forall>k < heap_top mem. bytes mem' ! k = bytes mem ! k))"
proof (cases "r = 0")
  case True
  then show ?thesis using libc_realloc_fails [OF assms(1)] assms(2) by simp
next
  case False
  obtain i where "i < length (allocations mem)" "al_start (allocations mem ! i) = unat ptr"
    "freed (allocations mem' ! i)" "unat r = heap_top mem" "mem_ok mem'"
    "\<And>k. k < min (al_len (allocations mem ! i)) (unat sz) \<Longrightarrow> bytes mem' ! (unat r + k) = bytes mem ! (unat ptr + k)"
    "\<And>k. k < heap_top mem \<Longrightarrow> bytes mem' ! k = bytes mem ! k"
    using libc_realloc_moves [OF assms False] by blast
  then show ?thesis using False by auto
qed

theorem realloc_moves_witness:
  "\<exists>r mem'. libc_realloc (\<lambda>_. False) tracked_memory [262144, 5000000000] = Inr (r, mem') \<and> r = 0 \<and>
     mem' = set_enomem tracked_memory"
proof -
  have g: "guest_alloc (\<lambda>_. False) tracked_memory (Some 5000000000) = (0, set_enomem tracked_memory)"
    by (simp add: guest_alloc_def heap_alloc_def Let_def next_multiple_of_16_def)
  have run: "libc_realloc (\<lambda>_. False) tracked_memory [262144, 5000000000] = Inr (0, set_enomem tracked_memory)"
    using tracked_memory_facts g by (simp add: libc_realloc_def alloc_size_def Let_def)
  show ?thesis using realloc_moves [OF tracked_memory_facts(1) run] run by simp
qed

text \<open>
  A frame the interpreter pushes is 16-byte aligned, lies between the old top of the stack and the heap,
  starts zeroed and leaves every byte outside it unchanged; a frame that does not fit is refused.
\<close>

theorem frame_isolated:
  assumes "mem_ok mem"
  shows "case alloc_frame mem n of
      Inr (base, mem') \<Rightarrow>
        16 dvd base \<and> stack_top mem \<le> base \<and> stack_top mem' = base + n \<and> base + n \<le> heap_base mem \<and>
        (\<forall>i. base \<le> i \<and> i < base + n \<longrightarrow> bytes mem' ! i = 0) \<and>
        (\<forall>i < length (bytes mem). i < base \<or> base + n \<le> i \<longrightarrow> bytes mem' ! i = bytes mem ! i)
    | Inl e \<Rightarrow> e = StackOverflow n \<and> heap_base mem < (stack_top mem + 15) div 16 * 16 + n"
proof (cases "alloc_frame mem n")
  case (Inl e)
  have "heap_base mem \<le> LIMIT" using assms by (auto simp: mem_ok_defs)
  then show ?thesis using Inl by (auto simp: alloc_frame_def Let_def split: if_splits)
next
  case (Inr p)
  obtain base mem' where p: "p = (base, mem')" by fastforce
  have "heap_base mem' = heap_base mem" using Inr p by (auto simp: alloc_frame_def Let_def split: if_splits)
  then show ?thesis using alloc_frame_spec [OF assms, of n base mem'] Inr p by auto
qed

theorem frame_isolated_witness: "\<exists>base mem'. alloc_frame small_memory 40 = Inr (base, mem') \<and> 16 dvd base"
proof -
  have m: "mem_ok small_memory" unfolding small_memory_def by (rule memory_new_ok) simp
  have s: "stack_top small_memory = 0" "heap_base small_memory = 262144"
    by (simp_all add: small_memory_def memory_new_def heap_alloc_def Let_def next_multiple_of_16_def record_allocation_def)
  have "\<exists>p. alloc_frame small_memory 40 = Inr p" using s by (simp add: alloc_frame_def Let_def)
  then show ?thesis using frame_isolated [OF m, of 40] by auto
qed

section \<open>Extended floating-point formats\<close>

text \<open>
  C22: widening a double to the x87 format and narrowing it again gives the double back; a
  signalling NaN comes back quiet.
\<close>

theorem f80_narrow_after_widen: "(case f64_to_f80 b of (mant, se) \<Rightarrow> f80_to_f64 mant se) = quieted b"
  by (rule f80_round_trip)

text \<open>C23: the same for the binary128 format.\<close>

theorem f128_narrow_after_widen: "(case f64_to_f128 b of (l, h) \<Rightarrow> f128_to_f64 l h) = quieted b"
  by (rule f128_round_trip)

section \<open>The IR\<close>

text \<open>
  C21: the worklist returns exactly the entry points of the functions from which a call path
  leads to inline assembly that names the stack pointer.
\<close>

theorem sp_asm_reachers_closure:
  "sp_asm_reachers fs = {ent_pc (fs ! v) |v. v < length fs \<and> reaches_sp_asm fs v}"
  by (rule sp_asm_reachers_reach)





text \<open>
  An inline-assembly argument that only a static operand names is not an operand to the reading
  walker, yet the rewriting one renumbers it.
\<close>

theorem operand_walkers_differ:
  "\<exists>inst f. for_each_operand inst = [] \<and> for_each_operand_mut f inst \<noteq> inst"
proof -
  define o1 where "o1 = \<lparr>constraint = AsmConstraint_Reg, is_output = False, is_rw = False, op_width = 8, op_seg = AsmSeg_None,
      static_arg = True, op_value = False, volatile_object = False, early_clobber = False, fp_limit = 0\<rparr>"
  define a where "a = \<lparr>template = [], operands = [o1], clobber_regs = 0, clobber_fp_regs = 0, clobber_memory = False,
      volatile_asm = True\<rparr>"
  have "for_each_operand (InlineAsm a [7]) = []" "for_each_operand_mut Suc (InlineAsm a [7]) \<noteq> InlineAsm a [7]"
    by (simp_all add: a_def o1_def)
  then show ?thesis by blast
qed

text \<open>
  A width recorded for an argument position is read back at that position, positions past the mask are
  dropped, and no other position changes.
\<close>

theorem arg_widths_lookup:
  assumes "b \<in> {1, 2, 4, 8}"
  shows "aw_bytes (aw_set a i b) j = (if i = j \<and> i < 64 then b else aw_bytes a j)"
  using assms by (rule aw_bytes_set)

theorem arg_widths_lookup_witness: "aw_bytes (aw_set 0 5 2) 5 = 2"
  using arg_widths_lookup [of 2 0 5 5] by simp

text \<open>
  The mask of floating-point arguments implements a set of positions: insertion, translation and
  cardinality.
\<close>

theorem fp_mask_refines_set:
  "{i. fm_has (fm_set m k) i} = insert k {i. fm_has m i} \<and>
   {i. fm_has (fm_shifted m k) i} = (\<lambda>i. i + k) ` {i. fm_has m i} \<and>
   fm_count m = card {i. fm_has m i}"
proof (intro conjI)
  show "{i. fm_has (fm_set m k) i} = insert k {i. fm_has m i}" by (auto simp: fm_has_set)
  show "{i. fm_has (fm_shifted m k) i} = (\<lambda>i. i + k) ` {i. fm_has m i}"
    by (auto simp: fm_has_shifted image_iff intro!: exI [of _ "_ - k"])
  show "fm_count m = card {i. fm_has m i}" by (rule fm_count_card)
qed

section \<open>Calling conventions\<close>

text \<open>
  A structure of an integer, a float and a double, as the front end describes it.
\<close>

definition mixed_struct :: AggDesc where
  "mixed_struct = \<lparr>agg_size = 16, agg_align = 8, member_align = 8,
     agg_fields = [\<lparr>ff_offset = 0, ff_size = 4, ff_kind = ScalarKind_Int, ff_align = 4, single_fp_vector = False\<rparr>,
                   \<lparr>ff_offset = 4, ff_size = 4, ff_kind = ScalarKind_F32, ff_align = 4, single_fp_vector = False\<rparr>,
                   \<lparr>ff_offset = 8, ff_size = 8, ff_kind = ScalarKind_F64, ff_align = 8, single_fp_vector = False\<rparr>],
     homogeneous = None, agg_vector = False\<rparr>"

lemma mixed_struct_wf: "agg_wf mixed_struct \<and> (is_narrow_vector mixed_struct \<longrightarrow> agg_size mixed_struct \<le> 4)"
  by (simp add: mixed_struct_def agg_wf_def is_narrow_vector_def)

lemma map_option_twice: "map_option (map_option f) x = Some (Some y) \<Longrightarrow> \<exists>z. x = Some (Some z) \<and> f z = y"
  by (cases x) auto

lemma mixed_struct_eightbytes: "sysv_eightbytes 16 (agg_fields mixed_struct) = [EB_Integer, EB_Sse]"
  by (simp add: mixed_struct_def sysv_eightbytes_def merge_field_def overlaps_def field_class_def eb_merge_def enumerate_eq_zip)

lemma mixed_struct_class:
  "classify_aggregate mixed_struct (target_abi LinuxX64) False = Some (AggClass_Regs [RegClass_Integer, RegClass_Sse])"
  using mixed_struct_eightbytes
  by (simp add: mixed_struct_def classify_aggregate_def base_abi_def classify_sysv_def stray_x87_two pop_noclass_def)

definition arg_aggs :: "AggDesc option list \<Rightarrow> Abi \<Rightarrow> ArgAgg option list" where
  "arg_aggs descs abi = map (\<lambda>d. Option.bind d (\<lambda>desc. arg_agg_new desc abi)) descs"

lemma arg_aggs_ok:
  assumes "\<forall>desc. Some desc \<in> set descs \<longrightarrow> agg_wf desc \<and> (is_narrow_vector desc \<longrightarrow> agg_size desc \<le> 4)"
  shows "aggs_ok (arg_aggs descs abi)"
proof -
  have "agg_ok agg" if "Some desc \<in> set descs" "arg_agg_new desc abi = Some agg" for desc agg
    using assms that by (intro arg_agg_new_ok [OF _ _ that(2)]) simp_all
  then show ?thesis by (auto simp: aggs_ok_def arg_aggs_def bind_eq_Some_conv eq_commute [of "Some _" "Option.bind _ _"])
qed



text \<open>
  C12: a plan gives no integer and no floating-point argument register to two arguments, uses only the
  argument registers of the convention, and leaves the first one free when it carries a hidden result pointer, except under the
  convention that places by position.
\<close>

theorem call_plan_registers:
  assumes "plan_call_args_aggs n fixed fpm (abi_for t cc) aggs via widths = Some plan"
  shows "distinct (int_regs plan) \<and> set (int_regs plan) \<subseteq> set (int_arg_regs (abi_for t cc)) \<and>
    distinct (concat (map placement_fp_regs (placements plan))) \<and>
    (\<forall>r \<in> set (concat (map placement_fp_regs (placements plan))). r < 8) \<and>
    (via \<and> \<not> position_indexed_args (abi_for t cc) \<longrightarrow> hd (int_arg_regs (abi_for t cc)) \<notin> set (int_regs plan))"
proof -
  let ?abi = "abi_for t cc"
  have wf: "abi_wf ?abi" unfolding abi_for_def by (rule abi_wf_target)
  obtain ks where ks: "int_regs plan = map ((!) (int_arg_regs ?abi)) ks" "distinct ks"
      "\<forall>k \<in> set ks. (if via \<and> \<not> position_indexed_args ?abi then 1 else 0) \<le> k \<and> k < int_max ?abi"
    and fp: "distinct (concat (map placement_fp_regs (placements plan)))"
      "\<forall>r \<in> set (concat (map placement_fp_regs (placements plan))). r < 8"
    by (rule plan_regs [OF wf assms])
  have dist: "distinct (int_arg_regs ?abi)" "int_arg_regs ?abi \<noteq> []" using wf by (simp_all add: abi_wf_def)
  have "hd (int_arg_regs ?abi) \<notin> set (int_regs plan)" if "via \<and> \<not> position_indexed_args ?abi"
  proof
    assume "hd (int_arg_regs ?abi) \<in> set (int_regs plan)"
    then obtain k where "k \<in> set ks" "int_arg_regs ?abi ! 0 = int_arg_regs ?abi ! k"
      using ks(1) dist(2) by (auto simp: hd_conv_nth)
    then show False using ks(3) that dist by (fastforce simp: nth_eq_iff_index_eq)
  qed
  moreover have "distinct (int_regs plan)"
    using ks dist(1) by (simp add: distinct_map inj_on_def nth_eq_iff_index_eq)
  ultimately show ?thesis using ks fp by auto
qed

theorem call_plan_registers_witness:
  "\<exists>plan. plan_call_args_aggs 3 3 [2] (abi_for LinuxX64 CallConv_Target)
      (arg_aggs [None, None, Some mixed_struct] (abi_for LinuxX64 CallConv_Target)) True 0 = Some plan \<and>
    distinct (int_regs plan) \<and> set (int_regs plan) \<subseteq> {7, 6, 2, 1, 8, 9} \<and> 7 \<notin> set (int_regs plan)"
proof -
  have "\<forall>desc. Some desc \<in> set [None, None, Some mixed_struct] \<longrightarrow> agg_wf desc \<and> (is_narrow_vector desc \<longrightarrow> agg_size desc \<le> 4)"
    using mixed_struct_wf by simp
  then obtain plan where plan: "plan_call_args_aggs 3 3 [2] (abi_for LinuxX64 CallConv_Target)
      (arg_aggs [None, None, Some mixed_struct] (abi_for LinuxX64 CallConv_Target)) True 0 = Some plan"
    using plan_total [OF arg_aggs_ok] by blast
  then show ?thesis using call_plan_registers [OF plan] by (simp add: abi_for_def base_abi_def)
qed



text \<open>
  Under the Microsoft x64 convention the call that copies its floating-point arguments into the
  integer registers of their positions still gives each integer register one value.
\<close>

theorem mirrored_call_registers:
  assumes "plan_mirrored_call n fpm (target_abi WindowsX64) aggs = Some plan"
  shows "distinct (int_regs plan)"
  by (rule mirrored_regs [OF abi_wf_target _ assms]) (simp add: base_abi_def)

theorem mirrored_call_registers_witness:
  "\<exists>plan. plan_mirrored_call 3 [5] (target_abi WindowsX64) [] = Some plan \<and>
     fp_mirrors plan = [(0, 1), (2, 8)] \<and> distinct (int_regs plan)"
proof -
  have "map_option fp_mirrors (plan_mirrored_call 3 [5] (target_abi WindowsX64) []) = Some [(0, 1), (2, 8)]" by code_simp
  then obtain plan where plan: "plan_mirrored_call 3 [5] (target_abi WindowsX64) [] = Some plan"
    "fp_mirrors plan = [(0, 1), (2, 8)]" by auto
  then show ?thesis using mirrored_call_registers [OF plan(1)] by blast
qed

text \<open>
  Reserving the first integer register for a hidden result pointer has no effect under the
  convention that places by position: the first argument still takes it.
\<close>

theorem hidden_pointer_positional:
  "\<exists>plan. plan_call_args_aggs 1 1 [] (target_abi WindowsX64) [] True 0 = Some plan \<and>
     placements plan = [AP_IntReg (hd (int_arg_regs (target_abi WindowsX64)))]"
  by (simp add: plan_call_args_aggs_def base_abi_def plan_arg_def agg_at_def plan_scalar_def fm_has_def plan_start_def)

text \<open>
  C30: splitting an aggregate into the registers that carry it never panics; the parts are non-empty, in
  order, apart and inside the aggregate, and every byte of every field travels in one of them.
\<close>

theorem register_parts_carry:
  assumes "agg_wf desc"
  shows "\<exists>parts. register_parts desc abi is_return = Some parts \<and>
    (case parts of
       None \<Rightarrow> True
     | Some ps \<Rightarrow>
         parts_between 0 (map (\<lambda>p. (rp_offset p, rp_width p)) ps) (agg_size desc) \<and>
         (\<forall>p \<in> set ps. 0 < rp_width p) \<and>
         (\<forall>f \<in> set (agg_fields desc). \<forall>b. ff_offset f \<le> b \<and> b < ff_offset f + ff_size f \<longrightarrow>
            carries (map (\<lambda>p. (rp_offset p, rp_width p)) ps) b))"
proof -
  obtain parts where parts: "register_parts desc abi is_return = Some parts"
    using register_parts_total by blast
  show ?thesis
  proof (cases parts)
    case (Some ps)
    then show ?thesis using parts register_parts_spec [OF assms, of abi is_return ps] by auto
  qed (use parts in simp)
qed

theorem register_parts_carry_witness:
  "\<exists>ps. register_parts mixed_struct (target_abi LinuxX64) False = Some (Some ps) \<and>
     map (\<lambda>p. (rp_class p, rp_offset p, rp_width p)) ps = [(RegClass_Integer, 0, 8), (RegClass_Sse, 8, 8)] \<and>
     carries (map (\<lambda>p. (rp_offset p, rp_width p)) ps) 9"
proof -
  have wf: "agg_wf mixed_struct" using mixed_struct_wf by blast
  have "map_option (map_option (map (\<lambda>p. (rp_class p, rp_offset p, rp_width p))))
      (register_parts mixed_struct (target_abi LinuxX64) False) =
    Some (Some [(RegClass_Integer, 0, 8), (RegClass_Sse, 8, 8)])"
    unfolding register_parts_def mixed_struct_class
    by (simp add: part_layout_def mixed_struct_def register_slots_def make_part_def)
  from map_option_twice [OF this] obtain ps where ps: "register_parts mixed_struct (target_abi LinuxX64) False = Some (Some ps)"
    "map (\<lambda>p. (rp_class p, rp_offset p, rp_width p)) ps = [(RegClass_Integer, 0, 8), (RegClass_Sse, 8, 8)]"
    by (elim exE conjE)
  have cov: "\<forall>f \<in> set (agg_fields mixed_struct). \<forall>b. ff_offset f \<le> b \<and> b < ff_offset f + ff_size f \<longrightarrow>
      carries (map (\<lambda>p. (rp_offset p, rp_width p)) ps) b"
    using register_parts_carry [OF wf, of "target_abi LinuxX64" False] by (simp add: ps(1) del: target_abi.simps)
  have "agg_fields mixed_struct ! 2 \<in> set (agg_fields mixed_struct)"
    "ff_offset (agg_fields mixed_struct ! 2) = 8" "ff_size (agg_fields mixed_struct ! 2) = 8"
    by (simp_all add: mixed_struct_def)
  then have "carries (map (\<lambda>p. (rp_offset p, rp_width p)) ps) 9" using bspec [OF cov] by fastforce
  then show ?thesis using ps by (intro exI conjI)
qed

text \<open>
  C31: the accesses a transfer of \<open>width\<close> bytes at offset \<open>off\<close> is split into tile it exactly, each a power
  of two wide; under strict alignment each is naturally aligned at every address storage of the given alignment can have.
\<close>

theorem access_pieces_tile:
  assumes "unat off + unat width < 2 ^ 32"
  shows "tiles (unat off) (access_pieces off width a strict) (unat off + unat width) \<and>
    (\<forall>p \<in> set (access_pieces off width a strict). natural_piece a strict p)"
proof -
  have "unat (off + width) = unat off + unat width" using assms by (simp add: unat_word_ariths)
  then show ?thesis
    using pieces_from_spec [of off "off + width" a strict] by (simp add: access_pieces_def word_le_nat_alt)
qed

theorem access_pieces_tile_witness:
  "tiles 4 (access_pieces 4 12 8 True) 16 \<and> list_all (natural_piece 8 True) (access_pieces 4 12 8 True)"
  using access_pieces_tile [of 4 12 8 True] by (simp add: list_all_iff)

section \<open>Alignment of the heap\<close>

text \<open>
  The blocks of the heap keep their distance from its base a multiple of 16, but the base itself
  follows the data segment: with a data segment of one byte the first block of a fresh memory is not 16-byte aligned.
\<close>

theorem malloc_alignment_relative:
  "heap_top (memory_new (\<lambda>_. True) (\<lambda>_. ()) [0 :: u8] LinuxX64) mod 16 = 1 \<and>
   fst (heap_alloc (\<lambda>_. True) (memory_new (\<lambda>_. True) (\<lambda>_. ()) [0 :: u8] LinuxX64) 8) mod 16 = 1"
proof -
  have t: "heap_top (memory_new (\<lambda>_. True) (\<lambda>_. ()) [0 :: u8] LinuxX64) = 262321"
    by (simp add: memory_new_def heap_alloc_def Let_def next_multiple_of_16_def record_allocation_def)
  have "mem_ok (memory_new (\<lambda>_. True) (\<lambda>_. ()) [0 :: u8] LinuxX64)" by (rule memory_new_ok) simp
  then have "fst (heap_alloc (\<lambda>_. True) (memory_new (\<lambda>_. True) (\<lambda>_. ()) [0 :: u8] LinuxX64) 8) = 262321"
    using heap_alloc_served [of "memory_new (\<lambda>_. True) (\<lambda>_. ()) [0 :: u8] LinuxX64" 8 "\<lambda>_. True"] t by (simp add: next_multiple_of_16_def)
  then show ?thesis using t by simp
qed

section \<open>Running programs\<close>

text \<open>A function with the given code and nothing else, and a program whose entry returns 7.\<close>

definition plain_function :: "nat \<Rightarrow> Inst list \<Rightarrow> Block list \<Rightarrow> FunctionSsa" where
  "plain_function pc is bs =
     \<lparr>fn_name = ''f'', ent_pc = pc, end_pc = pc, locals = 0, n_params = 0, is_variadic = False, is_inline = False,
      is_always_inline = False, is_noinline = False, is_naked = False, is_noreturn = False, conv = CallConv_Target,
      general_regs_only = False, tls_dynamic = False, is_weak = False, is_internal = False, fn_section = None,
      patchable_entry = None, no_instrument = False, no_stack_protector = False, const_params = 0, insts = is,
      inst_src = [], blocks = bs, extern_call_refs = [], extern_imm_code_refs = [], extern_imm_data_refs = [],
      extern_tls_refs = [], f32_values = [], cmp32 = [], div32 = [], low_word_tests = [], param_fp_mask = [],
      param_widths = 0, agg_descs = [], param_aggs = [], param_local_slots = [], ret_agg = None, ret_is_fp = False,
      ret_type_tag = None, indirect_result_slot = 0, computed_goto_targets = [], label_data_relocs = [],
      jump_tables = [], synthetic_base = 0, multi_cell_slots = [], array_slots = [], over_aligned = [],
      frame_align = 0, realign_region_bytes = 0, has_returns_twice_call = False, did_unroll = False,
      ssp = \<lparr>char_array_bytes = 0, has_array = False, addr_taken = False, dynamic_alloca = False\<rparr>,
      did_inline = False, seh_scopes = [], block_seh = [], funclet_slots = []\<rparr>"

definition seven :: FunctionSsa where
  "seven = plain_function 0 [Imm 7] [\<lparr>start_pc = 0, inst_range = (0, 1), terminator = T_Return 0, exit_acc = 0\<rparr>]"

definition tiny_memory :: "unit Memory" where
  "tiny_memory =
     \<lparr>bytes = replicate 240 0, data_end = 0, stack_top = 0, heap_base = 64, heap_top = 240, stack_base = 0,
      allocations = [], next_alloc_id = 1, track_pointers = False, stdio = 64, target = LinuxX64, fp = ()\<rparr>"



















text \<open>
  C27: a computed goto enters exactly the label whose address its operand holds, if the function takes
  that label's address; a position inside a block, in another function or of an unlabelled block is an error.
\<close>

theorem goto_reaches_label:
  assumes "v < length (regs s)" "regs s ! v = code_position idx b off"
    and "idx < CODE_POSITION_FIELD" "b < CODE_POSITION_FIELD" "off < CODE_POSITION_FIELD" "fr_func_idx fr < CODE_POSITION_FIELD"
  shows "run_terminator fr (T_GotoIndirect v) s =
    (if idx = fr_func_idx fr \<and> off = 0 \<and> b \<in> set (computed_goto_targets (fr_func fr)) then (Inr (Enter b), s)
     else (Inl (Stop_Err (VE_Goto (code_position idx b off))), s))"
proof -
  have "label_block (fr_func fr) (fr_func_idx fr) (code_position idx b off) =
      (if idx = fr_func_idx fr \<and> off = 0 \<and> b \<in> set (computed_goto_targets (fr_func fr)) then Some b else None)"
    by (rule label_block_exact) (use assms(3-6) in simp_all)
  then show ?thesis using assms(1,2) by (simp add: get_reg_def index_of_def andThen_def ret_def stop_with_def)
qed

theorem goto_reaches_label_witness:
  "run_terminator
     \<lparr>fr_func = seven\<lparr>computed_goto_targets := [1]\<rparr>, fr_stack_base = 0, fr_record = 0, fr_func_idx = 0, frame_bytes = 0,
      fr_locals = 0, realign_base = 0, block_idx = 0\<rparr> (T_GotoIndirect 0)
     \<lparr>vm_mem = tiny_memory, vm_host = (), regs = [code_position 0 1 0]\<rparr> =
   (Inr (Enter 1), \<lparr>vm_mem = tiny_memory, vm_host = (), regs = [code_position 0 1 0]\<rparr>)"
  by (subst goto_reaches_label [of 0 _ 0 1 0]) simp_all

text \<open>
  C28: the argument vector is laid out behind the program's data, which keeps its bytes: \<open>argc\<close> pointers and a
  null, each pointer at a copy of its argument followed by a zero byte.
\<close>

theorem argv_staged:
  assumes "args \<noteq> []" "stage_argv data args = (out, argc, av)" "length out < 2 ^ 63"
  shows "argc = of_nat (length args) \<and> take (length data) out = data \<and> length data \<le> unat av \<and>
    take 8 (drop (unat av + 8 * length args) out) = replicate 8 0 \<and>
    (\<forall>i < length args. \<exists>p. take 8 (drop (unat av + 8 * i) out) = to_le_bytes 8 (of_nat p :: i64) \<and> p < 2 ^ 63 \<and>
      take (length (args ! i) + 1) (drop p out) = args ! i @ [0])"
  using stage_argv_spec [OF assms] by (auto split: if_splits)

theorem argv_staged_witness:
  "\<exists>out av. stage_argv [1, 2] [[65], []] = (out, 2, av) \<and> take 2 out = [1, 2] \<and>
     (\<exists>p. take 2 (drop p out) = [65, 0])"
proof -
  obtain out argc av where r: "stage_argv [1, 2] [[65], []] = (out, argc, av)" by (metis prod_cases3)
  then have "length out < 2 ^ 63" using stage_argv_length [of "[[65], []]" "[1, 2]"] by simp
  note a = argv_staged [OF _ r this, simplified]
  have "argc = 2" "take 2 out = [1, 2]" using a by (simp_all add: numeral_2_eq_2)
  moreover have "\<exists>p. take 2 (drop p out) = [65, 0]"
    using a [THEN conjunct2, THEN conjunct2, THEN conjunct2, THEN conjunct2, THEN spec, of 0]
    by (auto simp: numeral_2_eq_2)
  ultimately show ?thesis using r by blast
qed

text \<open>
  C29: a variadic argument's descriptor survives packing when its size is below 64 KiB, its alignment is 8
  or 16 and it has at most seven elements; and unpacking then packing any word keeps its low 33 bits.
\<close>

theorem va_desc_round_trip:
  "(va_desc_fits d \<longrightarrow> va_unpack (va_pack d) = d) \<and> va_pack (va_unpack w) = take_bit 33 w"
  using unpack_pack pack_unpack by blast

theorem va_desc_round_trip_witness:
  "va_unpack (va_pack \<lparr>vd_size = 24, vd_kind = 5, vd_align = 16, by_ref = False, elements = 3, eightbytes = 9\<rparr>) =
     \<lparr>vd_size = 24, vd_kind = 5, vd_align = 16, by_ref = False, elements = 3, eightbytes = 9\<rparr>"
  using va_desc_round_trip [of "\<lparr>vd_size = 24, vd_kind = 5, vd_align = 16, by_ref = False, elements = 3, eightbytes = 9\<rparr>" 0]
  by (simp add: va_desc_fits_def)

end
